(* ===== verification/Prelude.thy ===== *)
theory Prelude
  imports Main "HOL-Library.Word" "HOL-Library.Multiset"
begin

text \<open>
  The vocabulary the component theories share: the machine integers of the Rust sources as
  words, the \<open>Result\<close> plumbing of the \<open>?\<close> operator, little-endian byte encodings
  (\<open>to_le_bytes\<close>, \<open>from_le_bytes\<close>), decimal formatting and parsing of integers
  (\<open>format!("{n}")\<close>, \<open>str::parse\<close>), and the generic lemmas on lists and words that
  the component proofs apply.

  Conventions. A Rust \<open>String\<close> is a \<open>string\<close>, the list of its UTF-8 bytes. A
  \<open>Vec\<close> or slice is a list and its length a \<open>nat\<close>. \<open>f64\<close> is the 64-bit
  pattern of an IEEE-754 double; operations on it are parameters of the definitions that use
  them. \<open>i64\<close> and \<open>i32\<close> are \<open>int\<close> with the range and the wrap-around written
  out where the code depends on them. Arithmetic on \<open>u64\<close> words wraps, as the release
  profile of the workspace does.
\<close>

section \<open>Types\<close>

type_synonym u8 = "8 word"
type_synonym u32 = "32 word"
type_synonym u64 = "64 word"
type_synonym i64 = int
type_synonym i32 = int
type_synonym f64 = "64 word"
type_synonym bytes = "u8 list"

named_theorems result_simps \<open>equations for results, the ? operator and error branches\<close>
named_theorems bytes_simps \<open>lengths and round trips of byte encodings\<close>

section \<open>Floating point\<close>

text \<open>
  The operations on \<open>f64\<close> the sources use. Definitions that compute with floating-point
  numbers take such a record as an argument; what a theorem needs of it is a hypothesis.
\<close>

record fp_ops =
  fp_of_u64 :: "u64 \<Rightarrow> f64"
  fp_of_i64 :: "i64 \<Rightarrow> f64"
  fp_lit :: "string \<Rightarrow> f64"
  fp_neg :: "f64 \<Rightarrow> f64"
  fp_add :: "f64 \<Rightarrow> f64 \<Rightarrow> f64"
  fp_sub :: "f64 \<Rightarrow> f64 \<Rightarrow> f64"
  fp_mul :: "f64 \<Rightarrow> f64 \<Rightarrow> f64"
  fp_div :: "f64 \<Rightarrow> f64 \<Rightarrow> f64"
  fp_lt :: "f64 \<Rightarrow> f64 \<Rightarrow> bool"
  fp_le :: "f64 \<Rightarrow> f64 \<Rightarrow> bool"
  fp_ln :: "f64 \<Rightarrow> f64"
  fp_powi :: "f64 \<Rightarrow> i32 \<Rightarrow> f64"
  fp_ceil :: "f64 \<Rightarrow> f64"
  fp_round :: "f64 \<Rightarrow> f64"
  fp_to_u64 :: "f64 \<Rightarrow> u64"
  fp_to_u32 :: "f64 \<Rightarrow> u32"
  fp_infinity :: f64
  fp_neg_infinity :: f64

text \<open>An instance for sample evaluations.\<close>

definition sample_fp :: fp_ops where
  "sample_fp = \<lparr>fp_of_u64 = (\<lambda>_. 0), fp_of_i64 = (\<lambda>_. 0), fp_lit = (\<lambda>_. 0), fp_neg = (\<lambda>_. 0),
     fp_add = (\<lambda>_ _. 0), fp_sub = (\<lambda>_ _. 0), fp_mul = (\<lambda>_ _. 0), fp_div = (\<lambda>_ _. 0),
     fp_lt = (\<lambda>_ _. False), fp_le = (\<lambda>_ _. True), fp_ln = (\<lambda>_. 0), fp_powi = (\<lambda>_ _. 0),
     fp_ceil = (\<lambda>_. 0), fp_round = (\<lambda>_. 0), fp_to_u64 = (\<lambda>_. 0), fp_to_u32 = (\<lambda>_. 0),
     fp_infinity = 0, fp_neg_infinity = 0\<rparr>"

section \<open>Results\<close>

definition and_then :: "'e + 'a \<Rightarrow> ('a \<Rightarrow> 'e + 'b) \<Rightarrow> 'e + 'b" where
  "and_then r f = (case r of Inl e \<Rightarrow> Inl e | Inr a \<Rightarrow> f a)"

definition map_err :: "('e \<Rightarrow> 'f) \<Rightarrow> 'e + 'a \<Rightarrow> 'f + 'a" where
  "map_err g r = (case r of Inl e \<Rightarrow> Inl (g e) | Inr a \<Rightarrow> Inr a)"

definition ok_or :: "'e \<Rightarrow> 'a option \<Rightarrow> 'e + 'a" where
  "ok_or e x = (case x of None \<Rightarrow> Inl e | Some a \<Rightarrow> Inr a)"

fun collect_r :: "('a \<Rightarrow> 'e + 'b) \<Rightarrow> 'a list \<Rightarrow> 'e + 'b list" where
  "collect_r f [] = Inr []"
| "collect_r f (x # xs) = and_then (f x) (\<lambda>y. and_then (collect_r f xs) (\<lambda>ys. Inr (y # ys)))"

lemma and_then_simps [simp, result_simps]:
  "and_then (Inl e) f = Inl e" "and_then (Inr a) f = f a"
  by (simp_all add: and_then_def)

lemma and_then_Inr_iff [result_simps]:
  "and_then r f = Inr b \<longleftrightarrow> (\<exists>a. r = Inr a \<and> f a = Inr b)"
  by (auto simp: and_then_def split: sum.splits)

lemma and_then_Inl_iff:
  "and_then r f = Inl e \<longleftrightarrow> r = Inl e \<or> (\<exists>a. r = Inr a \<and> f a = Inl e)"
  by (auto simp: and_then_def split: sum.splits)

lemma map_err_simps [simp, result_simps]:
  "map_err g (Inl e) = Inl (g e)" "map_err g (Inr a) = Inr a"
  by (simp_all add: map_err_def)

lemma map_err_Inr_iff [result_simps]: "map_err g r = Inr a \<longleftrightarrow> r = Inr a"
  by (auto simp: map_err_def split: sum.splits)

lemma ok_or_simps [simp, result_simps]:
  "ok_or e None = Inl e" "ok_or e (Some a) = Inr a"
  by (simp_all add: ok_or_def)

lemma ok_or_Inr_iff [result_simps]: "ok_or e x = Inr a \<longleftrightarrow> x = Some a"
  by (auto simp: ok_or_def split: option.splits)

lemma collect_r_Inr_length: "collect_r f xs = Inr ys \<Longrightarrow> length ys = length xs"
  by (induction xs arbitrary: ys) (auto simp: result_simps)

lemma collect_r_Inr_iff:
  "collect_r f xs = Inr ys \<longleftrightarrow> list_all2 (\<lambda>x y. f x = Inr y) xs ys"
  by (induction xs arbitrary: ys) (auto simp: result_simps list_all2_Cons1)

section \<open>Little-endian byte strings\<close>

fun le_bytes :: "nat \<Rightarrow> nat \<Rightarrow> bytes" where
  "le_bytes 0 n = []"
| "le_bytes (Suc k) n = word_of_nat (n mod 256) # le_bytes k (n div 256)"

fun of_le_bytes :: "bytes \<Rightarrow> nat" where
  "of_le_bytes [] = 0"
| "of_le_bytes (b # bs) = unat b + 256 * of_le_bytes bs"

definition u32_to_le_bytes :: "u32 \<Rightarrow> bytes" where
  "u32_to_le_bytes w = le_bytes 4 (unat w)"

definition u64_to_le_bytes :: "u64 \<Rightarrow> bytes" where
  "u64_to_le_bytes w = le_bytes 8 (unat w)"

definition u32_from_le_bytes :: "bytes \<Rightarrow> u32" where
  "u32_from_le_bytes bs = word_of_nat (of_le_bytes bs)"

definition u64_from_le_bytes :: "bytes \<Rightarrow> u64" where
  "u64_from_le_bytes bs = word_of_nat (of_le_bytes bs)"

lemma length_le_bytes [simp, bytes_simps]: "length (le_bytes k n) = k"
  by (induction k arbitrary: n) auto

lemma of_le_bytes_le_bytes: "of_le_bytes (le_bytes k n) = n mod 256 ^ k"
proof (induction k arbitrary: n)
  case 0
  then show ?case by simp
next
  case (Suc k)
  have "unat (word_of_nat (n mod 256) :: u8) = n mod 256"
    by (simp add: unat_of_nat)
  then show ?case
    using Suc by (simp add: mod_mult2_eq)
qed

lemma of_le_bytes_bound: "of_le_bytes bs < 256 ^ length bs"
proof (induction bs)
  case (Cons b bs)
  have "unat b < 256" using unsigned_less [of b] by simp
  with Cons have "unat b + 256 * of_le_bytes bs < 256 + 256 * (256 ^ length bs - 1)"
    by (auto intro!: add_less_le_mono mult_le_mono2)
  also have "\<dots> = 256 ^ length (b # bs)"
    by (simp add: right_diff_distrib')
  finally show ?case by simp
qed simp

lemma length_u32_to_le_bytes [simp, bytes_simps]: "length (u32_to_le_bytes w) = 4"
  by (simp add: u32_to_le_bytes_def)

lemma length_u64_to_le_bytes [simp, bytes_simps]: "length (u64_to_le_bytes w) = 8"
  by (simp add: u64_to_le_bytes_def)

lemma u32_le_bytes_roundtrip [simp, bytes_simps]:
  "u32_from_le_bytes (u32_to_le_bytes w) = w"
proof -
  have "unat w < 256 ^ 4" using unsigned_less [of w] by simp
  then show ?thesis
    by (simp add: u32_from_le_bytes_def u32_to_le_bytes_def of_le_bytes_le_bytes)
qed

lemma u64_le_bytes_roundtrip [simp, bytes_simps]:
  "u64_from_le_bytes (u64_to_le_bytes w) = w"
proof -
  have "unat w < 256 ^ 8" using unsigned_less [of w] by simp
  then show ?thesis
    by (simp add: u64_from_le_bytes_def u64_to_le_bytes_def of_le_bytes_le_bytes)
qed

section \<open>Decimal numbers\<close>

text \<open>\<open>format!("{n}")\<close>, \<open>format!("{n:06}")\<close> and \<open>str::parse\<close>.\<close>

definition digit_char :: "nat \<Rightarrow> char" where
  "digit_char d = char_of (48 + d)"

fun dec_string :: "nat \<Rightarrow> string" where
  "dec_string n = (if n < 10 then [digit_char n] else dec_string (n div 10) @ [digit_char (n mod 10)])"

declare dec_string.simps [simp del]

definition pad_zeros :: "nat \<Rightarrow> string \<Rightarrow> string" where
  "pad_zeros w s = replicate (w - length s) (CHR ''0'') @ s"

definition signed_dec :: "int \<Rightarrow> string" where
  "signed_dec n = (if n < 0 then ''-'' @ dec_string (nat (- n)) else dec_string (nat n))"

definition is_digit :: "char \<Rightarrow> bool" where
  "is_digit c \<longleftrightarrow> 48 \<le> (of_char c :: nat) \<and> (of_char c :: nat) \<le> 57"

fun parse_digits :: "nat \<Rightarrow> string \<Rightarrow> nat option" where
  "parse_digits acc [] = Some acc"
| "parse_digits acc (c # cs) =
     (if is_digit c then parse_digits (10 * acc + (of_char c - 48)) cs else None)"

definition strip_plus :: "string \<Rightarrow> string" where
  "strip_plus s = (case s of [] \<Rightarrow> [] | c # cs \<Rightarrow> if c = CHR ''+'' then cs else s)"

definition parse_u64 :: "string \<Rightarrow> u64 option" where
  "parse_u64 s =
     (let ds = strip_plus s in
      if ds = [] then None
      else case parse_digits 0 ds of
        None \<Rightarrow> None
      | Some n \<Rightarrow> if n < 2 ^ 64 then Some (word_of_nat n) else None)"

definition i64_max :: int where "i64_max = 2 ^ 63 - 1"
definition i64_min :: int where "i64_min = - (2 ^ 63)"

text \<open>\<open>as i64\<close> on an integer: the low 64 bits, read as a signed number.\<close>

definition wrap_i64 :: "int \<Rightarrow> int" where
  "wrap_i64 n = signed_take_bit 63 n"

definition parse_i64 :: "string \<Rightarrow> i64 option" where
  "parse_i64 s =
     (let neg = (case s of c # _ \<Rightarrow> c = CHR ''-'' | [] \<Rightarrow> False);
          ds = (if neg then tl s else strip_plus s) in
      if ds = [] then None
      else case parse_digits 0 ds of
        None \<Rightarrow> None
      | Some n \<Rightarrow>
          let v = (if neg then - int n else int n) in
          if i64_min \<le> v \<and> v \<le> i64_max then Some v else None)"

lemma of_char_digit_char: "d < 10 \<Longrightarrow> (of_char (digit_char d) :: nat) = 48 + d"
  by (simp add: digit_char_def)

lemma is_digit_digit_char [simp]: "d < 10 \<Longrightarrow> is_digit (digit_char d)"
  by (simp add: is_digit_def of_char_digit_char)

lemma parse_digits_append:
  "parse_digits acc (s @ t) = (case parse_digits acc s of None \<Rightarrow> None | Some a \<Rightarrow> parse_digits a t)"
  by (induction acc s rule: parse_digits.induct) auto

lemma parse_digits_zeros [simp]: "parse_digits 0 (replicate k (CHR ''0'') @ s) = parse_digits 0 s"
  by (induction k) (auto simp: is_digit_def)

lemma parse_digits_dec_string [simp]: "parse_digits 0 (dec_string n) = Some n"
proof (induction n rule: dec_string.induct)
  case (1 n)
  show ?case
  proof (cases "n < 10")
    case True
    then show ?thesis
      by (subst dec_string.simps) (simp add: of_char_digit_char)
  next
    case False
    with 1 show ?thesis
      by (subst dec_string.simps) (simp add: parse_digits_append of_char_digit_char)
  qed
qed

lemma dec_string_digits: "c \<in> set (dec_string n) \<Longrightarrow> is_digit c"
proof (induction n rule: dec_string.induct)
  case (1 n)
  show ?case
  proof (cases "n < 10")
    case True
    with 1(2) have "c = digit_char n" by (subst (asm) dec_string.simps) simp
    with True show ?thesis by simp
  next
    case False
    then have "c \<in> set (dec_string (n div 10)) \<or> c = digit_char (n mod 10)"
      using 1(2) by (subst (asm) dec_string.simps) auto
    with 1(1) False show ?thesis by auto
  qed
qed

lemma dec_string_not_Nil [simp]: "dec_string n \<noteq> []"
  by (subst dec_string.simps) simp

lemma pad_zeros_digits: "c \<in> set (pad_zeros w (dec_string n)) \<Longrightarrow> is_digit c"
  using dec_string_digits by (auto simp: pad_zeros_def is_digit_def)

lemma strip_plus_digits: "\<forall>c \<in> set s. is_digit c \<Longrightarrow> strip_plus s = s"
  by (cases s) (auto simp: strip_plus_def is_digit_def)

lemma pad_zeros_not_Nil [simp]: "pad_zeros w (dec_string n) \<noteq> []"
  by (simp add: pad_zeros_def)

lemma parse_u64_pad_zeros: "parse_u64 (pad_zeros w (dec_string (unat n))) = Some n"
proof -
  have "unat n < 2 ^ 64" using unsigned_less [of n] by simp
  moreover have "strip_plus (pad_zeros w (dec_string (unat n))) = pad_zeros w (dec_string (unat n))"
    using pad_zeros_digits by (intro strip_plus_digits) blast
  ultimately show ?thesis
    by (simp add: parse_u64_def Let_def) (simp add: pad_zeros_def)
qed

lemma parse_i64_signed_dec: "i64_min \<le> i \<Longrightarrow> i \<le> i64_max \<Longrightarrow> parse_i64 (signed_dec i) = Some i"
proof -
  assume range: "i64_min \<le> i" "i \<le> i64_max"
  have "c \<noteq> CHR ''-''" if "c \<in> set (dec_string n)" for c n
    using dec_string_digits [OF that] by (auto simp: is_digit_def)
  then have "\<not> (case dec_string n of c # _ \<Rightarrow> c = CHR ''-'' | [] \<Rightarrow> False)" for n
    by (auto split: list.splits) (metis list.set_intros(1))
  then show ?thesis
    using range dec_string_digits by (auto simp: parse_i64_def signed_dec_def Let_def strip_plus_digits)
qed

lemma pad_zeros_inject:
  "pad_zeros w (dec_string m) = pad_zeros w (dec_string n) \<longleftrightarrow> m = n"
proof -
  have "parse_digits 0 (pad_zeros w (dec_string k)) = Some k" for k
    by (simp add: pad_zeros_def)
  then show ?thesis by (metis option.inject)
qed

section \<open>Words\<close>

lemma unat_u64_less: "unat w < 2 ^ 64" for w :: u64
  using unsigned_less [of w] by simp

lemma le_minus_one_less: "a \<le> b - 1 \<Longrightarrow> b \<noteq> 0 \<Longrightarrow> a < b" for a b :: u64
  using unat_gt_0 [of b] by (simp add: word_le_nat_alt word_less_nat_alt unat_minus_one)

section \<open>Lists\<close>

lemma take_append_exact [simp]: "length xs = n \<Longrightarrow> take n (xs @ ys) = xs"
  by simp

lemma drop_append_exact [simp]: "length xs = n \<Longrightarrow> drop n (xs @ ys) = ys"
  by simp

lemma sorted_wrt_filter_map:
  "sorted_wrt P xs \<Longrightarrow> sorted_wrt P (filter Q xs)"
  by (rule sorted_wrt_filter)

lemma mset_concat_map: "mset (concat (map f xs)) = (\<Sum>x\<leftarrow>xs. mset (f x))"
  by (induction xs) auto

text \<open>The position of the first occurrence of an element.\<close>

fun position_of :: "'a \<Rightarrow> 'a list \<Rightarrow> nat option" where
  "position_of x [] = None"
| "position_of x (y # ys) = (if x = y then Some 0 else map_option Suc (position_of x ys))"

lemma position_of_Some: "position_of x xs = Some i \<Longrightarrow> i < length xs \<and> xs ! i = x"
  by (induction xs arbitrary: i) (auto split: if_splits)

end
