(* ===== verification/Model.thy ===== *)
theory Model
  imports Prelude
begin

text \<open>
  The crate \<open>infralens-common\<close>: the normalised data model of the three signal types
  (\<open>model.rs\<close>), the configuration records (\<open>config.rs\<close>), the Arrow schemas
  (\<open>schema.rs\<close>) and the crate's error type. A \<open>HashMap\<close> with string keys is an
  association list with distinct keys; a fixed-size array \<open>[u8; n]\<close> is a byte list of
  length \<open>n\<close>.
\<close>

section \<open>Signal types\<close>

datatype signal_type = Log | Metric | Span

datatype common_error = InvalidSignalType u8

definition signal_as_u8 :: "signal_type \<Rightarrow> u8" where
  "signal_as_u8 s = (case s of Log \<Rightarrow> 0 | Metric \<Rightarrow> 1 | Span \<Rightarrow> 2)"

definition signal_try_from :: "u8 \<Rightarrow> common_error + signal_type" where
  "signal_try_from v =
     (if v = 0 then Inr Log else if v = 1 then Inr Metric else if v = 2 then Inr Span
      else Inl (InvalidSignalType v))"

lemma signal_as_u8_inject [simp]: "signal_as_u8 s = signal_as_u8 t \<longleftrightarrow> s = t"
  by (cases s; cases t) (simp_all add: signal_as_u8_def)

lemma signal_try_from_as_u8 [simp]: "signal_try_from (signal_as_u8 s) = Inr s"
  by (cases s) (simp_all add: signal_try_from_def signal_as_u8_def)

lemma signal_try_from_Inr_iff: "signal_try_from v = Inr s \<longleftrightarrow> v = signal_as_u8 s"
  by (auto simp: signal_try_from_def signal_as_u8_def split: signal_type.splits if_splits)

section \<open>Attribute values and records\<close>

datatype any_value =
    AV_String string
  | AV_Bool bool
  | AV_Int i64
  | AV_Double f64
  | AV_Bytes bytes
  | AV_Array "any_value list"
  | AV_Map "(string \<times> any_value) list"

type_synonym attrs = "(string \<times> any_value) list"

record instrumentation_scope =
  sc_name :: string
  sc_version :: string
  sc_attributes :: attrs

record log_record =
  lr_timestamp_ns :: u64
  lr_observed_timestamp_ns :: u64
  lr_trace_id :: "bytes option"
  lr_span_id :: "bytes option"
  lr_severity_number :: i32
  lr_severity_text :: string
  lr_body :: "any_value option"
  lr_attributes :: attrs
  lr_resource_attributes :: attrs
  lr_scope :: instrumentation_scope
  lr_schema_url :: string

datatype metric_type =
    MT_Gauge
  | MT_Sum bool i32
  | MT_Histogram i32
  | MT_ExponentialHistogram i32
  | MT_Summary

record histogram_data =
  hd_count :: u64
  hd_sum :: "f64 option"
  hd_min :: "f64 option"
  hd_max :: "f64 option"
  hd_explicit_bounds :: "f64 list"
  hd_bucket_counts :: "u64 list"

record metric_point =
  mp_timestamp_ns :: u64
  mp_start_timestamp_ns :: u64
  mp_name :: string
  mp_description :: string
  mp_unit :: string
  mp_metric_type :: metric_type
  mp_value_double :: "f64 option"
  mp_value_int :: "i64 option"
  mp_histogram :: "histogram_data option"
  mp_attributes :: attrs
  mp_resource_attributes :: attrs
  mp_scope :: instrumentation_scope
  mp_schema_url :: string

record span_event =
  se_timestamp_ns :: u64
  se_name :: string
  se_attributes :: attrs

record span_link =
  sl_trace_id :: bytes
  sl_span_id :: bytes
  sl_trace_state :: string
  sl_attributes :: attrs

record span_record =
  sr_trace_id :: bytes
  sr_span_id :: bytes
  sr_parent_span_id :: "bytes option"
  sr_name :: string
  sr_kind :: i32
  sr_start_time_ns :: u64
  sr_end_time_ns :: u64
  sr_duration_ns :: u64
  sr_status_code :: i32
  sr_status_message :: string
  sr_attributes :: attrs
  sr_resource_attributes :: attrs
  sr_scope :: instrumentation_scope
  sr_events :: "span_event list"
  sr_links :: "span_link list"
  sr_schema_url :: string

section \<open>Batches\<close>

datatype ingest_batch =
    Logs "log_record list"
  | Metrics "metric_point list"
  | Spans "span_record list"

definition batch_signal_type :: "ingest_batch \<Rightarrow> signal_type" where
  "batch_signal_type b = (case b of Logs _ \<Rightarrow> Log | Metrics _ \<Rightarrow> Metric | Spans _ \<Rightarrow> Span)"

definition batch_len :: "ingest_batch \<Rightarrow> nat" where
  "batch_len b = (case b of Logs v \<Rightarrow> length v | Metrics v \<Rightarrow> length v | Spans v \<Rightarrow> length v)"

definition batch_is_empty :: "ingest_batch \<Rightarrow> bool" where
  "batch_is_empty b \<longleftrightarrow> batch_len b = 0"

section \<open>Configuration\<close>

record server_config =
  grpc_addr :: string
  http_addr :: string
  metrics_addr :: string

record storage_config =
  data_dir :: string
  memtable_size_bytes :: nat
  l0_compaction_trigger :: nat
  compaction_interval_secs :: u64
  partition_hours :: u64
  parquet_row_group_size :: nat
  wal_sync_interval_ms :: u64

record ingest_config =
  buffer_depth :: nat
  max_batch_records :: nat

record telemetry_config =
  log_level :: string
  json_logs :: bool

record infra_lens_config =
  cfg_server :: server_config
  cfg_storage :: storage_config
  cfg_ingest :: ingest_config
  cfg_telemetry :: telemetry_config

definition infra_lens_config_default :: infra_lens_config where
  "infra_lens_config_default = \<lparr>
     cfg_server = \<lparr>grpc_addr = ''0.0.0.0:4317'', http_addr = ''0.0.0.0:4318'',
                  metrics_addr = ''0.0.0.0:9090''\<rparr>,
     cfg_storage = \<lparr>data_dir = ''./data'', memtable_size_bytes = 64 * 1024 * 1024,
                   l0_compaction_trigger = 4, compaction_interval_secs = 30,
                   partition_hours = 1, parquet_row_group_size = 1000000,
                   wal_sync_interval_ms = 100\<rparr>,
     cfg_ingest = \<lparr>buffer_depth = 4096, max_batch_records = 1000\<rparr>,
     cfg_telemetry = \<lparr>log_level = ''info'', json_logs = True\<rparr>\<rparr>"

section \<open>Arrow schemas\<close>

datatype data_type = DT_UInt64 | DT_Int64 | DT_Int32 | DT_Int8 | DT_Float64 | DT_Utf8
  | DT_Binary | DT_Boolean

record arrow_field =
  f_name :: string
  f_type :: data_type
  f_nullable :: bool

type_synonym schema = "arrow_field list"

definition field_new :: "string \<Rightarrow> data_type \<Rightarrow> bool \<Rightarrow> arrow_field" where
  "field_new n t b = \<lparr>f_name = n, f_type = t, f_nullable = b\<rparr>"

definition log_schema :: schema where
  "log_schema =
    [field_new ''timestamp_ns'' DT_UInt64 False,
     field_new ''observed_timestamp_ns'' DT_UInt64 False,
     field_new ''trace_id'' DT_Binary True,
     field_new ''span_id'' DT_Binary True,
     field_new ''severity_number'' DT_Int32 False,
     field_new ''severity_text'' DT_Utf8 True,
     field_new ''body'' DT_Utf8 True,
     field_new ''attributes'' DT_Utf8 True,
     field_new ''resource_attributes'' DT_Utf8 True,
     field_new ''scope_name'' DT_Utf8 True,
     field_new ''scope_version'' DT_Utf8 True,
     field_new ''schema_url'' DT_Utf8 True]"

definition metric_schema :: schema where
  "metric_schema =
    [field_new ''timestamp_ns'' DT_UInt64 False,
     field_new ''start_timestamp_ns'' DT_UInt64 True,
     field_new ''name'' DT_Utf8 False,
     field_new ''description'' DT_Utf8 True,
     field_new ''unit'' DT_Utf8 True,
     field_new ''metric_type'' DT_Int8 False,
     field_new ''value_double'' DT_Float64 True,
     field_new ''value_int'' DT_Int64 True,
     field_new ''histogram_count'' DT_UInt64 True,
     field_new ''histogram_sum'' DT_Float64 True,
     field_new ''histogram_bounds'' DT_Binary True,
     field_new ''histogram_counts'' DT_Binary True,
     field_new ''attributes'' DT_Utf8 True,
     field_new ''resource_attributes'' DT_Utf8 True,
     field_new ''scope_name'' DT_Utf8 True,
     field_new ''scope_version'' DT_Utf8 True,
     field_new ''schema_url'' DT_Utf8 True]"

definition span_schema :: schema where
  "span_schema =
    [field_new ''trace_id'' DT_Binary False,
     field_new ''span_id'' DT_Binary False,
     field_new ''parent_span_id'' DT_Binary True,
     field_new ''name'' DT_Utf8 False,
     field_new ''kind'' DT_Int32 False,
     field_new ''start_time_ns'' DT_UInt64 False,
     field_new ''end_time_ns'' DT_UInt64 False,
     field_new ''duration_ns'' DT_UInt64 False,
     field_new ''status_code'' DT_Int32 False,
     field_new ''status_message'' DT_Utf8 True,
     field_new ''attributes'' DT_Utf8 True,
     field_new ''resource_attributes'' DT_Utf8 True,
     field_new ''scope_name'' DT_Utf8 True,
     field_new ''scope_version'' DT_Utf8 True,
     field_new ''events'' DT_Utf8 True,
     field_new ''links'' DT_Utf8 True,
     field_new ''schema_url'' DT_Utf8 True]"

lemma schema_names_distinct:
  "distinct (map f_name log_schema)" "distinct (map f_name metric_schema)"
  "distinct (map f_name span_schema)"
  by (simp_all add: log_schema_def metric_schema_def span_schema_def field_new_def)

end
