(* ===== verification/Arrow.thy ===== *)
theory Arrow
  imports Model
begin

text \<open>
  The columnar data the storage and query crates exchange: Arrow arrays and record batches as
  data, and the third-party operations on them as parameters. \<open>RecordBatch::try_new\<close> and
  the Parquet writer and reader are arguments of the definitions that call them; what the code
  relies on is stated by \<open>arrow_try_new_spec\<close> and \<open>parquet_roundtrips\<close>.
\<close>

section \<open>Arrays\<close>

datatype arrow_array =
    UInt64Array "u64 option list"
  | Int64Array "i64 option list"
  | Int32Array "i32 option list"
  | Int8Array "int option list"
  | Float64Array "f64 option list"
  | StringArray "string option list"
  | BinaryArray "bytes option list"
  | BooleanArray "bool option list"

datatype cell =
    CNull
  | CUInt64 u64
  | CInt64 i64
  | CInt32 i32
  | CInt8 int
  | CFloat64 f64
  | CUtf8 string
  | CBinary bytes
  | CBoolean bool

fun array_data_type :: "arrow_array \<Rightarrow> data_type" where
  "array_data_type (UInt64Array _) = DT_UInt64"
| "array_data_type (Int64Array _) = DT_Int64"
| "array_data_type (Int32Array _) = DT_Int32"
| "array_data_type (Int8Array _) = DT_Int8"
| "array_data_type (Float64Array _) = DT_Float64"
| "array_data_type (StringArray _) = DT_Utf8"
| "array_data_type (BinaryArray _) = DT_Binary"
| "array_data_type (BooleanArray _) = DT_Boolean"

definition opt_cell :: "('a \<Rightarrow> cell) \<Rightarrow> 'a option \<Rightarrow> cell" where
  "opt_cell f x = (case x of None \<Rightarrow> CNull | Some a \<Rightarrow> f a)"

fun array_cells :: "arrow_array \<Rightarrow> cell list" where
  "array_cells (UInt64Array xs) = map (opt_cell CUInt64) xs"
| "array_cells (Int64Array xs) = map (opt_cell CInt64) xs"
| "array_cells (Int32Array xs) = map (opt_cell CInt32) xs"
| "array_cells (Int8Array xs) = map (opt_cell CInt8) xs"
| "array_cells (Float64Array xs) = map (opt_cell CFloat64) xs"
| "array_cells (StringArray xs) = map (opt_cell CUtf8) xs"
| "array_cells (BinaryArray xs) = map (opt_cell CBinary) xs"
| "array_cells (BooleanArray xs) = map (opt_cell CBoolean) xs"

definition array_len :: "arrow_array \<Rightarrow> nat" where
  "array_len a = length (array_cells a)"

definition array_null_free :: "arrow_array \<Rightarrow> bool" where
  "array_null_free a \<longleftrightarrow> CNull \<notin> set (array_cells a)"

section \<open>Record batches\<close>

record record_batch =
  rb_schema :: schema
  rb_columns :: "arrow_array list"

definition num_rows :: "record_batch \<Rightarrow> nat" where
  "num_rows b = (case rb_columns b of [] \<Rightarrow> 0 | c # _ \<Rightarrow> array_len c)"

definition batch_row :: "record_batch \<Rightarrow> nat \<Rightarrow> cell list" where
  "batch_row b i = map (\<lambda>c. array_cells c ! i) (rb_columns b)"

definition batch_rows :: "record_batch \<Rightarrow> cell list list" where
  "batch_rows b = map (batch_row b) [0..<num_rows b]"

definition batches_rows :: "record_batch list \<Rightarrow> cell list list" where
  "batches_rows bs = concat (map batch_rows bs)"

fun schema_index :: "string \<Rightarrow> schema \<Rightarrow> nat option" where
  "schema_index n [] = None"
| "schema_index n (f # fs) = (if f_name f = n then Some 0 else map_option Suc (schema_index n fs))"

definition column_by_name :: "record_batch \<Rightarrow> string \<Rightarrow> arrow_array option" where
  "column_by_name b n =
     (case schema_index n (rb_schema b) of
        None \<Rightarrow> None
      | Some i \<Rightarrow> if i < length (rb_columns b) then Some (rb_columns b ! i) else None)"

text \<open>What \<open>RecordBatch::try_new\<close> checks.\<close>

definition columns_valid :: "schema \<Rightarrow> arrow_array list \<Rightarrow> bool" where
  "columns_valid sch cols \<longleftrightarrow>
     cols \<noteq> [] \<and> length cols = length sch
   \<and> list_all2 (\<lambda>f c. f_type f = array_data_type c \<and> (f_nullable f \<or> array_null_free c)
                     \<and> array_len c = array_len (hd cols)) sch cols"

definition batch_valid :: "record_batch \<Rightarrow> bool" where
  "batch_valid b \<longleftrightarrow> columns_valid (rb_schema b) (rb_columns b)"

type_synonym try_new = "schema \<Rightarrow> arrow_array list \<Rightarrow> string + record_batch"

definition arrow_try_new_spec :: "try_new \<Rightarrow> bool" where
  "arrow_try_new_spec f \<longleftrightarrow>
     (\<forall>sch cols. if columns_valid sch cols then f sch cols = Inr \<lparr>rb_schema = sch, rb_columns = cols\<rparr>
                 else \<exists>e. f sch cols = Inl e)"

section \<open>Parquet\<close>

record 'w parquet_ops =
  pq_try_new :: "schema \<Rightarrow> string + 'w"
  pq_write :: "record_batch \<Rightarrow> 'w \<Rightarrow> string + 'w"
  pq_close :: "'w \<Rightarrow> string + bytes"
  pq_torn :: bytes
  pq_read :: "bytes \<Rightarrow> nat \<Rightarrow> string + (string + record_batch) list"

fun pq_write_all :: "'w parquet_ops \<Rightarrow> record_batch list \<Rightarrow> 'w \<Rightarrow> string + 'w" where
  "pq_write_all P [] w = Inr w"
| "pq_write_all P (b # bs) w = and_then (pq_write P b w) (pq_write_all P bs)"

definition pq_encode :: "'w parquet_ops \<Rightarrow> schema \<Rightarrow> record_batch list \<Rightarrow> string + bytes" where
  "pq_encode P sch bs = and_then (pq_try_new P sch) (\<lambda>w. and_then (pq_write_all P bs w) (pq_close P))"

text \<open>A file written with batches of a schema reads back as batches of that schema with the same
  rows in the same order, however the reader cuts them.\<close>

definition parquet_roundtrips :: "'w parquet_ops \<Rightarrow> bool" where
  "parquet_roundtrips P \<longleftrightarrow>
     (\<forall>sch bs b n. pq_encode P sch bs = Inr b \<and> 0 < n \<and> (\<forall>x \<in> set bs. rb_schema x = sch \<and> batch_valid x)
        \<longrightarrow> (\<exists>cs. pq_read P b n = Inr (map Inr cs) \<and> batches_rows cs = batches_rows bs
                \<and> (\<forall>c \<in> set cs. rb_schema c = sch \<and> batch_valid c)))"

section \<open>Lemmas\<close>

lemma array_len_simps [simp]:
  "array_len (UInt64Array a) = length a" "array_len (Int64Array b) = length b"
  "array_len (Int32Array c) = length c" "array_len (Int8Array d) = length d"
  "array_len (Float64Array e) = length e" "array_len (StringArray f) = length f"
  "array_len (BinaryArray g) = length g" "array_len (BooleanArray h) = length h"
  by (simp_all add: array_len_def)

lemma opt_cell_simps [simp]: "opt_cell f None = CNull" "opt_cell f (Some a) = f a"
  by (simp_all add: opt_cell_def)

lemma length_batch_rows [simp]: "length (batch_rows b) = num_rows b"
  by (simp add: batch_rows_def)

lemma batches_rows_simps [simp]:
  "batches_rows [] = []"
  "batches_rows (b # bs) = batch_rows b @ batches_rows bs"
  "batches_rows (bs @ bs') = batches_rows bs @ batches_rows bs'"
  by (simp_all add: batches_rows_def)

lemma try_new_valid:
  "arrow_try_new_spec f \<Longrightarrow> columns_valid sch cols \<Longrightarrow> f sch cols = Inr \<lparr>rb_schema = sch, rb_columns = cols\<rparr>"
  by (simp add: arrow_try_new_spec_def split: if_splits)

lemma parquet_roundtripsD:
  assumes "parquet_roundtrips P" "pq_encode P sch bs = Inr b" "0 < n"
    and "\<forall>x \<in> set bs. rb_schema x = sch \<and> batch_valid x"
  obtains cs where "pq_read P b n = Inr (map Inr cs)" "batches_rows cs = batches_rows bs"
    "\<forall>c \<in> set cs. rb_schema c = sch \<and> batch_valid c"
  using assms unfolding parquet_roundtrips_def by blast

text \<open>The rows of a batch whose columns are computed record by record.\<close>

lemma batch_rows_map:
  assumes "cols \<noteq> []" "\<forall>c \<in> set cols. array_cells (c rs) = map (g c) rs"
  shows "batch_rows \<lparr>rb_schema = sch, rb_columns = map (\<lambda>c. c rs) cols\<rparr> = map (\<lambda>r. map (\<lambda>c. g c r) cols) rs"
proof -
  have "num_rows \<lparr>rb_schema = sch, rb_columns = map (\<lambda>c. c rs) cols\<rparr> = length rs"
    using assms by (cases cols) (simp_all add: num_rows_def array_len_def)
  then show ?thesis
    using assms by (intro nth_equalityI) (simp_all add: batch_rows_def batch_row_def)
qed

section \<open>A sample instance\<close>

text \<open>A validating constructor, and a Parquet store that knows a fixed list of files: they meet
  both specifications.\<close>

definition sample_try_new :: try_new where
  "sample_try_new sch cols =
     (if columns_valid sch cols then Inr \<lparr>rb_schema = sch, rb_columns = cols\<rparr> else Inl ''invalid'')"

definition sample_parquet :: "record_batch list list \<Rightarrow> record_batch list parquet_ops" where
  "sample_parquet files =
     \<lparr>pq_try_new = (\<lambda>_. Inr []),
      pq_write = (\<lambda>b w. Inr (w @ [b])),
      pq_close = (\<lambda>w. case position_of w files of None \<Rightarrow> Inl ''unknown'' | Some i \<Rightarrow> Inr (replicate i 0)),
      pq_torn = [1],
      pq_read = (\<lambda>b n. if length b < length files \<and> set b \<subseteq> {0}
                         then Inr (map Inr (files ! length b)) else Inl ''unreadable'')\<rparr>"

lemma sample_try_new_spec: "arrow_try_new_spec sample_try_new"
  by (simp add: arrow_try_new_spec_def sample_try_new_def)

lemma sample_parquet_write_all: "pq_write_all (sample_parquet files) bs w = Inr (w @ bs)"
  by (induction bs arbitrary: w) (simp_all add: sample_parquet_def)

lemma sample_parquet_encode:
  "pq_encode (sample_parquet files) sch bs
    = (case position_of bs files of None \<Rightarrow> Inl ''unknown'' | Some i \<Rightarrow> Inr (replicate i 0))"
proof -
  have "pq_try_new (sample_parquet files) sch = Inr []"
    "\<And>w. pq_close (sample_parquet files) w
      = (case position_of w files of None \<Rightarrow> Inl ''unknown'' | Some i \<Rightarrow> Inr (replicate i 0))"
    by (simp_all add: sample_parquet_def)
  then show ?thesis by (simp add: pq_encode_def sample_parquet_write_all)
qed

lemma sample_parquet_roundtrips: "parquet_roundtrips (sample_parquet files)"
proof -
  have "\<exists>cs. pq_read (sample_parquet files) b n = Inr (map Inr cs) \<and> cs = bs"
    if "pq_encode (sample_parquet files) sch bs = Inr b" for sch bs b n
  proof -
    obtain i where "position_of bs files = Some i" "b = replicate i 0"
      using \<open>pq_encode (sample_parquet files) sch bs = Inr b\<close>
      by (auto simp: sample_parquet_encode split: option.splits)
    then show ?thesis
      using position_of_Some [of bs files i] by (auto simp: sample_parquet_def)
  qed
  then show ?thesis
    unfolding parquet_roundtrips_def by metis
qed

end
