(* ===== verification/Bloom.thy ===== *)
theory Bloom
  imports Prelude
begin

unbundle bit_operations_syntax

text \<open>
  The Bloom filter of \<open>infralens-storage/src/bloom.rs\<close>: construction, insertion, the
  membership test and the on-disk format. The hash is \<open>std\<close>'s \<open>DefaultHasher\<close>, whose
  algorithm is unspecified: the parameter \<open>fin\<close> maps the bytes written into a fresh
  hasher to what \<open>finish\<close> returns. Operations that index a \<open>Vec\<close> or take a remainder
  return \<open>None\<close> where the code would panic.
\<close>

section \<open>The filter\<close>

record bloom_filter =
  bits :: bytes
  num_bits :: u64
  num_hashes :: u32

definition sip_hash :: "(bytes \<Rightarrow> u64) \<Rightarrow> bytes \<Rightarrow> u64 \<Rightarrow> u64" where
  "sip_hash fin data seed =
     fin (u64_to_le_bytes seed @ u64_to_le_bytes (word_of_nat (length data)) @ data)"

definition byte_len :: "u64 \<Rightarrow> nat" where
  "byte_len n = unat ((n + 7) div 8)"

definition bloom_new :: "fp_ops \<Rightarrow> u64 \<Rightarrow> f64 \<Rightarrow> bloom_filter" where
  "bloom_new fp expected_items fp_rate =
     (let ln2 = fp_ln fp (fp_lit fp ''2'');
          m = fp_to_u64 fp (fp_ceil fp
                (fp_div fp (fp_mul fp (fp_neg fp (fp_of_u64 fp expected_items)) (fp_ln fp fp_rate))
                           (fp_powi fp ln2 2)));
          nb = max m 64;
          nh = fp_to_u32 fp (fp_ceil fp
                (fp_mul fp (fp_div fp (fp_of_u64 fp nb) (fp_of_u64 fp expected_items)) ln2));
          nh' = min (max nh 1) 16
      in \<lparr>bits = replicate (byte_len nb) 0, num_bits = nb, num_hashes = nh'\<rparr>)"

definition hash_index :: "(bytes \<Rightarrow> u64) \<Rightarrow> bloom_filter \<Rightarrow> bytes \<Rightarrow> u32 \<Rightarrow> u64 option" where
  "hash_index fin b key seed =
     (let h1 = sip_hash fin key 0xcafef00ddeadbeef;
          h2 = sip_hash fin key (ucast seed XOR 0x0102030405060708)
      in if num_bits b = 0 then None
         else Some ((h1 + ucast seed * h2) mod num_bits b))"

definition set_bit_at :: "bytes \<Rightarrow> u64 \<Rightarrow> bytes option" where
  "set_bit_at bs n =
     (let i = unat (n div 8)
      in if i < length bs
         then Some (bs[i := bs ! i OR push_bit (unat (n mod 8)) 1])
         else None)"

definition test_bit_at :: "bytes \<Rightarrow> u64 \<Rightarrow> bool option" where
  "test_bit_at bs n =
     (let i = unat (n div 8)
      in if i < length bs
         then Some (bs ! i AND push_bit (unat (n mod 8)) 1 \<noteq> 0)
         else None)"

fun insert_seeds :: "(bytes \<Rightarrow> u64) \<Rightarrow> bytes \<Rightarrow> u32 list \<Rightarrow> bloom_filter \<Rightarrow> bloom_filter option" where
  "insert_seeds fin key [] b = Some b"
| "insert_seeds fin key (i # is) b =
     (case hash_index fin b key i of
        None \<Rightarrow> None
      | Some n \<Rightarrow>
          (case set_bit_at (bits b) n of
             None \<Rightarrow> None
           | Some bs \<Rightarrow> insert_seeds fin key is (b\<lparr>bits := bs\<rparr>)))"

definition seeds :: "u32 \<Rightarrow> u32 list" where
  "seeds n = map word_of_nat [0..<unat n]"

definition bloom_insert :: "(bytes \<Rightarrow> u64) \<Rightarrow> bytes \<Rightarrow> bloom_filter \<Rightarrow> bloom_filter option" where
  "bloom_insert fin key b = insert_seeds fin key (seeds (num_hashes b)) b"

fun contains_seeds :: "(bytes \<Rightarrow> u64) \<Rightarrow> bytes \<Rightarrow> u32 list \<Rightarrow> bloom_filter \<Rightarrow> bool option" where
  "contains_seeds fin key [] b = Some True"
| "contains_seeds fin key (i # is) b =
     (case hash_index fin b key i of
        None \<Rightarrow> None
      | Some n \<Rightarrow>
          (case test_bit_at (bits b) n of
             None \<Rightarrow> None
           | Some t \<Rightarrow> if t then contains_seeds fin key is b else Some False))"

definition bloom_contains :: "(bytes \<Rightarrow> u64) \<Rightarrow> bloom_filter \<Rightarrow> bytes \<Rightarrow> bool option" where
  "bloom_contains fin b key = contains_seeds fin key (seeds (num_hashes b)) b"

definition bloom_to_bytes :: "bloom_filter \<Rightarrow> bytes" where
  "bloom_to_bytes b = u64_to_le_bytes (num_bits b) @ u32_to_le_bytes (num_hashes b) @ bits b"

definition bloom_from_bytes :: "bytes \<Rightarrow> bloom_filter option" where
  "bloom_from_bytes d =
     (if length d < 12 then None
      else let nb = u64_from_le_bytes (take 8 d);
               nh = u32_from_le_bytes (take 4 (drop 8 d));
               bl = byte_len nb
           in if length d < 12 + bl then None
              else Some \<lparr>bits = take bl (drop 12 d), num_bits = nb, num_hashes = nh\<rparr>)"

text \<open>Insertion of a list of keys, as the SSTable writers do record by record.\<close>

fun bloom_insert_all :: "(bytes \<Rightarrow> u64) \<Rightarrow> bytes list \<Rightarrow> bloom_filter \<Rightarrow> bloom_filter option" where
  "bloom_insert_all fin [] b = Some b"
| "bloom_insert_all fin (k # ks) b =
     (case bloom_insert fin k b of None \<Rightarrow> None | Some b' \<Rightarrow> bloom_insert_all fin ks b')"

section \<open>Well-formed filters\<close>

text \<open>
  The bit count is positive, its rounding up to bytes does not wrap, and the array holds exactly
  that many bytes.
\<close>

definition bloom_wf :: "bloom_filter \<Rightarrow> bool" where
  "bloom_wf b \<longleftrightarrow> num_bits b \<noteq> 0 \<and> unat (num_bits b) + 7 < 2 ^ 64
     \<and> length (bits b) = byte_len (num_bits b)"

lemma byte_len_eq: "unat n + 7 < 2 ^ 64 \<Longrightarrow> byte_len n = (unat n + 7) div 8"
  by (simp add: byte_len_def unat_div unat_word_ariths)

lemma bloom_new_bits [simp]: "bits (bloom_new fp n r) = replicate (byte_len (num_bits (bloom_new fp n r))) 0"
  by (simp add: bloom_new_def Let_def)

lemma bloom_new_num_hashes: "1 \<le> num_hashes (bloom_new fp n r)" "num_hashes (bloom_new fp n r) \<le> 16"
  by (simp_all add: bloom_new_def Let_def)

lemma bloom_new_num_bits: "64 \<le> num_bits (bloom_new fp n r)"
  by (simp add: bloom_new_def Let_def)

lemma bloom_new_wf: "unat (num_bits (bloom_new fp n r)) + 7 < 2 ^ 64 \<Longrightarrow> bloom_wf (bloom_new fp n r)"
  using bloom_new_num_bits [of fp n r] by (auto simp: bloom_wf_def)

lemma hash_index_Some:
  assumes "bloom_wf b"
  obtains i where "hash_index fin b key s = Some i" "unat (i div 8) < length (bits b)"
proof -
  define i where "i = (sip_hash fin key 0xcafef00ddeadbeef
      + ucast s * sip_hash fin key (ucast s XOR 0x0102030405060708)) mod num_bits b"
  have nb: "0 < unat (num_bits b)" "unat (num_bits b) + 7 < 2 ^ 64"
    using assms by (auto simp: bloom_wf_def unat_gt_0)
  have "unat i < unat (num_bits b)"
    using nb by (simp add: i_def unat_mod)
  then have "unat (i div 8) < (unat (num_bits b) + 7) div 8"
    by (simp add: unat_div)
  moreover have "length (bits b) = (unat (num_bits b) + 7) div 8"
    using assms nb by (simp add: bloom_wf_def byte_len_eq)
  ultimately show thesis
    using assms by (intro that [of i]) (auto simp: hash_index_def i_def Let_def bloom_wf_def)
qed

lemma hash_index_bits [simp]: "hash_index fin (b\<lparr>bits := bs\<rparr>) key s = hash_index fin b key s"
  by (simp add: hash_index_def)

lemma set_bit_at_Some: "unat (i div 8) < length bs \<Longrightarrow> \<exists>bs'. set_bit_at bs i = Some bs'"
  by (simp add: set_bit_at_def Let_def)

lemma set_bit_at_length: "set_bit_at bs i = Some bs' \<Longrightarrow> length bs' = length bs"
  by (auto simp: set_bit_at_def Let_def split: if_splits)

lemma shifted_one: "push_bit n (1 :: u8) = 2 ^ n"
  by (simp add: push_bit_eq_mult)

lemma bit_set_same: "n < 8 \<Longrightarrow> (w OR 2 ^ n) AND 2 ^ n \<noteq> (0::u8)"
  by (simp add: and_exp_eq_0_iff_not_bit bit_or_iff bit_exp_iff)

lemma bit_set_mono: "w AND 2 ^ n \<noteq> (0::u8) \<Longrightarrow> (w OR v) AND 2 ^ n \<noteq> 0"
  by (simp add: and_exp_eq_0_iff_not_bit bit_or_iff)

lemma set_bit_at_eq:
  "set_bit_at bs i = Some bs' \<longleftrightarrow> unat (i div 8) < length bs
     \<and> bs' = bs[unat (i div 8) := bs ! unat (i div 8) OR 2 ^ unat (i mod 8)]"
  by (auto simp: set_bit_at_def Let_def shifted_one)

lemma test_bit_at_True:
  "test_bit_at bs i = Some True \<longleftrightarrow> unat (i div 8) < length bs
     \<and> bs ! unat (i div 8) AND 2 ^ unat (i mod 8) \<noteq> 0"
  by (simp add: test_bit_at_def Let_def shifted_one)

lemma test_after_set:
  assumes "set_bit_at bs i = Some bs'"
  shows "test_bit_at bs' i = Some True"
proof -
  have "unat (i mod 8) < 8" by (simp add: unat_mod)
  with assms show ?thesis
    by (simp add: set_bit_at_eq test_bit_at_True bit_set_same)
qed

lemma test_mono:
  assumes "set_bit_at bs i = Some bs'" "test_bit_at bs j = Some True"
  shows "test_bit_at bs' j = Some True"
  using assms bit_set_mono
  by (cases "unat (i div 8) = unat (j div 8)") (auto simp: set_bit_at_eq test_bit_at_True)

section \<open>Insertion and the membership test\<close>

lemma insert_seeds_total:
  "bloom_wf b \<Longrightarrow> \<exists>b'. insert_seeds fin key is b = Some b' \<and> bloom_wf b'
     \<and> num_bits b' = num_bits b \<and> num_hashes b' = num_hashes b"
proof (induction "is" arbitrary: b)
  case (Cons s "is")
  obtain i where i: "hash_index fin b key s = Some i" "unat (i div 8) < length (bits b)"
    using hash_index_Some [OF Cons.prems] .
  obtain bs where bs: "set_bit_at (bits b) i = Some bs"
    using set_bit_at_Some [OF i(2)] by blast
  have "bloom_wf (b\<lparr>bits := bs\<rparr>)"
    using Cons.prems set_bit_at_length [OF bs] by (simp add: bloom_wf_def)
  from Cons.IH [OF this] show ?case
    using i bs by simp
qed simp

lemma bloom_insert_total:
  "bloom_wf b \<Longrightarrow> \<exists>b'. bloom_insert fin key b = Some b' \<and> bloom_wf b'
     \<and> num_bits b' = num_bits b \<and> num_hashes b' = num_hashes b"
  unfolding bloom_insert_def by (rule insert_seeds_total)

lemma insert_seeds_mono:
  assumes "insert_seeds fin key is b = Some b'" "test_bit_at (bits b) j = Some True"
  shows "test_bit_at (bits b') j = Some True"
  using assms
  by (induction fin key "is" b arbitrary: b' rule: insert_seeds.induct)
    (auto split: option.splits dest: test_mono)

lemma insert_seeds_sets:
  assumes "insert_seeds fin key is b = Some b'" "s \<in> set is"
  shows "\<exists>i. hash_index fin b key s = Some i \<and> test_bit_at (bits b') i = Some True"
  using assms
proof (induction fin key "is" b arbitrary: b' rule: insert_seeds.induct)
  case (2 fin key t "is" b)
  obtain i bs where i: "hash_index fin b key t = Some i" "set_bit_at (bits b) i = Some bs"
    "insert_seeds fin key is (b\<lparr>bits := bs\<rparr>) = Some b'"
    using "2.prems"(1) by (auto split: option.splits)
  show ?case
  proof (cases "s = t")
    case True
    then show ?thesis
      using i insert_seeds_mono [OF i(3), of i] test_after_set [OF i(2)] by auto
  next
    case False
    then show ?thesis
      using "2.IH" [OF i(1,2,3)] "2.prems"(2) by auto
  qed
qed simp

lemma contains_seeds_True:
  "(\<And>s. s \<in> set is \<Longrightarrow> \<exists>i. hash_index fin b key s = Some i \<and> test_bit_at (bits b) i = Some True)
     \<Longrightarrow> contains_seeds fin key is b = Some True"
  by (induction "is") fastforce+

lemma hash_index_cong: "num_bits b' = num_bits b \<Longrightarrow> hash_index fin b' key s = hash_index fin b key s"
  by (simp add: hash_index_def)

text \<open>The bits of a filter an operation may only add to.\<close>

definition bloom_le :: "bloom_filter \<Rightarrow> bloom_filter \<Rightarrow> bool" where
  "bloom_le b b' \<longleftrightarrow> num_bits b' = num_bits b \<and> num_hashes b' = num_hashes b
     \<and> (\<forall>i. test_bit_at (bits b) i = Some True \<longrightarrow> test_bit_at (bits b') i = Some True)"

lemma bloom_le_refl: "bloom_le b b"
  by (simp add: bloom_le_def)

lemma bloom_le_trans: "bloom_le a b \<Longrightarrow> bloom_le b c \<Longrightarrow> bloom_le a c"
  by (simp add: bloom_le_def)

lemma bloom_insert_le: "bloom_wf b \<Longrightarrow> bloom_insert fin key b = Some b' \<Longrightarrow> bloom_le b b'"
  using bloom_insert_total [of b fin key] insert_seeds_mono
  by (fastforce simp: bloom_le_def bloom_insert_def)

lemma bloom_contains_mono:
  assumes "bloom_le b b'" "bloom_contains fin b key = Some True"
  shows "bloom_contains fin b' key = Some True"
proof -
  have same: "hash_index fin b' key s = hash_index fin b key s" for s
    using assms(1) by (intro hash_index_cong) (simp add: bloom_le_def)
  have "contains_seeds fin key is b = Some True \<Longrightarrow> contains_seeds fin key is b' = Some True" for "is"
    using assms(1)
    by (induction "is") (auto simp: bloom_le_def same split: option.splits if_splits)
  then show ?thesis
    using assms by (simp add: bloom_contains_def bloom_le_def)
qed

lemma bloom_contains_inserted:
  assumes "bloom_wf b" "bloom_insert fin key b = Some b'"
  shows "bloom_contains fin b' key = Some True"
proof -
  have same: "num_bits b' = num_bits b" "num_hashes b' = num_hashes b"
    using bloom_insert_total [OF assms(1), of fin key] assms(2) by auto
  show ?thesis
    unfolding bloom_contains_def
  proof (rule contains_seeds_True)
    fix s assume "s \<in> set (seeds (num_hashes b'))"
    then show "\<exists>i. hash_index fin b' key s = Some i \<and> test_bit_at (bits b') i = Some True"
      using insert_seeds_sets [of fin key "seeds (num_hashes b)" b b' s] assms(2) same
      by (auto simp: bloom_insert_def hash_index_cong [OF same(1)])
  qed
qed

lemma bloom_insert_all_total:
  "bloom_wf b \<Longrightarrow> \<exists>b'. bloom_insert_all fin ks b = Some b' \<and> bloom_wf b' \<and> bloom_le b b'"
proof (induction ks arbitrary: b)
  case (Cons k ks)
  obtain b1 where b1: "bloom_insert fin k b = Some b1" "bloom_wf b1"
    using bloom_insert_total [OF Cons.prems] by blast
  then show ?case
    using Cons.IH [OF b1(2)] bloom_insert_le [OF Cons.prems b1(1)] bloom_le_trans by fastforce
qed (simp add: bloom_le_refl)

lemma bloom_insert_all_contains:
  assumes "bloom_wf b" "bloom_insert_all fin ks b = Some b'" "k \<in> set ks"
  shows "bloom_contains fin b' k = Some True"
  using assms
proof (induction ks arbitrary: b)
  case (Cons x xs)
  obtain b1 where b1: "bloom_insert fin x b = Some b1" "bloom_insert_all fin xs b1 = Some b'"
    using Cons.prems(2) by (auto split: option.splits)
  have wf: "bloom_wf b1"
    using bloom_insert_total [OF Cons.prems(1), of fin x] b1(1) by auto
  show ?case
  proof (cases "k \<in> set xs")
    case True
    then show ?thesis using Cons.IH wf b1(2) by blast
  next
    case False
    then have "bloom_contains fin b1 k = Some True"
      using Cons.prems bloom_contains_inserted b1(1) by auto
    then show ?thesis
      using bloom_insert_all_total [OF wf, of fin xs] b1(2) bloom_contains_mono by auto
  qed
qed simp

text \<open>A filter nothing was inserted into rejects every key.\<close>

lemma test_zero: "unat (i div 8) < n \<Longrightarrow> test_bit_at (replicate n 0) i = Some False"
  by (simp add: test_bit_at_def)

lemma empty_filter_rejects:
  assumes "bloom_wf b" "bits b = replicate (byte_len (num_bits b)) 0" "num_hashes b \<noteq> 0"
  shows "bloom_contains fin b key = Some False"
proof -
  have "seeds (num_hashes b) \<noteq> []"
    using assms(3) by (simp add: seeds_def unat_eq_0)
  then obtain s ss where s: "seeds (num_hashes b) = s # ss"
    by (cases "seeds (num_hashes b)") auto
  obtain i where i: "hash_index fin b key s = Some i" "unat (i div 8) < length (bits b)"
    using hash_index_Some [OF assms(1)] .
  then show ?thesis
    using assms(2) by (simp add: bloom_contains_def s test_zero)
qed

lemma bloom_bytes_parse:
  assumes "bloom_wf b"
  shows "bloom_from_bytes (bloom_to_bytes b @ rest) = Some b"
proof -
  have len: "length (bits b) = byte_len (num_bits b)"
    using assms by (simp add: bloom_wf_def)
  then show ?thesis
    by (simp add: bloom_from_bytes_def bloom_to_bytes_def Let_def)
qed

definition sample_filter :: bloom_filter where
  "sample_filter = \<lparr>bits = replicate 8 0, num_bits = 64, num_hashes = 2\<rparr>"

lemma sample_filter_wf: "bloom_wf sample_filter"
  by (simp add: bloom_wf_def sample_filter_def byte_len_def)

section \<open>Properties\<close>

text \<open>
  C13. No false negatives, in memory and on disk. After any keys have been inserted into a
  well-formed filter, none of the insertions panics, the filter's serialised bytes (followed by
  anything) are read back as the same filter, and the membership test of that filter answers true
  for every inserted key, whatever the hash function is.
\<close>

theorem bloom_no_false_negatives:
  assumes "bloom_wf b"
  shows "\<exists>b'. bloom_insert_all fin ks b = Some b'
    \<and> bloom_from_bytes (bloom_to_bytes b' @ rest) = Some b'
    \<and> (\<forall>k \<in> set ks. bloom_contains fin b' k = Some True)"
  using bloom_insert_all_total [OF assms, of fin ks] bloom_insert_all_contains [OF assms]
    bloom_bytes_parse by blast

theorem bloom_no_false_negatives_witness:
  "\<exists>b'. bloom_insert_all (\<lambda>d. word_of_nat (length d)) [[1, 2], [3]] sample_filter = Some b'
    \<and> bloom_from_bytes (bloom_to_bytes b' @ [7]) = Some b'
    \<and> (\<forall>k \<in> set [[1, 2], [3]]. bloom_contains (\<lambda>d. word_of_nat (length d)) b' k = Some True)"
  by (rule bloom_no_false_negatives [OF sample_filter_wf])

end
