(* ===== verification/Ordered_Map.thy ===== *)
theory Ordered_Map
  imports Prelude
begin

text \<open>
  The interface of \<open>std::collections::BTreeMap\<close> that the storage engine's MemTable and
  the cluster's hash ring rely on, as the locale \<open>ordered_map\<close>: what a lookup returns
  after an insertion or a removal, and that iteration yields each entry once, in ascending key
  order. The model of the map is the sorted association list, an interpretation of the locale.
\<close>

section \<open>The interface\<close>

locale ordered_map =
  fixes empty :: "'m"
    and insert :: "'k::linorder \<Rightarrow> 'v \<Rightarrow> 'm \<Rightarrow> 'm"
    and remove :: "'k \<Rightarrow> 'm \<Rightarrow> 'm"
    and get :: "'m \<Rightarrow> 'k \<Rightarrow> 'v option"
    and entries :: "'m \<Rightarrow> ('k \<times> 'v) list"
    and inv :: "'m \<Rightarrow> bool"
  assumes inv_empty: "inv empty"
    and inv_insert: "inv m \<Longrightarrow> inv (insert k v m)"
    and inv_remove: "inv m \<Longrightarrow> inv (remove k m)"
    and get_empty: "get empty = (\<lambda>_. None)"
    and get_insert: "inv m \<Longrightarrow> get (insert k v m) = (get m)(k \<mapsto> v)"
    and get_remove: "inv m \<Longrightarrow> get (remove k m) = (get m)(k := None)"
    and entries_sorted: "inv m \<Longrightarrow> sorted_wrt (<) (map fst (entries m))"
    and entries_get: "inv m \<Longrightarrow> map_of (entries m) = get m"
begin

lemmas inv_intros = inv_empty inv_insert inv_remove

lemma distinct_keys: "inv m \<Longrightarrow> distinct (map fst (entries m))"
  by (metis entries_sorted strict_sorted_iff)

lemma in_entries_iff: "inv m \<Longrightarrow> (k, v) \<in> set (entries m) \<longleftrightarrow> get m k = Some v"
  using map_of_eq_Some_iff [OF distinct_keys] entries_get by metis

lemma distinct_entries: "inv m \<Longrightarrow> distinct (entries m)"
  using distinct_keys distinct_map by blast

lemma mset_entries_eqI:
  assumes "inv m" "distinct xs" "\<And>k v. (k, v) \<in> set xs \<longleftrightarrow> get m k = Some v"
  shows "mset (entries m) = mset xs"
proof -
  have "set (entries m) = set xs"
    using assms in_entries_iff by auto
  with assms show ?thesis
    by (metis distinct_entries set_eq_iff_mset_eq_distinct)
qed

text \<open>An insertion under a key not yet present adds exactly one entry.\<close>

lemma mset_entries_insert_fresh:
  assumes "inv m" "get m k = None"
  shows "mset (entries (insert k v m)) = add_mset (k, v) (mset (entries m))"
proof -
  have "distinct ((k, v) # entries m)"
    using assms distinct_entries in_entries_iff by force
  moreover have "(k', v') \<in> set ((k, v) # entries m) \<longleftrightarrow> get (insert k v m) k' = Some v'" for k' v'
    using assms by (auto simp: get_insert in_entries_iff)
  ultimately have "mset (entries (insert k v m)) = mset ((k, v) # entries m)"
    using assms by (intro mset_entries_eqI inv_insert) auto
  then show ?thesis by simp
qed

lemma length_entries_insert_fresh:
  "inv m \<Longrightarrow> get m k = None \<Longrightarrow> length (entries (insert k v m)) = Suc (length (entries m))"
  by (metis mset_entries_insert_fresh size_add_mset size_mset)

text \<open>Iteration restricted to any predicate stays in key order.\<close>

lemma sorted_filter_entries:
  "inv m \<Longrightarrow> sorted_wrt (\<lambda>a b. fst a < fst b) (filter P (entries m))"
  using entries_sorted sorted_wrt_filter by (fastforce simp: sorted_wrt_map)

text \<open>Two maps with the same lookups iterate identically: iteration is a function of the contents.\<close>

lemma entries_unique:
  assumes "inv m" "inv m'" "get m = get m'"
  shows "entries m = entries m'"
proof -
  have keys: "map fst (entries m) = map fst (entries m')"
  proof (rule sorted_distinct_set_unique)
    show "sorted (map fst (entries m))" "sorted (map fst (entries m'))"
      using assms entries_sorted strict_sorted_iff by blast+
    show "distinct (map fst (entries m))" "distinct (map fst (entries m'))"
      using assms distinct_keys by blast+
    show "set (map fst (entries m)) = set (map fst (entries m'))"
      using assms entries_get by (metis dom_map_of_conv_image_fst list.set_map)
  qed
  show ?thesis
  proof (rule nth_equalityI)
    show "length (entries m) = length (entries m')"
      using keys by (metis length_map)
  next
    fix i assume i: "i < length (entries m)"
    then have i': "i < length (entries m')"
      using keys by (metis length_map)
    have f: "fst (entries m ! i) = fst (entries m' ! i)"
      using keys i i' by (metis nth_map)
    have "get m (fst (entries m ! i)) = Some (snd (entries m ! i))"
      using i assms in_entries_iff by (metis nth_mem prod.collapse)
    moreover have "get m' (fst (entries m' ! i)) = Some (snd (entries m' ! i))"
      using i' assms in_entries_iff by (metis nth_mem prod.collapse)
    ultimately show "entries m ! i = entries m' ! i"
      using f assms(3) by (simp add: prod_eq_iff)
  qed
qed

end

section \<open>Sorted association lists\<close>

type_synonym ('k, 'v) btree_map = "('k \<times> 'v) list"

definition bt_inv :: "('k::linorder, 'v) btree_map \<Rightarrow> bool" where
  "bt_inv m \<longleftrightarrow> sorted_wrt (<) (map fst m)"

fun bt_insert :: "'k::linorder \<Rightarrow> 'v \<Rightarrow> ('k, 'v) btree_map \<Rightarrow> ('k, 'v) btree_map" where
  "bt_insert k v [] = [(k, v)]"
| "bt_insert k v ((k', v') # m) =
     (if k < k' then (k, v) # (k', v') # m
      else if k = k' then (k, v) # m
      else (k', v') # bt_insert k v m)"

fun bt_remove :: "'k::linorder \<Rightarrow> ('k, 'v) btree_map \<Rightarrow> ('k, 'v) btree_map" where
  "bt_remove k [] = []"
| "bt_remove k ((k', v') # m) = (if k = k' then m else (k', v') # bt_remove k m)"

definition bt_get :: "('k, 'v) btree_map \<Rightarrow> 'k \<Rightarrow> 'v option" where
  "bt_get m k = map_of m k"

text \<open>\<open>range(k..)\<close>: the entries at or after a key.\<close>

definition bt_range_from :: "'k::linorder \<Rightarrow> ('k, 'v) btree_map \<Rightarrow> ('k \<times> 'v) list" where
  "bt_range_from k m = filter (\<lambda>e. k \<le> fst e) m"

lemma bt_inv_Nil [simp]: "bt_inv []"
  by (simp add: bt_inv_def)

lemma bt_inv_Cons [simp]: "bt_inv ((k, v) # m) \<longleftrightarrow> (\<forall>k' \<in> fst ` set m. k < k') \<and> bt_inv m"
  by (auto simp: bt_inv_def)

lemma keys_bt_insert [simp]: "fst ` set (bt_insert k v m) = insert k (fst ` set m)"
  by (induction k v m rule: bt_insert.induct) auto

lemma set_bt_remove: "set (bt_remove k m) \<subseteq> set m"
  by (induction k m rule: bt_remove.induct) auto

lemma bt_inv_insert: "bt_inv m \<Longrightarrow> bt_inv (bt_insert k v m)"
  by (induction k v m rule: bt_insert.induct) (auto dest: order_less_trans)

lemma bt_inv_remove: "bt_inv m \<Longrightarrow> bt_inv (bt_remove k m)"
proof (induction k m rule: bt_remove.induct)
  case (2 k k' v' m)
  then show ?case
    using set_bt_remove [of k m] by auto
qed simp

lemma bt_get_insert: "bt_get (bt_insert k v m) = (bt_get m)(k \<mapsto> v)"
  by (induction k v m rule: bt_insert.induct) (auto simp: bt_get_def fun_eq_iff)

lemma bt_get_remove: "bt_inv m \<Longrightarrow> bt_get (bt_remove k m) = (bt_get m)(k := None)"
proof (induction k m rule: bt_remove.induct)
  case (2 k k' v' m)
  then have "map_of m k' = None"
    by (auto simp: map_of_eq_None_iff)
  with 2 show ?case
    by (simp add: bt_get_def fun_eq_iff)
qed (simp add: bt_get_def fun_eq_iff)

interpretation bt: ordered_map "[]" bt_insert bt_remove bt_get "\<lambda>m. m" bt_inv
proof unfold_locales
  show "bt_get [] = (\<lambda>_. None)"
    by (simp add: bt_get_def fun_eq_iff)
  show "sorted_wrt (<) (map fst m)" if "bt_inv m" for m :: "('a \<times> 'b) list"
    using that by (simp add: bt_inv_def)
  show "map_of m = bt_get m" if "bt_inv m" for m :: "('a \<times> 'b) list"
    by (simp add: bt_get_def fun_eq_iff)
qed (simp_all add: bt_inv_insert bt_inv_remove bt_get_insert bt_get_remove)

lemma bt_range_from_sorted:
  "bt_inv m \<Longrightarrow> sorted_wrt (\<lambda>a b. fst a < fst b) (bt_range_from k m)"
  unfolding bt_range_from_def by (rule bt.sorted_filter_entries)

lemma set_bt_range_from: "set (bt_range_from k m) = {e \<in> set m. k \<le> fst e}"
  by (auto simp: bt_range_from_def)

end
