(* ===== verification/File_System.thy ===== *)
theory File_System
  imports Prelude
begin

text \<open>
  The part of \<open>std::fs\<close> and \<open>std::path\<close> the storage crate uses. A path is the list
  of its components, the file system an association list from paths to contents, and the faults
  of the device are a parameter: an open or a write of a path fails when the fault record says
  so, and a failing write writes nothing.
\<close>

type_synonym path = "string list"
type_synonym fs = "(path \<times> bytes) list"

record io_faults =
  open_fails :: "path \<Rightarrow> bool"
  write_fails :: "path \<Rightarrow> bool"
  read_fails :: "path \<Rightarrow> bool"

definition no_faults :: io_faults where
  "no_faults = \<lparr>open_fails = (\<lambda>_. False), write_fails = (\<lambda>_. False), read_fails = (\<lambda>_. False)\<rparr>"

datatype io_error = NotFound path | DeviceError path | OtherIo string

definition path_join :: "path \<Rightarrow> string \<Rightarrow> path" where
  "path_join d f = d @ [f]"

definition fs_get :: "fs \<Rightarrow> path \<Rightarrow> bytes option" where
  "fs_get fs p = map_of fs p"

definition fs_exists :: "fs \<Rightarrow> path \<Rightarrow> bool" where
  "fs_exists fs p \<longleftrightarrow> fs_get fs p \<noteq> None"

definition fs_put :: "path \<Rightarrow> bytes \<Rightarrow> fs \<Rightarrow> fs" where
  "fs_put p b fs = (p, b) # filter (\<lambda>e. fst e \<noteq> p) fs"

definition fs_del :: "path \<Rightarrow> fs \<Rightarrow> fs" where
  "fs_del p fs = filter (\<lambda>e. fst e \<noteq> p) fs"

text \<open>The storage crate's error type (\<open>infralens-storage/src/error.rs\<close>).\<close>

datatype storage_error =
    Io io_error
  | WalCrcMismatch u64 u32 u32
  | WalTruncated u64
  | Serialisation string
  | ArrowErr string
  | ParquetErr string
  | PartitionNotFound string
  | StorageClosed
  | CompactionErr string

text \<open>\<open>fs::read\<close>, \<open>fs::write\<close> (create, truncate, write), \<open>fs::remove_file\<close>.\<close>

definition fs_read :: "io_faults \<Rightarrow> fs \<Rightarrow> path \<Rightarrow> io_error + bytes" where
  "fs_read io fs p =
     (case fs_get fs p of
        None \<Rightarrow> Inl (NotFound p)
      | Some b \<Rightarrow> if read_fails io p then Inl (DeviceError p) else Inr b)"

definition fs_write :: "io_faults \<Rightarrow> path \<Rightarrow> bytes \<Rightarrow> fs \<Rightarrow> io_error + fs" where
  "fs_write io p b fs =
     (if open_fails io p \<or> write_fails io p then Inl (DeviceError p) else Inr (fs_put p b fs))"

definition fs_remove :: "io_faults \<Rightarrow> path \<Rightarrow> fs \<Rightarrow> io_error + fs" where
  "fs_remove io p fs =
     (if \<not> fs_exists fs p then Inl (NotFound p)
      else if open_fails io p then Inl (DeviceError p) else Inr (fs_del p fs))"

text \<open>Opening for append creates a missing file; appending extends it.\<close>

definition fs_open_append :: "io_faults \<Rightarrow> path \<Rightarrow> fs \<Rightarrow> io_error + fs" where
  "fs_open_append io p fs =
     (if open_fails io p then Inl (DeviceError p)
      else Inr (case fs_get fs p of None \<Rightarrow> fs_put p [] fs | Some _ \<Rightarrow> fs))"

definition fs_append :: "io_faults \<Rightarrow> path \<Rightarrow> bytes \<Rightarrow> fs \<Rightarrow> io_error + fs" where
  "fs_append io p b fs =
     (if write_fails io p then Inl (DeviceError p)
      else Inr (fs_put p ((case fs_get fs p of None \<Rightarrow> [] | Some c \<Rightarrow> c) @ b) fs))"

text \<open>\<open>fs::read_dir\<close>: the paths directly below a directory.\<close>

definition fs_read_dir :: "fs \<Rightarrow> path \<Rightarrow> path list" where
  "fs_read_dir fs d = filter (\<lambda>p. p \<noteq> [] \<and> butlast p = d) (map fst fs)"

lemma no_faults_simps [simp]:
  "\<not> open_fails no_faults p" "\<not> write_fails no_faults p" "\<not> read_fails no_faults p"
  by (simp_all add: no_faults_def)

lemma fs_get_put [simp]: "fs_get (fs_put p b fs) q = (if q = p then Some b else fs_get fs q)"
proof (cases "q = p")
  case False
  then have "map_of (filter (\<lambda>e. fst e \<noteq> p) fs) q = map_of fs q"
    by (induction fs) auto
  with False show ?thesis by (simp add: fs_get_def fs_put_def)
qed (simp add: fs_get_def fs_put_def)

lemma fs_get_del [simp]: "fs_get (fs_del p fs) q = (if q = p then None else fs_get fs q)"
  by (induction fs) (auto simp: fs_get_def fs_del_def)

lemma fs_exists_put [simp]: "fs_exists (fs_put p b fs) q \<longleftrightarrow> q = p \<or> fs_exists fs q"
  by (simp add: fs_exists_def)

lemma fs_write_Inr:
  "fs_write io p b fs = Inr fs' \<longleftrightarrow> \<not> open_fails io p \<and> \<not> write_fails io p \<and> fs' = fs_put p b fs"
  by (auto simp: fs_write_def)

lemma fs_append_Inr:
  "fs_append io p b fs = Inr fs' \<longleftrightarrow>
     \<not> write_fails io p \<and> fs' = fs_put p ((case fs_get fs p of None \<Rightarrow> [] | Some c \<Rightarrow> c) @ b) fs"
  by (auto simp: fs_append_def)

lemma path_join_inject [simp]: "path_join d f = path_join d' f' \<longleftrightarrow> d = d' \<and> f = f'"
  by (simp add: path_join_def)

lemma in_fs_read_dir:
  "p \<in> set (fs_read_dir fs d) \<longleftrightarrow> fs_exists fs p \<and> (\<exists>f. p = path_join d f)"
proof -
  have "p \<in> fst ` set fs \<longleftrightarrow> fs_exists fs p"
    by (simp add: fs_exists_def fs_get_def map_of_eq_None_iff)
  moreover have "p \<noteq> [] \<and> butlast p = d \<longleftrightarrow> (\<exists>f. p = path_join d f)"
    by (auto simp: path_join_def) (metis append_butlast_last_id)
  ultimately show ?thesis
    by (auto simp: fs_read_dir_def)
qed

end
