(* ===== verification/Zone_Map.thy ===== *)
theory Zone_Map
  imports File_System
begin

text \<open>
  Zone maps (\<open>infralens-storage/src/zone_map.rs\<close>): the time range and row count of an
  SSTable, and the overlap test that time-range pruning rests on. The contract of that test,
  shared with the query catalog's partition statistics, is the locale \<open>time_index\<close>.
  \<open>bincode\<close> is a parameter.
\<close>

section \<open>The pruning contract\<close>

locale time_index =
  fixes lo hi :: "'z \<Rightarrow> u64"
    and overlaps :: "'z \<Rightarrow> u64 \<Rightarrow> u64 \<Rightarrow> bool"
  assumes overlaps_iff: "overlaps z s e \<longleftrightarrow> lo z \<le> e \<and> s \<le> hi z"
begin

definition covers :: "'z \<Rightarrow> u64 \<Rightarrow> bool" where
  "covers z t \<longleftrightarrow> lo z \<le> t \<and> t \<le> hi z"

text \<open>An index entry that covers a requested instant is never pruned.\<close>

lemma prune_sound: "covers z t \<Longrightarrow> s \<le> t \<Longrightarrow> t \<le> e \<Longrightarrow> overlaps z s e"
  by (auto simp: covers_def overlaps_iff)

lemma prune_complete:
  "covers z u \<Longrightarrow> s \<le> e \<Longrightarrow> overlaps z s e \<Longrightarrow> \<exists>t. s \<le> t \<and> t \<le> e \<and> covers z t"
proof -
  assume "covers z u" "s \<le> e" and ov: "overlaps z s e"
  then have "lo z \<le> hi z" by (auto simp: covers_def)
  then have "covers z (max s (lo z))" "s \<le> max s (lo z)" "max s (lo z) \<le> e"
    using ov \<open>s \<le> e\<close> by (auto simp: covers_def overlaps_iff)
  then show ?thesis by blast
qed

lemma prune_exact:
  "covers z u \<Longrightarrow> s \<le> e \<Longrightarrow> overlaps z s e \<longleftrightarrow> (\<exists>t. s \<le> t \<and> t \<le> e \<and> covers z t)"
  using prune_complete prune_sound by blast

lemma prune_filter:
  "z \<in> set zs \<Longrightarrow> covers z t \<Longrightarrow> s \<le> t \<Longrightarrow> t \<le> e \<Longrightarrow> z \<in> set (filter (\<lambda>z. overlaps z s e) zs)"
  by (simp add: prune_sound)

end

section \<open>Zone maps\<close>

record column_stats =
  min_value :: "string option"
  max_value :: "string option"
  null_count :: u64
  cs_row_count :: u64

record zone_map =
  min_timestamp_ns :: u64
  max_timestamp_ns :: u64
  row_count :: u64
  columns :: "(string \<times> column_stats) list"

definition zone_map_new :: zone_map where
  "zone_map_new = \<lparr>min_timestamp_ns = - 1, max_timestamp_ns = 0, row_count = 0, columns = []\<rparr>"

definition observe_timestamp :: "u64 \<Rightarrow> zone_map \<Rightarrow> zone_map" where
  "observe_timestamp ts zm =
     (let zm = (if ts < min_timestamp_ns zm then zm\<lparr>min_timestamp_ns := ts\<rparr> else zm);
          zm = (if max_timestamp_ns zm < ts then zm\<lparr>max_timestamp_ns := ts\<rparr> else zm)
      in zm\<lparr>row_count := row_count zm + 1\<rparr>)"

definition overlaps_time_range :: "zone_map \<Rightarrow> u64 \<Rightarrow> u64 \<Rightarrow> bool" where
  "overlaps_time_range zm start_ns end_ns \<longleftrightarrow>
     min_timestamp_ns zm \<le> end_ns \<and> start_ns \<le> max_timestamp_ns zm"

definition zone_map_write_to_file ::
  "(zone_map \<Rightarrow> string + bytes) \<Rightarrow> io_faults \<Rightarrow> zone_map \<Rightarrow> path \<Rightarrow> fs \<Rightarrow> io_error + fs" where
  "zone_map_write_to_file ser io zm p fs =
     and_then (map_err OtherIo (ser zm)) (\<lambda>b. fs_write io p b fs)"

definition zone_map_read_from_file ::
  "(bytes \<Rightarrow> string + zone_map) \<Rightarrow> io_faults \<Rightarrow> fs \<Rightarrow> path \<Rightarrow> io_error + zone_map" where
  "zone_map_read_from_file de io fs p =
     and_then (fs_read io fs p) (\<lambda>b. map_err OtherIo (de b))"

text \<open>Observing the rows of a table one after the other.\<close>

definition observe_all :: "u64 list \<Rightarrow> zone_map \<Rightarrow> zone_map" where
  "observe_all ts zm = fold observe_timestamp ts zm"

interpretation zm: time_index min_timestamp_ns max_timestamp_ns overlaps_time_range
  by unfold_locales (simp add: overlaps_time_range_def)

lemma observe_timestamp_simps:
  "min_timestamp_ns (observe_timestamp t z) = min t (min_timestamp_ns z)"
  "max_timestamp_ns (observe_timestamp t z) = max t (max_timestamp_ns z)"
  "row_count (observe_timestamp t z) = row_count z + 1"
  by (auto simp: observe_timestamp_def Let_def min_def max_def)

lemma observe_all_min: "min_timestamp_ns (observe_all ts z) = Min (insert (min_timestamp_ns z) (set ts))"
proof (induction ts arbitrary: z)
  case (Cons t ts)
  then show ?case
    by (cases "ts = []") (simp_all add: observe_all_def observe_timestamp_simps ac_simps)
qed (simp add: observe_all_def)

lemma observe_all_max: "max_timestamp_ns (observe_all ts z) = Max (insert (max_timestamp_ns z) (set ts))"
proof (induction ts arbitrary: z)
  case (Cons t ts)
  then show ?case
    by (cases "ts = []") (simp_all add: observe_all_def observe_timestamp_simps ac_simps)
qed (simp add: observe_all_def)

lemma observe_all_count: "row_count (observe_all ts z) = row_count z + word_of_nat (length ts)"
  by (induction ts arbitrary: z) (simp_all add: observe_all_def observe_timestamp_simps)

lemma observe_all_covers: "t \<in> set ts \<Longrightarrow> zm.covers (observe_all ts z) t"
  by (simp add: zm.covers_def observe_all_min observe_all_max)

lemma observe_all_tight:
  assumes "ts \<noteq> []"
  shows "min_timestamp_ns (observe_all ts zone_map_new) = Min (set ts)"
    "max_timestamp_ns (observe_all ts zone_map_new) = Max (set ts)"
proof -
  have "min (- 1) (Min (set ts)) = Min (set ts)"
    by (simp add: min.absorb2)
  then show "min_timestamp_ns (observe_all ts zone_map_new) = Min (set ts)"
    using assms by (simp add: observe_all_min zone_map_new_def)
  show "max_timestamp_ns (observe_all ts zone_map_new) = Max (set ts)"
    using assms by (simp add: observe_all_max zone_map_new_def)
qed

section \<open>Pruning\<close>

text \<open>
  A zone map built from the timestamps of a table's rows is tight and its overlap test
  prunes exactly: the range is the minimum and maximum of the rows, no row inside the requested
  interval is ever pruned away, and a table that survives overlaps the interval with its range.
\<close>

lemma zone_map_prunes_exactly:
  assumes "ts \<noteq> []" "s \<le> e"
  defines "z \<equiv> observe_all ts zone_map_new"
  shows "min_timestamp_ns z = Min (set ts) \<and> max_timestamp_ns z = Max (set ts)
    \<and> row_count z = word_of_nat (length ts)
    \<and> ((\<exists>t \<in> set ts. s \<le> t \<and> t \<le> e) \<longrightarrow> overlaps_time_range z s e)
    \<and> (overlaps_time_range z s e \<longleftrightarrow> (\<exists>t. s \<le> t \<and> t \<le> e \<and> Min (set ts) \<le> t \<and> t \<le> Max (set ts)))"
proof -
  note tight = observe_all_tight [OF assms(1), folded z_def]
  have "zm.covers z (hd ts)"
    using assms(1) observe_all_covers by (simp add: z_def)
  then have "overlaps_time_range z s e
       \<longleftrightarrow> (\<exists>t. s \<le> t \<and> t \<le> e \<and> Min (set ts) \<le> t \<and> t \<le> Max (set ts))"
    using zm.prune_exact [OF _ assms(2)] by (simp only: zm.covers_def tight)
  moreover have "(\<exists>t \<in> set ts. s \<le> t \<and> t \<le> e) \<longrightarrow> overlaps_time_range z s e"
    using observe_all_covers zm.prune_sound unfolding z_def by blast
  moreover have "row_count z = word_of_nat (length ts)"
    by (simp add: z_def observe_all_count zone_map_new_def)
  ultimately show ?thesis using tight by simp
qed

end
