(* ===== verification/Memtable.thy ===== *)
theory Memtable
  imports Ordered_Map Model Zone_Map
begin

text \<open>
  The in-memory sorted table (\<open>infralens-storage/src/memtable.rs\<close>): a \<open>BTreeMap\<close>
  from row keys to serialised records, with an atomic size and sequence counter. Row keys are a
  linear order (time, signal, sequence number). Draining a signal returns its records in time
  order and, within one timestamp, in insertion order. \<open>bincode\<close> is a parameter.
\<close>

section \<open>Serialisation\<close>

record bincode =
  ser_log :: "log_record \<Rightarrow> string + bytes"
  de_log :: "bytes \<Rightarrow> string + log_record"
  ser_metric :: "metric_point \<Rightarrow> string + bytes"
  de_metric :: "bytes \<Rightarrow> string + metric_point"
  ser_span :: "span_record \<Rightarrow> string + bytes"
  de_span :: "bytes \<Rightarrow> string + span_record"
  ser_zone_map :: "zone_map \<Rightarrow> string + bytes"
  de_zone_map :: "bytes \<Rightarrow> string + zone_map"
  ser_f64_vec :: "f64 list \<Rightarrow> string + bytes"
  ser_u64_vec :: "u64 list \<Rightarrow> string + bytes"

text \<open>What the storage crate relies on: decoding what was encoded gives the value back.\<close>

definition bincode_roundtrips :: "bincode \<Rightarrow> bool" where
  "bincode_roundtrips B \<longleftrightarrow>
     (\<forall>r b. ser_log B r = Inr b \<longrightarrow> de_log B b = Inr r)
   \<and> (\<forall>r b. ser_metric B r = Inr b \<longrightarrow> de_metric B b = Inr r)
   \<and> (\<forall>r b. ser_span B r = Inr b \<longrightarrow> de_span B b = Inr r)
   \<and> (\<forall>z b. ser_zone_map B z = Inr b \<longrightarrow> de_zone_map B b = Inr z)"

text \<open>An instance for finitely many known values, numbered by position.\<close>

definition table_ser :: "'a list \<Rightarrow> 'a \<Rightarrow> string + bytes" where
  "table_ser xs x = (case position_of x xs of None \<Rightarrow> Inl ''unsupported'' | Some i \<Rightarrow> Inr (replicate i 0))"

definition table_de :: "'a list \<Rightarrow> bytes \<Rightarrow> string + 'a" where
  "table_de xs b = (if length b < length xs then Inr (xs ! length b) else Inl ''invalid'')"

definition sample_bincode ::
  "log_record list \<Rightarrow> metric_point list \<Rightarrow> span_record list \<Rightarrow> zone_map list \<Rightarrow> bincode" where
  "sample_bincode ls ms ss zs =
     \<lparr>ser_log = table_ser ls, de_log = table_de ls, ser_metric = table_ser ms, de_metric = table_de ms,
      ser_span = table_ser ss, de_span = table_de ss, ser_zone_map = table_ser zs, de_zone_map = table_de zs,
      ser_f64_vec = (\<lambda>_. Inr []), ser_u64_vec = (\<lambda>_. Inr [])\<rparr>"

lemma table_roundtrip: "table_ser xs x = Inr b \<Longrightarrow> table_de xs b = Inr x"
  by (auto simp: table_ser_def table_de_def dest: position_of_Some split: option.splits)

lemma sample_bincode_roundtrips: "bincode_roundtrips (sample_bincode ls ms ss zs)"
  by (simp add: bincode_roundtrips_def sample_bincode_def table_roundtrip)

section \<open>Row keys\<close>

datatype row_key = RowKey (rk_timestamp_ns: u64) (rk_signal_type: u8) (rk_sequence: u64)

text \<open>The derived order: field by field, in the order of their declaration.\<close>

definition row_key_le :: "row_key \<Rightarrow> row_key \<Rightarrow> bool" where
  "row_key_le a b \<longleftrightarrow>
     rk_timestamp_ns a < rk_timestamp_ns b
   \<or> rk_timestamp_ns a = rk_timestamp_ns b
     \<and> (rk_signal_type a < rk_signal_type b
        \<or> rk_signal_type a = rk_signal_type b \<and> rk_sequence a \<le> rk_sequence b)"

instantiation row_key :: linorder
begin

definition less_eq_row_key :: "row_key \<Rightarrow> row_key \<Rightarrow> bool" where
  "less_eq_row_key a b \<longleftrightarrow> row_key_le a b"

definition less_row_key :: "row_key \<Rightarrow> row_key \<Rightarrow> bool" where
  "less_row_key a b \<longleftrightarrow> a \<le> b \<and> \<not> b \<le> (a :: row_key)"

instance
  by standard (auto simp: less_eq_row_key_def row_key_le_def less_row_key_def intro: row_key.expand)

end

lemma less_row_key_iff:
  "a < b \<longleftrightarrow>
     rk_timestamp_ns a < rk_timestamp_ns b
   \<or> rk_timestamp_ns a = rk_timestamp_ns b
     \<and> (rk_signal_type a < rk_signal_type b
        \<or> rk_signal_type a = rk_signal_type b \<and> rk_sequence a < rk_sequence b)"
  by (auto simp: less_row_key_def less_eq_row_key_def row_key_le_def)

section \<open>The table\<close>

record memtable =
  inner :: "(row_key, bytes) btree_map"
  mt_size_bytes :: u64
  max_size :: u64
  sequence :: u64

definition memtable_new :: "u64 \<Rightarrow> memtable" where
  "memtable_new max_size_bytes =
     \<lparr>inner = [], mt_size_bytes = 0, max_size = max_size_bytes, sequence = 0\<rparr>"

text \<open>\<open>size_of::<RowKey>()\<close>: two words and a byte, padded to three words.\<close>

definition row_key_size :: nat where "row_key_size = 24"

definition memtable_insert :: "u64 \<Rightarrow> u8 \<Rightarrow> bytes \<Rightarrow> memtable \<Rightarrow> memtable" where
  "memtable_insert timestamp_ns signal_type data mt =
     (let seq = sequence mt;
          key = RowKey timestamp_ns signal_type seq;
          size = row_key_size + length data
      in mt\<lparr>inner := bt_insert key data (inner mt),
            sequence := seq + 1,
            mt_size_bytes := mt_size_bytes mt + word_of_nat size\<rparr>)"

definition memtable_write_log :: "bincode \<Rightarrow> log_record \<Rightarrow> memtable \<Rightarrow> storage_error + memtable" where
  "memtable_write_log B r mt =
     and_then (map_err Serialisation (ser_log B r)) (\<lambda>data.
       Inr (memtable_insert (lr_timestamp_ns r) (signal_as_u8 Log) data mt))"

definition memtable_write_metric :: "bincode \<Rightarrow> metric_point \<Rightarrow> memtable \<Rightarrow> storage_error + memtable" where
  "memtable_write_metric B r mt =
     and_then (map_err Serialisation (ser_metric B r)) (\<lambda>data.
       Inr (memtable_insert (mp_timestamp_ns r) (signal_as_u8 Metric) data mt))"

definition memtable_write_span :: "bincode \<Rightarrow> span_record \<Rightarrow> memtable \<Rightarrow> storage_error + memtable" where
  "memtable_write_span B r mt =
     and_then (map_err Serialisation (ser_span B r)) (\<lambda>data.
       Inr (memtable_insert (sr_start_time_ns r) (signal_as_u8 Span) data mt))"

definition memtable_used_bytes :: "memtable \<Rightarrow> u64" where
  "memtable_used_bytes mt = mt_size_bytes mt"

definition memtable_is_full :: "memtable \<Rightarrow> bool" where
  "memtable_is_full mt \<longleftrightarrow> max_size mt \<le> memtable_used_bytes mt"

definition memtable_len :: "memtable \<Rightarrow> nat" where
  "memtable_len mt = length (inner mt)"

definition memtable_is_empty :: "memtable \<Rightarrow> bool" where
  "memtable_is_empty mt \<longleftrightarrow> inner mt = []"

definition drain_signal :: "u8 \<Rightarrow> memtable \<Rightarrow> (row_key \<times> bytes) list" where
  "drain_signal signal_type mt = filter (\<lambda>e. rk_signal_type (fst e) = signal_type) (inner mt)"

definition iter_all :: "memtable \<Rightarrow> (row_key \<times> bytes) list" where
  "iter_all mt = inner mt"

text \<open>A table after a sequence of writes, each a timestamp, a signal and the record's bytes.\<close>

type_synonym mt_write = "u64 \<times> u8 \<times> bytes"

definition memtable_insert_all :: "mt_write list \<Rightarrow> memtable \<Rightarrow> memtable" where
  "memtable_insert_all ws mt = fold (\<lambda>(t, s, d). memtable_insert t s d) ws mt"

section \<open>Invariant\<close>

definition memtable_wf :: "memtable \<Rightarrow> bool" where
  "memtable_wf mt \<longleftrightarrow>
     bt_inv (inner mt)
   \<and> (\<forall>e \<in> set (inner mt). rk_sequence (fst e) < sequence mt)
   \<and> length (inner mt) = unat (sequence mt)
   \<and> mt_size_bytes mt = word_of_nat (\<Sum>e \<leftarrow> inner mt. row_key_size + length (snd e))"

definition memtable_room :: "memtable \<Rightarrow> nat \<Rightarrow> bool" where
  "memtable_room mt n \<longleftrightarrow> unat (sequence mt) + n < 2 ^ 64"

text \<open>The abstract contents: the multiset of writes, without sequence numbers.\<close>

definition memtable_abs :: "memtable \<Rightarrow> mt_write multiset" where
  "memtable_abs mt =
     image_mset (\<lambda>(k, d). (rk_timestamp_ns k, rk_signal_type k, d)) (mset (inner mt))"

lemma unat_Suc_word: "unat w + 1 < 2 ^ 64 \<Longrightarrow> unat (w + 1) = unat w + 1" for w :: u64
  by (subst unat_add_lem [THEN iffD1]) simp_all

lemma memtable_wf_new [simp]: "memtable_wf (memtable_new m)"
  by (simp add: memtable_wf_def memtable_new_def)

lemma memtable_abs_new [simp]: "memtable_abs (memtable_new m) = {#}"
  by (simp add: memtable_abs_def memtable_new_def)

lemma memtable_room_new [simp]: "memtable_room (memtable_new m) n \<longleftrightarrow> n < 2 ^ 64"
  by (simp add: memtable_room_def memtable_new_def)

lemma memtable_new_max_size [simp]: "max_size (memtable_new m) = m"
  by (simp add: memtable_new_def)

lemma memtable_fresh:
  assumes "memtable_wf mt"
  shows "bt_get (inner mt) (RowKey t s (sequence mt)) = None"
  using assms by (force simp: memtable_wf_def bt_get_def map_of_eq_None_iff)

lemma mset_inner_insert:
  assumes "memtable_wf mt"
  shows "mset (inner (memtable_insert t s d mt))
    = add_mset (RowKey t s (sequence mt), d) (mset (inner mt))"
  using assms bt.mset_entries_insert_fresh [OF _ memtable_fresh [OF assms]]
  by (simp add: memtable_insert_def memtable_wf_def Let_def)

lemma memtable_insert_fields [simp]:
  "sequence (memtable_insert t s d mt) = sequence mt + 1"
  "max_size (memtable_insert t s d mt) = max_size mt"
  "mt_size_bytes (memtable_insert t s d mt) = mt_size_bytes mt + word_of_nat (row_key_size + length d)"
  by (simp_all add: memtable_insert_def Let_def)

lemma memtable_wf_insert:
  assumes wf: "memtable_wf mt" and room: "memtable_room mt 1"
  shows "memtable_wf (memtable_insert t s d mt)"
proof -
  let ?mt = "memtable_insert t s d mt" and ?e = "(RowKey t s (sequence mt), d)"
  have seq: "unat (sequence mt + 1) = unat (sequence mt) + 1"
    using room by (intro unat_Suc_word) (simp add: memtable_room_def)
  note mset = mset_inner_insert [OF wf, of t s d]
  have "set (inner ?mt) = insert ?e (set (inner mt))"
    using arg_cong [OF mset, of set_mset] by simp
  then have "\<forall>e \<in> set (inner ?mt). rk_sequence (fst e) < sequence mt + 1"
    using wf seq by (auto simp: memtable_wf_def word_less_nat_alt)
  moreover have "length (inner ?mt) = unat (sequence mt + 1)"
    using arg_cong [OF mset, of size] wf seq by (simp add: memtable_wf_def)
  moreover have "(\<Sum>e \<leftarrow> inner ?mt. row_key_size + length (snd e))
      = row_key_size + length d + (\<Sum>e \<leftarrow> inner mt. row_key_size + length (snd e))"
    using arg_cong [OF mset, of "\<lambda>M. \<Sum>e \<in># M. row_key_size + length (snd e)"]
    by (simp flip: sum_mset_sum_list)
  moreover have "bt_inv (inner ?mt)"
    using wf by (simp add: memtable_wf_def memtable_insert_def Let_def bt_inv_insert)
  ultimately show ?thesis
    using wf by (simp add: memtable_wf_def)
qed

text \<open>The refinement: an insertion adds one write to the multiset.\<close>

lemma memtable_abs_insert:
  "memtable_wf mt \<Longrightarrow> memtable_abs (memtable_insert t s d mt) = add_mset (t, s, d) (memtable_abs mt)"
  by (simp add: memtable_abs_def mset_inner_insert)

lemma memtable_insert_all_wf:
  assumes "memtable_wf mt" "memtable_room mt (length ws)"
  shows "memtable_wf (memtable_insert_all ws mt)
    \<and> memtable_abs (memtable_insert_all ws mt) = memtable_abs mt + mset ws
    \<and> max_size (memtable_insert_all ws mt) = max_size mt"
  using assms
proof (induction ws arbitrary: mt)
  case (Cons w ws)
  obtain t s d where w: "w = (t, s, d)" by (cases w)
  let ?mt = "memtable_insert t s d mt"
  have "memtable_room mt 1" using Cons.prems by (simp add: memtable_room_def)
  then have wf: "memtable_wf ?mt" using Cons.prems memtable_wf_insert by blast
  have "unat (sequence ?mt) = unat (sequence mt) + 1"
    using Cons.prems by (simp add: unat_Suc_word memtable_room_def)
  then have "memtable_room ?mt (length ws)"
    using Cons.prems by (simp add: memtable_room_def)
  from Cons.IH [OF wf this] show ?case
    using Cons.prems by (simp add: memtable_insert_all_def w memtable_abs_insert)
qed (simp add: memtable_insert_all_def)

section \<open>Draining in order\<close>

text \<open>The rows of a fresh table in insertion order, with the sequence numbers they get.\<close>

definition numbered :: "mt_write list \<Rightarrow> (row_key \<times> bytes) list" where
  "numbered ws = map (\<lambda>(i, t, s, d). (RowKey t s (word_of_nat i), d)) (enumerate 0 ws)"

lemma memtable_insert_all_numbered:
  "length ws < 2 ^ 64 \<Longrightarrow>
     mset (inner (memtable_insert_all ws (memtable_new m))) = mset (numbered ws)
   \<and> sequence (memtable_insert_all ws (memtable_new m)) = word_of_nat (length ws)"
proof (induction ws rule: rev_induct)
  case (snoc w ws)
  obtain t s d where w: "w = (t, s, d)" by (cases w)
  have "memtable_wf (memtable_insert_all ws (memtable_new m))"
    using memtable_insert_all_wf [of "memtable_new m" ws] snoc.prems by simp
  with snoc show ?case
    by (simp add: memtable_insert_all_def w mset_inner_insert numbered_def enumerate_append_eq)
qed (simp add: memtable_insert_all_def memtable_new_def numbered_def)

lemma numbered_sequences:
  "length ws < 2 ^ 64 \<Longrightarrow> sorted_wrt (\<lambda>a b. rk_sequence (fst a) < rk_sequence (fst b)) (numbered ws)"
  by (auto simp: numbered_def sorted_wrt_iff_nth_less nth_enumerate_eq word_less_nat_alt
      unsigned_of_nat take_bit_nat_eq_self split: prod.splits)

lemma strictly_sorted_unique:
  fixes f :: "'a \<Rightarrow> 'b::linorder"
  assumes "sorted_wrt (\<lambda>a b. f a < f b) xs" "sorted_wrt (\<lambda>a b. f a < f b) ys" "set xs = set ys"
  shows "xs = ys"
proof (rule map_inj_on)
  have "sorted_wrt (<) (map f xs)" "sorted_wrt (<) (map f ys)"
    using assms by (simp_all add: sorted_wrt_map)
  then show "map f xs = map f ys"
    using assms(3) by (intro strict_sorted_equal) simp_all
  have "distinct (map f xs)"
    using assms(1) by (simp add: strict_sorted_iff flip: sorted_wrt_map)
  then show "inj_on f (set xs \<union> set ys)"
    using assms(3) by (simp add: distinct_map)
qed

lemma drain_signal_sort_key:
  assumes "length ws < 2 ^ 64"
  shows "drain_signal s (memtable_insert_all ws (memtable_new m))
    = sort_key (\<lambda>e. rk_timestamp_ns (fst e)) (filter (\<lambda>e. rk_signal_type (fst e) = s) (numbered ws))"
    (is "?ys = sort_key ?f ?xs")
proof (rule properties_for_sort_key [symmetric])
  let ?mt = "memtable_insert_all ws (memtable_new m)"
  have mset: "mset (inner ?mt) = mset (numbered ws)"
    using memtable_insert_all_numbered [OF assms] by blast
  then show "mset ?ys = mset ?xs"
    by (simp add: drain_signal_def mset_filter)
  have "memtable_wf ?mt"
    using memtable_insert_all_wf [of "memtable_new m" ws] assms by simp
  then have sorted: "sorted_wrt (\<lambda>a b. fst a < fst b) ?ys"
    unfolding drain_signal_def by (intro bt.sorted_filter_entries) (simp add: memtable_wf_def)
  then show "sorted (map ?f ?ys)"
    unfolding sorted_map
    by (rule sorted_wrt_mono_rel [rotated]) (auto simp: less_row_key_iff)
  show "filter (\<lambda>x. ?f k = ?f x) ?ys = filter (\<lambda>x. ?f k = ?f x) ?xs" if "k \<in> set ?ys" for k
  proof (rule strictly_sorted_unique [where f = "\<lambda>e. rk_sequence (fst e)"])
    have "sorted_wrt (\<lambda>a b. fst a < fst b) (filter (\<lambda>x. ?f k = ?f x) ?ys)"
      using sorted by (rule sorted_wrt_filter)
    then show "sorted_wrt (\<lambda>a b. rk_sequence (fst a) < rk_sequence (fst b)) (filter (\<lambda>x. ?f k = ?f x) ?ys)"
      by (rule sorted_wrt_mono_rel [rotated]) (auto simp: less_row_key_iff drain_signal_def)
    show "sorted_wrt (\<lambda>a b. rk_sequence (fst a) < rk_sequence (fst b)) (filter (\<lambda>x. ?f k = ?f x) ?xs)"
      using numbered_sequences [OF assms] by (intro sorted_wrt_filter)
    show "set (filter (\<lambda>x. ?f k = ?f x) ?ys) = set (filter (\<lambda>x. ?f k = ?f x) ?xs)"
      using mset_eq_setD [OF mset] by (auto simp: drain_signal_def)
  qed
qed

text \<open>Sorting commutes with forgetting the sequence numbers.\<close>

lemma sort_key_map: "sort_key f (map g xs) = map g (sort_key (\<lambda>x. f (g x)) xs)"
proof -
  have insort: "insort_key f (g x) (map g ys) = map g (insort_key (\<lambda>x. f (g x)) x ys)" for x ys
    by (induction ys) auto
  show ?thesis by (induction xs) (simp_all add: insort)
qed

lemma numbered_writes:
  "map (\<lambda>(k, d). (rk_timestamp_ns k, rk_signal_type k, d)) (numbered ws) = ws"
  by (rule nth_equalityI) (auto simp: numbered_def nth_enumerate_eq split: prod.splits)

lemma numbered_data: "map snd (numbered ws) = map (\<lambda>w. snd (snd w)) ws"
  by (rule nth_equalityI) (auto simp: numbered_def nth_enumerate_eq split: prod.splits)

section \<open>Properties\<close>

text \<open>
  C14. Draining a signal from a table filled by a sequence of writes returns exactly the
  writes of that signal, stably sorted by timestamp: no write is lost or overwritten, other
  signals do not leak in, time ascends, and writes with equal timestamps keep their order.
\<close>

theorem memtable_drain_stable_sorted:
  assumes "length ws < 2 ^ 64"
  shows "map (\<lambda>(k, d). (rk_timestamp_ns k, rk_signal_type k, d))
      (drain_signal s (memtable_insert_all ws (memtable_new m)))
    = sort_key fst (filter (\<lambda>w. fst (snd w) = s) ws)"
proof -
  let ?g = "\<lambda>(k, d). (rk_timestamp_ns k, rk_signal_type k, d)"
  have "filter (\<lambda>w. fst (snd w) = s) ws
    = map ?g (filter (\<lambda>e. rk_signal_type (fst e) = s) (numbered ws))"
    by (subst numbered_writes [of ws, symmetric]) (simp add: filter_map comp_def case_prod_beta)
  then show ?thesis
    by (simp add: drain_signal_sort_key [OF assms] sort_key_map case_prod_beta)
qed

theorem memtable_drain_stable_sorted_witness:
  "map (\<lambda>(k, d). (rk_timestamp_ns k, rk_signal_type k, d))
     (drain_signal 0 (memtable_insert_all [(30, 0, [1]), (10, 0, [2]), (10, 1, [3]), (10, 0, [4])]
        (memtable_new 64)))
   = [(10, 0, [2]), (10, 0, [4]), (30, 0, [1])]"
  by (subst memtable_drain_stable_sorted) simp_all

text \<open>
  The counters of a table are exact: after a sequence of writes its length is the number
  of writes, its size is the sum of the key and data sizes, and it reports full exactly when that
  sum has reached the configured size.
\<close>

lemma memtable_accounting:
  fixes ws :: "mt_write list"
  defines "bytes_written \<equiv> (\<Sum>w \<leftarrow> ws. 24 + length (snd (snd w)))"
  assumes "length ws < 2 ^ 64" "bytes_written < 2 ^ 64"
  shows "memtable_len (memtable_insert_all ws (memtable_new m)) = length ws
    \<and> unat (memtable_used_bytes (memtable_insert_all ws (memtable_new m))) = bytes_written
    \<and> (memtable_is_full (memtable_insert_all ws (memtable_new m)) \<longleftrightarrow> unat m \<le> bytes_written)"
proof -
  let ?mt = "memtable_insert_all ws (memtable_new m)"
  have wf: "memtable_wf ?mt" and max: "max_size ?mt = m"
    using memtable_insert_all_wf [of "memtable_new m" ws] assms(2) by simp_all
  have mset: "mset (inner ?mt) = mset (numbered ws)"
    using memtable_insert_all_numbered [OF assms(2)] by blast
  have "(\<Sum>e \<leftarrow> inner ?mt. row_key_size + length (snd e)) = (\<Sum>e \<leftarrow> numbered ws. row_key_size + length (snd e))"
    using arg_cong [OF mset, of "\<lambda>M. \<Sum>e \<in># M. row_key_size + length (snd e)"]
    by (simp flip: sum_mset_sum_list)
  also have "\<dots> = (\<Sum>d \<leftarrow> map snd (numbered ws). row_key_size + length d)"
    by (simp add: comp_def)
  also have "\<dots> = bytes_written"
    unfolding numbered_data bytes_written_def row_key_size_def by (simp add: comp_def)
  finally have "mt_size_bytes ?mt = word_of_nat bytes_written"
    using wf by (simp add: memtable_wf_def)
  then have "unat (mt_size_bytes ?mt) = bytes_written"
    using assms(3) by (simp add: unsigned_of_nat take_bit_nat_eq_self)
  moreover have "length (inner ?mt) = length ws"
    using arg_cong [OF mset, of size] by (simp add: numbered_def)
  ultimately show ?thesis
    using max by (simp add: memtable_len_def memtable_used_bytes_def memtable_is_full_def word_le_nat_alt)
qed

end
