(* ===== verification/Sstable.thy ===== *)
theory Sstable
  imports Arrow Bloom Memtable
begin

text \<open>
  SSTables (\<open>infralens-storage/src/sstable.rs\<close>): file names, the record-batch builders of
  the three signals, the writers that produce a Parquet file, a bloom filter and a zone map, and
  the reader. \<open>serde_json\<close>, \<open>bincode\<close>, Arrow's batch constructor, Parquet, the hasher
  and the device are parameters, gathered in the record \<open>storage_env\<close>.
\<close>

section \<open>The environment\<close>

record json_ops =
  json_value :: "any_value \<Rightarrow> string + string"
  json_attrs :: "attrs \<Rightarrow> string + string"
  json_events :: "span_event list \<Rightarrow> string + string"
  json_links :: "span_link list \<Rightarrow> string + string"

record 'w storage_env =
  env_io :: io_faults
  env_fp :: fp_ops
  env_hash :: "bytes \<Rightarrow> u64"
  env_crc :: "bytes \<Rightarrow> u32"
  env_bincode :: bincode
  env_json :: json_ops
  env_try_new :: try_new
  env_parquet :: "'w parquet_ops"
  env_utc_hour :: "i64 \<Rightarrow> string"

section \<open>File names and metadata\<close>

definition sst_stem :: "u64 \<Rightarrow> string" where
  "sst_stem seq = pad_zeros 6 (dec_string (unat seq))"

definition parquet_path :: "path \<Rightarrow> u64 \<Rightarrow> path" where
  "parquet_path dir seq = path_join dir (sst_stem seq @ ''.parquet'')"

definition bloom_path :: "path \<Rightarrow> u64 \<Rightarrow> path" where
  "bloom_path dir seq = path_join dir (sst_stem seq @ ''.bloom'')"

definition zonemap_path :: "path \<Rightarrow> u64 \<Rightarrow> path" where
  "zonemap_path dir seq = path_join dir (sst_stem seq @ ''.zonemap'')"

record sstable_meta =
  sst_seq :: u64
  sst_signal :: signal_type
  sst_dir :: path
  sst_zone_map :: zone_map

definition meta_parquet_path :: "sstable_meta \<Rightarrow> path" where
  "meta_parquet_path m = parquet_path (sst_dir m) (sst_seq m)"

definition meta_bloom_path :: "sstable_meta \<Rightarrow> path" where
  "meta_bloom_path m = bloom_path (sst_dir m) (sst_seq m)"

definition meta_zonemap_path :: "sstable_meta \<Rightarrow> path" where
  "meta_zonemap_path m = zonemap_path (sst_dir m) (sst_seq m)"

section \<open>Record-batch builders\<close>

definition ok_opt :: "'e + 'a \<Rightarrow> 'a option" where
  "ok_opt r = (case r of Inl _ \<Rightarrow> None | Inr a \<Rightarrow> Some a)"

definition non_empty :: "string \<Rightarrow> string option" where
  "non_empty s = (if s = [] then None else Some s)"

definition json_opt :: "json_ops \<Rightarrow> any_value option \<Rightarrow> string option" where
  "json_opt J v = (case v of None \<Rightarrow> None | Some a \<Rightarrow> ok_opt (json_value J a))"

definition json_map :: "json_ops \<Rightarrow> attrs \<Rightarrow> string option" where
  "json_map J m = (if m = [] then None else ok_opt (json_attrs J m))"

definition log_columns :: "json_ops \<Rightarrow> log_record list \<Rightarrow> arrow_array list" where
  "log_columns J rs =
     [UInt64Array (map (\<lambda>r. Some (lr_timestamp_ns r)) rs),
      UInt64Array (map (\<lambda>r. Some (lr_observed_timestamp_ns r)) rs),
      BinaryArray (map lr_trace_id rs),
      BinaryArray (map lr_span_id rs),
      Int32Array (map (\<lambda>r. Some (lr_severity_number r)) rs),
      StringArray (map (\<lambda>r. non_empty (lr_severity_text r)) rs),
      StringArray (map (\<lambda>r. json_opt J (lr_body r)) rs),
      StringArray (map (\<lambda>r. json_map J (lr_attributes r)) rs),
      StringArray (map (\<lambda>r. json_map J (lr_resource_attributes r)) rs),
      StringArray (map (\<lambda>r. non_empty (sc_name (lr_scope r))) rs),
      StringArray (map (\<lambda>r. non_empty (sc_version (lr_scope r))) rs),
      StringArray (map (\<lambda>r. non_empty (lr_schema_url r)) rs)]"

definition build_log_batch ::
  "try_new \<Rightarrow> json_ops \<Rightarrow> log_record list \<Rightarrow> schema \<Rightarrow> storage_error + record_batch" where
  "build_log_batch tn J records sch = map_err ArrowErr (tn sch (log_columns J records))"

fun metric_type_id :: "metric_type \<Rightarrow> int" where
  "metric_type_id MT_Gauge = 0"
| "metric_type_id (MT_Sum _ _) = 1"
| "metric_type_id (MT_Histogram _) = 2"
| "metric_type_id (MT_ExponentialHistogram _) = 3"
| "metric_type_id MT_Summary = 4"

definition or_default :: "'e + bytes \<Rightarrow> bytes" where
  "or_default r = (case r of Inl _ \<Rightarrow> [] | Inr b \<Rightarrow> b)"

definition metric_columns :: "bincode \<Rightarrow> json_ops \<Rightarrow> metric_point list \<Rightarrow> arrow_array list" where
  "metric_columns B J rs =
     [UInt64Array (map (\<lambda>r. Some (mp_timestamp_ns r)) rs),
      UInt64Array (map (\<lambda>r. Some (mp_start_timestamp_ns r)) rs),
      StringArray (map (\<lambda>r. Some (mp_name r)) rs),
      StringArray (map (\<lambda>r. non_empty (mp_description r)) rs),
      StringArray (map (\<lambda>r. non_empty (mp_unit r)) rs),
      Int8Array (map (\<lambda>r. Some (metric_type_id (mp_metric_type r))) rs),
      Float64Array (map mp_value_double rs),
      Int64Array (map mp_value_int rs),
      UInt64Array (map (\<lambda>r. map_option hd_count (mp_histogram r)) rs),
      Float64Array (map (\<lambda>r. Option.bind (mp_histogram r) hd_sum) rs),
      BinaryArray (map (\<lambda>r. map_option (\<lambda>h. or_default (ser_f64_vec B (hd_explicit_bounds h))) (mp_histogram r)) rs),
      BinaryArray (map (\<lambda>r. map_option (\<lambda>h. or_default (ser_u64_vec B (hd_bucket_counts h))) (mp_histogram r)) rs),
      StringArray (map (\<lambda>r. json_map J (mp_attributes r)) rs),
      StringArray (map (\<lambda>r. json_map J (mp_resource_attributes r)) rs),
      StringArray (map (\<lambda>r. non_empty (sc_name (mp_scope r))) rs),
      StringArray (map (\<lambda>r. non_empty (sc_version (mp_scope r))) rs),
      StringArray (map (\<lambda>r. non_empty (mp_schema_url r)) rs)]"

definition build_metric_batch ::
  "try_new \<Rightarrow> bincode \<Rightarrow> json_ops \<Rightarrow> metric_point list \<Rightarrow> schema \<Rightarrow> storage_error + record_batch" where
  "build_metric_batch tn B J records sch = map_err ArrowErr (tn sch (metric_columns B J records))"

definition span_columns :: "json_ops \<Rightarrow> span_record list \<Rightarrow> arrow_array list" where
  "span_columns J rs =
     [BinaryArray (map (\<lambda>r. Some (sr_trace_id r)) rs),
      BinaryArray (map (\<lambda>r. Some (sr_span_id r)) rs),
      BinaryArray (map sr_parent_span_id rs),
      StringArray (map (\<lambda>r. Some (sr_name r)) rs),
      Int32Array (map (\<lambda>r. Some (sr_kind r)) rs),
      UInt64Array (map (\<lambda>r. Some (sr_start_time_ns r)) rs),
      UInt64Array (map (\<lambda>r. Some (sr_end_time_ns r)) rs),
      UInt64Array (map (\<lambda>r. Some (sr_duration_ns r)) rs),
      Int32Array (map (\<lambda>r. Some (sr_status_code r)) rs),
      StringArray (map (\<lambda>r. non_empty (sr_status_message r)) rs),
      StringArray (map (\<lambda>r. json_map J (sr_attributes r)) rs),
      StringArray (map (\<lambda>r. json_map J (sr_resource_attributes r)) rs),
      StringArray (map (\<lambda>r. non_empty (sc_name (sr_scope r))) rs),
      StringArray (map (\<lambda>r. non_empty (sc_version (sr_scope r))) rs),
      StringArray (map (\<lambda>r. ok_opt (json_events J (sr_events r))) rs),
      StringArray (map (\<lambda>r. ok_opt (json_links J (sr_links r))) rs),
      StringArray (map (\<lambda>r. non_empty (sr_schema_url r)) rs)]"

definition build_span_batch ::
  "try_new \<Rightarrow> json_ops \<Rightarrow> span_record list \<Rightarrow> schema \<Rightarrow> storage_error + record_batch" where
  "build_span_batch tn J records sch = map_err ArrowErr (tn sch (span_columns J records))"

section \<open>Writer and reader\<close>

definition as_bytes :: "string \<Rightarrow> bytes" where
  "as_bytes s = map (\<lambda>c. of_char c) s"

definition create_parquet ::
  "'w storage_env \<Rightarrow> schema \<Rightarrow> record_batch list \<Rightarrow> path \<Rightarrow> fs \<Rightarrow> fs \<times> (storage_error + unit)" where
  "create_parquet E sch batches p fs =
     (if open_fails (env_io E) p then (fs, Inl (Io (DeviceError p)))
      else case pq_encode (env_parquet E) sch batches of
        Inl e \<Rightarrow> (fs_put p (pq_torn (env_parquet E)) fs, Inl (ParquetErr e))
      | Inr b \<Rightarrow>
          if write_fails (env_io E) p
          then (fs_put p (pq_torn (env_parquet E)) fs, Inl (ParquetErr ''write failed''))
          else (fs_put p b fs, Inr ()))"

definition write_parquet ::
  "'w storage_env \<Rightarrow> record_batch \<Rightarrow> path \<Rightarrow> fs \<Rightarrow> fs \<times> (storage_error + unit)" where
  "write_parquet E batch p fs = create_parquet E (rb_schema batch) [batch] p fs"

text \<open>The common part of the three writers: the zone map observes the timestamps, the filter gets
  the keys, then the three files are written. \<open>None\<close> is a panic of the filter.\<close>

definition write_sstable ::
  "'w storage_env \<Rightarrow> signal_type \<Rightarrow> (storage_error + record_batch) \<Rightarrow> u64 list \<Rightarrow> bytes list \<Rightarrow>
   path \<Rightarrow> u64 \<Rightarrow> fs \<Rightarrow> (fs \<times> (storage_error + sstable_meta)) option" where
  "write_sstable E sig batch_r tss keys dir seq fs =
     (case batch_r of
        Inl e \<Rightarrow> Some (fs, Inl e)
      | Inr batch \<Rightarrow>
          let zm = observe_all tss zone_map_new;
              bf = bloom_new (env_fp E) (word_of_nat (max (length keys) 1)) (fp_lit (env_fp E) ''0.02'') in
          case bloom_insert_all (env_hash E) keys bf of
            None \<Rightarrow> None
          | Some bf \<Rightarrow>
              (case write_parquet E batch (parquet_path dir seq) fs of
                 (fs1, Inl e) \<Rightarrow> Some (fs1, Inl e)
               | (fs1, Inr _) \<Rightarrow>
                   (case fs_write (env_io E) (bloom_path dir seq) (bloom_to_bytes bf) fs1 of
                      Inl e \<Rightarrow> Some (fs1, Inl (Io e))
                    | Inr fs2 \<Rightarrow>
                        (case zone_map_write_to_file (ser_zone_map (env_bincode E)) (env_io E) zm
                                (zonemap_path dir seq) fs2 of
                           Inl e \<Rightarrow> Some (fs2, Inl (Io e))
                         | Inr fs3 \<Rightarrow>
                             Some (fs3, Inr \<lparr>sst_seq = seq, sst_signal = sig, sst_dir = dir, sst_zone_map = zm\<rparr>)))))"

definition write_logs ::
  "'w storage_env \<Rightarrow> log_record list \<Rightarrow> path \<Rightarrow> u64 \<Rightarrow> fs \<Rightarrow> (fs \<times> (storage_error + sstable_meta)) option" where
  "write_logs E records dir seq fs =
     write_sstable E Log (build_log_batch (env_try_new E) (env_json E) records log_schema)
       (map lr_timestamp_ns records) (map (\<lambda>r. as_bytes (lr_severity_text r)) records) dir seq fs"

definition write_metrics ::
  "'w storage_env \<Rightarrow> metric_point list \<Rightarrow> path \<Rightarrow> u64 \<Rightarrow> fs \<Rightarrow> (fs \<times> (storage_error + sstable_meta)) option" where
  "write_metrics E records dir seq fs =
     write_sstable E Metric
       (build_metric_batch (env_try_new E) (env_bincode E) (env_json E) records metric_schema)
       (map mp_timestamp_ns records) (map (\<lambda>r. as_bytes (mp_name r)) records) dir seq fs"

definition write_spans ::
  "'w storage_env \<Rightarrow> span_record list \<Rightarrow> path \<Rightarrow> u64 \<Rightarrow> fs \<Rightarrow> (fs \<times> (storage_error + sstable_meta)) option" where
  "write_spans E records dir seq fs =
     write_sstable E Span (build_span_batch (env_try_new E) (env_json E) records span_schema)
       (map sr_start_time_ns records) (map sr_trace_id records) dir seq fs"

definition read_parquet ::
  "'w storage_env \<Rightarrow> path \<Rightarrow> nat \<Rightarrow> fs \<Rightarrow> storage_error + (storage_error + record_batch) list" where
  "read_parquet E p batch_size fs =
     and_then (map_err Io (fs_read (env_io E) fs p)) (\<lambda>b.
     and_then (map_err ParquetErr (pq_read (env_parquet E) b batch_size)) (\<lambda>items.
       Inr (map (map_err ParquetErr) items)))"

section \<open>Rows\<close>

text \<open>
  The row a record should become: a value for every column of the schema, by the name of the
  column. Empty texts and attribute maps are null, and so is a value that cannot be serialised.
\<close>

definition named_row :: "schema \<Rightarrow> (string \<times> cell) list \<Rightarrow> cell list" where
  "named_row sch cells = map (\<lambda>f. case map_of cells (f_name f) of Some c \<Rightarrow> c | None \<Rightarrow> CNull) sch"

definition text_cell :: "string \<Rightarrow> cell" where
  "text_cell s = (if s = [] then CNull else CUtf8 s)"

definition json_cell :: "'e + string \<Rightarrow> cell" where
  "json_cell r = (case r of Inl _ \<Rightarrow> CNull | Inr s \<Rightarrow> CUtf8 s)"

definition attrs_cell :: "json_ops \<Rightarrow> attrs \<Rightarrow> cell" where
  "attrs_cell J m = (if m = [] then CNull else json_cell (json_attrs J m))"

definition log_row :: "json_ops \<Rightarrow> log_record \<Rightarrow> cell list" where
  "log_row J r = named_row log_schema
     [(''timestamp_ns'', CUInt64 (lr_timestamp_ns r)),
      (''observed_timestamp_ns'', CUInt64 (lr_observed_timestamp_ns r)),
      (''severity_number'', CInt32 (lr_severity_number r)),
      (''severity_text'', text_cell (lr_severity_text r)),
      (''body'', (case lr_body r of None \<Rightarrow> CNull | Some v \<Rightarrow> json_cell (json_value J v))),
      (''trace_id'', (case lr_trace_id r of None \<Rightarrow> CNull | Some i \<Rightarrow> CBinary i)),
      (''span_id'', (case lr_span_id r of None \<Rightarrow> CNull | Some i \<Rightarrow> CBinary i)),
      (''attributes'', attrs_cell J (lr_attributes r)),
      (''resource_attributes'', attrs_cell J (lr_resource_attributes r)),
      (''scope_name'', text_cell (sc_name (lr_scope r))),
      (''scope_version'', text_cell (sc_version (lr_scope r))),
      (''schema_url'', text_cell (lr_schema_url r))]"

definition metric_row :: "bincode \<Rightarrow> json_ops \<Rightarrow> metric_point \<Rightarrow> cell list" where
  "metric_row B J r = named_row metric_schema
     ([(''timestamp_ns'', CUInt64 (mp_timestamp_ns r)),
       (''start_timestamp_ns'', CUInt64 (mp_start_timestamp_ns r)),
       (''name'', CUtf8 (mp_name r)),
       (''description'', text_cell (mp_description r)),
       (''unit'', text_cell (mp_unit r)),
       (''metric_type'', CInt8 (case mp_metric_type r of MT_Gauge \<Rightarrow> 0 | MT_Sum _ _ \<Rightarrow> 1 | MT_Histogram _ \<Rightarrow> 2
          | MT_ExponentialHistogram _ \<Rightarrow> 3 | MT_Summary \<Rightarrow> 4)),
       (''attributes'', attrs_cell J (mp_attributes r)),
       (''resource_attributes'', attrs_cell J (mp_resource_attributes r)),
       (''scope_name'', text_cell (sc_name (mp_scope r))),
       (''scope_version'', text_cell (sc_version (mp_scope r))),
       (''schema_url'', text_cell (mp_schema_url r))]
      @ (case mp_value_double r of None \<Rightarrow> [] | Some v \<Rightarrow> [(''value_double'', CFloat64 v)])
      @ (case mp_value_int r of None \<Rightarrow> [] | Some v \<Rightarrow> [(''value_int'', CInt64 v)])
      @ (case mp_histogram r of
           None \<Rightarrow> []
         | Some h \<Rightarrow>
             [(''histogram_count'', CUInt64 (hd_count h)),
              (''histogram_bounds'', CBinary (case ser_f64_vec B (hd_explicit_bounds h) of Inl _ \<Rightarrow> [] | Inr x \<Rightarrow> x)),
              (''histogram_counts'', CBinary (case ser_u64_vec B (hd_bucket_counts h) of Inl _ \<Rightarrow> [] | Inr x \<Rightarrow> x))]
             @ (case hd_sum h of None \<Rightarrow> [] | Some s \<Rightarrow> [(''histogram_sum'', CFloat64 s)])))"

definition span_row :: "json_ops \<Rightarrow> span_record \<Rightarrow> cell list" where
  "span_row J r = named_row span_schema
     [(''trace_id'', CBinary (sr_trace_id r)),
      (''span_id'', CBinary (sr_span_id r)),
      (''parent_span_id'', (case sr_parent_span_id r of None \<Rightarrow> CNull | Some i \<Rightarrow> CBinary i)),
      (''name'', CUtf8 (sr_name r)),
      (''kind'', CInt32 (sr_kind r)),
      (''start_time_ns'', CUInt64 (sr_start_time_ns r)),
      (''end_time_ns'', CUInt64 (sr_end_time_ns r)),
      (''duration_ns'', CUInt64 (sr_duration_ns r)),
      (''status_code'', CInt32 (sr_status_code r)),
      (''status_message'', text_cell (sr_status_message r)),
      (''events'', json_cell (json_events J (sr_events r))),
      (''links'', json_cell (json_links J (sr_links r))),
      (''attributes'', attrs_cell J (sr_attributes r)),
      (''resource_attributes'', attrs_cell J (sr_resource_attributes r)),
      (''scope_name'', text_cell (sc_name (sr_scope r))),
      (''scope_version'', text_cell (sc_version (sr_scope r))),
      (''schema_url'', text_cell (sr_schema_url r))]"

section \<open>Lemmas\<close>

lemma some_not_null [simp]:
  "CNull \<notin> opt_cell CUInt64 ` Some ` A" "CNull \<notin> opt_cell CInt32 ` Some ` B"
  "CNull \<notin> opt_cell CUtf8 ` Some ` C" "CNull \<notin> opt_cell CInt8 ` Some ` D"
  "CNull \<notin> opt_cell CBinary ` Some ` E"
  by auto

lemma log_columns_valid: "columns_valid log_schema (log_columns J rs)"
  by (auto simp: columns_valid_def log_schema_def log_columns_def field_new_def array_null_free_def)

lemma metric_columns_valid: "columns_valid metric_schema (metric_columns B J rs)"
  by (auto simp: columns_valid_def metric_schema_def metric_columns_def field_new_def array_null_free_def)

lemma span_columns_valid: "columns_valid span_schema (span_columns J rs)"
  by (auto simp: columns_valid_def span_schema_def span_columns_def field_new_def array_null_free_def)

lemma slot_cells:
  "opt_cell CUtf8 (non_empty s) = text_cell s" "opt_cell CUtf8 (ok_opt r) = json_cell r"
  "opt_cell CUtf8 (json_map J m) = attrs_cell J m"
  "opt_cell CUtf8 (json_opt J v) = (case v of None \<Rightarrow> CNull | Some a \<Rightarrow> json_cell (json_value J a))"
  "opt_cell CBinary i = (case i of None \<Rightarrow> CNull | Some x \<Rightarrow> CBinary x)"
  by (auto simp: non_empty_def text_cell_def ok_opt_def json_cell_def json_map_def attrs_cell_def json_opt_def opt_cell_def
      split: sum.split option.split)

lemma metric_type_id_case:
  "metric_type_id t = (case t of MT_Gauge \<Rightarrow> 0 | MT_Sum _ _ \<Rightarrow> 1 | MT_Histogram _ \<Rightarrow> 2 | MT_ExponentialHistogram _ \<Rightarrow> 3 | MT_Summary \<Rightarrow> 4)"
  by (cases t) auto

text \<open>The builders put the value of every column in its place.\<close>

lemma log_row_columns: "map (\<lambda>c. array_cells c ! 0) (log_columns J [r]) = log_row J r"
  by (simp add: log_columns_def log_row_def named_row_def log_schema_def field_new_def slot_cells)

lemma metric_row_columns: "map (\<lambda>c. array_cells c ! 0) (metric_columns B J [r]) = metric_row B J r"
  by (cases "mp_value_double r"; cases "mp_value_int r"; cases "mp_histogram r"; cases "Option.bind (mp_histogram r) hd_sum")
    (simp_all add: metric_columns_def metric_row_def named_row_def metric_schema_def field_new_def slot_cells
      metric_type_id_case or_default_def)

lemma span_row_columns: "map (\<lambda>c. array_cells c ! 0) (span_columns J [r]) = span_row J r"
  by (simp add: span_columns_def span_row_def named_row_def span_schema_def field_new_def slot_cells)

lemma log_rows:
  "batch_rows \<lparr>rb_schema = sch, rb_columns = log_columns J rs\<rparr> = map (log_row J) rs"
  unfolding log_row_columns [symmetric]
  by (intro nth_equalityI) (simp_all add: batch_rows_def batch_row_def num_rows_def log_columns_def array_len_def)

lemma metric_rows:
  "batch_rows \<lparr>rb_schema = sch, rb_columns = metric_columns B J rs\<rparr> = map (metric_row B J) rs"
  unfolding metric_row_columns [symmetric]
  by (intro nth_equalityI) (simp_all add: batch_rows_def batch_row_def num_rows_def metric_columns_def array_len_def)

lemma span_rows:
  "batch_rows \<lparr>rb_schema = sch, rb_columns = span_columns J rs\<rparr> = map (span_row J) rs"
  unfolding span_row_columns [symmetric]
  by (intro nth_equalityI) (simp_all add: batch_rows_def batch_row_def num_rows_def span_columns_def array_len_def)

lemma sst_stem_inject [simp]: "sst_stem m = sst_stem n \<longleftrightarrow> m = n"
  by (simp add: sst_stem_def pad_zeros_inject word_unat_eq_iff)

lemma sst_paths_distinct [simp]:
  "parquet_path d m = parquet_path d' n \<longleftrightarrow> d = d' \<and> m = n"
  "bloom_path d m = bloom_path d' n \<longleftrightarrow> d = d' \<and> m = n"
  "zonemap_path d m = zonemap_path d' n \<longleftrightarrow> d = d' \<and> m = n"
  "parquet_path d m \<noteq> bloom_path d' n" "bloom_path d m \<noteq> parquet_path d' n"
  "parquet_path d m \<noteq> zonemap_path d' n" "zonemap_path d m \<noteq> parquet_path d' n"
  "bloom_path d m \<noteq> zonemap_path d' n" "zonemap_path d m \<noteq> bloom_path d' n"
proof -
  have differ: "path_join d (sst_stem m @ e) \<noteq> path_join d' (sst_stem n @ e')"
    if "e \<noteq> []" "e' \<noteq> []" "last e \<noteq> last e'" for e e'
    using that by (metis last_appendR path_join_inject)
  show "parquet_path d m \<noteq> bloom_path d' n" "bloom_path d m \<noteq> parquet_path d' n"
    "parquet_path d m \<noteq> zonemap_path d' n" "zonemap_path d m \<noteq> parquet_path d' n"
    "bloom_path d m \<noteq> zonemap_path d' n" "zonemap_path d m \<noteq> bloom_path d' n"
    unfolding parquet_path_def bloom_path_def zonemap_path_def by (intro differ; simp)+
qed (simp_all add: parquet_path_def bloom_path_def zonemap_path_def)

lemma create_parquet_other:
  "create_parquet E sch bs p fs = (fs', r) \<Longrightarrow> q \<noteq> p \<Longrightarrow> fs_get fs' q = fs_get fs q"
  by (auto simp: create_parquet_def split: if_splits sum.splits)

lemma create_parquet_read:
  assumes "create_parquet E sch bs p fs = (fs', Inr ())" "\<not> read_fails (env_io E) p" "0 < n"
    and "parquet_roundtrips (env_parquet E)" "\<forall>x \<in> set bs. rb_schema x = sch \<and> batch_valid x"
    and "fs_get fs'' p = fs_get fs' p"
  shows "\<exists>cs. read_parquet E p n fs'' = Inr (map Inr cs) \<and> batches_rows cs = batches_rows bs
    \<and> (\<forall>c \<in> set cs. rb_schema c = sch \<and> batch_valid c)"
proof -
  obtain b where b: "pq_encode (env_parquet E) sch bs = Inr b" "fs_get fs' p = Some b"
    using assms(1) by (auto simp: create_parquet_def split: if_splits sum.splits)
  obtain cs where "pq_read (env_parquet E) b n = Inr (map Inr cs)" "batches_rows cs = batches_rows bs"
    "\<forall>c \<in> set cs. rb_schema c = sch \<and> batch_valid c"
    using parquet_roundtripsD [OF assms(4) b(1) assms(3,5)] by blast
  then show ?thesis
    using b assms(2,6) by (intro exI [of _ cs]) (simp add: read_parquet_def fs_read_def)
qed

section \<open>What a written table promises\<close>

definition env_ok :: "'w storage_env \<Rightarrow> bool" where
  "env_ok E \<longleftrightarrow> arrow_try_new_spec (env_try_new E) \<and> parquet_roundtrips (env_parquet E)
     \<and> bincode_roundtrips (env_bincode E) \<and> (\<forall>p. \<not> read_fails (env_io E) p)"

text \<open>The sizing formula of the filter stays below the range where rounding up to bytes wraps.\<close>

definition bloom_sized :: "'w storage_env \<Rightarrow> bool" where
  "bloom_sized E \<longleftrightarrow> (\<forall>n. bloom_wf (bloom_new (env_fp E) n (fp_lit (env_fp E) ''0.02'')))"

text \<open>A file of a table holds given rows.\<close>

definition holds_rows :: "'w storage_env \<Rightarrow> fs \<Rightarrow> path \<Rightarrow> schema \<Rightarrow> cell list list \<Rightarrow> bool" where
  "holds_rows E fs p sch rows \<longleftrightarrow>
     (\<forall>n > 0. \<exists>cs. read_parquet E p n fs = Inr (map Inr cs) \<and> batches_rows cs = rows
        \<and> (\<forall>c \<in> set cs. rb_schema c = sch \<and> batch_valid c))"

text \<open>
  What a written table promises its readers: the Parquet file reads back as the rows, the zone-map
  file as the returned zone map, whose range contains every timestamp, and the bloom file parses to
  a filter that contains every key.
\<close>

definition table_durable ::
  "'w storage_env \<Rightarrow> nat \<Rightarrow> fs \<Rightarrow> sstable_meta \<Rightarrow> cell list list \<Rightarrow> u64 list \<Rightarrow> u8 list list \<Rightarrow> bool" where
  "table_durable E n fs meta rows stamps keys \<longleftrightarrow>
     (\<exists>cs. read_parquet E (meta_parquet_path meta) n fs = Inr (map Inr cs) \<and> batches_rows cs = rows)
   \<and> zone_map_read_from_file (de_zone_map (env_bincode E)) (env_io E) fs (meta_zonemap_path meta)
        = Inr (sst_zone_map meta)
   \<and> (\<forall>t \<in> set stamps. min_timestamp_ns (sst_zone_map meta) \<le> t \<and> t \<le> max_timestamp_ns (sst_zone_map meta))
   \<and> (\<exists>b bf. fs_get fs (meta_bloom_path meta) = Some b \<and> bloom_from_bytes b = Some bf
        \<and> (\<forall>k \<in> set keys. bloom_contains (env_hash E) bf k = Some True))"

lemma read_parquet_cong: "fs_get fs' p = fs_get fs p \<Longrightarrow> read_parquet E p n fs' = read_parquet E p n fs"
  by (simp add: read_parquet_def fs_read_def)

lemma holds_rows_cong: "fs_get fs' p = fs_get fs p \<Longrightarrow> holds_rows E fs' p sch rows = holds_rows E fs p sch rows"
  using read_parquet_cong [of fs' p fs E] by (simp add: holds_rows_def)

lemma write_sstable_total:
  assumes "bloom_sized E"
  shows "\<exists>fs' r. write_sstable E sig batch_r tss keys dir seq fs = Some (fs', r)"
proof -
  have "bloom_wf (bloom_new (env_fp E) (word_of_nat (max (length keys) 1)) (fp_lit (env_fp E) ''0.02''))"
    using assms by (simp add: bloom_sized_def)
  then obtain bf where "bloom_insert_all (env_hash E) keys
      (bloom_new (env_fp E) (word_of_nat (max (length keys) 1)) (fp_lit (env_fp E) ''0.02'')) = Some bf"
    using bloom_insert_all_total by blast
  then show ?thesis
    by (simp only: write_sstable_def Let_def option.case split: sum.split prod.split) simp
qed

lemma zone_map_write_Inr:
  "zone_map_write_to_file ser io zm p fs = Inr fs' \<longleftrightarrow>
     (\<exists>b. ser zm = Inr b \<and> \<not> open_fails io p \<and> \<not> write_fails io p \<and> fs' = fs_put p b fs)"
  by (auto simp: zone_map_write_to_file_def result_simps fs_write_Inr)

text \<open>Whatever the outcome, only the table's own three files change.\<close>

lemma write_sstable_other:
  assumes "write_sstable E sig batch_r tss keys dir seq fs = Some (fs', r)"
    and "q \<noteq> parquet_path dir seq" "q \<noteq> bloom_path dir seq" "q \<noteq> zonemap_path dir seq"
  shows "fs_get fs' q = fs_get fs q"
  using assms
  by (auto simp: write_sstable_def write_parquet_def Let_def fs_write_Inr zone_map_write_Inr
      dest!: create_parquet_other [of _ _ _ _ _ _ _ q] split: sum.splits option.splits prod.splits)

lemma write_sstable_Inr:
  assumes "write_sstable E sig batch_r tss keys dir seq fs = Some (fs', Inr meta)"
  obtains batch bf zb fs1 where "batch_r = Inr batch"
    "meta = \<lparr>sst_seq = seq, sst_signal = sig, sst_dir = dir, sst_zone_map = observe_all tss zone_map_new\<rparr>"
    "bloom_insert_all (env_hash E) keys (bloom_new (env_fp E) (word_of_nat (max (length keys) 1))
        (fp_lit (env_fp E) ''0.02'')) = Some bf"
    "write_parquet E batch (parquet_path dir seq) fs = (fs1, Inr ())"
    "ser_zone_map (env_bincode E) (observe_all tss zone_map_new) = Inr zb"
    "fs' = fs_put (zonemap_path dir seq) zb (fs_put (bloom_path dir seq) (bloom_to_bytes bf) fs1)"
  using assms
  by (auto simp: write_sstable_def Let_def fs_write_Inr zone_map_write_Inr
      split: sum.splits option.splits prod.splits)

locale sstable_writer =
  fixes build :: "'w storage_env \<Rightarrow> 'r list \<Rightarrow> storage_error + record_batch"
    and write_table :: "'w storage_env \<Rightarrow> 'r list \<Rightarrow> path \<Rightarrow> u64 \<Rightarrow> fs \<Rightarrow> (fs \<times> (storage_error + sstable_meta)) option"
    and row :: "'w storage_env \<Rightarrow> 'r \<Rightarrow> cell list"
    and ts :: "'r \<Rightarrow> u64"
    and key :: "'r \<Rightarrow> bytes"
    and sch :: schema
    and sig :: signal_type
  assumes write_table_eq: "write_table E rs dir seq fs
      = write_sstable E sig (build E rs) (map ts rs) (map key rs) dir seq fs"
    and build_ok: "arrow_try_new_spec (env_try_new E) \<Longrightarrow>
      \<exists>b. build E rs = Inr b \<and> rb_schema b = sch \<and> batch_valid b \<and> batch_rows b = map (row E) rs"
begin

lemma write_table_Inr:
  assumes "write_table E rs dir seq fs = Some (fs', Inr meta)"
  obtains batch bf zb fs1 where "build E rs = Inr batch"
    "meta = \<lparr>sst_seq = seq, sst_signal = sig, sst_dir = dir, sst_zone_map = observe_all (map ts rs) zone_map_new\<rparr>"
    "bloom_insert_all (env_hash E) (map key rs) (bloom_new (env_fp E) (word_of_nat (max (length (map key rs)) 1))
        (fp_lit (env_fp E) ''0.02'')) = Some bf"
    "write_parquet E batch (parquet_path dir seq) fs = (fs1, Inr ())"
    "ser_zone_map (env_bincode E) (observe_all (map ts rs) zone_map_new) = Inr zb"
    "fs' = fs_put (zonemap_path dir seq) zb (fs_put (bloom_path dir seq) (bloom_to_bytes bf) fs1)"
  by (rule write_sstable_Inr [OF assms [unfolded write_table_eq]])

lemma write_holds_rows:
  assumes "env_ok E" "write_table E rs dir seq fs = Some (fs', Inr meta)"
  shows "holds_rows E fs' (meta_parquet_path meta) sch (map (row E) rs)"
proof -
  obtain batch bf zb fs1 where w: "build E rs = Inr batch"
    "meta = \<lparr>sst_seq = seq, sst_signal = sig, sst_dir = dir, sst_zone_map = observe_all (map ts rs) zone_map_new\<rparr>"
    "write_parquet E batch (parquet_path dir seq) fs = (fs1, Inr ())"
    "fs' = fs_put (zonemap_path dir seq) zb (fs_put (bloom_path dir seq) (bloom_to_bytes bf) fs1)"
    by (rule write_table_Inr [OF assms(2)])
  have b: "rb_schema batch = sch" "batch_valid batch" "batch_rows batch = map (row E) rs"
    using build_ok [of E rs] w(1) assms(1) by (auto simp: env_ok_def)
  have "fs_get fs' (parquet_path dir seq) = fs_get fs1 (parquet_path dir seq)"
    by (simp add: w(4))
  then have "\<exists>cs. read_parquet E (parquet_path dir seq) n fs' = Inr (map Inr cs)
      \<and> batches_rows cs = batches_rows [batch] \<and> (\<forall>c \<in> set cs. rb_schema c = sch \<and> batch_valid c)"
    if "n > 0" for n
    using that w(3) b(1,2) assms(1)
    by (intro create_parquet_read) (auto simp: write_parquet_def env_ok_def)
  then show ?thesis
    using b(3) by (simp add: holds_rows_def w(2) meta_parquet_path_def)
qed

lemma write_zone_map:
  assumes "env_ok E" "write_table E rs dir seq fs = Some (fs', Inr meta)"
  shows "zone_map_read_from_file (de_zone_map (env_bincode E)) (env_io E) fs' (meta_zonemap_path meta)
      = Inr (sst_zone_map meta)
    \<and> (\<forall>r \<in> set rs. zm.covers (sst_zone_map meta) (ts r))"
proof -
  obtain zb fs1 bf where w:
    "meta = \<lparr>sst_seq = seq, sst_signal = sig, sst_dir = dir, sst_zone_map = observe_all (map ts rs) zone_map_new\<rparr>"
    "ser_zone_map (env_bincode E) (observe_all (map ts rs) zone_map_new) = Inr zb"
    "fs' = fs_put (zonemap_path dir seq) zb (fs_put (bloom_path dir seq) (bloom_to_bytes bf) fs1)"
    by (rule write_table_Inr [OF assms(2)])
  then have "fs_get fs' (meta_zonemap_path meta) = Some zb"
    by (simp add: meta_zonemap_path_def)
  moreover have "de_zone_map (env_bincode E) zb = Inr (sst_zone_map meta)"
    using w(1,2) assms(1) by (simp add: env_ok_def bincode_roundtrips_def)
  ultimately show ?thesis
    using assms(1) by (simp add: zone_map_read_from_file_def fs_read_def env_ok_def w(1) observe_all_covers)
qed

lemma write_bloom:
  assumes "bloom_sized E" "write_table E rs dir seq fs = Some (fs', Inr meta)"
  shows "\<exists>b bf. fs_get fs' (meta_bloom_path meta) = Some b \<and> bloom_from_bytes b = Some bf
    \<and> (\<forall>r \<in> set rs. bloom_contains (env_hash E) bf (key r) = Some True)"
proof -
  let ?new = "bloom_new (env_fp E) (word_of_nat (max (length (map key rs)) 1)) (fp_lit (env_fp E) ''0.02'')"
  obtain bf zb fs1 where w:
    "meta = \<lparr>sst_seq = seq, sst_signal = sig, sst_dir = dir, sst_zone_map = observe_all (map ts rs) zone_map_new\<rparr>"
    "bloom_insert_all (env_hash E) (map key rs) ?new = Some bf"
    "fs' = fs_put (zonemap_path dir seq) zb (fs_put (bloom_path dir seq) (bloom_to_bytes bf) fs1)"
    by (rule write_table_Inr [OF assms(2)])
  have wf: "bloom_wf ?new" using assms(1) by (simp add: bloom_sized_def)
  then have "bloom_wf bf"
    using bloom_insert_all_total [OF wf, of "env_hash E" "map key rs"] w(2) by auto
  then have "bloom_from_bytes (bloom_to_bytes bf) = Some bf"
    using bloom_bytes_parse [of bf "[]"] by simp
  moreover have "bloom_contains (env_hash E) bf (key r) = Some True" if "r \<in> set rs" for r
    using bloom_insert_all_contains [OF wf w(2)] that by simp
  ultimately show ?thesis
    by (simp add: w(1,3) meta_bloom_path_def)
qed

lemma write_durable:
  assumes "env_ok E" "bloom_sized E" "0 < n" "write_table E rs dir seq fs = Some (fs', Inr meta)"
  shows "table_durable E n fs' meta (map (row E) rs) (map ts rs) (map key rs)"
  using write_holds_rows [OF assms(1,4)] write_zone_map [OF assms(1,4)] write_bloom [OF assms(2,4)] assms(3)
  unfolding table_durable_def holds_rows_def zm.covers_def set_map ball_simps by blast

lemma write_total: "bloom_sized E \<Longrightarrow> \<exists>fs' r. write_table E rs dir seq fs = Some (fs', r)"
  unfolding write_table_eq by (rule write_sstable_total)

text \<open>Without faults of the device, the encoder and the serialiser, a table is written.\<close>

lemma write_succeeds:
  assumes "bloom_sized E" "env_io E = no_faults" "arrow_try_new_spec (env_try_new E)"
    and "\<And>b. build E rs = Inr b \<Longrightarrow> \<exists>x. pq_encode (env_parquet E) (rb_schema b) [b] = Inr x"
    and "ser_zone_map (env_bincode E) (observe_all (map ts rs) zone_map_new) = Inr zb"
  shows "\<exists>fs' meta. write_table E rs dir seq fs = Some (fs', Inr meta)"
proof -
  obtain b where b: "build E rs = Inr b" using build_ok [OF assms(3)] by blast
  then obtain x where "pq_encode (env_parquet E) (rb_schema b) [b] = Inr x" using assms(4) by blast
  then have "write_parquet E b (parquet_path dir seq) fs = (fs_put (parquet_path dir seq) x fs, Inr ())"
    by (simp add: write_parquet_def create_parquet_def assms(2) no_faults_def)
  moreover have "bloom_wf (bloom_new (env_fp E) (word_of_nat (max (length (map key rs)) 1))
      (fp_lit (env_fp E) ''0.02''))"
    using assms(1) by (simp add: bloom_sized_def)
  then obtain bf where "bloom_insert_all (env_hash E) (map key rs)
      (bloom_new (env_fp E) (word_of_nat (max (length (map key rs)) 1)) (fp_lit (env_fp E) ''0.02'')) = Some bf"
    using bloom_insert_all_total by blast
  ultimately show ?thesis
    unfolding write_table_eq write_sstable_def b
    by (simp add: Let_def fs_write_def zone_map_write_to_file_def assms(2,5) no_faults_def)
qed

lemma write_other:
  "write_table E rs dir seq fs = Some (fs', r) \<Longrightarrow> q \<noteq> parquet_path dir seq \<Longrightarrow> q \<noteq> bloom_path dir seq
    \<Longrightarrow> q \<noteq> zonemap_path dir seq \<Longrightarrow> fs_get fs' q = fs_get fs q"
  unfolding write_table_eq by (rule write_sstable_other)

lemma write_meta:
  assumes "write_table E rs dir seq fs = Some (fs', Inr meta)"
  shows "meta = \<lparr>sst_seq = seq, sst_signal = sig, sst_dir = dir, sst_zone_map = observe_all (map ts rs) zone_map_new\<rparr>"
  by (rule write_table_Inr [OF assms])

end

interpretation wlog: sstable_writer
  "\<lambda>E rs. build_log_batch (env_try_new E) (env_json E) rs log_schema" write_logs
  "\<lambda>E. log_row (env_json E)" lr_timestamp_ns "\<lambda>r. as_bytes (lr_severity_text r)" log_schema Log
  by unfold_locales
    (simp_all add: write_logs_def build_log_batch_def try_new_valid log_columns_valid batch_valid_def log_rows)

interpretation wmet: sstable_writer
  "\<lambda>E rs. build_metric_batch (env_try_new E) (env_bincode E) (env_json E) rs metric_schema" write_metrics
  "\<lambda>E. metric_row (env_bincode E) (env_json E)" mp_timestamp_ns "\<lambda>r. as_bytes (mp_name r)" metric_schema Metric
  by unfold_locales
    (simp_all add: write_metrics_def build_metric_batch_def try_new_valid metric_columns_valid batch_valid_def metric_rows)

interpretation wspan: sstable_writer
  "\<lambda>E rs. build_span_batch (env_try_new E) (env_json E) rs span_schema" write_spans
  "\<lambda>E. span_row (env_json E)" sr_start_time_ns sr_trace_id span_schema Span
  by unfold_locales
    (simp_all add: write_spans_def build_span_batch_def try_new_valid span_columns_valid batch_valid_def span_rows)

section \<open>A sample environment\<close>

definition sample_json :: json_ops where
  "sample_json = \<lparr>json_value = (\<lambda>_. Inr ''v''), json_attrs = (\<lambda>_. Inr ''m''),
     json_events = (\<lambda>_. Inr ''e''), json_links = (\<lambda>_. Inr ''l'')\<rparr>"

definition sample_env :: "record_batch list list \<Rightarrow> bincode \<Rightarrow> record_batch list storage_env" where
  "sample_env files B =
     \<lparr>env_io = no_faults, env_fp = sample_fp, env_hash = (\<lambda>d. word_of_nat (length d)), env_crc = (\<lambda>_. 0),
      env_bincode = B, env_json = sample_json, env_try_new = sample_try_new,
      env_parquet = sample_parquet files, env_utc_hour = (\<lambda>n. dec_string (nat n))\<rparr>"

lemma sample_env_simps [simp]:
  "env_io (sample_env files B) = no_faults" "env_bincode (sample_env files B) = B"
  "env_json (sample_env files B) = sample_json" "env_try_new (sample_env files B) = sample_try_new"
  "env_parquet (sample_env files B) = sample_parquet files"
  by (simp_all add: sample_env_def)

lemma sample_env_ok: "env_ok (sample_env files (sample_bincode ls ms ss zs))"
  by (simp add: env_ok_def sample_try_new_spec sample_parquet_roundtrips sample_bincode_roundtrips no_faults_def)

lemma sample_env_bloom: "bloom_sized (sample_env files B)"
  by (simp add: bloom_sized_def bloom_new_def Let_def sample_env_def sample_fp_def bloom_wf_def)

definition sample_log :: log_record where
  "sample_log = \<lparr>lr_timestamp_ns = 7, lr_observed_timestamp_ns = 8, lr_trace_id = None, lr_span_id = Some [1],
     lr_severity_number = 9, lr_severity_text = ''INFO'', lr_body = Some (AV_String ''hi''),
     lr_attributes = [], lr_resource_attributes = [],
     lr_scope = \<lparr>sc_name = [], sc_version = [], sc_attributes = []\<rparr>, lr_schema_url = []\<rparr>"

definition sample_metric :: metric_point where
  "sample_metric = \<lparr>mp_timestamp_ns = 7, mp_start_timestamp_ns = 0, mp_name = ''cpu'', mp_description = [],
     mp_unit = ''%'', mp_metric_type = MT_Gauge, mp_value_double = None, mp_value_int = Some 3,
     mp_histogram = None, mp_attributes = [], mp_resource_attributes = [],
     mp_scope = \<lparr>sc_name = [], sc_version = [], sc_attributes = []\<rparr>, mp_schema_url = []\<rparr>"

definition sample_span :: span_record where
  "sample_span = \<lparr>sr_trace_id = replicate 16 1, sr_span_id = replicate 8 2, sr_parent_span_id = None,
     sr_name = ''GET'', sr_kind = 2, sr_start_time_ns = 5, sr_end_time_ns = 9, sr_duration_ns = 4,
     sr_status_code = 0, sr_status_message = [], sr_attributes = [], sr_resource_attributes = [],
     sr_scope = \<lparr>sc_name = [], sc_version = [], sc_attributes = []\<rparr>, sr_events = [], sr_links = [],
     sr_schema_url = []\<rparr>"

definition log_env :: "log_record list \<Rightarrow> record_batch list storage_env" where
  "log_env rs = sample_env [[\<lparr>rb_schema = log_schema, rb_columns = log_columns sample_json rs\<rparr>]]
     (sample_bincode rs [] [] [observe_all (map lr_timestamp_ns rs) zone_map_new])"

definition metric_env :: "metric_point list \<Rightarrow> record_batch list storage_env" where
  "metric_env rs =
     (let B = sample_bincode [] rs [] [observe_all (map mp_timestamp_ns rs) zone_map_new] in
      sample_env [[\<lparr>rb_schema = metric_schema, rb_columns = metric_columns B sample_json rs\<rparr>]] B)"

definition span_env :: "span_record list \<Rightarrow> record_batch list storage_env" where
  "span_env rs = sample_env [[\<lparr>rb_schema = span_schema, rb_columns = span_columns sample_json rs\<rparr>]]
     (sample_bincode [] [] rs [observe_all (map sr_start_time_ns rs) zone_map_new])"

lemma ser_zone_map_sample:
  "ser_zone_map (sample_bincode ls ms ss [z]) z = Inr []"
  by (simp add: sample_bincode_def table_ser_def)

lemma log_env_writes: "\<exists>fs' meta. write_logs (log_env rs) rs dir seq fs = Some (fs', Inr meta)"
  by (rule wlog.write_succeeds)
    (simp_all add: log_env_def sample_env_bloom sample_try_new_spec ser_zone_map_sample build_log_batch_def
      try_new_valid [OF sample_try_new_spec log_columns_valid] sample_parquet_encode)

lemma metric_env_writes: "\<exists>fs' meta. write_metrics (metric_env rs) rs dir seq fs = Some (fs', Inr meta)"
  by (rule wmet.write_succeeds)
    (simp_all add: metric_env_def Let_def sample_env_bloom sample_try_new_spec ser_zone_map_sample build_metric_batch_def
      try_new_valid [OF sample_try_new_spec metric_columns_valid] sample_parquet_encode)

lemma span_env_writes: "\<exists>fs' meta. write_spans (span_env rs) rs dir seq fs = Some (fs', Inr meta)"
  by (rule wspan.write_succeeds)
    (simp_all add: span_env_def sample_env_bloom sample_try_new_spec ser_zone_map_sample build_span_batch_def
      try_new_valid [OF sample_try_new_spec span_columns_valid] sample_parquet_encode)

section \<open>Properties\<close>

text \<open>
  C12. A written table can be read back and searched. When one of the three writers succeeds,
  reading the Parquet file returns one row per record, in order, which holds under the name of
  every column the value of that field of the record; the zone-map file reads back as the returned
  zone map, whose range contains every record's timestamp (a span's start); the bloom file parses
  to a filter that contains the key of every record: the metric name, the trace id of a span, and
  for logs the severity text alone, though a comment in the writer and the design documents name
  other keys.
\<close>

theorem written_tables_durable:
  assumes "env_ok E" "bloom_sized E" "0 < n"
  shows "(write_logs E ls dir seq fs = Some (fs', Inr meta) \<longrightarrow> table_durable E n fs' meta
        (map (log_row (env_json E)) ls) (map lr_timestamp_ns ls) (map (\<lambda>r. as_bytes (lr_severity_text r)) ls))
    \<and> (write_metrics E ps dir seq fs = Some (fs', Inr meta) \<longrightarrow> table_durable E n fs' meta
        (map (metric_row (env_bincode E) (env_json E)) ps) (map mp_timestamp_ns ps) (map (\<lambda>p. as_bytes (mp_name p)) ps))
    \<and> (write_spans E ss dir seq fs = Some (fs', Inr meta) \<longrightarrow> table_durable E n fs' meta
        (map (span_row (env_json E)) ss) (map sr_start_time_ns ss) (map sr_trace_id ss))"
  using wlog.write_durable [OF assms] wmet.write_durable [OF assms] wspan.write_durable [OF assms] by blast

theorem written_tables_durable_witness:
  "(\<exists>fs' meta. write_logs (log_env [sample_log]) [sample_log] [''d''] 1 [] = Some (fs', Inr meta)
      \<and> (\<exists>cs. read_parquet (log_env [sample_log]) (meta_parquet_path meta) 1024 fs' = Inr (map Inr cs)
          \<and> batches_rows cs = [log_row sample_json sample_log]))
    \<and> (\<exists>fs' meta. write_metrics (metric_env [sample_metric]) [sample_metric] [''d''] 1 [] = Some (fs', Inr meta)
      \<and> min_timestamp_ns (sst_zone_map meta) \<le> 7)
    \<and> (\<exists>fs' meta b bf. write_spans (span_env [sample_span]) [sample_span] [''d''] 1 [] = Some (fs', Inr meta)
      \<and> fs_get fs' (meta_bloom_path meta) = Some b \<and> bloom_from_bytes b = Some bf
      \<and> bloom_contains (env_hash (span_env [sample_span])) bf (sr_trace_id sample_span) = Some True)"
proof (intro conjI)
  obtain fs' meta where w: "write_logs (log_env [sample_log]) [sample_log] [''d''] 1 [] = Some (fs', Inr meta)"
    using log_env_writes by blast
  have "env_ok (log_env [sample_log])" "bloom_sized (log_env [sample_log])"
    by (simp_all add: log_env_def sample_env_ok sample_env_bloom)
  from written_tables_durable [OF this, of 1024 "[sample_log]" "[''d'']" 1 "[]" fs' meta] w
  show "\<exists>fs' meta. write_logs (log_env [sample_log]) [sample_log] [''d''] 1 [] = Some (fs', Inr meta)
      \<and> (\<exists>cs. read_parquet (log_env [sample_log]) (meta_parquet_path meta) 1024 fs' = Inr (map Inr cs)
          \<and> batches_rows cs = [log_row sample_json sample_log])"
    by (auto simp: log_env_def table_durable_def)
next
  obtain fs' meta where w: "write_metrics (metric_env [sample_metric]) [sample_metric] [''d''] 1 [] = Some (fs', Inr meta)"
    using metric_env_writes by blast
  have "env_ok (metric_env [sample_metric])" "bloom_sized (metric_env [sample_metric])"
    by (simp_all add: metric_env_def Let_def sample_env_ok sample_env_bloom)
  from written_tables_durable [OF this, of 1024 "[]" "[''d'']" 1 "[]" fs' meta "[sample_metric]"] w
  show "\<exists>fs' meta. write_metrics (metric_env [sample_metric]) [sample_metric] [''d''] 1 [] = Some (fs', Inr meta)
      \<and> min_timestamp_ns (sst_zone_map meta) \<le> 7"
    by (auto simp: sample_metric_def table_durable_def)
next
  obtain fs' meta where w: "write_spans (span_env [sample_span]) [sample_span] [''d''] 1 [] = Some (fs', Inr meta)"
    using span_env_writes by blast
  have "env_ok (span_env [sample_span])" "bloom_sized (span_env [sample_span])"
    by (simp_all add: span_env_def sample_env_ok sample_env_bloom)
  from written_tables_durable [OF this, of 1024 "[]" "[''d'']" 1 "[]" fs' meta "[]" "[sample_span]"] w
  show "\<exists>fs' meta b bf. write_spans (span_env [sample_span]) [sample_span] [''d''] 1 [] = Some (fs', Inr meta)
      \<and> fs_get fs' (meta_bloom_path meta) = Some b \<and> bloom_from_bytes b = Some bf
      \<and> bloom_contains (env_hash (span_env [sample_span])) bf (sr_trace_id sample_span) = Some True"
    by (auto simp: table_durable_def)
qed

end
