(* ===== verification/Ring.thy ===== *)
theory Ring
  imports Sstable
begin

text \<open>
  The consistent hash ring (\<open>infralens-cluster/src/ring.rs\<close>): virtual nodes on the circle
  of 64-bit positions, the node responsible for a key, and the nodes that hold its replicas. The
  ring is the map of \<open>Ordered_Map\<close>. The hash is \<open>std\<close>'s \<open>DefaultHasher\<close>, whose
  algorithm the library leaves open: a parameter \<open>fin\<close>, from the bytes fed to the hasher to
  what \<open>finish\<close> returns.
\<close>

section \<open>The ring\<close>

datatype cluster_error =
    NodeNotFound string
  | EmptyRing
  | ReplicationFailed string storage_error
  | NoPrimary string
  | ClusterSerialisation string
  | EtcdError string

record hash_ring =
  rg_ring :: "(u64, string) btree_map"
  rg_virtual_nodes :: u32
  rg_version :: u64

definition hash64 :: "(bytes \<Rightarrow> u64) \<Rightarrow> bytes \<Rightarrow> u64" where
  "hash64 fin data = fin (u64_to_le_bytes (word_of_nat (length data)) @ data)"

definition shard_for_key :: "(bytes \<Rightarrow> u64) \<Rightarrow> string \<Rightarrow> u64" where
  "shard_for_key fin key = hash64 fin (as_bytes key)"

definition ring_new :: "u32 \<Rightarrow> hash_ring" where
  "ring_new virtual_nodes = \<lparr>rg_ring = [], rg_virtual_nodes = virtual_nodes, rg_version = 0\<rparr>"

definition node_position :: "(bytes \<Rightarrow> u64) \<Rightarrow> string \<Rightarrow> nat \<Rightarrow> u64" where
  "node_position fin node_id i = hash64 fin (as_bytes (node_id @ ''#'' @ dec_string i))"

definition add_node :: "(bytes \<Rightarrow> u64) \<Rightarrow> string \<Rightarrow> hash_ring \<Rightarrow> hash_ring" where
  "add_node fin node_id r =
     r\<lparr>rg_ring := fold (\<lambda>i. bt_insert (node_position fin node_id i) node_id) [0..<unat (rg_virtual_nodes r)] (rg_ring r),
       rg_version := rg_version r + 1\<rparr>"

definition remove_node :: "(bytes \<Rightarrow> u64) \<Rightarrow> string \<Rightarrow> hash_ring \<Rightarrow> hash_ring" where
  "remove_node fin node_id r =
     r\<lparr>rg_ring := fold (\<lambda>i. bt_remove (node_position fin node_id i)) [0..<unat (rg_virtual_nodes r)] (rg_ring r),
       rg_version := rg_version r + 1\<rparr>"

definition primary_for :: "hash_ring \<Rightarrow> u64 \<Rightarrow> cluster_error + string" where
  "primary_for r shard =
     (if rg_ring r = [] then Inl EmptyRing
      else case bt_range_from shard (rg_ring r) of
             (_, n) # _ \<Rightarrow> Inr n
           | [] \<Rightarrow> (case rg_ring r of (_, n) # _ \<Rightarrow> Inr n | [] \<Rightarrow> Inl EmptyRing))"

fun replica_loop :: "nat \<Rightarrow> (u64 \<times> string) list \<Rightarrow> string list \<Rightarrow> string list \<Rightarrow> string list" where
  "replica_loop cnt [] seen result = result"
| "replica_loop cnt ((_, node) # es) seen result =
     (let fresh = node \<notin> set seen;
          seen = (if fresh then node # seen else seen);
          result = (if fresh then result @ [node] else result) in
      if length result \<ge> cnt then result else replica_loop cnt es seen result)"

definition replica_nodes :: "hash_ring \<Rightarrow> u64 \<Rightarrow> nat \<Rightarrow> cluster_error + string list" where
  "replica_nodes r shard cnt =
     (if rg_ring r = [] then Inl EmptyRing
      else Inr (replica_loop cnt (bt_range_from shard (rg_ring r) @ rg_ring r) [] []))"

definition ring_is_empty :: "hash_ring \<Rightarrow> bool" where
  "ring_is_empty r \<longleftrightarrow> rg_ring r = []"

definition node_count :: "hash_ring \<Rightarrow> nat" where
  "node_count r = length (remdups (map snd (rg_ring r)))"

section \<open>Clockwise order\<close>

text \<open>The entries in the order a walk from the shard's position meets them: by the distance
  \<open>p - shard\<close>, which wraps around.\<close>

definition clockwise :: "u64 \<Rightarrow> (u64, string) btree_map \<Rightarrow> (u64 \<times> string) list" where
  "clockwise shard m = sort_key (\<lambda>e. fst e - shard) m"

lemma unat_distance:
  "unat (p - s) = (if s \<le> p then unat p - unat s else unat p + 2 ^ 64 - unat s)" for p s :: u64
  by (simp add: unat_sub_if_size word_le_nat_alt word_size)

lemma unat_bound: "unat x < 2 ^ 64" for x :: u64
  using unsigned_less [of x] by simp

lemma distance_less:
  fixes p q s :: u64
  shows "s \<le> p \<Longrightarrow> s \<le> q \<Longrightarrow> p < q \<Longrightarrow> p - s < q - s"
    and "s \<le> p \<Longrightarrow> q < s \<Longrightarrow> p - s < q - s"
    and "p < s \<Longrightarrow> q < s \<Longrightarrow> p < q \<Longrightarrow> p - s < q - s"
  using unat_bound [of p] unat_bound [of q] unat_bound [of s]
  by (auto simp: word_less_nat_alt word_le_nat_alt unat_distance)

lemma clockwise_walk:
  assumes "bt_inv m"
  shows "clockwise shard m = bt_range_from shard m @ filter (\<lambda>e. fst e < shard) m"
  unfolding clockwise_def
proof (rule sort_key_inj_key_eq)
  let ?w = "bt_range_from shard m @ filter (\<lambda>e. fst e < shard) m"
  have "filter (\<lambda>e. fst e < shard) m = filter (\<lambda>e. \<not> shard \<le> fst e) m"
    by (simp add: not_le)
  then show "mset m = mset ?w"
    using multiset_partition [of "mset m" "\<lambda>e. shard \<le> fst e"] by (simp add: bt_range_from_def)
  have "distinct (map fst m)" using bt.distinct_keys [OF assms] .
  then show "inj_on (\<lambda>e. fst e - shard) (set m)"
    by (auto simp: distinct_map inj_on_def)
  have sorted: "sorted_wrt (\<lambda>a b. fst a - shard < fst b - shard) (filter P m)"
    if "\<And>a b. P a \<Longrightarrow> P b \<Longrightarrow> fst a < fst b \<Longrightarrow> fst a - shard < fst b - shard" for P
    by (rule sorted_wrt_mono_rel [OF _ bt.sorted_filter_entries [OF assms]]) (use that in auto)
  have "sorted_wrt (\<lambda>a b. fst a - shard < fst b - shard) ?w"
    unfolding bt_range_from_def sorted_wrt_append by (auto intro: sorted distance_less)
  then show "sorted (map (\<lambda>e. fst e - shard) ?w)"
    unfolding sorted_wrt_map by (rule sorted_wrt_mono_rel [rotated]) simp
qed

text \<open>The elements of a list in the order of their first occurrence.\<close>

fun firsts :: "string list \<Rightarrow> string list \<Rightarrow> string list" where
  "firsts seen [] = []"
| "firsts seen (x # xs) = (if x \<in> set seen then firsts seen xs else x # firsts (x # seen) xs)"

lemma firsts_cong: "set seen = set seen' \<Longrightarrow> firsts seen xs = firsts seen' xs"
proof (induction xs arbitrary: seen seen')
  case (Cons x xs)
  have "firsts seen xs = firsts seen' xs" "firsts (x # seen) xs = firsts (x # seen') xs"
    using Cons.prems by (intro Cons.IH; simp)+
  then show ?case using Cons.prems by simp
qed simp

lemma firsts_append: "firsts seen (xs @ ys) = firsts seen xs @ firsts (xs @ seen) ys"
proof (induction xs arbitrary: seen)
  case (Cons x xs)
  have "firsts (xs @ seen) ys = firsts ((x # xs) @ seen) ys" if "x \<in> set seen"
    using that by (intro firsts_cong) auto
  moreover have "firsts (xs @ x # seen) ys = firsts ((x # xs) @ seen) ys"
    by (intro firsts_cong) auto
  ultimately show ?case using Cons by simp
qed simp

lemma set_firsts: "set (firsts seen xs) = set xs - set seen"
  by (induction xs arbitrary: seen) auto

lemma distinct_firsts: "distinct (firsts seen xs)"
  by (induction xs arbitrary: seen) (auto simp: set_firsts)

lemma firsts_seen: "set xs \<subseteq> set seen \<Longrightarrow> firsts seen xs = []"
  by (induction xs) auto

lemma replica_loop_firsts:
  "set seen = set result \<Longrightarrow> length result < max 1 cnt \<Longrightarrow>
   replica_loop cnt es seen result = take (max 1 cnt) (result @ firsts seen (map snd es))"
proof (induction es arbitrary: seen result)
  case (Cons e es)
  obtain p n where e: "e = (p, n)" by force
  show ?case
  proof (cases "n \<in> set seen")
    case True
    then have "0 < length result" using Cons.prems(1) by auto
    then have "\<not> cnt \<le> length result" using Cons.prems(2) by linarith
    then show ?thesis using Cons e True by simp
  next
    case False
    show ?thesis
    proof (cases "cnt \<le> Suc (length result)")
      case True
      then have "max 1 cnt = Suc (length result)" using Cons.prems(2) by linarith
      then show ?thesis using True e \<open>n \<notin> set seen\<close> by simp
    next
      case more: False
      then have "replica_loop cnt es (n # seen) (result @ [n])
          = take (max 1 cnt) ((result @ [n]) @ firsts (n # seen) (map snd es))"
        using Cons.prems(1) by (intro Cons.IH) auto
      then show ?thesis using more e False by simp
    qed
  qed
qed simp

lemma clockwise_firsts:
  assumes "bt_inv m"
  shows "firsts [] (map snd (bt_range_from shard m @ m)) = firsts [] (map snd (clockwise shard m))"
proof -
  let ?a = "map snd (bt_range_from shard m)" and ?b = "map snd (filter (\<lambda>e. fst e < shard) m)"
  have split: "m = filter (\<lambda>e. fst e < shard) m @ bt_range_from shard m"
  proof -
    have "sorted_wrt (\<lambda>a b. fst a < fst b) m" using assms by (simp add: bt_inv_def sorted_wrt_map)
    then show ?thesis
    proof (induction m)
      case (Cons e m)
      show ?case
      proof (cases "fst e < shard")
        case False
        then have "\<forall>x \<in> set m. shard < fst x" using Cons.prems by auto
        then have "filter (\<lambda>e. fst e < shard) m = []" "filter (\<lambda>e. shard \<le> fst e) m = m"
          by (auto simp: filter_empty_conv filter_id_conv)
        then show ?thesis using False by (simp add: bt_range_from_def)
      qed (use Cons in \<open>simp add: bt_range_from_def\<close>)
    qed (simp add: bt_range_from_def)
  qed
  have "firsts [] (?a @ ?b @ ?a) = firsts [] (?a @ ?b)"
    by (simp add: firsts_append firsts_seen)
  then show ?thesis
    unfolding clockwise_walk [OF assms] by (subst (2) split) simp
qed

section \<open>The primary\<close>

lemma set_clockwise [simp]: "set (clockwise shard m) = set m"
  by (simp add: clockwise_def)

lemma clockwise_Nil [simp]: "clockwise shard m = [] \<longleftrightarrow> m = []"
  using set_clockwise [of shard m] by (metis set_empty)

lemma primary_for_clockwise:
  assumes "bt_inv (rg_ring r)" "rg_ring r \<noteq> []"
  shows "primary_for r shard = Inr (snd (hd (clockwise shard (rg_ring r))))"
proof (cases "bt_range_from shard (rg_ring r)")
  case Nil
  then have "filter (\<lambda>e. fst e < shard) (rg_ring r) = rg_ring r"
    by (auto simp: bt_range_from_def filter_empty_conv filter_id_conv not_le)
  then show ?thesis
    using Nil assms by (cases "rg_ring r") (auto simp: primary_for_def clockwise_walk)
next
  case (Cons e es)
  then show ?thesis using assms by (cases e) (simp add: primary_for_def clockwise_walk)
qed

lemma primary_for_iff:
  assumes "bt_inv (rg_ring r)"
  shows "primary_for r shard = Inr n \<longleftrightarrow>
    (\<exists>p. bt_get (rg_ring r) p = Some n \<and> (\<forall>q \<in> dom (bt_get (rg_ring r)). p - shard \<le> q - shard))"
proof (cases "rg_ring r = []")
  case True
  then show ?thesis by (simp add: primary_for_def bt_get_def)
next
  case False
  obtain p m es where c: "clockwise shard (rg_ring r) = (p, m) # es"
    using False by (metis clockwise_Nil list.exhaust surj_pair)
  have "sorted (map (\<lambda>e. fst e - shard) (clockwise shard (rg_ring r)))"
    by (simp add: clockwise_def)
  then have least: "p - shard \<le> q - shard" if "(q, k) \<in> set (rg_ring r)" for q k
    using that c set_clockwise [of shard "rg_ring r"] by force
  have pm: "bt_get (rg_ring r) p = Some m"
    using c set_clockwise [of shard "rg_ring r"] bt.in_entries_iff [OF assms, of p m] by auto
  have prim: "primary_for r shard = Inr m"
    using primary_for_clockwise [OF assms False] c by simp
  have uniq: "k = m" if "bt_get (rg_ring r) q = Some k" "\<forall>x \<in> dom (bt_get (rg_ring r)). q - shard \<le> x - shard" for q k
  proof -
    have "(q, k) \<in> set (rg_ring r)" using that(1) bt.in_entries_iff [OF assms] by simp
    then have "q - shard = p - shard" using least that(2) pm by (metis antisym domI)
    then show ?thesis using that(1) pm by simp
  qed
  have "p - shard \<le> q - shard" if q: "q \<in> dom (bt_get (rg_ring r))" for q
  proof -
    obtain k where "bt_get (rg_ring r) q = Some k" using q by blast
    then show ?thesis using least [of q k] bt.in_entries_iff [OF assms, of q k] by simp
  qed
  then have "\<forall>q \<in> dom (bt_get (rg_ring r)). p - shard \<le> q - shard" by blast
  then show ?thesis using prim pm uniq by (metis sum.inject(2))
qed

section \<open>Adding and removing nodes\<close>

lemma bt_inv_fold:
  "bt_inv m \<Longrightarrow> bt_inv (fold (\<lambda>i. bt_insert (f i) n) is m)" "bt_inv m \<Longrightarrow> bt_inv (fold (\<lambda>i. bt_remove (f i)) is m)"
  by (induction "is" arbitrary: m) (simp_all add: bt_inv_insert bt_inv_remove)

lemma bt_get_fold_insert:
  "bt_get (fold (\<lambda>i. bt_insert (f i) n) is m) p = (if p \<in> f ` set is then Some n else bt_get m p)"
  by (induction "is" arbitrary: m) (auto simp: bt_get_insert)

lemma bt_get_fold_remove:
  "bt_inv m \<Longrightarrow> bt_get (fold (\<lambda>i. bt_remove (f i)) is m) p = (if p \<in> f ` set is then None else bt_get m p)"
  by (induction "is" arbitrary: m) (auto simp: bt_get_remove bt_inv_remove)

definition node_positions :: "(bytes \<Rightarrow> u64) \<Rightarrow> u32 \<Rightarrow> string \<Rightarrow> u64 set" where
  "node_positions fin v node_id = node_position fin node_id ` {0..<unat v}"

lemma add_node_ring:
  "bt_inv (rg_ring r) \<Longrightarrow> bt_inv (rg_ring (add_node fin n r))"
  "bt_get (rg_ring (add_node fin n r)) p = (if p \<in> node_positions fin (rg_virtual_nodes r) n then Some n else bt_get (rg_ring r) p)"
  "rg_virtual_nodes (add_node fin n r) = rg_virtual_nodes r"
  by (simp_all add: add_node_def bt_inv_fold bt_get_fold_insert node_positions_def)

lemma remove_node_ring:
  "bt_inv (rg_ring r) \<Longrightarrow> bt_inv (rg_ring (remove_node fin n r))"
  "bt_inv (rg_ring r) \<Longrightarrow>
     bt_get (rg_ring (remove_node fin n r)) p = (if p \<in> node_positions fin (rg_virtual_nodes r) n then None else bt_get (rg_ring r) p)"
  "rg_virtual_nodes (remove_node fin n r) = rg_virtual_nodes r"
  by (simp_all add: remove_node_def bt_inv_fold bt_get_fold_remove node_positions_def)

datatype ring_op = AddNode string | RemoveNode string

fun ring_step :: "(bytes \<Rightarrow> u64) \<Rightarrow> ring_op \<Rightarrow> hash_ring \<Rightarrow> hash_ring" where
  "ring_step fin (AddNode n) r = add_node fin n r"
| "ring_step fin (RemoveNode n) r = remove_node fin n r"

definition ring_after :: "(bytes \<Rightarrow> u64) \<Rightarrow> u32 \<Rightarrow> ring_op list \<Rightarrow> hash_ring" where
  "ring_after fin v ops = fold (ring_step fin) ops (ring_new v)"

lemma ring_after_inv: "bt_inv (rg_ring (ring_after fin v ops))"
proof -
  have "bt_inv (rg_ring r) \<Longrightarrow> bt_inv (rg_ring (fold (ring_step fin) ops r))" for r
  proof (induction ops arbitrary: r)
    case (Cons op ops)
    then show ?case by (cases op) (simp_all add: add_node_ring remove_node_ring)
  qed simp
  then show ?thesis by (simp add: ring_after_def ring_new_def)
qed

lemma add_node_moves_to_new:
  assumes "bt_inv (rg_ring r)" "primary_for (add_node fin n r) shard = Inr m"
  shows "m = n \<or> primary_for r shard = Inr m"
proof -
  obtain p where p: "bt_get (rg_ring (add_node fin n r)) p = Some m"
    "\<forall>q \<in> dom (bt_get (rg_ring (add_node fin n r))). p - shard \<le> q - shard"
    using assms by (auto simp: primary_for_iff [OF add_node_ring(1) [OF assms(1)]])
  have sub: "dom (bt_get (rg_ring r)) \<subseteq> dom (bt_get (rg_ring (add_node fin n r)))"
    by (auto simp: add_node_ring(2) split: if_splits)
  have "m = n \<or> bt_get (rg_ring r) p = Some m"
    using p(1) by (auto simp: add_node_ring(2) split: if_splits)
  then show ?thesis
    using p(2) sub unfolding primary_for_iff [OF assms(1)] by blast
qed

lemma remove_node_keeps_others:
  assumes "bt_inv (rg_ring r)" "\<And>p. p \<in> node_positions fin (rg_virtual_nodes r) n \<Longrightarrow> bt_get (rg_ring r) p \<in> {None, Some n}"
    and "primary_for r shard = Inr m" "m \<noteq> n"
  shows "primary_for (remove_node fin n r) shard = Inr m"
proof -
  obtain p where p: "bt_get (rg_ring r) p = Some m" "\<forall>q \<in> dom (bt_get (rg_ring r)). p - shard \<le> q - shard"
    using assms(3) by (auto simp: primary_for_iff [OF assms(1)])
  have "p \<notin> node_positions fin (rg_virtual_nodes r) n" using assms(2) [of p] p(1) assms(4) by auto
  then have "bt_get (rg_ring (remove_node fin n r)) p = Some m"
    using p(1) by (simp add: remove_node_ring(2) [OF assms(1)])
  moreover have "dom (bt_get (rg_ring (remove_node fin n r))) \<subseteq> dom (bt_get (rg_ring r))"
    by (auto simp: remove_node_ring(2) [OF assms(1)] split: if_splits)
  ultimately show ?thesis
    using p(2) unfolding primary_for_iff [OF remove_node_ring(1) [OF assms(1)]] by blast
qed

section \<open>Replicas\<close>

lemma length_firsts: "length (firsts [] xs) = length (remdups xs)"
  by (simp add: distinct_card [OF distinct_firsts, symmetric] set_firsts length_remdups_card_conv)

lemma hd_firsts: "xs \<noteq> [] \<Longrightarrow> hd (firsts [] xs) = hd xs \<and> firsts [] xs \<noteq> []"
  by (cases xs) auto

lemma node_count_clockwise: "node_count r = length (remdups (map snd (clockwise shard (rg_ring r))))"
  by (simp add: node_count_def length_remdups_card_conv)

lemma replica_nodes_firsts:
  assumes "bt_inv (rg_ring r)" "rg_ring r \<noteq> []"
  shows "replica_nodes r shard cnt = Inr (take (max 1 cnt) (firsts [] (map snd (clockwise shard (rg_ring r)))))"
  using replica_loop_firsts [of "[]" "[]" cnt "bt_range_from shard (rg_ring r) @ rg_ring r"]
    clockwise_firsts [OF assms(1), of shard] assms(2) by (simp add: replica_nodes_def)

section \<open>A sample ring\<close>

definition sample_hash :: "bytes \<Rightarrow> u64" where
  "sample_hash data = (case drop 8 data of b # _ # c # _ \<Rightarrow> 256 * ucast b + ucast c | _ \<Rightarrow> 0)"

lemma sample_positions:
  "node_position sample_hash ''a'' 0 = 24880" "node_position sample_hash ''a'' (Suc 0) = 24881"
  "node_position sample_hash ''b'' 0 = 25136" "node_position sample_hash ''b'' (Suc 0) = 25137"
  by code_simp+

lemma sample_node_positions:
  "node_positions sample_hash 2 ''a'' = {24880, 24881}" "node_positions sample_hash 2 ''b'' = {25136, 25137}"
proof -
  have "{0..<unat (2 :: u32)} = {0, Suc 0}" by auto
  then show "node_positions sample_hash 2 ''a'' = {24880, 24881}" "node_positions sample_hash 2 ''b'' = {25136, 25137}"
    by (simp_all add: node_positions_def sample_positions)
qed

lemma sample_ring:
  "rg_ring (ring_after sample_hash 2 [AddNode ''a'', AddNode ''b''])
    = [(24880, ''a''), (24881, ''a''), (25136, ''b''), (25137, ''b'')]"
  "rg_virtual_nodes (ring_after sample_hash 2 ops) = 2"
proof -
  show "rg_ring (ring_after sample_hash 2 [AddNode ''a'', AddNode ''b''])
      = [(24880, ''a''), (24881, ''a''), (25136, ''b''), (25137, ''b'')]"
    by (simp add: ring_after_def ring_new_def add_node_def sample_positions upt_conv_Cons)
  have "rg_virtual_nodes (fold (ring_step sample_hash) ops r) = rg_virtual_nodes r" for r
  proof (induction ops arbitrary: r)
    case (Cons op ops)
    then show ?case by (cases op) (simp_all add: add_node_ring remove_node_ring)
  qed simp
  then show "rg_virtual_nodes (ring_after sample_hash 2 ops) = 2" by (simp add: ring_after_def ring_new_def)
qed

text \<open>
  The replica set of a shard: the distinct nodes a clockwise walk meets, the primary first,
  as many as asked for (at least one) or all nodes of the ring if there are fewer.
\<close>

lemma replica_nodes_clockwise:
  assumes "r = ring_after fin v ops" "\<not> ring_is_empty r"
  shows "\<exists>ns. replica_nodes r shard cnt = Inr ns \<and> ns = take (max 1 cnt) (firsts [] (map snd (clockwise shard (rg_ring r))))
    \<and> distinct ns \<and> length ns = min (max 1 cnt) (node_count r) \<and> primary_for r shard = Inr (hd ns)"
proof -
  have inv: "bt_inv (rg_ring r)" "rg_ring r \<noteq> []" using assms ring_after_inv by (simp_all add: ring_is_empty_def)
  let ?all = "firsts [] (map snd (clockwise shard (rg_ring r)))"
  have ne: "map snd (clockwise shard (rg_ring r)) \<noteq> []" using inv(2) by simp
  have "length (take (max 1 cnt) ?all) = min (max 1 cnt) (node_count r)"
    by (simp add: length_firsts node_count_clockwise [of r shard] min.commute)
  moreover have "hd (take (max 1 cnt) ?all) = snd (hd (clockwise shard (rg_ring r)))"
    using hd_firsts [OF ne] inv(2) by (simp add: hd_take hd_map)
  ultimately show ?thesis
    using replica_nodes_firsts [OF inv] primary_for_clockwise [OF inv] by (simp add: distinct_firsts)
qed

section \<open>Properties\<close>

text \<open>
  C21. Consistent hashing. On every ring built by additions and removals, the primary of a shard
  is the node whose virtual node is nearest clockwise, at the least distance \<open>p - shard\<close>
  modulo \<open>2 ^ 64\<close>. The replica set is the distinct nodes a clockwise walk meets, the primary
  first, as many as asked for (at least one) or all nodes if there are fewer. Adding a node moves
  shards to that node only. Removing a node whose positions collide with no other node's leaves the
  primary of every other node's shards in place.
\<close>

theorem consistent_hashing:
  assumes "r = ring_after fin v ops"
  shows "(primary_for r shard = Inr m \<longleftrightarrow>
      (\<exists>p. bt_get (rg_ring r) p = Some m \<and> (\<forall>q \<in> dom (bt_get (rg_ring r)). p - shard \<le> q - shard)))
    \<and> (\<not> ring_is_empty r \<longrightarrow> (\<exists>ns. replica_nodes r shard cnt = Inr ns
        \<and> ns = take (max 1 cnt) (firsts [] (map snd (clockwise shard (rg_ring r))))
        \<and> distinct ns \<and> length ns = min (max 1 cnt) (node_count r) \<and> primary_for r shard = Inr (hd ns)))
    \<and> (primary_for (add_node fin n r) shard = Inr m \<longrightarrow> m = n \<or> primary_for r shard = Inr m)
    \<and> (primary_for r shard = Inr m \<and> m \<noteq> n
        \<and> (\<forall>p \<in> node_positions fin (rg_virtual_nodes r) n. bt_get (rg_ring r) p \<in> {None, Some n})
        \<longrightarrow> primary_for (remove_node fin n r) shard = Inr m)"
proof -
  have "bt_inv (rg_ring r)" using assms ring_after_inv by simp
  then show ?thesis
    using primary_for_iff add_node_moves_to_new remove_node_keeps_others [of r fin n shard m]
      replica_nodes_clockwise [OF assms, of shard cnt] ring_after_inv [of fin v ops]
    unfolding assms by blast
qed

theorem consistent_hashing_witness:
  "primary_for (remove_node sample_hash ''a'' (ring_after sample_hash 2 [AddNode ''a'', AddNode ''b''])) 25000 = Inr ''b''
    \<and> replica_nodes (ring_after sample_hash 2 [AddNode ''a'', AddNode ''b'']) 25000 3 = Inr [''b'', ''a'']"
proof -
  let ?r = "ring_after sample_hash 2 [AddNode ''a'', AddNode ''b'']"
  have "primary_for ?r 25000 = Inr ''b''"
    by (simp add: primary_for_def bt_range_from_def sample_ring)
  moreover have "\<forall>p \<in> node_positions sample_hash (rg_virtual_nodes ?r) ''a''. bt_get (rg_ring ?r) p \<in> {None, Some ''a''}"
    by (simp add: sample_ring sample_node_positions bt_get_def)
  moreover have "\<not> ring_is_empty ?r" by (simp add: ring_is_empty_def sample_ring)
  ultimately show ?thesis
    using consistent_hashing [of ?r sample_hash 2 "[AddNode ''a'', AddNode ''b'']" 25000 "''b''" 3 "''a''"]
    by (simp add: sample_ring clockwise_def)
qed

end
