(* ===== verification/Utf8.thy ===== *)
theory Utf8
  imports Prelude
begin

text \<open>
  UTF-8 as the standard library decodes it: \<open>str::from_utf8\<close>, which refuses malformed
  bytes, and \<open>String::from_utf8_lossy\<close>, which replaces each malformed sequence by U+FFFD.
  A \<open>string\<close> is the list of its bytes.
\<close>

definition byte_char :: "u8 \<Rightarrow> char" where
  "byte_char b = char_of (unat b)"

definition byte_string :: "bytes \<Rightarrow> string" where
  "byte_string bs = map byte_char bs"

definition continuation :: "u8 \<Rightarrow> bool" where
  "continuation b \<longleftrightarrow> 0x80 \<le> b \<and> b \<le> 0xBF"

text \<open>The second byte of a sequence, which also excludes overlong forms and surrogates.\<close>

definition second_byte :: "u8 \<Rightarrow> u8 \<Rightarrow> bool" where
  "second_byte b0 b1 \<longleftrightarrow>
     (if b0 = 0xE0 then 0xA0 \<le> b1 \<and> b1 \<le> 0xBF
      else if b0 = 0xED then 0x80 \<le> b1 \<and> b1 \<le> 0x9F
      else if b0 = 0xF0 then 0x90 \<le> b1 \<and> b1 \<le> 0xBF
      else if b0 = 0xF4 then 0x80 \<le> b1 \<and> b1 \<le> 0x8F
      else continuation b1)"

definition sequence_width :: "u8 \<Rightarrow> nat" where
  "sequence_width b0 =
     (if b0 < 0x80 then 1
      else if 0xC2 \<le> b0 \<and> b0 \<le> 0xDF then 2
      else if 0xE0 \<le> b0 \<and> b0 \<le> 0xEF then 3
      else if 0xF0 \<le> b0 \<and> b0 \<le> 0xF4 then 4
      else 0)"

text \<open>How many of the bytes after the first belong to its sequence.\<close>

fun sequence_tail :: "u8 \<Rightarrow> nat \<Rightarrow> bytes \<Rightarrow> nat" where
  "sequence_tail b0 0 bs = 0"
| "sequence_tail b0 (Suc n) [] = 0"
| "sequence_tail b0 (Suc n) (b # bs) =
     (if second_byte b0 b then Suc (length (takeWhile continuation (take n bs))) else 0)"

fun from_utf8 :: "bytes \<Rightarrow> string option" where
  "from_utf8 [] = Some []"
| "from_utf8 (b # bs) =
     (let n = sequence_tail b (sequence_width b - 1) bs in
      if sequence_width b = Suc n then map_option ((@) (byte_string (b # take n bs))) (from_utf8 (drop n bs))
      else None)"

definition replacement :: string where
  "replacement = byte_string [0xEF, 0xBF, 0xBD]"

fun from_utf8_lossy :: "bytes \<Rightarrow> string" where
  "from_utf8_lossy [] = []"
| "from_utf8_lossy (b # bs) =
     (let n = sequence_tail b (sequence_width b - 1) bs in
      (if sequence_width b = Suc n then byte_string (b # take n bs) else replacement) @ from_utf8_lossy (drop n bs))"

text \<open>Well-formed bytes are decoded to themselves, by both functions.\<close>

lemma from_utf8_bytes: "from_utf8 bs = Some s \<Longrightarrow> s = byte_string bs"
proof (induction bs arbitrary: s rule: from_utf8.induct)
  case (2 b bs)
  let ?n = "sequence_tail b (sequence_width b - 1) bs"
  obtain t where t: "from_utf8 (drop ?n bs) = Some t" "s = byte_string (b # take ?n bs) @ t" "sequence_width b = Suc ?n"
    using 2(2) by (auto simp: Let_def split: if_splits)
  have "t = byte_string (drop ?n bs)"
    by (rule 2(1) [OF refl t(3) t(1)])
  then show ?case using t(2) by (simp add: byte_string_def flip: map_append)
qed (simp add: byte_string_def)

lemma from_utf8_lossy_valid: "from_utf8 bs = Some s \<Longrightarrow> from_utf8_lossy bs = s"
proof (induction bs arbitrary: s rule: from_utf8.induct)
  case (2 b bs)
  let ?n = "sequence_tail b (sequence_width b - 1) bs"
  obtain t where t: "from_utf8 (drop ?n bs) = Some t" "s = byte_string (b # take ?n bs) @ t" "sequence_width b = Suc ?n"
    using 2(2) by (auto simp: Let_def split: if_splits)
  have "from_utf8_lossy (drop ?n bs) = t"
    by (rule 2(1) [OF refl t(3) t(1)])
  then show ?case using t(2,3) by (simp add: Let_def)
qed simp

text \<open>ASCII is well formed.\<close>

lemma from_utf8_ascii: "\<forall>b \<in> set bs. b < 0x80 \<Longrightarrow> from_utf8 bs = Some (byte_string bs)"
  by (induction bs) (auto simp: sequence_width_def byte_string_def)

text \<open>\<open>str::trim_start_matches\<close> with a string pattern removes the pattern as often as it stands there.\<close>

fun strip_prefix :: "string \<Rightarrow> string \<Rightarrow> string option" where
  "strip_prefix [] s = Some s"
| "strip_prefix (_ # _) [] = None"
| "strip_prefix (p # ps) (c # cs) = (if p = c then strip_prefix ps cs else None)"

lemma strip_prefix_length: "strip_prefix p s = Some t \<Longrightarrow> length s = length p + length t"
  by (induction p s rule: strip_prefix.induct) (auto split: if_splits)

lemma strip_prefix_append [simp]: "strip_prefix p (p @ s) = Some s"
  by (induction p) auto

function trim_start_matches :: "string \<Rightarrow> string \<Rightarrow> string" where
  "trim_start_matches p s =
     (case strip_prefix p s of None \<Rightarrow> s | Some t \<Rightarrow> if p = [] then s else trim_start_matches p t)"
  by pat_completeness auto
termination
proof (relation "measure (\<lambda>(p, s). length s)")
  fix p s t :: string
  assume "strip_prefix p s = Some t" "p \<noteq> []"
  then show "((p, t), p, s) \<in> measure (\<lambda>(p, s). length s)"
    using strip_prefix_length [of p s t] by simp
qed simp

declare trim_start_matches.simps [simp del]

lemma trim_start_matches_once:
  "p \<noteq> [] \<Longrightarrow> strip_prefix p s = None \<Longrightarrow> trim_start_matches p (p @ s) = s"
  by (simp add: trim_start_matches.simps [of p "p @ s"] trim_start_matches.simps [of p s])

end
