(* ===== verification/Membership.thy ===== *)
theory Membership
  imports Ring Utf8
begin

text \<open>
  Cluster membership (\<open>infralens-cluster/src/membership.rs\<close>, \<open>config.rs\<close>): the view of
  the live nodes and their ring, loaded from etcd and kept by its watch events, and the shard
  router (\<open>router.rs\<close>) that consults it. The etcd client and the JSON decoder of node
  records are parameters; the lease refresh has no effect on the view.
\<close>

section \<open>State\<close>

record cluster_config =
  cc_enabled :: bool
  cc_node_id :: string
  cc_internal_grpc_addr :: string
  cc_etcd_endpoints :: "string list"
  cc_replication_factor :: u32
  cc_min_ack_replicas :: u32
  cc_virtual_nodes :: u32
  cc_replica_buffer_bytes :: nat

definition cluster_config_default :: cluster_config where
  "cluster_config_default =
     \<lparr>cc_enabled = False, cc_node_id = [], cc_internal_grpc_addr = ''0.0.0.0:4319'',
      cc_etcd_endpoints = [''http://localhost:2379''], cc_replication_factor = 3, cc_min_ack_replicas = 1,
      cc_virtual_nodes = 150, cc_replica_buffer_bytes = 64 * 1024 * 1024\<rparr>"

record node_meta =
  nm_node_id :: string
  nm_internal_grpc_addr :: string
  nm_version :: string
  nm_started_at_ns :: u64

record cluster_view =
  cv_nodes :: "node_meta list"
  cv_ring :: hash_ring

record membership =
  ms_config :: cluster_config
  ms_view :: cluster_view

record key_value =
  kv_key :: bytes
  kv_value :: bytes

text \<open>A watch event carries the pair, if any; the client gives an unset pair for unknown keys.\<close>

datatype watch_event = EvPut "key_value option" | EvDelete "key_value option"

definition lease_ttl_secs :: i64 where "lease_ttl_secs = 15"
definition nodes_prefix :: string where "nodes_prefix = ''/infralens/nodes/''"

text \<open>The hash, and what the code uses of \<open>serde_json\<close> for a node record.\<close>

record cluster_env =
  ce_hash :: "bytes \<Rightarrow> u64"
  ce_parse :: "string \<Rightarrow> string + node_meta"
  ce_print :: "node_meta \<Rightarrow> string + string"

section \<open>The view\<close>

definition decode_meta :: "cluster_env \<Rightarrow> key_value \<Rightarrow> node_meta option" where
  "decode_meta C kv =
     (case from_utf8 (kv_value kv) of
        None \<Rightarrow> None
      | Some json \<Rightarrow> (case ce_parse C json of Inl _ \<Rightarrow> None | Inr meta \<Rightarrow> Some meta))"

definition load_kv :: "cluster_env \<Rightarrow> key_value \<Rightarrow> cluster_view \<Rightarrow> cluster_view" where
  "load_kv C kv view =
     (case decode_meta C kv of
        None \<Rightarrow> view
      | Some meta \<Rightarrow> \<lparr>cv_nodes = cv_nodes view @ [meta], cv_ring = add_node (ce_hash C) (nm_node_id meta) (cv_ring view)\<rparr>)"

definition load_view :: "cluster_env \<Rightarrow> u32 \<Rightarrow> key_value list \<Rightarrow> cluster_view" where
  "load_view C virtual_nodes kvs = fold (load_kv C) kvs \<lparr>cv_nodes = [], cv_ring = ring_new virtual_nodes\<rparr>"

definition retain_other :: "string \<Rightarrow> node_meta list \<Rightarrow> node_meta list" where
  "retain_other node_id nodes = filter (\<lambda>n. nm_node_id n \<noteq> node_id) nodes"

fun watch_step :: "cluster_env \<Rightarrow> watch_event \<Rightarrow> cluster_view \<Rightarrow> cluster_view" where
  "watch_step C (EvPut kv) view =
     (case Option.bind kv (decode_meta C) of
        None \<Rightarrow> view
      | Some meta \<Rightarrow>
          \<lparr>cv_nodes = retain_other (nm_node_id meta) (cv_nodes view) @ [meta],
           cv_ring = add_node (ce_hash C) (nm_node_id meta) (cv_ring view)\<rparr>)"
| "watch_step C (EvDelete kv) view =
     (case kv of
        None \<Rightarrow> view
      | Some p \<Rightarrow>
          let node_id = trim_start_matches nodes_prefix (from_utf8_lossy (kv_key p)) in
          \<lparr>cv_nodes = retain_other node_id (cv_nodes view),
           cv_ring = remove_node (ce_hash C) node_id (cv_ring view)\<rparr>)"

text \<open>The watch stream: each message is a list of events, an error, or the end. An error ends the
  task like the end of the stream.\<close>

fun watch_membership :: "cluster_env \<Rightarrow> (string + watch_event list option) list \<Rightarrow> cluster_view \<Rightarrow> cluster_view" where
  "watch_membership C [] view = view"
| "watch_membership C (Inl _ # _) view = view"
| "watch_membership C (Inr None # _) view = view"
| "watch_membership C (Inr (Some events) # msgs) view = watch_membership C msgs (fold (watch_step C) events view)"

definition is_alive :: "string \<Rightarrow> cluster_view \<Rightarrow> bool" where
  "is_alive node_id view \<longleftrightarrow> list_ex (\<lambda>n. nm_node_id n = node_id) (cv_nodes view)"

definition grpc_addr :: "string \<Rightarrow> cluster_view \<Rightarrow> string option" where
  "grpc_addr node_id view = map_option nm_internal_grpc_addr (find (\<lambda>n. nm_node_id n = node_id) (cv_nodes view))"

section \<open>Joining\<close>

text \<open>The etcd client: its connections share the state of the store.\<close>

record 'k etcd_ops =
  et_connect :: "string list \<Rightarrow> 'k \<Rightarrow> string + 'k"
  et_lease_grant :: "i64 \<Rightarrow> 'k \<Rightarrow> string + i64 \<times> 'k"
  et_put :: "bytes \<Rightarrow> bytes \<Rightarrow> i64 \<Rightarrow> 'k \<Rightarrow> string + 'k"
  et_get_prefix :: "string \<Rightarrow> 'k \<Rightarrow> string + key_value list \<times> 'k"

definition etcd :: "string + 'a \<Rightarrow> cluster_error + 'a" where
  "etcd r = map_err EtcdError r"

definition join ::
  "'k etcd_ops \<Rightarrow> cluster_env \<Rightarrow> string \<Rightarrow> u64 \<Rightarrow> cluster_config \<Rightarrow> 'k \<Rightarrow> cluster_error + membership \<times> 'k" where
  "join K C version now config k =
     and_then (etcd (et_connect K (cc_etcd_endpoints config) k)) (\<lambda>k.
       and_then (etcd (et_lease_grant K lease_ttl_secs k)) (\<lambda>(lease_id, k).
         let meta = \<lparr>nm_node_id = cc_node_id config, nm_internal_grpc_addr = cc_internal_grpc_addr config,
                     nm_version = version, nm_started_at_ns = now\<rparr> in
         and_then (map_err ClusterSerialisation (ce_print C meta)) (\<lambda>json.
           and_then (etcd (et_put K (as_bytes (nodes_prefix @ cc_node_id config)) (as_bytes json) lease_id k)) (\<lambda>k.
             and_then (etcd (et_get_prefix K nodes_prefix k)) (\<lambda>(kvs, k).
               let view = load_view C (cc_virtual_nodes config) kvs in
               and_then (etcd (et_connect K (cc_etcd_endpoints config) k)) (\<lambda>k.
                 and_then (etcd (et_connect K (cc_etcd_endpoints config) k)) (\<lambda>k.
                   Inr (\<lparr>ms_config = config, ms_view = view\<rparr>, k))))))))"

section \<open>Routing\<close>

record routing_decision =
  rd_primary :: string
  rd_replicas :: "string list"
  rd_is_local :: bool

record shard_router =
  sr_local_id :: string
  sr_rep_factor :: u32

text \<open>A replication factor of zero wraps around as in a release build, where \<open>replica_nodes\<close> then
  returns no node; a build with overflow checks panics at the subtraction.\<close>

definition route :: "cluster_env \<Rightarrow> shard_router \<Rightarrow> cluster_view \<Rightarrow> string \<Rightarrow> routing_decision" where
  "route C router view series_key =
     (let shard = shard_for_key (ce_hash C) series_key;
          primary = (case primary_for (cv_ring view) shard of Inl _ \<Rightarrow> sr_local_id router | Inr n \<Rightarrow> n);
          found = (case replica_nodes (cv_ring view) shard (unat (sr_rep_factor router)) of Inl _ \<Rightarrow> [] | Inr ns \<Rightarrow> ns);
          replicas = take (unat (sr_rep_factor router - 1)) (filter (\<lambda>n. n \<noteq> primary) found) in
      \<lparr>rd_primary = primary, rd_replicas = replicas, rd_is_local = (primary = sr_local_id router)\<rparr>)"

definition log_series_key :: "string \<Rightarrow> i32 \<Rightarrow> string" where
  "log_series_key part severity = ''logs|'' @ part @ ''|sev='' @ signed_dec severity"

definition metric_series_key :: "string \<Rightarrow> string \<Rightarrow> string" where
  "metric_series_key part name = ''metrics|'' @ part @ ''|'' @ name"

definition span_series_key :: "string \<Rightarrow> string \<Rightarrow> string" where
  "span_series_key part service = ''traces|'' @ part @ ''|'' @ service"

section \<open>The ring follows the view\<close>

definition node_ids :: "cluster_view \<Rightarrow> string set" where
  "node_ids view = nm_node_id ` set (cv_nodes view)"

text \<open>The nodes that can ever take part, and that their virtual nodes do not collide.\<close>

fun event_id :: "cluster_env \<Rightarrow> watch_event \<Rightarrow> string option" where
  "event_id C (EvPut kv) = map_option nm_node_id (Option.bind kv (decode_meta C))"
| "event_id C (EvDelete kv) = map_option (\<lambda>p. trim_start_matches nodes_prefix (from_utf8_lossy (kv_key p))) kv"

definition events_of :: "(string + watch_event list option) list \<Rightarrow> watch_event list" where
  "events_of msgs = concat (map (\<lambda>m. case m of Inr (Some evs) \<Rightarrow> evs | _ \<Rightarrow> []) msgs)"

definition names :: "cluster_env \<Rightarrow> key_value list \<Rightarrow> (string + watch_event list option) list \<Rightarrow> string list" where
  "names C kvs msgs =
     List.map_filter (\<lambda>kv. map_option nm_node_id (decode_meta C kv)) kvs @ List.map_filter (event_id C) (events_of msgs)"

definition collision_free :: "(bytes \<Rightarrow> u64) \<Rightarrow> u32 \<Rightarrow> string list \<Rightarrow> bool" where
  "collision_free fin v ids \<longleftrightarrow>
     (\<forall>a \<in> set ids. \<forall>b \<in> set ids. a \<noteq> b \<longrightarrow> node_positions fin v a \<inter> node_positions fin v b = {})"

definition view_ok :: "cluster_env \<Rightarrow> u32 \<Rightarrow> string list \<Rightarrow> cluster_view \<Rightarrow> bool" where
  "view_ok C v ids view \<longleftrightarrow>
     bt_inv (rg_ring (cv_ring view)) \<and> rg_virtual_nodes (cv_ring view) = v \<and> node_ids view \<subseteq> set ids
   \<and> (\<forall>p n. bt_get (rg_ring (cv_ring view)) p = Some n \<longleftrightarrow> n \<in> node_ids view \<and> p \<in> node_positions (ce_hash C) v n)"

lemma node_ids_retain: "nm_node_id ` set (retain_other i ns) = nm_node_id ` set ns - {i}"
  by (auto simp: retain_other_def)

lemma node_ids_replace:
  "nm_node_id ` set (retain_other (nm_node_id m) ns @ [m]) = insert (nm_node_id m) (nm_node_id ` set ns)"
  by (auto simp: retain_other_def)

lemma view_ok_add:
  assumes "collision_free (ce_hash C) v ids" "view_ok C v ids view" "i \<in> set ids"
    and "nm_node_id ` set nodes = insert i (node_ids view)"
  shows "view_ok C v ids \<lparr>cv_nodes = nodes, cv_ring = add_node (ce_hash C) i (cv_ring view)\<rparr>"
proof -
  have ids: "node_ids view \<subseteq> set ids" using assms(2) by (simp add: view_ok_def)
  have "bt_get (rg_ring (add_node (ce_hash C) i (cv_ring view))) p = Some n \<longleftrightarrow>
      n \<in> insert i (node_ids view) \<and> p \<in> node_positions (ce_hash C) v n" for p n
  proof (cases "n = i")
    case False
    then have "node_positions (ce_hash C) v n \<inter> node_positions (ce_hash C) v i = {}" if "n \<in> node_ids view"
      using assms(1,3) ids that by (auto simp: collision_free_def)
    then show ?thesis using assms(2) False by (auto simp: view_ok_def add_node_ring)
  qed (use assms(2) in \<open>auto simp: view_ok_def add_node_ring\<close>)
  then show ?thesis
    using assms ids by (auto simp: view_ok_def node_ids_def add_node_ring)
qed

lemma view_ok_remove:
  assumes "collision_free (ce_hash C) v ids" "view_ok C v ids view" "i \<in> set ids"
    and "nm_node_id ` set nodes = node_ids view - {i}"
  shows "view_ok C v ids \<lparr>cv_nodes = nodes, cv_ring = remove_node (ce_hash C) i (cv_ring view)\<rparr>"
proof -
  have ids: "node_ids view \<subseteq> set ids" and inv: "bt_inv (rg_ring (cv_ring view))"
    using assms(2) by (simp_all add: view_ok_def)
  have "bt_get (rg_ring (remove_node (ce_hash C) i (cv_ring view))) p = Some n \<longleftrightarrow>
      n \<in> node_ids view - {i} \<and> p \<in> node_positions (ce_hash C) v n" for p n
  proof (cases "n = i")
    case False
    then have "node_positions (ce_hash C) v n \<inter> node_positions (ce_hash C) v i = {}" if "n \<in> node_ids view"
      using assms(1,3) ids that by (auto simp: collision_free_def)
    then show ?thesis using assms(2) False by (auto simp: view_ok_def remove_node_ring(2) [OF inv])
  qed (use assms(2) in \<open>auto simp: view_ok_def remove_node_ring(2) [OF inv]\<close>)
  then show ?thesis
    using assms ids inv by (auto simp: view_ok_def node_ids_def remove_node_ring)
qed

lemma view_ok_load:
  assumes "collision_free (ce_hash C) v ids" "\<And>kv meta. kv \<in> set kvs \<Longrightarrow> decode_meta C kv = Some meta \<Longrightarrow> nm_node_id meta \<in> set ids"
    and "view_ok C v ids view"
  shows "view_ok C v ids (fold (load_kv C) kvs view)"
  using assms(2,3)
proof (induction kvs arbitrary: view)
  case (Cons kv kvs)
  have "view_ok C v ids (load_kv C kv view)"
  proof (cases "decode_meta C kv")
    case (Some meta)
    then show ?thesis
      using Cons.prems by (auto simp: load_kv_def node_ids_def intro!: view_ok_add [OF assms(1)])
  qed (use Cons.prems in \<open>simp add: load_kv_def\<close>)
  then show ?case using Cons.IH [of "load_kv C kv view"] Cons.prems by auto
qed simp

lemma view_ok_step:
  assumes "collision_free (ce_hash C) v ids" "\<And>i. event_id C ev = Some i \<Longrightarrow> i \<in> set ids" "view_ok C v ids view"
  shows "view_ok C v ids (watch_step C ev view)"
proof (cases ev)
  case (EvPut kv)
  show ?thesis
  proof (cases "Option.bind kv (decode_meta C)")
    case (Some meta)
    then show ?thesis
      using view_ok_add [OF assms(1,3), of "nm_node_id meta"] assms(2) EvPut node_ids_replace [of meta "cv_nodes view"]
      by (simp add: node_ids_def)
  qed (use EvPut assms(3) in simp)
next
  case (EvDelete kv)
  show ?thesis
  proof (cases kv)
    case (Some p)
    then show ?thesis
      using view_ok_remove [OF assms(1,3)] assms(2) EvDelete by (simp add: node_ids_retain node_ids_def Let_def)
  qed (use EvDelete assms(3) in simp)
qed

lemma view_ok_watch:
  assumes "collision_free (ce_hash C) v ids" "\<And>ev i. ev \<in> set (events_of msgs) \<Longrightarrow> event_id C ev = Some i \<Longrightarrow> i \<in> set ids"
    and "view_ok C v ids view"
  shows "view_ok C v ids (watch_membership C msgs view)"
  using assms
proof (induction C msgs view rule: watch_membership.induct)
  case (4 C evs msgs view)
  have "view_ok C v ids (fold (watch_step C) es w)" if "set es \<subseteq> set evs" "view_ok C v ids w" for es w
    using that
  proof (induction es arbitrary: w)
    case (Cons e es)
    then have "view_ok C v ids (watch_step C e w)"
      using 4(2,3) by (intro view_ok_step) (auto simp: events_of_def)
    then show ?case using Cons by simp
  qed simp
  then have "view_ok C v ids (fold (watch_step C) evs view)" using 4(4) by blast
  moreover have "set (events_of msgs) \<subseteq> set (events_of (Inr (Some evs) # msgs))" by (auto simp: events_of_def)
  ultimately show ?case using 4(1,2,3) by auto
qed auto

lemma view_ok_final:
  assumes "collision_free (ce_hash C) v (names C kvs msgs)"
  shows "view_ok C v (names C kvs msgs) (watch_membership C msgs (load_view C v kvs))"
proof (rule view_ok_watch [OF assms])
  show "i \<in> set (names C kvs msgs)" if "ev \<in> set (events_of msgs)" "event_id C ev = Some i" for ev i
    using that by (force simp: names_def List.map_filter_def)
  have "nm_node_id meta \<in> set (names C kvs msgs)" if "kv \<in> set kvs" "decode_meta C kv = Some meta" for kv meta
    using that by (force simp: names_def List.map_filter_def)
  then show "view_ok C v (names C kvs msgs) (load_view C v kvs)"
    unfolding load_view_def
    by (intro view_ok_load [OF assms]) (auto simp: view_ok_def node_ids_def ring_new_def bt_get_def)
qed

lemma alive_iff: "is_alive n view \<longleftrightarrow> n \<in> node_ids view"
  by (auto simp: is_alive_def node_ids_def list_ex_iff)

lemma ring_owners:
  assumes "view_ok C v ids view" "0 < v"
  shows "snd ` set (rg_ring (cv_ring view)) = node_ids view"
proof -
  have inv: "bt_inv (rg_ring (cv_ring view))"
    and get: "bt_get (rg_ring (cv_ring view)) p = Some n \<longleftrightarrow> n \<in> node_ids view \<and> p \<in> node_positions (ce_hash C) v n" for p n
    using assms(1) by (simp_all add: view_ok_def)
  have "0 < unat v" using assms(2) by (simp add: word_less_nat_alt)
  then have pos: "node_position (ce_hash C) n 0 \<in> node_positions (ce_hash C) v n" for n
    unfolding node_positions_def by simp
  have entry: "(p, n) \<in> set (rg_ring (cv_ring view)) \<longleftrightarrow> n \<in> node_ids view \<and> p \<in> node_positions (ce_hash C) v n" for p n
    using bt.in_entries_iff [OF inv, of p n] get by simp
  show ?thesis
  proof
    show "snd ` set (rg_ring (cv_ring view)) \<subseteq> node_ids view" using entry by force
    show "node_ids view \<subseteq> snd ` set (rg_ring (cv_ring view))"
      using entry pos by (metis image_eqI snd_conv subsetI)
  qed
qed

lemma filter_hd: "distinct (x # xs) \<Longrightarrow> filter (\<lambda>n. n \<noteq> x) (x # xs) = xs"
  by (auto simp: filter_id_conv)

lemma route_replicas:
  fixes C :: cluster_env and router :: shard_router and key :: string
  assumes "bt_inv (rg_ring (cv_ring view))" "rg_ring (cv_ring view) \<noteq> []"
  defines "d \<equiv> route C router view key"
    and "ns \<equiv> take (max 1 (unat (sr_rep_factor router)))
      (firsts [] (map snd (clockwise (shard_for_key (ce_hash C) key) (rg_ring (cv_ring view)))))"
  shows "rd_primary d # rd_replicas d = ns \<and> (rd_is_local d \<longleftrightarrow> rd_primary d = sr_local_id router)"
proof -
  let ?shard = "shard_for_key (ce_hash C) key" and ?rep = "unat (sr_rep_factor router)"
  let ?walk = "map snd (clockwise ?shard (rg_ring (cv_ring view)))"
  have ne: "?walk \<noteq> []" using assms(2) by simp
  have "ns \<noteq> []" "hd ns = hd ?walk" using hd_firsts [OF ne] by (simp_all add: ns_def hd_take)
  then obtain p rest where ns: "ns = p # rest" "p = hd ?walk" by (cases ns) auto
  have "distinct ns" unfolding ns_def by (simp add: distinct_firsts)
  then have rest: "filter (\<lambda>n. n \<noteq> p) ns = rest" unfolding ns(1) by (rule filter_hd)
  have "length ns \<le> max 1 ?rep" by (simp add: ns_def)
  moreover have "unat (sr_rep_factor router - 1) = ?rep - 1" if "?rep \<noteq> 0"
    using that by (simp add: unat_minus_one unat_eq_0)
  ultimately have "take (unat (sr_rep_factor router - 1)) rest = rest"
    unfolding ns(1) by (cases "?rep = 0") auto
  moreover have "primary_for (cv_ring view) ?shard = Inr p"
    using primary_for_clockwise [OF assms(1,2)] ns(2) assms(2) by (simp add: hd_map)
  ultimately show ?thesis
    using replica_nodes_firsts [OF assms(1,2), of ?shard ?rep] rest ns(1)
    by (simp add: d_def route_def Let_def ns_def)
qed

section \<open>Properties\<close>

text \<open>
  C22. Routing follows the membership. After the initial load and any stream of watch events, a
  series is routed among the nodes of the view: with no node left to the local node alone,
  otherwise to a primary and distinct replicas that are all alive, as many in total as the
  replication factor asks for or the view has. The virtual nodes of the participating nodes do not
  collide.
\<close>

theorem routing_follows_membership:
  fixes C :: cluster_env and router :: shard_router and key :: string
  assumes "collision_free (ce_hash C) v (names C kvs msgs)" "0 < v"
  defines "view \<equiv> watch_membership C msgs (load_view C v kvs)"
  defines "d \<equiv> route C router view key"
  shows "(if cv_nodes view = [] then d = \<lparr>rd_primary = sr_local_id router, rd_replicas = [], rd_is_local = True\<rparr>
     else is_alive (rd_primary d) view \<and> (\<forall>n \<in> set (rd_replicas d). is_alive n view)
        \<and> distinct (rd_primary d # rd_replicas d)
        \<and> Suc (length (rd_replicas d)) = min (max 1 (unat (sr_rep_factor router))) (card (node_ids view))
        \<and> (rd_is_local d \<longleftrightarrow> rd_primary d = sr_local_id router))"
proof -
  have ok: "view_ok C v (names C kvs msgs) view"
    unfolding view_def by (rule view_ok_final [OF assms(1)])
  then have inv: "bt_inv (rg_ring (cv_ring view))" by (simp add: view_ok_def)
  have owners: "snd ` set (rg_ring (cv_ring view)) = node_ids view" by (rule ring_owners [OF ok assms(2)])
  show ?thesis
  proof (cases "cv_nodes view = []")
    case True
    then have "rg_ring (cv_ring view) = []" using owners by (simp add: node_ids_def)
    then show ?thesis using True by (simp add: d_def route_def primary_for_def replica_nodes_def Let_def)
  next
    case False
    then have ne: "rg_ring (cv_ring view) \<noteq> []" using owners by (auto simp: node_ids_def)
    define ns where "ns = take (max 1 (unat (sr_rep_factor router)))
      (firsts [] (map snd (clockwise (shard_for_key (ce_hash C) key) (rg_ring (cv_ring view)))))"
    have d: "rd_primary d # rd_replicas d = ns" "rd_is_local d \<longleftrightarrow> rd_primary d = sr_local_id router"
      using route_replicas [OF inv ne, of C router key] by (simp_all add: d_def ns_def)
    have "set ns \<subseteq> set (firsts [] (map snd (clockwise (shard_for_key (ce_hash C) key) (rg_ring (cv_ring view)))))"
      unfolding ns_def by (rule set_take_subset)
    then have "set ns \<subseteq> node_ids view" using owners by (simp add: set_firsts)
    then have "is_alive (rd_primary d) view" "\<forall>n \<in> set (rd_replicas d). is_alive n view"
      unfolding d(1) [symmetric] alive_iff by simp_all blast
    moreover have "distinct (rd_primary d # rd_replicas d)"
      unfolding d(1) ns_def by (simp add: distinct_firsts)
    moreover have "Suc (length (rd_replicas d)) = length ns" unfolding d(1) [symmetric] by simp
    moreover have "length ns = min (max 1 (unat (sr_rep_factor router))) (card (node_ids view))"
      using owners by (simp add: ns_def length_firsts length_remdups_card_conv min.commute)
    ultimately show ?thesis using False d(2) by simp
  qed
qed

definition sample_cluster :: cluster_env where
  "sample_cluster = \<lparr>ce_hash = sample_hash,
     ce_parse = (\<lambda>s. Inr \<lparr>nm_node_id = s, nm_internal_grpc_addr = s, nm_version = ''1'', nm_started_at_ns = 0\<rparr>),
     ce_print = (\<lambda>m. Inr (nm_node_id m))\<rparr>"

definition sample_watch :: "(string + watch_event list option) list" where
  "sample_watch = [Inr (Some (map (\<lambda>n. EvPut (Some \<lparr>kv_key = as_bytes n, kv_value = as_bytes n\<rparr>)) [''a'', ''b'']))]"

lemma sample_names: "names sample_cluster [] sample_watch = [''a'', ''b'']"
  by code_simp

lemma sample_view: "map nm_node_id (cv_nodes (watch_membership sample_cluster sample_watch (load_view sample_cluster 2 []))) = [''a'', ''b'']"
  by code_simp

theorem routing_follows_membership_witness:
  "\<exists>d. d = route sample_cluster \<lparr>sr_local_id = ''a'', sr_rep_factor = 3\<rparr>
        (watch_membership sample_cluster sample_watch (load_view sample_cluster 2 [])) ''logs''
    \<and> distinct (rd_primary d # rd_replicas d) \<and> length (rd_replicas d) = 1"
proof -
  let ?view = "watch_membership sample_cluster sample_watch (load_view sample_cluster 2 [])"
  have free: "collision_free (ce_hash sample_cluster) 2 (names sample_cluster [] sample_watch)"
    unfolding sample_names by (simp add: sample_cluster_def collision_free_def sample_node_positions)
  have "cv_nodes ?view \<noteq> []" "node_ids ?view = {''a'', ''b''}"
    using sample_view by (auto simp: node_ids_def simp flip: set_map)
  then show ?thesis
    using routing_follows_membership [OF free, of "\<lparr>sr_local_id = ''a'', sr_rep_factor = 3\<rparr>" "''logs''"] by simp
qed

end
