(* ===== verification/Partition.thy ===== *)
theory Partition
  imports Sstable
begin

text \<open>
  Partitions (\<open>infralens-storage/src/partition.rs\<close>): the time-bucket key, the state of one
  signal's sub-directory with its sequence counter, the scan of a directory on open, and the
  time-range candidates. The calendar formatting of \<open>chrono\<close> is the parameter
  \<open>env_utc_hour\<close>.
\<close>

section \<open>Keys\<close>

datatype partition_key = PartitionKey (pk_raw: u64)

text \<open>A bucket of zero divides by zero: \<open>None\<close> is the panic.\<close>

definition for_timestamp :: "u64 \<Rightarrow> u64 \<Rightarrow> partition_key option" where
  "for_timestamp timestamp_ns bucket_ns =
     (if bucket_ns = 0 then None
      else Some (PartitionKey (timestamp_ns - timestamp_ns mod bucket_ns)))"

definition dir_name :: "'w storage_env \<Rightarrow> partition_key \<Rightarrow> string" where
  "dir_name E k = env_utc_hour E (uint (pk_raw k div 1000000000))"

section \<open>Signal partitions\<close>

record signal_partition =
  sp_dir :: path
  sstables :: "sstable_meta list"
  next_seq :: u64

text \<open>\<open>Path::extension\<close> and \<open>Path::file_stem\<close> of a file name.\<close>

definition split_ext :: "string \<Rightarrow> string \<times> string option" where
  "split_ext s =
     (let r = rev s; e = takeWhile (\<lambda>c. c \<noteq> CHR ''.'') r; rest = drop (length e) r in
      if s = ''..'' then (s, None)
      else case rest of
        [] \<Rightarrow> (s, None)
      | _ # b \<Rightarrow> if b = [] then (s, None) else (rev b, Some (rev e)))"

definition file_stem :: "path \<Rightarrow> string option" where
  "file_stem p = (if p = [] then None else Some (fst (split_ext (last p))))"

definition extension :: "path \<Rightarrow> string option" where
  "extension p = (if p = [] then None else snd (split_ext (last p)))"

definition scan_entry ::
  "'w storage_env \<Rightarrow> path \<Rightarrow> fs \<Rightarrow> path \<Rightarrow> u64 \<times> sstable_meta list \<Rightarrow> u64 \<times> sstable_meta list" where
  "scan_entry E dir fs p acc =
     (case acc of (max_seq, tables) \<Rightarrow>
        if extension p = Some ''zonemap'' then
          let seq = (case Option.bind (file_stem p) parse_u64 of None \<Rightarrow> 0 | Some s \<Rightarrow> s);
              max_seq = max max_seq seq in
          case zone_map_read_from_file (de_zone_map (env_bincode E)) (env_io E) fs p of
            Inl _ \<Rightarrow> (max_seq, tables)
          | Inr zm \<Rightarrow>
              (max_seq, tables @ [\<lparr>sst_seq = seq, sst_signal = Log, sst_dir = dir, sst_zone_map = zm\<rparr>])
        else (max_seq, tables))"

definition signal_partition_open ::
  "'w storage_env \<Rightarrow> path \<Rightarrow> fs \<Rightarrow> storage_error + signal_partition" where
  "signal_partition_open E dir fs =
     (if open_fails (env_io E) dir then Inl (Io (DeviceError dir))
      else case fold (scan_entry E dir fs) (fs_read_dir fs dir) (0, []) of
        (max_seq, tables) \<Rightarrow>
          Inr \<lparr>sp_dir = dir, sstables = sort_key sst_seq tables, next_seq = max_seq + 1\<rparr>)"

definition take_next_seq :: "signal_partition \<Rightarrow> u64 \<times> signal_partition" where
  "take_next_seq sp = (next_seq sp, sp\<lparr>next_seq := next_seq sp + 1\<rparr>)"

definition add_sstable :: "sstable_meta \<Rightarrow> signal_partition \<Rightarrow> signal_partition" where
  "add_sstable meta sp = sp\<lparr>sstables := sstables sp @ [meta]\<rparr>"

definition sstable_count :: "signal_partition \<Rightarrow> nat" where
  "sstable_count sp = length (sstables sp)"

definition candidates :: "signal_partition \<Rightarrow> u64 \<Rightarrow> u64 \<Rightarrow> sstable_meta list" where
  "candidates sp start_ns end_ns =
     filter (\<lambda>m. overlaps_time_range (sst_zone_map m) start_ns end_ns) (sstables sp)"

definition sp_wal_path :: "signal_partition \<Rightarrow> path" where
  "sp_wal_path sp = path_join (sp_dir sp) ''wal.log''"

section \<open>Partitions\<close>

record partition =
  p_key :: partition_key
  p_dir :: path
  p_logs :: signal_partition
  p_metrics :: signal_partition
  p_spans :: signal_partition

definition partition_open ::
  "'w storage_env \<Rightarrow> path \<Rightarrow> partition_key \<Rightarrow> fs \<Rightarrow> storage_error + partition" where
  "partition_open E base_dir key fs =
     (let dir = path_join (path_join base_dir ''partitions'') (dir_name E key) in
      if open_fails (env_io E) dir then Inl (Io (DeviceError dir))
      else
        and_then (signal_partition_open E (path_join dir ''logs'') fs) (\<lambda>logs.
        and_then (signal_partition_open E (path_join dir ''metrics'') fs) (\<lambda>metrics.
        and_then (signal_partition_open E (path_join dir ''spans'') fs) (\<lambda>spans.
          Inr \<lparr>p_key = key, p_dir = dir, p_logs = logs, p_metrics = metrics, p_spans = spans\<rparr>))))"

fun get_signal_partition :: "signal_type \<Rightarrow> partition \<Rightarrow> signal_partition" where
  "get_signal_partition Log p = p_logs p"
| "get_signal_partition Metric p = p_metrics p"
| "get_signal_partition Span p = p_spans p"

fun set_signal_partition :: "signal_type \<Rightarrow> signal_partition \<Rightarrow> partition \<Rightarrow> partition" where
  "set_signal_partition Log sp p = p\<lparr>p_logs := sp\<rparr>"
| "set_signal_partition Metric sp p = p\<lparr>p_metrics := sp\<rparr>"
| "set_signal_partition Span sp p = p\<lparr>p_spans := sp\<rparr>"

section \<open>Lemmas\<close>

lemma get_set_signal_partition [simp]:
  "get_signal_partition s (set_signal_partition t sp p) = (if s = t then sp else get_signal_partition s p)"
  by (cases s; cases t; simp)

lemma set_signal_partition_keep [simp]:
  "p_key (set_signal_partition t sp p) = p_key p" "p_dir (set_signal_partition t sp p) = p_dir p"
  by (cases t; simp)+

lemma split_ext_append:
  assumes "CHR ''.'' \<notin> set e" "s \<noteq> []" "e \<noteq> []"
  shows "split_ext (s @ CHR ''.'' # e) = (s, Some e)"
proof -
  have "takeWhile (\<lambda>c. c \<noteq> CHR ''.'') (rev e @ CHR ''.'' # rev s) = rev e"
    using assms(1) by (subst takeWhile_append2) auto
  then show ?thesis
    using assms(2,3) by (auto simp: split_ext_def Let_def append_eq_Cons_conv)
qed

lemma zonemap_path_parts:
  "extension (zonemap_path dir seq) = Some ''zonemap''"
  "file_stem (zonemap_path dir seq) = Some (sst_stem seq)"
  using split_ext_append [of "''zonemap''" "sst_stem seq"]
  by (simp_all add: extension_def file_stem_def zonemap_path_def path_join_def sst_stem_def)

lemma other_path_parts:
  "extension (parquet_path dir seq) = Some ''parquet''"
  "extension (bloom_path dir seq) = Some ''bloom''"
  using split_ext_append [of "''parquet''" "sst_stem seq"] split_ext_append [of "''bloom''" "sst_stem seq"]
  by (simp_all add: extension_def parquet_path_def bloom_path_def path_join_def sst_stem_def)

lemma parse_sst_stem [simp]: "parse_u64 (sst_stem seq) = Some seq"
  by (simp add: sst_stem_def parse_u64_pad_zeros)

text \<open>The scan keeps what it has found and never lowers the maximum.\<close>

lemma scan_mono:
  assumes "fold (scan_entry E dir fs) ps (m0, ts0) = (m, ts)"
  shows "m0 \<le> m \<and> set ts0 \<subseteq> set ts"
  using assms
proof (induction ps arbitrary: m0 ts0)
  case (Cons p ps)
  obtain m1 ts1 where 1: "scan_entry E dir fs p (m0, ts0) = (m1, ts1)" by fastforce
  then have "m0 \<le> m1 \<and> set ts0 \<subseteq> set ts1"
    by (auto simp: scan_entry_def Let_def split: if_splits sum.splits)
  with Cons.IH [of m1 ts1] Cons.prems 1 show ?case by auto
qed simp

lemma scan_finds:
  assumes "fold (scan_entry E dir fs) ps (m0, ts0) = (m, ts)" "zonemap_path dir seq \<in> set ps"
  shows "seq \<le> m
    \<and> (\<forall>zm. zone_map_read_from_file (de_zone_map (env_bincode E)) (env_io E) fs (zonemap_path dir seq) = Inr zm
          \<longrightarrow> \<lparr>sst_seq = seq, sst_signal = Log, sst_dir = dir, sst_zone_map = zm\<rparr> \<in> set ts)"
  using assms
proof (induction ps arbitrary: m0 ts0)
  case (Cons p ps)
  obtain m1 ts1 where 1: "scan_entry E dir fs p (m0, ts0) = (m1, ts1)" by fastforce
  then have rest: "fold (scan_entry E dir fs) ps (m1, ts1) = (m, ts)" using Cons.prems by simp
  show ?case
  proof (cases "p = zonemap_path dir seq")
    case True
    then have "seq \<le> m1 \<and> (\<forall>zm. zone_map_read_from_file (de_zone_map (env_bincode E)) (env_io E) fs p = Inr zm
          \<longrightarrow> \<lparr>sst_seq = seq, sst_signal = Log, sst_dir = dir, sst_zone_map = zm\<rparr> \<in> set ts1)"
      using 1 by (auto simp: scan_entry_def zonemap_path_parts Let_def split: sum.splits)
    with scan_mono [OF rest] True show ?thesis by (meson order_trans subsetD)
  next
    case False
    with Cons.IH [OF rest] Cons.prems show ?thesis by auto
  qed
qed simp

lemma open_finds:
  assumes "signal_partition_open E dir fs = Inr sp" "fs_exists fs (zonemap_path dir seq)"
  shows "seq \<le> next_seq sp - 1
    \<and> (\<forall>zm. zone_map_read_from_file (de_zone_map (env_bincode E)) (env_io E) fs (zonemap_path dir seq) = Inr zm
          \<longrightarrow> \<lparr>sst_seq = seq, sst_signal = Log, sst_dir = dir, sst_zone_map = zm\<rparr> \<in> set (sstables sp))"
proof -
  obtain m ts where f: "fold (scan_entry E dir fs) (fs_read_dir fs dir) (0, []) = (m, ts)" by fastforce
  have "zonemap_path dir seq \<in> set (fs_read_dir fs dir)"
    using assms(2) by (auto simp: in_fs_read_dir zonemap_path_def)
  from scan_finds [OF f this] assms(1) f show ?thesis
    by (auto simp: signal_partition_open_def split: if_splits)
qed

text \<open>The table an entry of the directory stands for: a readable zone map, of whatever signal.\<close>

definition reopened_table :: "'w storage_env \<Rightarrow> path \<Rightarrow> fs \<Rightarrow> path \<Rightarrow> sstable_meta option" where
  "reopened_table E dir fs p =
     (if extension p \<noteq> Some ''zonemap'' then None
      else case zone_map_read_from_file (de_zone_map (env_bincode E)) (env_io E) fs p of
        Inl _ \<Rightarrow> None
      | Inr zm \<Rightarrow> Some \<lparr>sst_seq = (case Option.bind (file_stem p) parse_u64 of None \<Rightarrow> 0 | Some s \<Rightarrow> s),
                       sst_signal = Log, sst_dir = dir, sst_zone_map = zm\<rparr>)"

lemma scan_tables:
  "fold (scan_entry E dir fs) ps (m0, ts0) = (m, ts) \<Longrightarrow> ts = ts0 @ List.map_filter (reopened_table E dir fs) ps"
proof (induction ps arbitrary: m0 ts0)
  case (Cons p ps)
  obtain m1 ts1 where 1: "scan_entry E dir fs p (m0, ts0) = (m1, ts1)" by fastforce
  then have "ts1 = ts0 @ (case reopened_table E dir fs p of None \<Rightarrow> [] | Some x \<Rightarrow> [x])"
    by (auto simp: scan_entry_def reopened_table_def Let_def split: if_splits sum.splits)
  with Cons.IH [of m1 ts1] Cons.prems 1 show ?case by (auto simp: List.map_filter_simps split: option.splits)
qed (simp add: List.map_filter_simps)

lemma open_tables:
  assumes "signal_partition_open E dir fs = Inr sp"
  shows "sstables sp = sort_key sst_seq (List.map_filter (reopened_table E dir fs) (fs_read_dir fs dir))"
proof -
  obtain m ts where f: "fold (scan_entry E dir fs) (fs_read_dir fs dir) (0, []) = (m, ts)" by fastforce
  then show ?thesis
    using assms scan_tables [OF f] by (auto simp: signal_partition_open_def split: if_splits)
qed

lemma candidates_complete:
  "m \<in> set (sstables sp) \<Longrightarrow> zm.covers (sst_zone_map m) t \<Longrightarrow> s \<le> t \<Longrightarrow> t \<le> e \<Longrightarrow> m \<in> set (candidates sp s e)"
  by (simp add: candidates_def zm.prune_sound)

lemma for_timestamp_unat:
  assumes "bucket \<noteq> 0" "for_timestamp ts bucket = Some k"
  shows "unat (pk_raw k) = unat ts div unat bucket * unat bucket"
proof -
  have "pk_raw k = ts - ts mod bucket" using assms by (auto simp: for_timestamp_def)
  then have "pk_raw k = ts div bucket * bucket" by (simp add: minus_mod_eq_div_mult)
  moreover have "unat ts div unat bucket * unat bucket < 2 ^ 64"
    by (rule le_less_trans [OF div_times_less_eq_dividend unat_u64_less])
  moreover have "unat ts div unat bucket < 2 ^ 64"
    by (rule le_less_trans [OF div_le_dividend unat_u64_less])
  ultimately show ?thesis
    by (simp add: unat_word_ariths unat_div)
qed

section \<open>Properties\<close>

text \<open>
  C32. The partition key is the start of the timestamp's bucket: the timestamp lies in the
  half-open interval of one bucket length from it, the key is a multiple of the bucket length, and
  two timestamps get the same key exactly when they are in the same bucket. A bucket length of
  zero panics.
\<close>

theorem partition_key_bucket:
  "for_timestamp ts 0 = None \<and>
   (bucket \<noteq> 0 \<longrightarrow> (\<exists>k k'. for_timestamp ts bucket = Some k \<and> for_timestamp ts' bucket = Some k'
      \<and> unat (pk_raw k) \<le> unat ts \<and> unat ts < unat (pk_raw k) + unat bucket
      \<and> unat bucket dvd unat (pk_raw k)
      \<and> (k = k' \<longleftrightarrow> unat ts div unat bucket = unat ts' div unat bucket)))"
proof (intro conjI impI)
  show "for_timestamp ts 0 = None" by (simp add: for_timestamp_def)
next
  assume b: "bucket \<noteq> 0"
  then obtain k k' where k: "for_timestamp ts bucket = Some k" "for_timestamp ts' bucket = Some k'"
    by (simp add: for_timestamp_def)
  note u = for_timestamp_unat [OF b k(1)] for_timestamp_unat [OF b k(2)]
  have "0 < unat bucket" using b by (simp add: unat_gt_0)
  then have "unat ts < unat (pk_raw k) + unat bucket" "unat (pk_raw k) \<le> unat ts"
    using u(1) mod_less_divisor [of "unat bucket" "unat ts"] div_mult_mod_eq [of "unat ts" "unat bucket"]
    by linarith+
  moreover have "k = k' \<longleftrightarrow> unat ts div unat bucket = unat ts' div unat bucket"
    using u \<open>0 < unat bucket\<close> by (metis mult_cancel2 not_gr_zero partition_key.expand word_unat_eq_iff)
  ultimately show "\<exists>k k'. for_timestamp ts bucket = Some k \<and> for_timestamp ts' bucket = Some k'
      \<and> unat (pk_raw k) \<le> unat ts \<and> unat ts < unat (pk_raw k) + unat bucket
      \<and> unat bucket dvd unat (pk_raw k)
      \<and> (k = k' \<longleftrightarrow> unat ts div unat bucket = unat ts' div unat bucket)"
    using k u(1) by (intro exI [of _ k] exI [of _ k']) simp
qed

theorem partition_key_bucket_witness:
  "\<exists>k. for_timestamp 7205 3600 = Some k \<and> for_timestamp 7300 3600 = Some k \<and> unat (pk_raw k) \<le> 7205"
  using partition_key_bucket [of 7205 3600 7300] by auto

text \<open>A reopened partition lists a table, under the signal every table is given then, and offers
  it for every interval that contains one of the times.\<close>

definition offers :: "signal_partition \<Rightarrow> sstable_meta \<Rightarrow> u64 list \<Rightarrow> bool" where
  "offers sp meta ts \<longleftrightarrow>
     meta\<lparr>sst_signal := Log\<rparr> \<in> set (sstables sp)
   \<and> (\<forall>t \<in> set ts. \<forall>s e. s \<le> t \<and> t \<le> e \<longrightarrow> meta\<lparr>sst_signal := Log\<rparr> \<in> set (candidates sp s e))"

context sstable_writer
begin

lemma write_reopened:
  assumes "env_ok E" "write_table E rs dir seq fs' = Some (fs'', Inr meta)"
    and "fs_get fs (zonemap_path dir seq) = fs_get fs'' (zonemap_path dir seq)"
    and "signal_partition_open E dir fs = Inr sp"
  shows "offers sp meta (map ts rs)"
proof -
  note m = write_meta [OF assms(2)]
  have paths: "meta_zonemap_path meta = zonemap_path dir seq"
    by (simp add: meta_zonemap_path_def m)
  note z = write_zone_map [OF assms(1,2), unfolded paths]
  then have read: "zone_map_read_from_file (de_zone_map (env_bincode E)) (env_io E) fs (zonemap_path dir seq)
      = Inr (sst_zone_map meta)"
    using assms(3) by (simp add: zone_map_read_from_file_def fs_read_def)
  then have "fs_exists fs (zonemap_path dir seq)"
    by (auto simp: zone_map_read_from_file_def fs_read_def fs_exists_def split: option.splits)
  then have in_sp: "meta\<lparr>sst_signal := Log\<rparr> \<in> set (sstables sp)"
    using open_finds [OF assms(4)] read m by simp
  then show ?thesis
    using z candidates_complete [OF in_sp] by (auto simp: offers_def)
qed

end

text \<open>
  C33. A restarted partition finds its tables and does not reuse their names. Opening a directory
  yields a partition whose tables are, in the order of their sequence numbers, one for each
  zone-map file that can be read, whatever wrote it: a flush of logs, metrics or spans, or a
  compaction. All of them are registered as tables of logs. The next sequence number is above that
  of every zone-map file of the directory, readable or not, as long as the counter has not reached
  its maximum. A table one of the three writers produced, whose zone-map file is still as it was
  written, is offered as a candidate for every interval that contains a timestamp of its records.
\<close>

theorem reopen_finds_tables:
  assumes "env_ok E" "signal_partition_open E dir fs = Inr sp" "next_seq sp \<noteq> 0"
  shows "sorted (map sst_seq (sstables sp))
    \<and> mset (sstables sp) = mset (List.map_filter (reopened_table E dir fs) (fs_read_dir fs dir))
    \<and> (\<forall>seq. fs_exists fs (zonemap_path dir seq) \<longrightarrow> seq < fst (take_next_seq sp))
    \<and> (\<forall>ls ps ss seq fs' fs'' meta. fs_get fs (zonemap_path dir seq) = fs_get fs'' (zonemap_path dir seq) \<longrightarrow>
          (write_logs E ls dir seq fs' = Some (fs'', Inr meta) \<longrightarrow> offers sp meta (map lr_timestamp_ns ls))
        \<and> (write_metrics E ps dir seq fs' = Some (fs'', Inr meta) \<longrightarrow> offers sp meta (map mp_timestamp_ns ps))
        \<and> (write_spans E ss dir seq fs' = Some (fs'', Inr meta) \<longrightarrow> offers sp meta (map sr_start_time_ns ss)))"
proof (intro conjI allI impI)
  show "sorted (map sst_seq (sstables sp))"
    "mset (sstables sp) = mset (List.map_filter (reopened_table E dir fs) (fs_read_dir fs dir))"
    by (simp_all add: open_tables [OF assms(2)])
next
  fix seq assume "fs_exists fs (zonemap_path dir seq)"
  then show "seq < fst (take_next_seq sp)"
    using open_finds [OF assms(2)] assms(3) le_minus_one_less by (fastforce simp: take_next_seq_def)
next
  fix ls ps ss seq fs' fs'' meta
  assume same: "fs_get fs (zonemap_path dir seq) = fs_get fs'' (zonemap_path dir seq)"
  show "offers sp meta (map lr_timestamp_ns ls)" if "write_logs E ls dir seq fs' = Some (fs'', Inr meta)"
    using wlog.write_reopened [OF assms(1) that same assms(2)] .
  show "offers sp meta (map mp_timestamp_ns ps)" if "write_metrics E ps dir seq fs' = Some (fs'', Inr meta)"
    using wmet.write_reopened [OF assms(1) that same assms(2)] .
  show "offers sp meta (map sr_start_time_ns ss)" if "write_spans E ss dir seq fs' = Some (fs'', Inr meta)"
    using wspan.write_reopened [OF assms(1) that same assms(2)] .
qed

text \<open>A directory with one table of spans.\<close>

theorem reopen_finds_tables_witness:
  "\<exists>fs' meta sp. write_spans (span_env [sample_span]) [sample_span] [''d''] 3 [] = Some (fs', Inr meta)
    \<and> signal_partition_open (span_env [sample_span]) [''d''] fs' = Inr sp
    \<and> meta\<lparr>sst_signal := Log\<rparr> \<in> set (candidates sp 0 (- 1)) \<and> sst_signal meta = Span \<and> 3 < fst (take_next_seq sp)"
proof -
  let ?E = "span_env [sample_span]"
  obtain fs' meta where w: "write_spans ?E [sample_span] [''d''] 3 [] = Some (fs', Inr meta)"
    using span_env_writes by blast
  obtain sp where sp: "signal_partition_open ?E [''d''] fs' = Inr sp"
    by (cases "signal_partition_open ?E [''d''] fs'")
      (auto simp: signal_partition_open_def span_env_def no_faults_def split: prod.splits)
  obtain x bf zb where files: "fs' = [(zonemap_path [''d''] 3, zb), (bloom_path [''d''] 3, bf), (parquet_path [''d''] 3, x)]"
    by (rule wspan.write_table_Inr [OF w])
      (auto simp: write_parquet_def create_parquet_def fs_put_def split: if_splits sum.splits)
  then have "fs_read_dir fs' [''d''] = [zonemap_path [''d''] 3, bloom_path [''d''] 3, parquet_path [''d''] 3]"
    by (simp add: fs_read_dir_def zonemap_path_def bloom_path_def parquet_path_def path_join_def)
  then have "next_seq sp = 4"
    using sp by (auto simp: signal_partition_open_def scan_entry_def zonemap_path_parts other_path_parts Let_def
        split: if_splits sum.splits)
  moreover have "env_ok ?E"
    by (simp add: span_env_def sample_env_ok)
  ultimately have r: "\<forall>seq. fs_exists fs' (zonemap_path [''d''] seq) \<longrightarrow> seq < fst (take_next_seq sp)"
    "offers sp meta [sr_start_time_ns sample_span]"
    using reopen_finds_tables [OF _ sp] w by fastforce+
  have "3 < fst (take_next_seq sp)" using r(1) files by (simp add: fs_exists_def fs_get_def)
  moreover have "sst_signal meta = Span" using wspan.write_meta [OF w] by simp
  moreover have "meta\<lparr>sst_signal := Log\<rparr> \<in> set (candidates sp 0 (- 1))"
    using r(2) by (simp add: offers_def)
  ultimately show ?thesis using w sp by blast
qed

end
