(* ===== verification/Compaction.thy ===== *)
theory Compaction
  imports Partition
begin

text \<open>
  Compaction (\<open>infralens-storage/src/compaction.rs\<close>): merging all tables of a signal's
  sub-directory into one. The invariant \<open>sp_inv\<close> of a signal partition (every listed table
  is readable, has its own sequence number below the counter, and a zone map covering its rows) is
  kept by a compaction that does not fail, and so are the rows, in order.
\<close>

section \<open>The operations\<close>

definition oks :: "('e + 'a) list \<Rightarrow> 'a list" where
  "oks items = map projr (filter (\<lambda>x. \<not> isl x) items)"

fun read_inputs :: "'w storage_env \<Rightarrow> fs \<Rightarrow> sstable_meta list \<Rightarrow> record_batch list" where
  "read_inputs E fs [] = []"
| "read_inputs E fs (m # ms) =
     (if \<not> fs_exists fs (meta_parquet_path m) then []
      else case read_parquet E (meta_parquet_path m) 65536 fs of
        Inr items \<Rightarrow> oks items
      | Inl _ \<Rightarrow> []) @ read_inputs E fs ms"

definition remove_ignoring :: "'w storage_env \<Rightarrow> path \<Rightarrow> fs \<Rightarrow> fs" where
  "remove_ignoring E p fs = (case fs_remove (env_io E) p fs of Inl _ \<Rightarrow> fs | Inr fs' \<Rightarrow> fs')"

definition delete_sstable_files :: "'w storage_env \<Rightarrow> sstable_meta list \<Rightarrow> fs \<Rightarrow> fs" where
  "delete_sstable_files E metas fs =
     fold (\<lambda>m. fold (remove_ignoring E) [meta_parquet_path m, meta_bloom_path m, meta_zonemap_path m]) metas fs"

text \<open>\<open>arr.values()\<close> reads the value buffer, where a null slot holds the builder's zero.\<close>

definition batch_timestamps :: "record_batch \<Rightarrow> u64 list" where
  "batch_timestamps b =
     (case (case column_by_name b ''timestamp_ns'' of
              None \<Rightarrow> column_by_name b ''start_time_ns'' | Some c \<Rightarrow> Some c) of
        Some (UInt64Array vs) \<Rightarrow> map (\<lambda>v. case v of None \<Rightarrow> 0 | Some t \<Rightarrow> t) vs
      | _ \<Rightarrow> [])"

definition compact_signal ::
  "'w storage_env \<Rightarrow> signal_type \<Rightarrow> signal_partition \<Rightarrow> fs \<Rightarrow> fs \<times> signal_partition \<times> (storage_error + bool)"
where
  "compact_signal E signal sp fs =
     (if length (sstables sp) < 2 then (fs, sp, Inr False)
      else
        let inputs = sstables sp;
            (output_seq, sp) = take_next_seq (sp\<lparr>sstables := []\<rparr>);
            all_batches = read_inputs E fs inputs in
        if all_batches = [] then (delete_sstable_files E inputs fs, sp, Inr False)
        else
          let sch = rb_schema (hd all_batches);
              dir = sst_dir (hd inputs);
              zm = fold (\<lambda>b. observe_all (batch_timestamps b)) all_batches zone_map_new;
              bf = bloom_new (env_fp E) (word_of_nat (max (\<Sum>b \<leftarrow> all_batches. num_rows b) 1))
                     (fp_lit (env_fp E) ''0.02'') in
          case create_parquet E sch all_batches (parquet_path dir output_seq) fs of
            (fs1, Inl e) \<Rightarrow> (fs1, sp, Inl e)
          | (fs1, Inr _) \<Rightarrow>
              (case fs_write (env_io E) (bloom_path dir output_seq) (bloom_to_bytes bf) fs1 of
                 Inl e \<Rightarrow> (fs1, sp, Inl (Io e))
               | Inr fs2 \<Rightarrow>
                   (case zone_map_write_to_file (ser_zone_map (env_bincode E)) (env_io E) zm
                           (zonemap_path dir output_seq) fs2 of
                      Inl e \<Rightarrow> (fs2, sp, Inl (Io e))
                    | Inr fs3 \<Rightarrow>
                        (delete_sstable_files E inputs fs3,
                         add_sstable \<lparr>sst_seq = output_seq, sst_signal = signal, sst_dir = dir, sst_zone_map = zm\<rparr> sp,
                         Inr True))))"

text \<open>One pass over the three signals. The state carries the count of merges and the errors that
  the pass logs as warnings.\<close>

definition compact_partition_signal ::
  "'w storage_env \<Rightarrow> nat \<Rightarrow> signal_type \<Rightarrow> fs \<times> partition \<times> nat \<times> storage_error list \<Rightarrow>
   fs \<times> partition \<times> nat \<times> storage_error list" where
  "compact_partition_signal E l0_trigger signal st =
     (case st of (fs, p, ops, warns) \<Rightarrow>
        if l0_trigger \<le> sstable_count (get_signal_partition signal p) then
          (case compact_signal E signal (get_signal_partition signal p) fs of
             (fs', sp', Inr True) \<Rightarrow> (fs', set_signal_partition signal sp' p, ops + 1, warns)
           | (fs', sp', Inr False) \<Rightarrow> (fs', set_signal_partition signal sp' p, ops, warns)
           | (fs', sp', Inl e) \<Rightarrow> (fs', set_signal_partition signal sp' p, ops, warns @ [e]))
        else (fs, p, ops, warns))"

definition compact_partition ::
  "'w storage_env \<Rightarrow> partition \<Rightarrow> nat \<Rightarrow> fs \<Rightarrow> fs \<times> partition \<times> nat \<times> storage_error list" where
  "compact_partition E p l0_trigger fs =
     fold (compact_partition_signal E l0_trigger) [Log, Metric, Span] (fs, p, 0, [])"

section \<open>The invariant of a signal partition\<close>

text \<open>The rows a reader of a table gets, and those of a whole signal partition.\<close>

definition table_rows :: "'w storage_env \<Rightarrow> fs \<Rightarrow> sstable_meta \<Rightarrow> cell list list" where
  "table_rows E fs m =
     (case read_parquet E (meta_parquet_path m) 65536 fs of
        Inl _ \<Rightarrow> []
      | Inr items \<Rightarrow> batches_rows (oks items))"

definition sp_rows :: "'w storage_env \<Rightarrow> fs \<Rightarrow> signal_partition \<Rightarrow> cell list list" where
  "sp_rows E fs sp = concat (map (table_rows E fs) (sstables sp))"

definition ts_index :: "schema \<Rightarrow> nat option" where
  "ts_index sch =
     (case schema_index ''timestamp_ns'' sch of
        None \<Rightarrow> schema_index ''start_time_ns'' sch | Some i \<Rightarrow> Some i)"

definition row_ts :: "schema \<Rightarrow> cell list \<Rightarrow> u64 option" where
  "row_ts sch row =
     (case ts_index sch of
        None \<Rightarrow> None
      | Some i \<Rightarrow> if i < length row then (case row ! i of CUInt64 t \<Rightarrow> Some t | _ \<Rightarrow> None) else None)"

definition covers_rows :: "schema \<Rightarrow> zone_map \<Rightarrow> cell list list \<Rightarrow> bool" where
  "covers_rows sch z rows \<longleftrightarrow> (\<forall>row \<in> set rows. \<forall>t. row_ts sch row = Some t \<longrightarrow> zm.covers z t)"

definition sp_inv :: "'w storage_env \<Rightarrow> fs \<Rightarrow> schema \<Rightarrow> signal_partition \<Rightarrow> bool" where
  "sp_inv E fs sch sp \<longleftrightarrow>
     distinct (map sst_seq (sstables sp))
   \<and> (\<forall>m \<in> set (sstables sp). sst_dir m = sp_dir sp \<and> sst_seq m < next_seq sp
        \<and> (\<exists>rows. holds_rows E fs (meta_parquet_path m) sch rows)
        \<and> covers_rows sch (sst_zone_map m) (table_rows E fs m))"

section \<open>Lemmas\<close>

lemma oks_map_Inr [simp]: "oks (map Inr xs) = xs"
  by (induction xs) (auto simp: oks_def)

lemma holds_table_rows: "holds_rows E fs (meta_parquet_path m) sch rows \<Longrightarrow> table_rows E fs m = rows"
  unfolding holds_rows_def table_rows_def by (drule spec [of _ 65536]) auto

lemma holds_rowsI:
  "(\<And>n. read_parquet E p n fs = Inr (map Inr cs)) \<Longrightarrow> batches_rows cs = rows
    \<Longrightarrow> \<forall>c \<in> set cs. rb_schema c = sch \<and> batch_valid c \<Longrightarrow> holds_rows E fs p sch rows"
  unfolding holds_rows_def by auto

lemma holds_exists:
  assumes "holds_rows E fs p sch rows"
  shows "fs_exists fs p"
proof -
  obtain cs where "read_parquet E p 1 fs = Inr (map Inr cs)"
    using assms unfolding holds_rows_def by (metis zero_less_one)
  then show ?thesis
    by (auto simp: read_parquet_def fs_read_def fs_exists_def result_simps split: option.splits)
qed

lemma table_rows_cong:
  "fs_get fs' (meta_parquet_path m) = fs_get fs (meta_parquet_path m) \<Longrightarrow> table_rows E fs' m = table_rows E fs m"
  using read_parquet_cong [of fs' "meta_parquet_path m" fs E 65536] by (simp add: table_rows_def)

lemma read_inputs_rows:
  assumes "\<forall>m \<in> set ms. \<exists>rows. holds_rows E fs (meta_parquet_path m) sch rows"
  shows "batches_rows (read_inputs E fs ms) = concat (map (table_rows E fs) ms)
    \<and> (\<forall>b \<in> set (read_inputs E fs ms). rb_schema b = sch \<and> batch_valid b)"
  using assms
proof (induction ms)
  case (Cons m ms)
  then obtain rows where h: "holds_rows E fs (meta_parquet_path m) sch rows" by auto
  then obtain cs where cs: "read_parquet E (meta_parquet_path m) 65536 fs = Inr (map Inr cs)"
    "batches_rows cs = rows" "\<forall>c \<in> set cs. rb_schema c = sch \<and> batch_valid c"
    unfolding holds_rows_def by (drule_tac spec [of _ 65536]) auto
  with Cons h show ?case
    by (auto simp: holds_exists holds_table_rows)
qed simp

lemma remove_ignoring_get:
  "fs_get (remove_ignoring E p fs) q = fs_get fs q \<or> q = p \<and> fs_get (remove_ignoring E p fs) q = None"
  by (auto simp: remove_ignoring_def fs_remove_def)

lemma delete_keeps:
  assumes "\<forall>m \<in> set ms. q \<noteq> meta_parquet_path m \<and> q \<noteq> meta_bloom_path m \<and> q \<noteq> meta_zonemap_path m"
  shows "fs_get (delete_sstable_files E ms fs) q = fs_get fs q"
  using assms
proof (induction ms arbitrary: fs)
  case (Cons m ms)
  have "fs_get (fold (remove_ignoring E) ps fs) q = fs_get fs q" if "q \<notin> set ps" for ps fs
    using that
  proof (induction ps arbitrary: fs)
    case (Cons p ps)
    then show ?case using remove_ignoring_get [of E p fs q] by auto
  qed simp
  from this [of "[meta_parquet_path m, meta_bloom_path m, meta_zonemap_path m]"] Cons show ?case
    by (simp add: delete_sstable_files_def)
qed (simp add: delete_sstable_files_def)

subsection \<open>The zone map of the output\<close>

lemma schema_index_less: "schema_index n sch = Some i \<Longrightarrow> i < length sch"
  by (induction sch arbitrary: i) (auto split: if_splits)

lemma batch_timestamps_index:
  assumes "batch_valid b" "ts_index (rb_schema b) = Some i" "rb_columns b ! i = UInt64Array vs"
  shows "batch_timestamps b = map (\<lambda>v. case v of None \<Rightarrow> 0 | Some t \<Rightarrow> t) vs"
proof -
  have "length (rb_columns b) = length (rb_schema b)"
    using assms(1) by (simp add: batch_valid_def columns_valid_def)
  then show ?thesis
    using assms(2,3) schema_index_less
    by (auto simp: batch_timestamps_def column_by_name_def ts_index_def split: option.splits)
qed

lemma valid_column_len:
  assumes "batch_valid b" "i < length (rb_columns b)"
  shows "length (array_cells (rb_columns b ! i)) = num_rows b"
proof -
  obtain c cs where c: "rb_columns b = c # cs"
    using assms(2) by (cases "rb_columns b") auto
  have "array_len (rb_columns b ! i) = array_len (hd (rb_columns b))"
    using assms list_all2_nthD2 unfolding batch_valid_def columns_valid_def by fastforce
  then show ?thesis by (simp add: num_rows_def array_len_def c)
qed

lemma row_ts_observed:
  assumes "batch_valid b" "row \<in> set (batch_rows b)" "row_ts (rb_schema b) row = Some t"
  shows "t \<in> set (batch_timestamps b)"
proof -
  obtain i where i: "ts_index (rb_schema b) = Some i" "i < length row" "row ! i = CUInt64 t"
    using assms(3) by (auto simp: row_ts_def split: option.splits if_splits cell.splits)
  obtain j where j: "j < num_rows b" "row = batch_row b j"
    using assms(2) by (auto simp: batch_rows_def)
  have i': "i < length (rb_columns b)" using i(2) j(2) by (simp add: batch_row_def)
  have cell: "array_cells (rb_columns b ! i) ! j = CUInt64 t"
    using i i' j by (simp add: batch_row_def)
  have len: "j < length (array_cells (rb_columns b ! i))"
    using valid_column_len [OF assms(1) i'] j(1) by simp
  obtain vs where vs: "rb_columns b ! i = UInt64Array vs" "vs ! j = Some t" "j < length vs"
    using cell len by (cases "rb_columns b ! i") (auto simp: opt_cell_def split: option.splits)
  have "t = (case vs ! j of None \<Rightarrow> 0 | Some t \<Rightarrow> t)" using vs(2) by simp
  then show ?thesis
    unfolding batch_timestamps_index [OF assms(1) i(1) vs(1)] using vs(3) by auto
qed

lemma fold_observe_all: "fold (\<lambda>b. observe_all (f b)) bs z = observe_all (concat (map f bs)) z"
  by (induction bs arbitrary: z) (simp_all add: observe_all_def)

lemma output_covers:
  assumes "\<forall>b \<in> set bs. rb_schema b = sch \<and> batch_valid b"
  shows "covers_rows sch (fold (\<lambda>b. observe_all (batch_timestamps b)) bs zone_map_new) (batches_rows bs)"
proof -
  have "t \<in> set (concat (map batch_timestamps bs))"
    if "row \<in> set (batches_rows bs)" "row_ts sch row = Some t" for row t
    using that assms row_ts_observed by (fastforce simp: batches_rows_def)
  then show ?thesis
    by (auto simp: covers_rows_def fold_observe_all intro: observe_all_covers)
qed

subsection \<open>One compaction\<close>

lemma compact_signal_Inr:
  assumes "compact_signal E sig sp fs = (fs', sp', Inr b)"
  obtains (skip) "fs' = fs" "sp' = sp" "\<not> b"
  | (empty) "read_inputs E fs (sstables sp) = []" "fs' = delete_sstable_files E (sstables sp) fs"
      "sp' = sp\<lparr>sstables := [], next_seq := next_seq sp + 1\<rparr>" "\<not> b"
  | (merged) bs fs1 zb bf where "b" "2 \<le> length (sstables sp)" "bs = read_inputs E fs (sstables sp)" "bs \<noteq> []"
      "create_parquet E (rb_schema (hd bs)) bs (parquet_path (sst_dir (hd (sstables sp))) (next_seq sp)) fs = (fs1, Inr ())"
      "bf = bloom_new (env_fp E) (word_of_nat (max (\<Sum>b \<leftarrow> bs. num_rows b) 1)) (fp_lit (env_fp E) ''0.02'')"
      "fs' = delete_sstable_files E (sstables sp)
         (fs_put (zonemap_path (sst_dir (hd (sstables sp))) (next_seq sp)) zb
           (fs_put (bloom_path (sst_dir (hd (sstables sp))) (next_seq sp)) (bloom_to_bytes bf) fs1))"
      "sp' = sp\<lparr>sstables := [\<lparr>sst_seq = next_seq sp, sst_signal = sig, sst_dir = sst_dir (hd (sstables sp)),
         sst_zone_map = fold (\<lambda>b. observe_all (batch_timestamps b)) bs zone_map_new\<rparr>], next_seq := next_seq sp + 1\<rparr>"
proof (cases "length (sstables sp) < 2")
  case True
  with assms skip show ?thesis by (simp add: compact_signal_def)
next
  case len: False
  show ?thesis
  proof (cases "read_inputs E fs (sstables sp) = []")
    case True
    with assms len empty show ?thesis by (simp add: compact_signal_def take_next_seq_def Let_def)
  next
    case False
    let ?bs = "read_inputs E fs (sstables sp)"
    obtain fs1 r where c: "create_parquet E (rb_schema (hd ?bs)) ?bs
        (parquet_path (sst_dir (hd (sstables sp))) (next_seq sp)) fs = (fs1, r)" by fastforce
    show ?thesis
      using assms len False c
      by (cases r) (auto simp: compact_signal_def take_next_seq_def add_sstable_def Let_def fs_write_def
          zone_map_write_to_file_def and_then_def split: sum.splits if_splits intro!: merged)
  qed
qed

lemma output_paths_fresh:
  assumes "sp_inv E fs sch sp" "m \<in> set (sstables sp)"
  shows "parquet_path (sp_dir sp) (next_seq sp) \<noteq> meta_parquet_path m"
    "bloom_path (sp_dir sp) (next_seq sp) \<noteq> meta_bloom_path m"
proof -
  have "sst_seq m \<noteq> next_seq sp" using assms by (auto simp: sp_inv_def)
  then show "parquet_path (sp_dir sp) (next_seq sp) \<noteq> meta_parquet_path m"
    "bloom_path (sp_dir sp) (next_seq sp) \<noteq> meta_bloom_path m"
    by (simp_all add: meta_parquet_path_def meta_bloom_path_def)
qed

lemma less_succ: "n + 1 \<noteq> 0 \<Longrightarrow> n < n + 1" for n :: u64
  by (rule le_minus_one_less) simp_all

lemma sp_inv_dir: "sp_inv E fs sch sp \<Longrightarrow> m \<in> set (sstables sp) \<Longrightarrow> sst_dir m = sp_dir sp"
  by (simp add: sp_inv_def)

lemma compact_signal_keeps_inv:
  assumes "env_ok E" "sp_inv E fs sch sp" "next_seq sp + 1 \<noteq> 0"
    and "compact_signal E sig sp fs = (fs', sp', Inr b)"
  shows "sp_inv E fs' sch sp' \<and> sp_rows E fs' sp' = sp_rows E fs sp \<and> sp_dir sp' = sp_dir sp"
  using assms(4)
proof (cases rule: compact_signal_Inr)
  case skip
  with assms(2) show ?thesis by simp
next
  case empty
  have "batches_rows (read_inputs E fs (sstables sp)) = concat (map (table_rows E fs) (sstables sp))"
    using assms(2) read_inputs_rows [of "sstables sp" E fs sch] by (simp add: sp_inv_def)
  with empty show ?thesis by (simp add: sp_inv_def sp_rows_def)
next
  case (merged bs fs1 zb bf)
  define p where "p = parquet_path (sp_dir sp) (next_seq sp)"
  have "sstables sp \<noteq> []" using merged(2) by auto
  then have d: "sst_dir (hd (sstables sp)) = sp_dir sp"
    using assms(2) by (simp add: sp_inv_dir)
  have bs: "batches_rows bs = sp_rows E fs sp" "\<forall>b \<in> set bs. rb_schema b = sch \<and> batch_valid b"
    using assms(2) read_inputs_rows [of "sstables sp" E fs sch]
    by (simp_all add: sp_inv_def sp_rows_def merged(3))
  then have sch: "rb_schema (hd bs) = sch" using merged(4) by simp
  have "fs_get fs' p = fs_get fs1 p"
    unfolding merged(7) p_def using output_paths_fresh(1) [OF assms(2)]
    by (subst delete_keeps) (simp_all add: d meta_bloom_path_def meta_zonemap_path_def)
  then have "\<exists>cs. read_parquet E p n fs' = Inr (map Inr cs) \<and> batches_rows cs = batches_rows bs
      \<and> (\<forall>c \<in> set cs. rb_schema c = sch \<and> batch_valid c)" if "n > 0" for n
    using that merged(5) bs(2) assms(1) unfolding sch d p_def
    by (intro create_parquet_read) (simp_all add: env_ok_def)
  then have h: "holds_rows E fs' p sch (batches_rows bs)"
    by (simp add: holds_rows_def)
  let ?m = "\<lparr>sst_seq = next_seq sp, sst_signal = sig, sst_dir = sp_dir sp,
    sst_zone_map = fold (\<lambda>b. observe_all (batch_timestamps b)) bs zone_map_new\<rparr>"
  have path: "meta_parquet_path ?m = p" by (simp add: meta_parquet_path_def p_def)
  have rows: "table_rows E fs' ?m = batches_rows bs"
    using holds_table_rows [of E fs' ?m] h path by simp
  show ?thesis
    using merged(8) h path rows output_covers [OF bs(2)] less_succ [OF assms(3)]
    by (auto simp: sp_inv_def sp_rows_def d bs(1))
qed

text \<open>Only files of the sub-directory change, whatever the outcome.\<close>

lemma delete_other_dir:
  assumes "\<forall>m \<in> set ms. sst_dir m = d" "\<nexists>f. q = path_join d f"
  shows "fs_get (delete_sstable_files E ms fs) q = fs_get fs q"
  using assms
  by (intro delete_keeps) (auto simp: meta_parquet_path_def meta_bloom_path_def meta_zonemap_path_def
      parquet_path_def bloom_path_def zonemap_path_def)

lemma compact_signal_other_dir:
  assumes "\<forall>m \<in> set (sstables sp). sst_dir m = sp_dir sp" "\<nexists>f. q = path_join (sp_dir sp) f"
    and "compact_signal E sig sp fs = (fs', sp', r)"
  shows "fs_get fs' q = fs_get fs q"
proof (cases "length (sstables sp) < 2")
  case True
  with assms(3) show ?thesis by (simp add: compact_signal_def)
next
  case False
  then have d: "sst_dir (hd (sstables sp)) = sp_dir sp"
    using assms(1) by (metis hd_in_set length_0_conv less_numeral_extra(3) zero_less_numeral)
  have q: "q \<noteq> parquet_path (sp_dir sp) n" "q \<noteq> bloom_path (sp_dir sp) n" "q \<noteq> zonemap_path (sp_dir sp) n" for n
    using assms(2) by (auto simp: parquet_path_def bloom_path_def zonemap_path_def)
  show ?thesis
    using assms(3) False q delete_other_dir [OF assms(1,2), of E]
    by (auto simp: compact_signal_def take_next_seq_def Let_def d fs_write_Inr zone_map_write_Inr
        dest!: create_parquet_other [of _ _ _ _ _ _ _ q] split: if_splits sum.splits prod.splits)
qed

section \<open>A sample partition\<close>

definition log_batch :: "log_record \<Rightarrow> record_batch" where
  "log_batch r = \<lparr>rb_schema = log_schema, rb_columns = log_columns sample_json [r]\<rparr>"

definition two_tables :: signal_partition where
  "two_tables =
     \<lparr>sp_dir = [''d''],
      sstables =
        [\<lparr>sst_seq = 1, sst_signal = Log, sst_dir = [''d''], sst_zone_map = observe_all [7] zone_map_new\<rparr>,
         \<lparr>sst_seq = 2, sst_signal = Log, sst_dir = [''d''], sst_zone_map = observe_all [9] zone_map_new\<rparr>],
      next_seq = 3\<rparr>"

definition two_batches :: "record_batch list" where
  "two_batches = [log_batch sample_log, log_batch (sample_log\<lparr>lr_timestamp_ns := 9\<rparr>)]"

definition two_fs :: fs where
  "two_fs = [(parquet_path [''d''] 1, []), (parquet_path [''d''] 2, [0])]"

definition two_env :: "io_faults \<Rightarrow> record_batch list storage_env" where
  "two_env io = (sample_env [[two_batches ! 0], [two_batches ! 1], two_batches]
     (sample_bincode [] [] [] [fold (\<lambda>b. observe_all (batch_timestamps b)) two_batches zone_map_new]))\<lparr>env_io := io\<rparr>"

lemma row_ts_log [simp]: "row_ts log_schema (log_row J r) = Some (lr_timestamp_ns r)"
  by (simp add: row_ts_def ts_index_def log_schema_def field_new_def log_row_def named_row_def)

lemma row_ts_metric [simp]: "row_ts metric_schema (metric_row B J r) = Some (mp_timestamp_ns r)"
  by (simp add: row_ts_def ts_index_def metric_schema_def field_new_def metric_row_def named_row_def)

lemma row_ts_span [simp]: "row_ts span_schema (span_row J r) = Some (sr_start_time_ns r)"
  by (simp add: row_ts_def ts_index_def span_schema_def field_new_def span_row_def named_row_def)

lemma log_batch_simps [simp]:
  "rb_schema (log_batch r) = log_schema" "batch_valid (log_batch r)"
  "batch_rows (log_batch r) = [log_row sample_json r]"
  by (simp_all add: log_batch_def batch_valid_def log_columns_valid log_rows)

lemma two_read:
  assumes "\<And>p. \<not> read_fails io p"
  shows "read_parquet (two_env io) (parquet_path [''d''] 1) n two_fs = Inr (map Inr [two_batches ! 0])"
    "read_parquet (two_env io) (parquet_path [''d''] 2) n two_fs = Inr (map Inr [two_batches ! 1])"
  using assms
  by (simp_all add: read_parquet_def fs_read_def fs_get_def two_fs_def two_env_def sample_parquet_def)

lemma two_holds:
  assumes "\<And>p. \<not> read_fails io p"
  shows "holds_rows (two_env io) two_fs (parquet_path [''d''] 1) log_schema [log_row sample_json sample_log]"
    "holds_rows (two_env io) two_fs (parquet_path [''d''] 2) log_schema
       [log_row sample_json (sample_log\<lparr>lr_timestamp_ns := 9\<rparr>)]"
  by (rule holds_rowsI, rule two_read [OF assms], simp_all add: two_batches_def)+

lemma two_sp_inv:
  assumes "\<And>p. \<not> read_fails io p"
  shows "sp_inv (two_env io) two_fs log_schema two_tables"
proof -
  let ?ms = "sstables two_tables"
  have paths: "meta_parquet_path (?ms ! 0) = parquet_path [''d''] 1" "meta_parquet_path (?ms ! 1) = parquet_path [''d''] 2"
    by (simp_all add: two_tables_def meta_parquet_path_def)
  note h = two_holds [OF assms, folded paths]
  have "covers_rows log_schema (sst_zone_map (?ms ! 0)) (table_rows (two_env io) two_fs (?ms ! 0))"
    "covers_rows log_schema (sst_zone_map (?ms ! 1)) (table_rows (two_env io) two_fs (?ms ! 1))"
    unfolding holds_table_rows [OF h(1)] holds_table_rows [OF h(2)]
    by (auto simp: covers_rows_def two_tables_def sample_log_def intro!: observe_all_covers)
  with h show ?thesis
    unfolding sp_inv_def by (auto simp: two_tables_def)
qed

lemma two_inputs:
  assumes "\<And>p. \<not> read_fails io p"
  shows "read_inputs (two_env io) two_fs (sstables two_tables) = two_batches"
proof -
  have "fs_exists two_fs (parquet_path [''d''] 1)" "fs_exists two_fs (parquet_path [''d''] 2)"
    by (simp_all add: fs_exists_def fs_get_def two_fs_def)
  then show ?thesis
    using two_read [OF assms, of 65536]
    by (simp add: two_tables_def meta_parquet_path_def two_batches_def flip: map_map)
      (simp add: oks_def)
qed

lemma two_env_ok: "env_ok (two_env no_faults)" "bloom_sized (two_env no_faults)"
  using sample_env_ok sample_env_bloom
  by (simp_all add: two_env_def env_ok_def bloom_sized_def)

lemma two_compact: "\<exists>fs' sp'. compact_signal (two_env no_faults) Log two_tables two_fs = (fs', sp', Inr True)"
proof -
  have "pq_encode (env_parquet (two_env no_faults)) log_schema two_batches = Inr (replicate 2 0)"
    by (simp add: two_env_def sample_parquet_encode two_batches_def eval_nat_numeral)
  then have c: "\<exists>fs1. create_parquet (two_env no_faults) log_schema two_batches p two_fs = (fs1, Inr ())" for p
    by (simp add: create_parquet_def two_env_def)
  have z: "ser_zone_map (env_bincode (two_env no_faults))
      (fold (\<lambda>b. observe_all (batch_timestamps b)) two_batches zone_map_new) = Inr []"
    by (simp add: two_env_def ser_zone_map_sample)
  have io: "env_io (two_env no_faults) = no_faults" by (simp add: two_env_def)
  have bs: "two_batches \<noteq> []" "rb_schema (hd two_batches) = log_schema" by (simp_all add: two_batches_def)
  have len: "\<not> length (sstables two_tables) < 2" by (simp add: two_tables_def)
  obtain fs1 where "create_parquet (two_env no_faults) log_schema two_batches
      (parquet_path (sst_dir (hd (sstables two_tables))) (next_seq two_tables)) two_fs = (fs1, Inr ())"
    using c by blast
  then show ?thesis
    using bs len two_inputs [of no_faults]
    by (simp add: compact_signal_def take_next_seq_def Let_def fs_write_def zone_map_write_to_file_def z io)
qed

text \<open>
  The filter of a compacted table is empty: whatever the merged tables held, the bloom file
  that a successful compaction leaves beside the merged table parses to a filter that rejects
  every key.
\<close>

lemma compaction_bloom_rejects:
  assumes "bloom_sized E" "sp_inv E fs sch sp" "compact_signal E sig sp fs = (fs', sp', Inr True)"
  shows "\<exists>m bytes bf. sstables sp' = [m] \<and> fs_get fs' (meta_bloom_path m) = Some bytes
    \<and> bloom_from_bytes bytes = Some bf \<and> (\<forall>key. bloom_contains (env_hash E) bf key = Some False)"
  using assms(3)
proof (cases rule: compact_signal_Inr)
  case (merged bs fs1 zb bf)
  have wf: "bloom_wf bf" using assms(1) by (simp add: bloom_sized_def merged(6))
  have "num_hashes bf \<noteq> 0"
    using bloom_new_num_hashes(1) unfolding merged(6) by (metis word_le_0_iff zero_neq_one)
  then have "bloom_contains (env_hash E) bf key = Some False" for key
    using empty_filter_rejects [OF wf] by (simp add: merged(6))
  moreover have "bloom_from_bytes (bloom_to_bytes bf) = Some bf"
    using bloom_bytes_parse [OF wf, of "[]"] by simp
  moreover have "sstables sp \<noteq> []" using merged(2) by auto
  then have d: "sst_dir (hd (sstables sp)) = sp_dir sp"
    using assms(2) by (simp add: sp_inv_dir)
  have "fs_get fs' (bloom_path (sp_dir sp) (next_seq sp)) = Some (bloom_to_bytes bf)"
    unfolding merged(7) d using output_paths_fresh(2) [OF assms(2)]
    by (subst delete_keeps) (simp_all add: meta_parquet_path_def meta_zonemap_path_def)
  ultimately show ?thesis
    by (simp add: merged(8) meta_bloom_path_def d)
qed simp_all

text \<open>
  A failing compaction forgets the tables: when writing the merged output fails, the
  signal partition lists no table any more, although the input files are still on disk.
\<close>

lemma compaction_error_forgets_tables:
  assumes "compact_signal E sig sp fs = (fs', sp', Inl e)"
  shows "2 \<le> sstable_count sp \<and> sstables sp' = []"
  using assms
  by (auto simp: compact_signal_def sstable_count_def take_next_seq_def Let_def
      split: if_splits sum.splits prod.splits)

lemma two_compact_fails:
  "\<exists>fs' sp' e. compact_signal (two_env (no_faults\<lparr>write_fails := \<lambda>_. True\<rparr>)) Log two_tables two_fs = (fs', sp', Inl e)"
proof -
  let ?io = "no_faults\<lparr>write_fails := \<lambda>_. True\<rparr>"
  have "two_batches \<noteq> []" "\<not> length (sstables two_tables) < 2" by (simp_all add: two_batches_def two_tables_def)
  moreover have "\<exists>fs1 e. create_parquet (two_env ?io) sch two_batches p two_fs = (fs1, Inl e)" for sch p
    by (auto simp: create_parquet_def two_env_def no_faults_def split: sum.splits)
  then obtain fs1 e where "create_parquet (two_env ?io) (rb_schema (hd two_batches)) two_batches
      (parquet_path (sst_dir (hd (sstables two_tables))) (next_seq two_tables)) two_fs = (fs1, Inl e)"
    by blast
  ultimately obtain fs' sp' where "compact_signal (two_env ?io) Log two_tables two_fs = (fs', sp', Inl e)"
    using two_inputs [of ?io]
    by (simp add: compact_signal_def take_next_seq_def Let_def)
  then show ?thesis by blast
qed

section \<open>Properties\<close>

text \<open>
  C11. A compaction that does not fail loses nothing: it keeps the partition's invariant (every
  listed table readable, distinct sequence numbers below the counter, zone maps that cover their
  rows) and the rows of the signal; no file outside the sub-directory changes. The rows keep the
  order of the merged tables, one after the other: they are not sorted by time, though the
  documents describe a merge-sort.
\<close>

theorem compaction_preserves_rows:
  assumes "env_ok E" "sp_inv E fs sch sp" "next_seq sp + 1 \<noteq> 0"
    and "compact_signal E sig sp fs = (fs', sp', Inr b)"
  shows "sp_inv E fs' sch sp' \<and> sp_rows E fs' sp' = sp_rows E fs sp
    \<and> (b \<longrightarrow> sstable_count sp' = 1)
    \<and> (\<forall>q. (\<nexists>f. q = path_join (sp_dir sp) f) \<longrightarrow> fs_get fs' q = fs_get fs q)"
proof -
  have "b \<longrightarrow> sstable_count sp' = 1"
    using assms(4) by (cases rule: compact_signal_Inr) (simp_all add: sstable_count_def)
  then show ?thesis
    using compact_signal_keeps_inv [OF assms] compact_signal_other_dir [OF _ _ assms(4)] assms(2)
    by (auto simp: sp_inv_def)
qed

theorem compaction_preserves_rows_witness:
  "\<exists>fs' sp'. compact_signal (two_env no_faults) Log two_tables two_fs = (fs', sp', Inr True)
    \<and> sp_rows (two_env no_faults) fs' sp' = sp_rows (two_env no_faults) two_fs two_tables \<and> sstable_count sp' = 1"
proof -
  obtain fs' sp' where c: "compact_signal (two_env no_faults) Log two_tables two_fs = (fs', sp', Inr True)"
    using two_compact by blast
  have "next_seq two_tables + 1 \<noteq> 0" by (simp add: two_tables_def)
  from compaction_preserves_rows [OF two_env_ok(1) two_sp_inv this c] c show ?thesis
    by simp
qed

text \<open>
  C38. What a compaction does besides the rows. The bloom file beside the merged table of a
  successful compaction parses to a filter that rejects every key, whatever the merged tables held.
  When writing the merged output fails, the signal partition lists no table any more, although the
  input files are still on disk.
\<close>

theorem compaction_drops_filter_and_tables:
  assumes "bloom_sized E" "sp_inv E fs sch sp" "compact_signal E sig sp fs = (fs', sp', r)"
  shows "(r = Inr True \<longrightarrow> (\<exists>m bytes bf. sstables sp' = [m] \<and> fs_get fs' (meta_bloom_path m) = Some bytes
      \<and> bloom_from_bytes bytes = Some bf \<and> (\<forall>key. bloom_contains (env_hash E) bf key = Some False)))
    \<and> (\<forall>e. r = Inl e \<longrightarrow> 2 \<le> sstable_count sp \<and> sstables sp' = [])"
  using compaction_bloom_rejects [OF assms(1,2)] compaction_error_forgets_tables assms(3) by blast

theorem compaction_drops_filter_and_tables_witness:
  "(\<exists>fs' sp' m bytes bf. compact_signal (two_env no_faults) Log two_tables two_fs = (fs', sp', Inr True)
      \<and> sstables sp' = [m] \<and> fs_get fs' (meta_bloom_path m) = Some bytes \<and> bloom_from_bytes bytes = Some bf
      \<and> bloom_contains (env_hash (two_env no_faults)) bf (as_bytes ''INFO'') = Some False)
    \<and> (\<exists>fs' sp' e. compact_signal (two_env (no_faults\<lparr>write_fails := \<lambda>_. True\<rparr>)) Log two_tables two_fs
        = (fs', sp', Inl e) \<and> sstables sp' = [])"
proof
  obtain fs' sp' where c: "compact_signal (two_env no_faults) Log two_tables two_fs = (fs', sp', Inr True)"
    using two_compact by blast
  from compaction_drops_filter_and_tables [OF two_env_ok(2) two_sp_inv c] c
  show "\<exists>fs' sp' m bytes bf. compact_signal (two_env no_faults) Log two_tables two_fs = (fs', sp', Inr True)
      \<and> sstables sp' = [m] \<and> fs_get fs' (meta_bloom_path m) = Some bytes \<and> bloom_from_bytes bytes = Some bf
      \<and> bloom_contains (env_hash (two_env no_faults)) bf (as_bytes ''INFO'') = Some False"
    by auto
next
  obtain fs' sp' e where c: "compact_signal (two_env (no_faults\<lparr>write_fails := \<lambda>_. True\<rparr>)) Log two_tables two_fs
      = (fs', sp', Inl e)"
    using two_compact_fails by blast
  have "bloom_sized (two_env (no_faults\<lparr>write_fails := \<lambda>_. True\<rparr>))"
    using two_env_ok(2) by (simp add: two_env_def bloom_sized_def)
  from compaction_drops_filter_and_tables [OF this two_sp_inv c] c
  show "\<exists>fs' sp' e. compact_signal (two_env (no_faults\<lparr>write_fails := \<lambda>_. True\<rparr>)) Log two_tables two_fs
        = (fs', sp', Inl e) \<and> sstables sp' = []"
    by (auto simp: no_faults_def)
qed

end
