(* ===== verification/Wal.thy ===== *)
theory Wal
  imports File_System
begin

text \<open>
  The write-ahead log (\<open>infralens-storage/src/wal.rs\<close>): the writer with its
  \<open>BufWriter\<close> of 256 KiB in front of an append-mode file, the entry frame, and the
  recovery loop. The checksum \<open>crc32fast::hash\<close> is a parameter. The logical log is
  the file's contents followed by the buffered bytes; appending an entry extends it by exactly
  one frame, syncing moves the buffer to the file, and recovery of any prefix of a log of
  frames returns the entries of the complete frames after the last checkpoint.
\<close>

section \<open>The writer\<close>

definition ENTRY_LOG :: u8 where "ENTRY_LOG = 0x01"
definition ENTRY_METRIC :: u8 where "ENTRY_METRIC = 0x02"
definition ENTRY_SPAN :: u8 where "ENTRY_SPAN = 0x03"
definition ENTRY_CHECKPOINT :: u8 where "ENTRY_CHECKPOINT = 0xFF"

definition HEADER_SIZE :: nat where "HEADER_SIZE = 9"

definition wal_buffer_capacity :: nat where "wal_buffer_capacity = 256 * 1024"

record wal =
  wal_path :: path
  writer :: bytes
  offset :: u64

definition wal_open :: "io_faults \<Rightarrow> path \<Rightarrow> fs \<Rightarrow> storage_error + (fs \<times> wal)" where
  "wal_open io p fs =
     and_then (map_err Io (fs_open_append io p fs)) (\<lambda>fs.
       Inr (fs, \<lparr>wal_path = p, writer = [],
                 offset = word_of_nat (length (the (fs_get fs p)))\<rparr>))"

text \<open>\<open>BufWriter::flush_buf\<close> and \<open>BufWriter::write_all\<close>. The state is returned on
  failure as well: an error of the file leaves the buffer as it is.\<close>

definition flush_buf :: "io_faults \<Rightarrow> fs \<Rightarrow> wal \<Rightarrow> fs \<times> wal \<times> (storage_error + unit)" where
  "flush_buf io fs w =
     (if writer w = [] then (fs, w, Inr ())
      else case fs_append io (wal_path w) (writer w) fs of
        Inl e \<Rightarrow> (fs, w, Inl (Io e))
      | Inr fs' \<Rightarrow> (fs', w\<lparr>writer := []\<rparr>, Inr ()))"

definition write_all ::
  "io_faults \<Rightarrow> bytes \<Rightarrow> fs \<Rightarrow> wal \<Rightarrow> fs \<times> wal \<times> (storage_error + unit)" where
  "write_all io b fs w =
     (let spare = wal_buffer_capacity - length (writer w) in
      if length b < spare then (fs, w\<lparr>writer := writer w @ b\<rparr>, Inr ())
      else case (if length b > spare then flush_buf io fs w else (fs, w, Inr ())) of
        (fs1, w1, Inl e) \<Rightarrow> (fs1, w1, Inl e)
      | (fs1, w1, Inr _) \<Rightarrow>
          if length b \<ge> wal_buffer_capacity then
            (case fs_append io (wal_path w1) b fs1 of
               Inl e \<Rightarrow> (fs1, w1, Inl (Io e))
             | Inr fs2 \<Rightarrow> (fs2, w1, Inr ()))
          else (fs1, w1\<lparr>writer := writer w1 @ b\<rparr>, Inr ()))"

definition entry_header :: "(bytes \<Rightarrow> u32) \<Rightarrow> u8 \<Rightarrow> bytes \<Rightarrow> bytes" where
  "entry_header crc ty data =
     u32_to_le_bytes (crc (ty # data)) @ u32_to_le_bytes (word_of_nat (length data)) @ [ty]"

definition wal_append ::
  "(bytes \<Rightarrow> u32) \<Rightarrow> io_faults \<Rightarrow> u8 \<Rightarrow> bytes \<Rightarrow> fs \<Rightarrow> wal \<Rightarrow> fs \<times> wal \<times> (storage_error + u64)"
where
  "wal_append crc io ty data fs w =
     (let start_offset = offset w in
      case write_all io (entry_header crc ty data) fs w of
        (fs1, w1, Inl e) \<Rightarrow> (fs1, w1, Inl e)
      | (fs1, w1, Inr _) \<Rightarrow>
          (case write_all io data fs1 w1 of
             (fs2, w2, Inl e) \<Rightarrow> (fs2, w2, Inl e)
           | (fs2, w2, Inr _) \<Rightarrow>
               (fs2, w2\<lparr>offset := offset w2 + word_of_nat (HEADER_SIZE + length data)\<rparr>,
                Inr start_offset)))"

definition wal_sync :: "io_faults \<Rightarrow> fs \<Rightarrow> wal \<Rightarrow> fs \<times> wal \<times> (storage_error + unit)" where
  "wal_sync io fs w =
     (case flush_buf io fs w of
        (fs1, w1, Inl e) \<Rightarrow> (fs1, w1, Inl e)
      | (fs1, w1, Inr _) \<Rightarrow>
          if write_fails io (wal_path w1) then (fs1, w1, Inl (Io (DeviceError (wal_path w1))))
          else (fs1, w1, Inr ()))"

definition wal_checkpoint ::
  "(bytes \<Rightarrow> u32) \<Rightarrow> io_faults \<Rightarrow> fs \<Rightarrow> wal \<Rightarrow> fs \<times> wal \<times> (storage_error + unit)" where
  "wal_checkpoint crc io fs w =
     (case wal_append crc io ENTRY_CHECKPOINT [] fs w of
        (fs1, w1, Inl e) \<Rightarrow> (fs1, w1, Inl e)
      | (fs1, w1, Inr _) \<Rightarrow> wal_sync io fs1 w1)"

section \<open>Recovery\<close>

record wal_entry =
  entry_type :: u8
  entry_data :: bytes

function recover_loop ::
  "(bytes \<Rightarrow> u32) \<Rightarrow> u64 \<Rightarrow> bytes \<Rightarrow> wal_entry list \<Rightarrow> storage_error + wal_entry list" where
  "recover_loop crc off r entries =
     (if length r < HEADER_SIZE then Inr entries
      else
        let header = take HEADER_SIZE r;
            expected_crc = u32_from_le_bytes (take 4 header);
            data_len = unat (u32_from_le_bytes (take 4 (drop 4 header)));
            ty = header ! 8;
            r1 = drop HEADER_SIZE r in
        if length r1 < data_len then Inr entries
        else
          let data = take data_len r1;
              actual_crc = crc (ty # data) in
          if actual_crc \<noteq> expected_crc then Inl (WalCrcMismatch off expected_crc actual_crc)
          else
            let off' = off + word_of_nat (HEADER_SIZE + data_len);
                r2 = drop data_len r1 in
            if ty = ENTRY_CHECKPOINT then recover_loop crc off' r2 []
            else recover_loop crc off' r2 (entries @ [\<lparr>entry_type = ty, entry_data = data\<rparr>]))"
  by pat_completeness auto
termination
  by (relation "measure (\<lambda>(_, _, r, _). length r)") (auto simp: HEADER_SIZE_def)

declare recover_loop.simps [simp del]

definition recover ::
  "(bytes \<Rightarrow> u32) \<Rightarrow> io_faults \<Rightarrow> fs \<Rightarrow> path \<Rightarrow> storage_error + wal_entry list" where
  "recover crc io fs p =
     (if \<not> fs_exists fs p then Inr []
      else and_then (map_err Io (fs_read io fs p)) (\<lambda>b. recover_loop crc 0 b []))"

section \<open>The log as a sequence of frames\<close>

definition frame :: "(bytes \<Rightarrow> u32) \<Rightarrow> wal_entry \<Rightarrow> bytes" where
  "frame crc e = entry_header crc (entry_type e) (entry_data e) @ entry_data e"

definition frames :: "(bytes \<Rightarrow> u32) \<Rightarrow> wal_entry list \<Rightarrow> bytes" where
  "frames crc es = concat (map (frame crc) es)"

text \<open>What a reader of the entries keeps: those after the last checkpoint.\<close>

fun replay :: "wal_entry list \<Rightarrow> wal_entry list \<Rightarrow> wal_entry list" where
  "replay acc [] = acc"
| "replay acc (e # es) = replay (if entry_type e = ENTRY_CHECKPOINT then [] else acc @ [e]) es"

definition entry_ok :: "wal_entry \<Rightarrow> bool" where
  "entry_ok e \<longleftrightarrow> length (entry_data e) < 2 ^ 32"

text \<open>The logical log: the file followed by what the writer still buffers.\<close>

definition log_contents :: "fs \<Rightarrow> wal \<Rightarrow> bytes" where
  "log_contents fs w = (case fs_get fs (wal_path w) of None \<Rightarrow> [] | Some b \<Rightarrow> b) @ writer w"

definition disk_contents :: "fs \<Rightarrow> wal \<Rightarrow> bytes" where
  "disk_contents fs w = (case fs_get fs (wal_path w) of None \<Rightarrow> [] | Some b \<Rightarrow> b)"

definition wal_wf :: "wal \<Rightarrow> bool" where
  "wal_wf w \<longleftrightarrow> length (writer w) \<le> wal_buffer_capacity"

fun append_entries ::
  "(bytes \<Rightarrow> u32) \<Rightarrow> io_faults \<Rightarrow> wal_entry list \<Rightarrow> fs \<Rightarrow> wal \<Rightarrow> fs \<times> wal \<times> (storage_error + unit)"
where
  "append_entries crc io [] fs w = (fs, w, Inr ())"
| "append_entries crc io (e # es) fs w =
     (case wal_append crc io (entry_type e) (entry_data e) fs w of
        (fs1, w1, Inl err) \<Rightarrow> (fs1, w1, Inl err)
      | (fs1, w1, Inr _) \<Rightarrow> append_entries crc io es fs1 w1)"

definition sample_crc :: "bytes \<Rightarrow> u32" where
  "sample_crc b = fold (\<lambda>x c. 31 * c + ucast x) b 7"

definition sample_entries :: "wal_entry list" where
  "sample_entries = [\<lparr>entry_type = ENTRY_LOG, entry_data = [104, 105]\<rparr>,
                     \<lparr>entry_type = ENTRY_CHECKPOINT, entry_data = []\<rparr>,
                     \<lparr>entry_type = ENTRY_SPAN, entry_data = [51]\<rparr>]"

section \<open>Lemmas\<close>

lemma length_entry_header [simp]: "length (entry_header crc ty data) = HEADER_SIZE"
  by (simp add: entry_header_def HEADER_SIZE_def)

lemma frames_simps [simp]:
  "frames crc [] = []"
  "frames crc (e # es) = frame crc e @ frames crc es"
  "frames crc (es @ es') = frames crc es @ frames crc es'"
  by (simp_all add: frames_def)

lemma length_frame: "length (frame crc e) = HEADER_SIZE + length (entry_data e)"
  by (simp add: frame_def)

lemma entry_header_fields:
  "take 4 (entry_header crc ty data) = u32_to_le_bytes (crc (ty # data))"
  "take 4 (drop 4 (entry_header crc ty data)) = u32_to_le_bytes (word_of_nat (length data))"
  "entry_header crc ty data ! 8 = ty"
  by (simp_all add: entry_header_def nth_append)

lemma unat_len: "entry_ok e \<Longrightarrow> unat (word_of_nat (length (entry_data e)) :: u32) = length (entry_data e)"
  by (simp add: entry_ok_def unsigned_of_nat take_bit_nat_eq_self)

lemma wal_entry_eta [simp]: "\<lparr>entry_type = entry_type e, entry_data = entry_data e\<rparr> = e"
  by simp

text \<open>One complete frame is read back and the loop goes on behind it.\<close>

lemma recover_loop_frame:
  assumes "entry_ok e"
  shows "recover_loop crc off (frame crc e @ rest) acc
    = recover_loop crc (off + word_of_nat (length (frame crc e))) rest
        (if entry_type e = ENTRY_CHECKPOINT then [] else acc @ [e])"
proof -
  have "take HEADER_SIZE (frame crc e @ rest) = entry_header crc (entry_type e) (entry_data e)"
    "drop HEADER_SIZE (frame crc e @ rest) = entry_data e @ rest"
    by (simp_all add: frame_def)
  then show ?thesis
    using unat_len [OF assms]
    by (subst recover_loop.simps) (simp add: Let_def length_frame entry_header_fields)
qed

lemma recover_loop_frames:
  assumes "\<forall>e \<in> set es. entry_ok e"
  shows "recover_loop crc off (frames crc es @ rest) acc
    = recover_loop crc (off + word_of_nat (length (frames crc es))) rest (replay acc es)"
  using assms
  by (induction es arbitrary: off acc) (simp_all add: recover_loop_frame algebra_simps)

lemma recover_loop_Nil [simp]: "recover_loop crc off [] acc = Inr acc"
  by (subst recover_loop.simps) (simp add: HEADER_SIZE_def)

text \<open>A proper prefix of a frame ends the loop without an error.\<close>

lemma recover_loop_torn:
  assumes "entry_ok e" "n < length (frame crc e)"
  shows "recover_loop crc off (take n (frame crc e)) acc = Inr acc"
proof (cases "n < HEADER_SIZE")
  case True
  then have "length (take n (frame crc e)) < HEADER_SIZE" by simp
  then show ?thesis by (subst recover_loop.simps) (simp only: if_True)
next
  case False
  then have "take HEADER_SIZE (take n (frame crc e)) = entry_header crc (entry_type e) (entry_data e)"
    "drop HEADER_SIZE (take n (frame crc e)) = take (n - HEADER_SIZE) (entry_data e)"
    by (simp_all add: frame_def)
  moreover have "n - HEADER_SIZE < length (entry_data e)"
    using False assms(2) by (simp add: length_frame)
  ultimately show ?thesis
    using False assms by (subst recover_loop.simps) (simp add: Let_def length_frame entry_header_fields unat_len)
qed

text \<open>A prefix of a log of frames is some complete frames and a torn one.\<close>

lemma frames_prefix:
  obtains k where "k \<le> length es" "length (frames crc (take k es)) \<le> n"
    "k < length es \<longrightarrow> n < length (frames crc (take (Suc k) es))"
    "take n (frames crc es) = frames crc (take k es)
       @ (if k < length es then take (n - length (frames crc (take k es))) (frame crc (es ! k)) else [])"
proof (induction es arbitrary: n thesis)
  case Nil
  show ?case by (rule Nil [of 0]) simp_all
next
  case (Cons e es)
  show ?case
  proof (cases "n < length (frame crc e)")
    case True
    then show ?thesis by (intro Cons.prems [of 0]) simp_all
  next
    case False
    obtain k where "k \<le> length es" "length (frames crc (take k es)) \<le> n - length (frame crc e)"
      "k < length es \<longrightarrow> n - length (frame crc e) < length (frames crc (take (Suc k) es))"
      "take (n - length (frame crc e)) (frames crc es) = frames crc (take k es)
        @ (if k < length es then take (n - length (frame crc e) - length (frames crc (take k es)))
                                   (frame crc (es ! k)) else [])"
      by (rule Cons.IH)
    with False show ?thesis by (intro Cons.prems [of "Suc k"]) auto
  qed
qed

lemma recover_loop_prefix:
  assumes "\<forall>e \<in> set es. entry_ok e"
  shows "\<exists>k \<le> length es. recover_loop crc off (take n (frames crc es)) acc = Inr (replay acc (take k es))
    \<and> length (frames crc (take k es)) \<le> n
    \<and> (k < length es \<longrightarrow> n < length (frames crc (take (Suc k) es)))"
proof -
  obtain k where k: "k \<le> length es" "length (frames crc (take k es)) \<le> n"
    "k < length es \<longrightarrow> n < length (frames crc (take (Suc k) es))"
    "take n (frames crc es) = frames crc (take k es)
       @ (if k < length es then take (n - length (frames crc (take k es))) (frame crc (es ! k)) else [])"
    by (rule frames_prefix)
  have ok: "\<forall>e \<in> set (take k es). entry_ok e" using assms in_set_takeD by metis
  have "recover_loop crc off (take n (frames crc es)) acc = Inr (replay acc (take k es))"
  proof (cases "k < length es")
    case True
    then have "n - length (frames crc (take k es)) < length (frame crc (es ! k))"
      using k by (simp add: take_Suc_conv_app_nth)
    then show ?thesis
      unfolding k(4) using True assms
      by (simp add: recover_loop_frames [OF ok] recover_loop_torn)
  qed (use k(4) recover_loop_frames [OF ok, of crc off "[]"] in simp)
  with k show ?thesis by blast
qed

subsection \<open>The buffered writer\<close>

lemma flush_buf_log:
  assumes "flush_buf io fs w = (fs', w', r)"
  shows "log_contents fs' w' = log_contents fs w \<and> wal_path w' = wal_path w \<and> offset w' = offset w
    \<and> (r = Inr () \<longrightarrow> writer w' = []) \<and> (wal_wf w \<longrightarrow> wal_wf w')
    \<and> (\<forall>p. p \<noteq> wal_path w \<longrightarrow> fs_get fs' p = fs_get fs p)"
  using assms
  by (auto simp: flush_buf_def log_contents_def wal_wf_def fs_append_def split: if_splits option.splits)

lemma write_all_log:
  assumes "write_all io b fs w = (fs', w', Inr ())" "wal_wf w"
  shows "log_contents fs' w' = log_contents fs w @ b \<and> wal_path w' = wal_path w
    \<and> offset w' = offset w \<and> wal_wf w' \<and> (\<forall>p. p \<noteq> wal_path w \<longrightarrow> fs_get fs' p = fs_get fs p)"
proof (cases "length b < wal_buffer_capacity - length (writer w)")
  case True
  with assms show ?thesis
    by (auto simp: write_all_def log_contents_def wal_wf_def)
next
  case big: False
  obtain fs1 w1 r where f:
    "(if length b > wal_buffer_capacity - length (writer w) then flush_buf io fs w else (fs, w, Inr ())) = (fs1, w1, r)"
    by (metis prod_cases3)
  have r: "r = Inr ()"
    using assms big f by (cases r) (auto simp: write_all_def Let_def)
  have 1: "log_contents fs1 w1 = log_contents fs w \<and> wal_path w1 = wal_path w \<and> offset w1 = offset w
    \<and> wal_wf w1 \<and> (\<forall>p. p \<noteq> wal_path w \<longrightarrow> fs_get fs1 p = fs_get fs p)"
    using f flush_buf_log [of io fs w fs1 w1 r] assms(2) r by (auto split: if_splits)
  have room: "length b < wal_buffer_capacity \<Longrightarrow> length (writer w1) + length b \<le> wal_buffer_capacity"
    using f flush_buf_log [of io fs w fs1 w1 r] r assms(2) by (auto simp: wal_wf_def split: if_splits)
  have "wal_buffer_capacity \<le> length b \<Longrightarrow> length (writer w1) = 0"
    using f flush_buf_log [of io fs w fs1 w1 r] r assms(2)
    by (auto simp: wal_wf_def wal_buffer_capacity_def simp del: length_0_conv split: if_splits)
  then have empty: "wal_buffer_capacity \<le> length b \<Longrightarrow> writer w1 = []" by simp
  have out: "(if length b \<ge> wal_buffer_capacity then
            (case fs_append io (wal_path w1) b fs1 of
               Inl e \<Rightarrow> (fs1, w1, Inl (Io e))
             | Inr fs2 \<Rightarrow> (fs2, w1, Inr ()))
          else (fs1, w1\<lparr>writer := writer w1 @ b\<rparr>, Inr ())) = (fs', w', Inr ())"
    using assms(1) big f r by (simp add: write_all_def Let_def)
  show ?thesis
  proof (cases "length b \<ge> wal_buffer_capacity")
    case True
    with out 1 empty show ?thesis
      by (auto simp: log_contents_def fs_append_def split: if_splits)
  next
    case False
    with out 1 room show ?thesis
      by (auto simp: log_contents_def wal_wf_def)
  qed
qed

lemma wal_append_log:
  assumes "wal_append crc io ty data fs w = (fs', w', Inr o')" "wal_wf w"
  shows "log_contents fs' w' = log_contents fs w @ frame crc \<lparr>entry_type = ty, entry_data = data\<rparr>
    \<and> wal_path w' = wal_path w \<and> offset w' = offset w + word_of_nat (HEADER_SIZE + length data)
    \<and> o' = offset w \<and> wal_wf w' \<and> (\<forall>p. p \<noteq> wal_path w \<longrightarrow> fs_get fs' p = fs_get fs p)"
proof -
  obtain fs1 w1 r1 where 1: "write_all io (entry_header crc ty data) fs w = (fs1, w1, r1)"
    by (metis prod_cases3)
  obtain fs2 w2 r2 where 2: "write_all io data fs1 w1 = (fs2, w2, r2)"
    by (metis prod_cases3)
  have r: "r1 = Inr ()" "r2 = Inr ()"
    using assms(1) 1 2 by (auto simp: wal_append_def split: sum.splits)
  note l1 = write_all_log [OF 1 [unfolded r] assms(2)]
  then have "wal_wf w1" by simp
  note l2 = write_all_log [OF 2 [unfolded r] this]
  show ?thesis
    using assms(1) 1 2 r l1 l2
    by (auto simp: wal_append_def frame_def log_contents_def wal_wf_def)
qed

text \<open>Whatever the outcome, the writer touches no other file.\<close>

lemma write_all_other:
  assumes "write_all io b fs w = (fs', w', r)"
  shows "wal_path w' = wal_path w \<and> (\<forall>p. p \<noteq> wal_path w \<longrightarrow> fs_get fs' p = fs_get fs p)"
  using assms
  by (auto simp: write_all_def Let_def flush_buf_def fs_append_def split: if_splits)

lemma wal_append_other:
  assumes "wal_append crc io ty data fs w = (fs', w', r)"
  shows "wal_path w' = wal_path w \<and> (\<forall>p. p \<noteq> wal_path w \<longrightarrow> fs_get fs' p = fs_get fs p)"
  using assms
  by (auto simp: wal_append_def dest!: write_all_other split: prod.splits sum.splits)

lemma wal_checkpoint_other:
  assumes "wal_checkpoint crc io fs w = (fs', w', r)" "p \<noteq> wal_path w"
  shows "fs_get fs' p = fs_get fs p"
  using assms
  by (auto simp: wal_checkpoint_def wal_sync_def dest!: wal_append_other flush_buf_log
      split: prod.splits sum.splits if_splits)

lemma wal_open_other:
  "wal_open io q fs = Inr (fs', w) \<Longrightarrow> wal_path w = q \<and> (p \<noteq> q \<longrightarrow> fs_get fs' p = fs_get fs p)"
  by (auto simp: wal_open_def fs_open_append_def result_simps split: if_splits option.splits)

lemma append_entries_log:
  assumes "append_entries crc io es fs w = (fs', w', Inr ())" "wal_wf w"
  shows "log_contents fs' w' = log_contents fs w @ frames crc es \<and> wal_path w' = wal_path w
    \<and> wal_wf w'"
  using assms
proof (induction es arbitrary: fs w)
  case (Cons e es)
  obtain fs1 w1 r1 where 1: "wal_append crc io (entry_type e) (entry_data e) fs w = (fs1, w1, r1)"
    by (metis prod_cases3)
  then obtain o1 where r: "r1 = Inr o1" "append_entries crc io es fs1 w1 = (fs', w', Inr ())"
    using Cons.prems(1) by (cases r1) auto
  note l = wal_append_log [OF 1 [unfolded r] Cons.prems(2)]
  then have "wal_wf w1" by simp
  from Cons.IH [OF r(2) this] l show ?case by simp
qed simp

lemma wal_sync_log:
  assumes "wal_sync io fs w = (fs', w', Inr ())"
  shows "disk_contents fs' w' = log_contents fs w \<and> wal_path w' = wal_path w"
proof -
  obtain fs1 w1 r where f: "flush_buf io fs w = (fs1, w1, r)" by (metis prod_cases3)
  with assms have "r = Inr ()" "fs' = fs1" "w' = w1"
    by (cases r; simp add: wal_sync_def split: if_splits)+
  with flush_buf_log [OF f] show ?thesis
    by (auto simp: log_contents_def disk_contents_def)
qed

lemma recover_disk:
  assumes "\<not> read_fails io (wal_path w)"
  shows "recover crc io fs (wal_path w) = recover_loop crc 0 (disk_contents fs w) []"
  using assms
  by (simp add: recover_def fs_read_def fs_exists_def disk_contents_def split: option.splits)

lemma wal_open_fresh:
  assumes "wal_open io p fs = Inr (fs0, w0)" "\<not> fs_exists fs p"
  shows "log_contents fs0 w0 = [] \<and> wal_path w0 = p \<and> wal_wf w0"
  using assms
  by (auto simp: wal_open_def fs_open_append_def fs_exists_def log_contents_def wal_wf_def split: if_splits)

section \<open>Properties\<close>

text \<open>
  C6. What is appended and synced is what recovery returns: on a new log, after any sequence
  of appends and a sync that all succeed, \<open>recover\<close> succeeds and returns exactly the
  appended entries after the last checkpoint, in order, whatever the sizes of the entries
  relative to the writer's buffer.
\<close>

theorem wal_recover_after_sync:
  assumes "wal_open io p fs = Inr (fs0, w0)" "\<not> fs_exists fs p"
    and "append_entries crc io es fs0 w0 = (fs1, w1, Inr ())"
    and "wal_sync io fs1 w1 = (fs2, w2, Inr ())"
    and "\<forall>e \<in> set es. entry_ok e" "\<not> read_fails io p"
  shows "recover crc io fs2 p = Inr (replay [] es)"
proof -
  note o = wal_open_fresh [OF assms(1,2)]
  then have "log_contents fs1 w1 = frames crc es" "wal_path w1 = p"
    using append_entries_log [OF assms(3)] by auto
  then have "disk_contents fs2 w2 = frames crc es" "wal_path w2 = p"
    using wal_sync_log [OF assms(4)] by auto
  then show ?thesis
    using recover_disk [of io w2 crc fs2] assms(6)
      recover_loop_frames [OF assms(5), of crc 0 "[]" "[]"] by simp
qed

theorem wal_recover_after_sync_witness:
  "let (fs0, w0) = projr (wal_open no_faults [''wal.log''] []);
       (fs1, w1, _) = append_entries sample_crc no_faults sample_entries fs0 w0;
       (fs2, w2, _) = wal_sync no_faults fs1 w1
   in recover sample_crc no_faults fs2 [''wal.log''] = Inr (replay [] sample_entries)
      \<and> replay [] sample_entries = [\<lparr>entry_type = ENTRY_SPAN, entry_data = [51]\<rparr>]"
proof -
  obtain fs0 w0 where 0: "wal_open no_faults [''wal.log''] [] = Inr (fs0, w0)"
    by (simp add: wal_open_def fs_open_append_def no_faults_def)
  obtain fs1 w1 r1 where 1: "append_entries sample_crc no_faults sample_entries fs0 w0 = (fs1, w1, r1)"
    by (metis prod_cases3)
  obtain fs2 w2 r2 where 2: "wal_sync no_faults fs1 w1 = (fs2, w2, r2)"
    by (metis prod_cases3)
  have "r1 = Inr ()" using 0 1
    by (auto simp: sample_entries_def wal_append_def write_all_def wal_buffer_capacity_def HEADER_SIZE_def
        wal_open_def fs_open_append_def no_faults_def)
  moreover have "r2 = Inr ()" using 2
    by (auto simp: wal_sync_def flush_buf_def fs_append_def no_faults_def split: if_splits)
  moreover have "\<forall>e \<in> set sample_entries. entry_ok e"
    by (simp add: sample_entries_def entry_ok_def)
  moreover have "\<not> fs_exists [] [''wal.log'']" "\<not> read_fails no_faults [''wal.log'']"
    by (simp_all add: fs_exists_def fs_get_def no_faults_def)
  ultimately show ?thesis
    using wal_recover_after_sync [OF 0 _ 1 [unfolded \<open>r1 = Inr ()\<close>] 2 [unfolded \<open>r2 = Inr ()\<close>]] 0 1 2
    by (simp add: sample_entries_def ENTRY_LOG_def ENTRY_SPAN_def ENTRY_CHECKPOINT_def)
qed

text \<open>
  C7. A crash loses at most a suffix of the log and never makes it unreadable: after any
  successful appends on a new log, without a sync and whatever part of the file survived, recovery
  of the surviving prefix succeeds and returns the replay of a prefix of the appended entries,
  namely those whose frames survived completely.
\<close>

theorem wal_crash_recovers_prefix:
  assumes "wal_open io p fs = Inr (fs0, w0)" "\<not> fs_exists fs p"
    and "append_entries crc io es fs0 w0 = (fs1, w1, Inr ())"
    and "\<forall>e \<in> set es. entry_ok e" "\<not> read_fails io p"
  shows "\<exists>k \<le> length es.
    recover crc io (fs_put p (take n (disk_contents fs1 w1)) fs1) p = Inr (replay [] (take k es))
    \<and> length (frames crc (take k es)) \<le> min n (length (disk_contents fs1 w1))
    \<and> (k < length es \<longrightarrow> min n (length (disk_contents fs1 w1)) < length (frames crc (take (Suc k) es)))"
proof -
  have p: "wal_path w1 = p" and log: "log_contents fs1 w1 = frames crc es"
    using append_entries_log [OF assms(3)] wal_open_fresh [OF assms(1,2)] by auto
  then have "disk_contents fs1 w1 = take (length (disk_contents fs1 w1)) (frames crc es)"
    by (simp add: log_contents_def disk_contents_def flip: log)
  then have "take n (disk_contents fs1 w1) = take (min n (length (disk_contents fs1 w1))) (frames crc es)"
    by (metis take_take)
  moreover have "recover crc io (fs_put p b fs1) p = recover_loop crc 0 b []" for b
    using recover_disk [of io w1 crc "fs_put p b fs1"] p assms(5) by (simp add: disk_contents_def)
  ultimately show ?thesis
    using recover_loop_prefix [OF assms(4), of crc 0 "min n (length (disk_contents fs1 w1))" "[]"]
    by (simp only:)
qed

theorem wal_crash_recovers_prefix_witness:
  "let (fs0, w0) = projr (wal_open no_faults [''wal.log''] []);
       (fs1, w1, _) = append_entries sample_crc no_faults sample_entries fs0 w0
   in \<exists>k \<le> length sample_entries.
        recover sample_crc no_faults (fs_put [''wal.log''] (take 15 (disk_contents fs1 w1)) fs1) [''wal.log'']
          = Inr (replay [] (take k sample_entries))"
proof -
  obtain fs0 w0 where 0: "wal_open no_faults [''wal.log''] [] = Inr (fs0, w0)"
    by (simp add: wal_open_def fs_open_append_def no_faults_def)
  obtain fs1 w1 r1 where 1: "append_entries sample_crc no_faults sample_entries fs0 w0 = (fs1, w1, r1)"
    by (metis prod_cases3)
  have "r1 = Inr ()" using 0 1
    by (auto simp: sample_entries_def wal_append_def write_all_def wal_buffer_capacity_def HEADER_SIZE_def
        wal_open_def fs_open_append_def no_faults_def)
  moreover have "\<forall>e \<in> set sample_entries. entry_ok e"
    by (simp add: sample_entries_def entry_ok_def)
  moreover have "\<not> fs_exists [] [''wal.log'']" "\<not> read_fails no_faults [''wal.log'']"
    by (simp_all add: fs_exists_def fs_get_def no_faults_def)
  ultimately have "\<exists>k \<le> length sample_entries.
    recover sample_crc no_faults (fs_put [''wal.log''] (take 15 (disk_contents fs1 w1)) fs1) [''wal.log'']
      = Inr (replay [] (take k sample_entries))"
    using wal_crash_recovers_prefix [OF 0 _ 1 [unfolded \<open>r1 = Inr ()\<close>], of 15] by blast
  then show ?thesis by (simp only: Let_def 0 1 sum.sel prod.case)
qed

text \<open>
  C36. Corruption is detected at its offset: when the frames before it are intact, a frame
  whose stored checksum is not the checksum of its type and data makes recovery return
  \<open>WalCrcMismatch\<close> with the frame's byte offset and both checksums; the entries before it
  are not returned.
\<close>

theorem wal_corruption_detected:
  assumes "\<forall>e \<in> set es. entry_ok e" "length data < 2 ^ 32" "stored \<noteq> crc (ty # data)"
    and "fs_get fs p = Some (frames crc es @ u32_to_le_bytes stored
            @ u32_to_le_bytes (word_of_nat (length data)) @ [ty] @ data @ rest)"
    and "\<not> read_fails io p"
  shows "recover crc io fs p
    = Inl (WalCrcMismatch (word_of_nat (length (frames crc es))) stored (crc (ty # data)))"
proof -
  let ?bad = "u32_to_le_bytes stored @ u32_to_le_bytes (word_of_nat (length data)) @ [ty] @ data @ rest"
  have "recover_loop crc off ?bad acc = Inl (WalCrcMismatch off stored (crc (ty # data)))" for off acc
    using assms(2,3)
    by (subst recover_loop.simps)
      (simp add: Let_def HEADER_SIZE_def nth_append unsigned_of_nat take_bit_nat_eq_self)
  then show ?thesis
    using assms(4,5) recover_loop_frames [OF assms(1), of crc 0 ?bad "[]"]
    by (simp add: recover_def fs_exists_def fs_read_def)
qed

theorem wal_corruption_detected_witness:
  "recover sample_crc no_faults
     [([''wal.log''], frames sample_crc sample_entries @ u32_to_le_bytes 0
        @ u32_to_le_bytes (word_of_nat (length [9])) @ [1] @ [9] @ [])] [''wal.log'']
   = Inl (WalCrcMismatch (word_of_nat (length (frames sample_crc sample_entries))) 0 (sample_crc (1 # [9])))"
  by (rule wal_corruption_detected [where stored = 0 and rest = "[]" and data = "[9]" and ty = 1])
    (simp_all add: sample_entries_def entry_ok_def fs_get_def no_faults_def sample_crc_def)

end
