(* ===== verification/Channel.thy ===== *)
theory Channel
  imports Prelude
begin

text \<open>
  The bounded multi-producer single-consumer channel of \<open>tokio::sync::mpsc\<close>, as far as the
  engine's flush queue, the ingest pipeline and the replication senders use it. The channel is a
  parameter of those components: they take its \<open>try_send\<close> and \<open>recv\<close> as arguments, and
  the locale \<open>mpsc\<close> states the documented behaviour they rely on. A list with a capacity
  is the reference implementation the locale is interpreted on.
\<close>

datatype send_error = Full | Closed

locale mpsc =
  fixes try_send :: "'c \<Rightarrow> 'a \<Rightarrow> send_error + 'c"
    and recv :: "'c \<Rightarrow> ('a \<times> 'c) option"
    and queued :: "'c \<Rightarrow> 'a list"
    and capacity :: "'c \<Rightarrow> nat"
    and receiver_alive :: "'c \<Rightarrow> bool"
  assumes try_send_ok:
    "receiver_alive c \<Longrightarrow> length (queued c) < capacity c \<Longrightarrow>
       \<exists>c'. try_send c x = Inr c' \<and> queued c' = queued c @ [x]
            \<and> capacity c' = capacity c \<and> receiver_alive c'"
    and try_send_full:
    "receiver_alive c \<Longrightarrow> \<not> length (queued c) < capacity c \<Longrightarrow> try_send c x = Inl Full"
    and try_send_closed: "\<not> receiver_alive c \<Longrightarrow> try_send c x = Inl Closed"
    and recv_empty: "queued c = [] \<Longrightarrow> recv c = None"
    and recv_some:
    "queued c = x # xs \<Longrightarrow>
       \<exists>c'. recv c = Some (x, c') \<and> queued c' = xs \<and> capacity c' = capacity c
            \<and> receiver_alive c' = receiver_alive c"
begin

lemma try_send_Inr:
  assumes "try_send c x = Inr c'"
  shows "queued c' = queued c @ [x]" "capacity c' = capacity c" "receiver_alive c'"
    "length (queued c) < capacity c"
  using assms try_send_ok [of c x] try_send_full [of c x] try_send_closed [of c x]
  by (cases "receiver_alive c"; cases "length (queued c) < capacity c"; auto)+

lemma recv_Some:
  assumes "recv c = Some (x, c')"
  shows "queued c = x # queued c'" "capacity c' = capacity c"
proof -
  obtain y ys where "queued c = y # ys"
    using assms recv_empty by (cases "queued c") auto
  then show "queued c = x # queued c'" "capacity c' = capacity c"
    using recv_some assms by fastforce+
qed

text \<open>The channel never holds more than its capacity.\<close>

lemma try_send_bounded: "try_send c x = Inr c' \<Longrightarrow> length (queued c') \<le> capacity c'"
  using try_send_Inr by fastforce

text \<open>A refused send leaves the sender with the full or the closed case, nothing else.\<close>

lemma try_send_Inl:
  "try_send c x = Inl e \<longleftrightarrow>
     (e = Full \<and> receiver_alive c \<and> capacity c \<le> length (queued c)) \<or> (e = Closed \<and> \<not> receiver_alive c)"
  using try_send_ok [of c x] try_send_full [of c x] try_send_closed [of c x]
  by (cases "receiver_alive c"; cases "length (queued c) < capacity c") auto

end

section \<open>A reference channel\<close>

record 'a chan =
  ch_items :: "'a list"
  ch_capacity :: nat
  ch_open :: bool

definition chan_new :: "nat \<Rightarrow> 'a chan" where
  "chan_new n = \<lparr>ch_items = [], ch_capacity = n, ch_open = True\<rparr>"

definition chan_try_send :: "'a chan \<Rightarrow> 'a \<Rightarrow> send_error + 'a chan" where
  "chan_try_send c x =
     (if \<not> ch_open c then Inl Closed
      else if length (ch_items c) < ch_capacity c then Inr (c\<lparr>ch_items := ch_items c @ [x]\<rparr>)
      else Inl Full)"

definition chan_recv :: "'a chan \<Rightarrow> ('a \<times> 'a chan) option" where
  "chan_recv c = (case ch_items c of [] \<Rightarrow> None | x # xs \<Rightarrow> Some (x, c\<lparr>ch_items := xs\<rparr>))"

interpretation ch: mpsc chan_try_send chan_recv ch_items ch_capacity ch_open
  by unfold_locales (auto simp: chan_try_send_def chan_recv_def)

end
