(* ===== verification/Engine.thy ===== *)
theory Engine
  imports Compaction Wal Channel
begin

text \<open>
  The storage engine (\<open>infralens-storage/src/engine.rs\<close>): routing writes to the WAL and the
  MemTable of their partition, freezing full MemTables into the flush queue, the flush and
  compaction workers, and closing. The flush queue is a parameter: the operations take the
  channel's \<open>try_send\<close> and \<open>recv\<close>. Warnings and errors the code logs are returned
  as events. \<open>None\<close> is a panic. One record's write, one flush request and one partition's
  compaction are atomic here.
\<close>

section \<open>State\<close>

text \<open>A \<open>DashMap\<close> as an association list with one entry per key.\<close>

definition dm_get :: "('k \<times> 'v) list \<Rightarrow> 'k \<Rightarrow> 'v option" where
  "dm_get m k = map_of m k"

definition dm_put :: "'k \<Rightarrow> 'v \<Rightarrow> ('k \<times> 'v) list \<Rightarrow> ('k \<times> 'v) list" where
  "dm_put k v m = (k, v) # filter (\<lambda>e. fst e \<noteq> k) m"

definition dm_remove :: "'k \<Rightarrow> ('k \<times> 'v) list \<Rightarrow> ('k \<times> 'v) list" where
  "dm_remove k m = filter (\<lambda>e. fst e \<noteq> k) m"

text \<open>A request names its partition by key: the \<open>Arc\<close> it holds is the engine's entry.\<close>

record flush_request =
  fr_imm :: memtable
  fr_partition :: u64

record 'c storage_engine =
  e_config :: storage_config
  e_partitions :: "(u64 \<times> partition) list"
  e_memtables :: "(u64 \<times> memtable) list"
  e_wals :: "(u64 \<times> wal) list"
  e_flush_tx :: 'c
  e_closed :: bool
  e_bucket_ns :: u64

datatype event =
    FlushQueueFull send_error partition_key
  | FlushFailed storage_error
  | CompactionFailed storage_error

type_synonym 'c flush_send = "'c \<Rightarrow> flush_request \<Rightarrow> send_error + 'c"
type_synonym 'c flush_recv = "'c \<Rightarrow> (flush_request \<times> 'c) option"

definition data_path :: "'c storage_engine \<Rightarrow> path" where
  "data_path e = [data_dir (e_config e)]"

definition engine_bucket_ns :: "storage_config \<Rightarrow> u64" where
  "engine_bucket_ns c = partition_hours c * 3600 * 1000000000"

definition engine_open ::
  "'w storage_env \<Rightarrow> storage_config \<Rightarrow> 'c \<Rightarrow> storage_error + 'c storage_engine" where
  "engine_open E config flush_tx =
     (if open_fails (env_io E) [data_dir config] then Inl (Io (DeviceError [data_dir config]))
      else Inr \<lparr>e_config = config, e_partitions = [], e_memtables = [], e_wals = [],
                e_flush_tx = flush_tx, e_closed = False, e_bucket_ns = engine_bucket_ns config\<rparr>)"

section \<open>Lookup or creation\<close>

definition fresh_memtable :: "'c storage_engine \<Rightarrow> memtable" where
  "fresh_memtable e = memtable_new (word_of_nat (memtable_size_bytes (e_config e)))"

definition get_or_create_memtable :: "partition_key \<Rightarrow> 'c storage_engine \<Rightarrow> memtable \<times> 'c storage_engine" where
  "get_or_create_memtable key e =
     (case dm_get (e_memtables e) (pk_raw key) of
        Some m \<Rightarrow> (m, e)
      | None \<Rightarrow> (fresh_memtable e, e\<lparr>e_memtables := dm_put (pk_raw key) (fresh_memtable e) (e_memtables e)\<rparr>))"

definition get_or_create_partition ::
  "'w storage_env \<Rightarrow> partition_key \<Rightarrow> fs \<Rightarrow> 'c storage_engine \<Rightarrow> (partition \<times> 'c storage_engine) option" where
  "get_or_create_partition E key fs e =
     (case dm_get (e_partitions e) (pk_raw key) of
        Some p \<Rightarrow> Some (p, e)
      | None \<Rightarrow>
          (case partition_open E (data_path e) key fs of
             Inl _ \<Rightarrow> None
           | Inr p \<Rightarrow> Some (p, e\<lparr>e_partitions := dm_put (pk_raw key) p (e_partitions e)\<rparr>)))"

definition get_or_create_wal ::
  "'w storage_env \<Rightarrow> partition_key \<Rightarrow> fs \<Rightarrow> 'c storage_engine \<Rightarrow> (fs \<times> wal \<times> 'c storage_engine) option" where
  "get_or_create_wal E key fs e =
     (case dm_get (e_wals e) (pk_raw key) of
        Some w \<Rightarrow> Some (fs, w, e)
      | None \<Rightarrow>
          (case get_or_create_partition E key fs e of
             None \<Rightarrow> None
           | Some (p, e1) \<Rightarrow>
               (case wal_open (env_io E) (sp_wal_path (p_logs p)) fs of
                  Inl _ \<Rightarrow> None
                | Inr (fs1, w) \<Rightarrow> Some (fs1, w, e1\<lparr>e_wals := dm_put (pk_raw key) w (e_wals e1)\<rparr>))))"

section \<open>Writing\<close>

definition maybe_freeze ::
  "'w storage_env \<Rightarrow> 'c flush_send \<Rightarrow> partition_key \<Rightarrow> memtable \<Rightarrow> fs \<Rightarrow> 'c storage_engine \<Rightarrow>
   ('c storage_engine \<times> event list) option" where
  "maybe_freeze E send key mem fs e =
     (if \<not> memtable_is_full mem then Some (e, [])
      else
        let e1 = e\<lparr>e_memtables := dm_put (pk_raw key) (fresh_memtable e) (e_memtables e)\<rparr> in
        case get_or_create_partition E key fs e1 of
          None \<Rightarrow> None
        | Some (_, e2) \<Rightarrow>
            (case send (e_flush_tx e2) \<lparr>fr_imm = mem, fr_partition = pk_raw key\<rparr> of
               Inr c \<Rightarrow> Some (e2\<lparr>e_flush_tx := c\<rparr>, [])
             | Inl err \<Rightarrow> Some (e2, [FlushQueueFull err key])))"

text \<open>One record: the WAL first, then the MemTable, then the check for a full table.\<close>

definition write_one ::
  "'w storage_env \<Rightarrow> 'c flush_send \<Rightarrow> u8 \<Rightarrow> u64 \<Rightarrow> (string + bytes) \<Rightarrow> (memtable \<Rightarrow> storage_error + memtable) \<Rightarrow>
   fs \<Rightarrow> 'c storage_engine \<Rightarrow> (fs \<times> 'c storage_engine \<times> event list \<times> (storage_error + unit)) option" where
  "write_one E send ty ts serialised mem_write fs e =
     (case for_timestamp ts (e_bucket_ns e) of
        None \<Rightarrow> None
      | Some pkey \<Rightarrow>
          (case get_or_create_memtable pkey e of (mem, e1) \<Rightarrow>
             (case serialised of
                Inl err \<Rightarrow> Some (fs, e1, [], Inl (Serialisation err))
              | Inr data \<Rightarrow>
                  (case get_or_create_wal E pkey fs e1 of
                     None \<Rightarrow> None
                   | Some (fs1, w, e2) \<Rightarrow>
                       (case wal_append (env_crc E) (env_io E) ty data fs1 w of (fs2, w1, r) \<Rightarrow>
                          let e3 = e2\<lparr>e_wals := dm_put (pk_raw pkey) w1 (e_wals e2)\<rparr> in
                          (case r of
                             Inl err \<Rightarrow> Some (fs2, e3, [], Inl err)
                           | Inr _ \<Rightarrow>
                               (case mem_write mem of
                                  Inl err \<Rightarrow> Some (fs2, e3, [], Inl err)
                                | Inr mem1 \<Rightarrow>
                                    let e4 = e3\<lparr>e_memtables := dm_put (pk_raw pkey) mem1 (e_memtables e3)\<rparr> in
                                    (case maybe_freeze E send pkey mem1 fs2 e4 of
                                       None \<Rightarrow> None
                                     | Some (e5, evs) \<Rightarrow> Some (fs2, e5, evs, Inr ())))))))))"

definition write_log_record ::
  "'w storage_env \<Rightarrow> 'c flush_send \<Rightarrow> log_record \<Rightarrow> fs \<Rightarrow> 'c storage_engine \<Rightarrow>
   (fs \<times> 'c storage_engine \<times> event list \<times> (storage_error + unit)) option" where
  "write_log_record E send r fs e =
     write_one E send ENTRY_LOG (lr_timestamp_ns r) (ser_log (env_bincode E) r)
       (memtable_write_log (env_bincode E) r) fs e"

definition write_metric_record ::
  "'w storage_env \<Rightarrow> 'c flush_send \<Rightarrow> metric_point \<Rightarrow> fs \<Rightarrow> 'c storage_engine \<Rightarrow>
   (fs \<times> 'c storage_engine \<times> event list \<times> (storage_error + unit)) option" where
  "write_metric_record E send r fs e =
     write_one E send ENTRY_METRIC (mp_timestamp_ns r) (ser_metric (env_bincode E) r)
       (memtable_write_metric (env_bincode E) r) fs e"

definition write_span_record ::
  "'w storage_env \<Rightarrow> 'c flush_send \<Rightarrow> span_record \<Rightarrow> fs \<Rightarrow> 'c storage_engine \<Rightarrow>
   (fs \<times> 'c storage_engine \<times> event list \<times> (storage_error + unit)) option" where
  "write_span_record E send r fs e =
     write_one E send ENTRY_SPAN (sr_start_time_ns r) (ser_span (env_bincode E) r)
       (memtable_write_span (env_bincode E) r) fs e"

text \<open>The loop over a batch stops at the first error.\<close>

fun write_records ::
  "('r \<Rightarrow> fs \<Rightarrow> 'c storage_engine \<Rightarrow> (fs \<times> 'c storage_engine \<times> event list \<times> (storage_error + unit)) option) \<Rightarrow>
   'r list \<Rightarrow> fs \<Rightarrow> 'c storage_engine \<Rightarrow> (fs \<times> 'c storage_engine \<times> event list \<times> (storage_error + unit)) option" where
  "write_records f [] fs e = Some (fs, e, [], Inr ())"
| "write_records f (r # rs) fs e =
     (case f r fs e of
        None \<Rightarrow> None
      | Some (fs1, e1, evs, Inl err) \<Rightarrow> Some (fs1, e1, evs, Inl err)
      | Some (fs1, e1, evs, Inr _) \<Rightarrow>
          (case write_records f rs fs1 e1 of
             None \<Rightarrow> None
           | Some (fs2, e2, evs', res) \<Rightarrow> Some (fs2, e2, evs @ evs', res)))"

definition write_batch ::
  "'w storage_env \<Rightarrow> 'c flush_send \<Rightarrow> ingest_batch \<Rightarrow> fs \<Rightarrow> 'c storage_engine \<Rightarrow>
   (fs \<times> 'c storage_engine \<times> event list \<times> (storage_error + unit)) option" where
  "write_batch E send batch fs e =
     (if e_closed e then Some (fs, e, [], Inl StorageClosed)
      else case batch of
        Logs rs \<Rightarrow> write_records (write_log_record E send) rs fs e
      | Metrics rs \<Rightarrow> write_records (write_metric_record E send) rs fs e
      | Spans rs \<Rightarrow> write_records (write_span_record E send) rs fs e)"

section \<open>Flushing everything, closing\<close>

text \<open>\<open>send().await\<close> on a full channel waits: the step is not ready then.\<close>

datatype 'a poll = Pending | Panicked | Ready 'a

definition flush_key ::
  "'w storage_env \<Rightarrow> 'c flush_send \<Rightarrow> u64 \<Rightarrow> fs \<Rightarrow> 'c storage_engine \<Rightarrow> 'c storage_engine poll" where
  "flush_key E send raw_key fs e =
     (case dm_get (e_memtables e) raw_key of
        None \<Rightarrow> Ready e
      | Some mem \<Rightarrow>
          let e1 = e\<lparr>e_memtables := dm_remove raw_key (e_memtables e)\<rparr> in
          if memtable_is_empty mem then Ready e1
          else case get_or_create_partition E (PartitionKey raw_key) fs e1 of
            None \<Rightarrow> Panicked
          | Some (_, e2) \<Rightarrow>
              (case send (e_flush_tx e2) \<lparr>fr_imm = mem, fr_partition = raw_key\<rparr> of
                 Inr c \<Rightarrow> Ready (e2\<lparr>e_flush_tx := c\<rparr>)
               | Inl Full \<Rightarrow> Pending
               | Inl Closed \<Rightarrow> Ready e2))"

fun flush_keys ::
  "'w storage_env \<Rightarrow> 'c flush_send \<Rightarrow> u64 list \<Rightarrow> fs \<Rightarrow> 'c storage_engine \<Rightarrow> 'c storage_engine poll" where
  "flush_keys E send [] fs e = Ready e"
| "flush_keys E send (k # ks) fs e =
     (case flush_key E send k fs e of
        Pending \<Rightarrow> Pending
      | Panicked \<Rightarrow> Panicked
      | Ready e1 \<Rightarrow> flush_keys E send ks fs e1)"

definition flush_all ::
  "'w storage_env \<Rightarrow> 'c flush_send \<Rightarrow> fs \<Rightarrow> 'c storage_engine \<Rightarrow> 'c storage_engine poll" where
  "flush_all E send fs e = flush_keys E send (map fst (e_memtables e)) fs e"

definition engine_close ::
  "'w storage_env \<Rightarrow> 'c flush_send \<Rightarrow> fs \<Rightarrow> 'c storage_engine \<Rightarrow> 'c storage_engine poll" where
  "engine_close E send fs e = flush_all E send fs (e\<lparr>e_closed := True\<rparr>)"

section \<open>Query support\<close>

definition sstable_paths_for_signal :: "u8 \<Rightarrow> u64 list \<Rightarrow> 'c storage_engine \<Rightarrow> path list" where
  "sstable_paths_for_signal signal partition_filter e =
     (case signal_try_from signal of
        Inl _ \<Rightarrow> []
      | Inr sig \<Rightarrow>
          let keys = (if partition_filter = [] then map fst (e_partitions e) else partition_filter) in
          concat (map (\<lambda>key. case dm_get (e_partitions e) key of
                               None \<Rightarrow> []
                             | Some p \<Rightarrow> map (\<lambda>m. path_join (sst_dir m) (sst_stem (sst_seq m) @ ''.parquet''))
                                           (sstables (get_signal_partition sig p))) keys))"

section \<open>Workers\<close>

definition flush_signal_with ::
  "'w storage_env \<Rightarrow> signal_type \<Rightarrow> (bytes \<Rightarrow> string + 'r) \<Rightarrow>
   ('w storage_env \<Rightarrow> 'r list \<Rightarrow> path \<Rightarrow> u64 \<Rightarrow> fs \<Rightarrow> (fs \<times> (storage_error + sstable_meta)) option) \<Rightarrow>
   signal_partition \<Rightarrow> memtable \<Rightarrow> fs \<Rightarrow> (fs \<times> signal_partition \<times> (storage_error + unit)) option" where
  "flush_signal_with E sig de write_table sp mem fs =
     (let rows = drain_signal (signal_as_u8 sig) mem in
      if rows = [] then Some (fs, sp, Inr ())
      else
        let records = oks (map (\<lambda>(_, data). de data) rows);
            (seq, sp1) = take_next_seq sp in
        case write_table E records (sp_dir sp1) seq fs of
          None \<Rightarrow> None
        | Some (fs1, Inl err) \<Rightarrow> Some (fs1, sp1, Inl err)
        | Some (fs1, Inr meta) \<Rightarrow> Some (fs1, add_sstable meta sp1, Inr ()))"

definition flush_signal_logs ::
  "'w storage_env \<Rightarrow> partition \<Rightarrow> memtable \<Rightarrow> fs \<Rightarrow> (fs \<times> partition \<times> (storage_error + unit)) option" where
  "flush_signal_logs E p mem fs =
     (case flush_signal_with E Log (de_log (env_bincode E)) write_logs (p_logs p) mem fs of
        None \<Rightarrow> None | Some (fs1, sp, r) \<Rightarrow> Some (fs1, p\<lparr>p_logs := sp\<rparr>, r))"

definition flush_signal_metrics ::
  "'w storage_env \<Rightarrow> partition \<Rightarrow> memtable \<Rightarrow> fs \<Rightarrow> (fs \<times> partition \<times> (storage_error + unit)) option" where
  "flush_signal_metrics E p mem fs =
     (case flush_signal_with E Metric (de_metric (env_bincode E)) write_metrics (p_metrics p) mem fs of
        None \<Rightarrow> None | Some (fs1, sp, r) \<Rightarrow> Some (fs1, p\<lparr>p_metrics := sp\<rparr>, r))"

definition flush_signal_spans ::
  "'w storage_env \<Rightarrow> partition \<Rightarrow> memtable \<Rightarrow> fs \<Rightarrow> (fs \<times> partition \<times> (storage_error + unit)) option" where
  "flush_signal_spans E p mem fs =
     (case flush_signal_with E Span (de_span (env_bincode E)) write_spans (p_spans p) mem fs of
        None \<Rightarrow> None | Some (fs1, sp, r) \<Rightarrow> Some (fs1, p\<lparr>p_spans := sp\<rparr>, r))"

text \<open>The checkpoint goes through a second handle on the WAL file; its errors are ignored.\<close>

definition checkpoint_wal :: "'w storage_env \<Rightarrow> path \<Rightarrow> fs \<Rightarrow> fs" where
  "checkpoint_wal E p fs =
     (if \<not> fs_exists fs p then fs
      else case wal_open (env_io E) p fs of
        Inl _ \<Rightarrow> fs
      | Inr (fs1, w) \<Rightarrow> fst (wal_checkpoint (env_crc E) (env_io E) fs1 w))"

definition flush_immutable ::
  "'w storage_env \<Rightarrow> memtable \<Rightarrow> partition \<Rightarrow> fs \<Rightarrow> (fs \<times> partition \<times> (storage_error + unit)) option" where
  "flush_immutable E mem p fs =
     (case flush_signal_logs E p mem fs of
        None \<Rightarrow> None
      | Some (fs1, p1, Inl err) \<Rightarrow> Some (fs1, p1, Inl err)
      | Some (fs1, p1, Inr _) \<Rightarrow>
          (case flush_signal_metrics E p1 mem fs1 of
             None \<Rightarrow> None
           | Some (fs2, p2, Inl err) \<Rightarrow> Some (fs2, p2, Inl err)
           | Some (fs2, p2, Inr _) \<Rightarrow>
               (case flush_signal_spans E p2 mem fs2 of
                  None \<Rightarrow> None
                | Some (fs3, p3, Inl err) \<Rightarrow> Some (fs3, p3, Inl err)
                | Some (fs3, p3, Inr _) \<Rightarrow>
                    Some (checkpoint_wal E (sp_wal_path (p_logs p3)) fs3, p3, Inr ()))))"

text \<open>One turn of the flush worker: nothing when the queue is empty.\<close>

definition flush_worker ::
  "'w storage_env \<Rightarrow> 'c flush_recv \<Rightarrow> fs \<Rightarrow> 'c storage_engine \<Rightarrow> (fs \<times> 'c storage_engine \<times> event list) option" where
  "flush_worker E recv fs e =
     (case recv (e_flush_tx e) of
        None \<Rightarrow> Some (fs, e, [])
      | Some (req, c) \<Rightarrow>
          (case dm_get (e_partitions e) (fr_partition req) of
             None \<Rightarrow> None
           | Some p \<Rightarrow>
               (case flush_immutable E (fr_imm req) p fs of
                  None \<Rightarrow> None
                | Some (fs1, p1, r) \<Rightarrow>
                    Some (fs1, e\<lparr>e_flush_tx := c, e_partitions := dm_put (fr_partition req) p1 (e_partitions e)\<rparr>,
                          case r of Inl err \<Rightarrow> [FlushFailed err] | Inr _ \<Rightarrow> []))))"

text \<open>A turn of the compaction worker takes the known partitions one after the other; whether the
  engine is closed is checked at the start of the turn only.\<close>

definition compact_key ::
  "'w storage_env \<Rightarrow> u64 \<Rightarrow> fs \<Rightarrow> 'c storage_engine \<Rightarrow> fs \<times> 'c storage_engine \<times> event list" where
  "compact_key E raw_key fs e =
     (case dm_get (e_partitions e) raw_key of
        None \<Rightarrow> (fs, e, [])
      | Some p \<Rightarrow>
          (case compact_partition E p (l0_compaction_trigger (e_config e)) fs of
             (fs1, p1, _, warns) \<Rightarrow>
               (fs1, e\<lparr>e_partitions := dm_put raw_key p1 (e_partitions e)\<rparr>, map CompactionFailed warns)))"

fun compact_keys ::
  "'w storage_env \<Rightarrow> u64 list \<Rightarrow> fs \<Rightarrow> 'c storage_engine \<Rightarrow> fs \<times> 'c storage_engine \<times> event list" where
  "compact_keys E [] fs e = (fs, e, [])"
| "compact_keys E (k # ks) fs e =
     (case compact_key E k fs e of (fs1, e1, evs) \<Rightarrow>
       (case compact_keys E ks fs1 e1 of (fs2, e2, evs') \<Rightarrow> (fs2, e2, evs @ evs')))"

definition compaction_worker ::
  "'w storage_env \<Rightarrow> fs \<Rightarrow> 'c storage_engine \<Rightarrow> fs \<times> 'c storage_engine \<times> event list" where
  "compaction_worker E fs e =
     (if e_closed e then (fs, e, []) else compact_keys E (map fst (e_partitions e)) fs e)"

section \<open>Runs\<close>

datatype telemetry = RLog log_record | RMetric metric_point | RSpan span_record

fun write_record ::
  "'w storage_env \<Rightarrow> 'c flush_send \<Rightarrow> telemetry \<Rightarrow> fs \<Rightarrow> 'c storage_engine \<Rightarrow>
   (fs \<times> 'c storage_engine \<times> event list \<times> (storage_error + unit)) option" where
  "write_record E send (RLog r) = write_log_record E send r"
| "write_record E send (RMetric r) = write_metric_record E send r"
| "write_record E send (RSpan r) = write_span_record E send r"

datatype engine_op =
    OpWrite telemetry "storage_error + unit"
  | OpFlushKey u64
  | OpFlushWorker
  | OpCompact u64
  | OpClose

text \<open>
  The interleavings of writers, workers and a closing caller on an engine opened on a data
  directory without tables: the operations so far and the events they logged.
\<close>

inductive engine_run ::
  "'w storage_env \<Rightarrow> 'c flush_send \<Rightarrow> 'c flush_recv \<Rightarrow> ('c \<Rightarrow> flush_request list) \<Rightarrow>
   ('c \<Rightarrow> bool) \<Rightarrow> engine_op list \<Rightarrow> fs \<times> 'c storage_engine \<Rightarrow> event list \<Rightarrow> bool"
  for E send recv queued alive where
  run_open:
    "engine_open E config c = Inr e \<Longrightarrow> queued c = [] \<Longrightarrow> alive c \<Longrightarrow>
     (\<And>q rest. fs_exists fs q \<Longrightarrow> q \<noteq> data_dir config # rest) \<Longrightarrow>
     engine_run E send recv queued alive [] (fs, e) []"
| run_write:
    "engine_run E send recv queued alive ops (fs, e) evs \<Longrightarrow>
     write_record E send r fs e = Some (fs', e', evs', res) \<Longrightarrow>
     engine_run E send recv queued alive (ops @ [OpWrite r res]) (fs', e') (evs @ evs')"
| run_flush_key:
    "engine_run E send recv queued alive ops (fs, e) evs \<Longrightarrow>
     flush_key E send k fs e = Ready e' \<Longrightarrow>
     engine_run E send recv queued alive (ops @ [OpFlushKey k]) (fs, e') evs"
| run_flush_worker:
    "engine_run E send recv queued alive ops (fs, e) evs \<Longrightarrow>
     flush_worker E recv fs e = Some (fs', e', evs') \<Longrightarrow>
     engine_run E send recv queued alive (ops @ [OpFlushWorker]) (fs', e') (evs @ evs')"
| run_compact:
    "engine_run E send recv queued alive ops (fs, e) evs \<Longrightarrow>
     compact_key E k fs e = (fs', e', evs') \<Longrightarrow>
     engine_run E send recv queued alive (ops @ [OpCompact k]) (fs', e') (evs @ evs')"
| run_close:
    "engine_run E send recv queued alive ops (fs, e) evs \<Longrightarrow>
     engine_run E send recv queued alive (ops @ [OpClose]) (fs, e\<lparr>e_closed := True\<rparr>) evs"

end
