(* ===== verification/Engine_Correct.thy ===== *)
theory Engine_Correct
  imports Engine
begin

text \<open>
  Correctness of the storage engine over all interleavings of writers, the flush worker, the
  compaction worker and a closing caller. The contents of a partition and signal are the rows of
  its active MemTable, its queued MemTables and its tables. Steps never invent or duplicate rows;
  on a run without logged events the contents are exactly the accepted records.
\<close>

section \<open>Contents\<close>

fun sig_schema :: "signal_type \<Rightarrow> schema" where
  "sig_schema Log = log_schema"
| "sig_schema Metric = metric_schema"
| "sig_schema Span = span_schema"

fun sig_name :: "signal_type \<Rightarrow> string" where
  "sig_name Log = ''logs''"
| "sig_name Metric = ''metrics''"
| "sig_name Span = ''spans''"

definition part_dir :: "'w storage_env \<Rightarrow> 'c storage_engine \<Rightarrow> u64 \<Rightarrow> path" where
  "part_dir E e k = path_join (path_join (data_path e) ''partitions'') (dir_name E (PartitionKey k))"

text \<open>The rows of one signal in a MemTable, as a flush would write them.\<close>

fun mem_rows :: "'w storage_env \<Rightarrow> signal_type \<Rightarrow> memtable \<Rightarrow> cell list list" where
  "mem_rows E Log m = map (log_row (env_json E))
     (oks (map (\<lambda>(_, d). de_log (env_bincode E) d) (drain_signal (signal_as_u8 Log) m)))"
| "mem_rows E Metric m = map (metric_row (env_bincode E) (env_json E))
     (oks (map (\<lambda>(_, d). de_metric (env_bincode E) d) (drain_signal (signal_as_u8 Metric) m)))"
| "mem_rows E Span m = map (span_row (env_json E))
     (oks (map (\<lambda>(_, d). de_span (env_bincode E) d) (drain_signal (signal_as_u8 Span) m)))"

definition mem_content :: "'w storage_env \<Rightarrow> 'c storage_engine \<Rightarrow> u64 \<Rightarrow> signal_type \<Rightarrow> cell list multiset" where
  "mem_content E e k sig =
     (case dm_get (e_memtables e) k of None \<Rightarrow> {#} | Some m \<Rightarrow> mset (mem_rows E sig m))"

definition queue_content ::
  "'w storage_env \<Rightarrow> flush_request list \<Rightarrow> u64 \<Rightarrow> signal_type \<Rightarrow> cell list multiset" where
  "queue_content E rs k sig =
     (\<Sum>r \<leftarrow> rs. if fr_partition r = k then mset (mem_rows E sig (fr_imm r)) else {#})"

definition table_content ::
  "'w storage_env \<Rightarrow> fs \<Rightarrow> 'c storage_engine \<Rightarrow> u64 \<Rightarrow> signal_type \<Rightarrow> cell list multiset" where
  "table_content E fs e k sig =
     (case dm_get (e_partitions e) k of None \<Rightarrow> {#} | Some p \<Rightarrow> mset (sp_rows E fs (get_signal_partition sig p)))"

definition content ::
  "'w storage_env \<Rightarrow> ('c \<Rightarrow> flush_request list) \<Rightarrow> fs \<Rightarrow> 'c storage_engine \<Rightarrow> u64 \<Rightarrow> signal_type \<Rightarrow> cell list multiset" where
  "content E queued fs e k sig =
     mem_content E e k sig + queue_content E (queued (e_flush_tx e)) k sig + table_content E fs e k sig"

text \<open>The rows of the writes that returned \<open>Ok\<close>.\<close>

fun telemetry_ts :: "telemetry \<Rightarrow> u64" where
  "telemetry_ts (RLog r) = lr_timestamp_ns r"
| "telemetry_ts (RMetric r) = mp_timestamp_ns r"
| "telemetry_ts (RSpan r) = sr_start_time_ns r"

fun telemetry_sig :: "telemetry \<Rightarrow> signal_type" where
  "telemetry_sig (RLog r) = Log"
| "telemetry_sig (RMetric r) = Metric"
| "telemetry_sig (RSpan r) = Span"

fun telemetry_row :: "'w storage_env \<Rightarrow> telemetry \<Rightarrow> cell list" where
  "telemetry_row E (RLog r) = log_row (env_json E) r"
| "telemetry_row E (RMetric r) = metric_row (env_bincode E) (env_json E) r"
| "telemetry_row E (RSpan r) = span_row (env_json E) r"

definition accepted_by ::
  "'w storage_env \<Rightarrow> u64 \<Rightarrow> u64 \<Rightarrow> signal_type \<Rightarrow> engine_op \<Rightarrow> cell list multiset" where
  "accepted_by E bucket k sig op =
     (case op of
        OpWrite r (Inr _) \<Rightarrow>
          if for_timestamp (telemetry_ts r) bucket = Some (PartitionKey k) \<and> telemetry_sig r = sig
          then {#telemetry_row E r#} else {#}
      | _ \<Rightarrow> {#})"

definition accepted ::
  "'w storage_env \<Rightarrow> u64 \<Rightarrow> engine_op list \<Rightarrow> u64 \<Rightarrow> signal_type \<Rightarrow> cell list multiset" where
  "accepted E bucket ops k sig = (\<Sum>op \<leftarrow> ops. accepted_by E bucket k sig op)"

section \<open>Assumptions on the calendar and the configuration\<close>

text \<open>The hours of the instants a 64-bit count of nanoseconds reaches (the year 2554) have
  different names.\<close>

definition utc_hour_injective :: "'w storage_env \<Rightarrow> bool" where
  "utc_hour_injective E \<longleftrightarrow>
     (\<forall>a b. 0 \<le> a \<and> a \<le> 18446744073 \<and> 0 \<le> b \<and> b \<le> 18446744073 \<and> 3600 dvd a \<and> 3600 dvd b \<and> env_utc_hour E a = env_utc_hour E b \<longrightarrow> a = b)"

definition hours_ok :: "storage_config \<Rightarrow> bool" where
  "hours_ok c \<longleftrightarrow> unat (partition_hours c) * 3600 * 1000000000 < 2 ^ 64"

definition hour_aligned :: "u64 \<Rightarrow> bool" where
  "hour_aligned k \<longleftrightarrow> 3600 * 1000000000 dvd unat k"

section \<open>Maps\<close>

lemma dm_get_put [simp]: "dm_get (dm_put k v m) k' = (if k' = k then Some v else dm_get m k')"
proof (cases "k' = k")
  case False
  then have "map_of (filter (\<lambda>e. fst e \<noteq> k) m) k' = map_of m k'" by (induction m) auto
  with False show ?thesis by (simp add: dm_get_def dm_put_def)
qed (simp add: dm_get_def dm_put_def)

lemma dm_get_remove [simp]: "dm_get (dm_remove k m) k' = (if k' = k then None else dm_get m k')"
  by (induction m) (auto simp: dm_get_def dm_remove_def)

lemma dm_get_Nil [simp]: "dm_get [] k = None"
  by (simp add: dm_get_def)

section \<open>Keys and directories\<close>

lemma bucket_unat:
  assumes "hours_ok c"
  shows "unat (engine_bucket_ns c) = unat (partition_hours c) * 3600 * 1000000000"
proof -
  have "unat (partition_hours c) * 3600 < 2 ^ 64" using assms by (simp add: hours_ok_def)
  then show ?thesis
    using assms by (simp add: engine_bucket_ns_def hours_ok_def unat_word_ariths)
qed

lemma for_timestamp_aligned:
  assumes "hours_ok c" "for_timestamp ts (engine_bucket_ns c) = Some k"
  shows "hour_aligned (pk_raw k)"
proof -
  have "engine_bucket_ns c \<noteq> 0" using assms(2) by (auto simp: for_timestamp_def)
  then have "unat (pk_raw k) = unat ts div unat (engine_bucket_ns c) * unat (engine_bucket_ns c)"
    using for_timestamp_unat assms(2) by blast
  then show ?thesis
    unfolding hour_aligned_def bucket_unat [OF assms(1)] by (simp add: dvd_mult)
qed

lemma part_dir_inject:
  assumes "utc_hour_injective E" "hour_aligned k" "hour_aligned k'" "part_dir E e k = part_dir E e k'"
  shows "k = k'"
proof -
  have secs: "\<exists>j. unat x = 1000000000 * (3600 * j) \<and> uint (x div 1000000000) = 3600 * int j"
    if al: "hour_aligned x" for x
  proof -
    obtain j where "unat x = 3600 * 1000000000 * j" using al unfolding hour_aligned_def dvd_def by blast
    then have j: "unat x = 1000000000 * (3600 * j)" by simp
    have "unat (x div 1000000000) = unat x div 1000000000" by (simp add: unat_div)
    also have "\<dots> = 3600 * j" unfolding j by (rule nonzero_mult_div_cancel_left) simp
    finally have "int (unat (x div 1000000000)) = 3600 * int j" by simp
    then show ?thesis using j by (auto simp only: uint_nat)
  qed
  obtain j where j: "unat k = 1000000000 * (3600 * j)" "uint (k div 1000000000) = 3600 * int j"
    using secs [OF assms(2)] by blast
  obtain j' where j': "unat k' = 1000000000 * (3600 * j')" "uint (k' div 1000000000) = 3600 * int j'"
    using secs [OF assms(3)] by blast
  have "env_utc_hour E (3600 * int j) = env_utc_hour E (3600 * int j')"
    using assms(4) unfolding part_dir_def dir_name_def j(2) [symmetric] j'(2) [symmetric] by simp
  moreover have "0 \<le> 3600 * int i" "3600 dvd 3600 * int i" for i by simp_all
  moreover have "3600 * int j \<le> 18446744073" "3600 * int j' \<le> 18446744073"
    using j(1) j'(1) unat_u64_less [of k] unat_u64_less [of k'] by auto
  ultimately have "3600 * int j = 3600 * int j'"
    using assms(1) unfolding utc_hour_injective_def by blast
  then have "unat k = unat k'" using j(1) j'(1) by simp
  then show ?thesis by (simp add: word_unat_eq_iff)
qed

lemma sig_name_inject [simp]: "sig_name s = sig_name t \<longleftrightarrow> s = t"
  by (cases s; cases t) simp_all

text \<open>A file of a signal's directory.\<close>

definition in_dir :: "path \<Rightarrow> path \<Rightarrow> bool" where
  "in_dir d q \<longleftrightarrow> (\<exists>f. q = path_join d f)"

lemma in_dir_unique: "in_dir d q \<Longrightarrow> in_dir d' q \<Longrightarrow> d = d'"
  by (auto simp: in_dir_def)

lemma in_dir_paths [simp]:
  "in_dir d (parquet_path d n)" "in_dir d (bloom_path d n)" "in_dir d (zonemap_path d n)"
  by (auto simp: in_dir_def parquet_path_def bloom_path_def zonemap_path_def)

lemma wal_not_parquet [simp]: "path_join d ''wal.log'' \<noteq> parquet_path d' n"
proof -
  have "last ''wal.log'' \<noteq> last (sst_stem n @ ''.parquet'')" by simp
  then show ?thesis unfolding parquet_path_def by (metis path_join_inject)
qed

section \<open>Signal partitions\<close>

lemma sp_inv_cong:
  assumes "\<forall>m \<in> set (sstables sp). fs_get fs' (meta_parquet_path m) = fs_get fs (meta_parquet_path m)"
  shows "sp_inv E fs' sch sp = sp_inv E fs sch sp" "sp_rows E fs' sp = sp_rows E fs sp"
proof -
  have same: "m \<in> set (sstables sp) \<Longrightarrow>
      holds_rows E fs' (meta_parquet_path m) sch rows = holds_rows E fs (meta_parquet_path m) sch rows
      \<and> table_rows E fs' m = table_rows E fs m" for m rows
    using assms holds_rows_cong table_rows_cong by metis
  then show "sp_inv E fs' sch sp = sp_inv E fs sch sp"
    by (simp add: sp_inv_def cong: conj_cong)
  show "sp_rows E fs' sp = sp_rows E fs sp"
    using same by (simp add: sp_rows_def cong: map_cong)
qed

lemma sp_inv_next_seq:
  "sp_inv E fs sch sp \<Longrightarrow> next_seq sp + 1 \<noteq> 0 \<Longrightarrow> sp_inv E fs sch (sp\<lparr>next_seq := next_seq sp + 1\<rparr>)"
  using less_succ [of "next_seq sp"] by (auto simp: sp_inv_def intro: order_less_trans)

text \<open>A step on a signal partition: the invariant again, the counter at most one higher, changes
  only in the partition's own directory.\<close>

definition sp_step ::
  "'w storage_env \<Rightarrow> schema \<Rightarrow> fs \<Rightarrow> signal_partition \<Rightarrow> fs \<Rightarrow> signal_partition \<Rightarrow> bool" where
  "sp_step E sch fs sp fs' sp' \<longleftrightarrow>
     sp_inv E fs' sch sp' \<and> sp_dir sp' = sp_dir sp \<and> unat (next_seq sp') \<le> unat (next_seq sp) + 1
   \<and> (\<forall>q. \<not> in_dir (sp_dir sp) q \<longrightarrow> fs_get fs' q = fs_get fs q)"

lemma unat_succ_le: "unat (n + 1) \<le> Suc (unat n)" for n :: u64
  by (simp add: unat_word_ariths mod_less_eq_dividend)

context sstable_writer
begin

lemma flush_signal_step:
  assumes "env_ok E" "sp_inv E fs sch sp" "next_seq sp + 1 \<noteq> 0"
    and "\<And>r. row_ts sch (row E r) = Some (ts r)"
    and "flush_signal_with E sig de write_table sp mem fs = Some (fs', sp', res)"
  shows "sp_step E sch fs sp fs' sp'"
    "sp_rows E fs' sp' = sp_rows E fs sp @ (if isl res then []
       else map (row E) (oks (map (\<lambda>(_, d). de d) (drain_signal (signal_as_u8 sig) mem))))"
proof -
  let ?rows = "drain_signal (signal_as_u8 sig) mem"
  let ?rs = "oks (map (\<lambda>(_, d). de d) ?rows)"
  let ?sp1 = "sp\<lparr>next_seq := next_seq sp + 1\<rparr>"
  have sp1: "sp_inv E fs sch ?sp1" using sp_inv_next_seq assms(2,3) by blast
  have "sp_step E sch fs sp fs' sp' \<and> sp_rows E fs' sp' = sp_rows E fs sp @ (if isl res then [] else map (row E) ?rs)"
  proof (cases "?rows = []")
    case True
    with assms(2,5) show ?thesis
      by (auto simp: flush_signal_with_def sp_step_def oks_def)
  next
    case False
    then obtain r where w: "write_table E ?rs (sp_dir sp) (next_seq sp) fs = Some (fs', r)"
      using assms(5) by (auto simp: flush_signal_with_def take_next_seq_def Let_def split: option.splits sum.splits)
    have keep: "\<forall>m \<in> set (sstables sp). fs_get fs' (meta_parquet_path m) = fs_get fs (meta_parquet_path m)"
      using write_other [OF w] output_paths_fresh(1) [OF assms(2)]
      by (metis meta_parquet_path_def sst_paths_distinct(4,6))
    have other: "\<not> in_dir (sp_dir sp) q \<longrightarrow> fs_get fs' q = fs_get fs q" for q
      using write_other [OF w] in_dir_paths by metis
    have inv: "sp_inv E fs' sch ?sp1" and rows: "sp_rows E fs' ?sp1 = sp_rows E fs sp"
      using sp_inv_cong(1) [of ?sp1 fs' fs E sch] sp_inv_cong(2) [of ?sp1 fs' fs E] keep sp1 by (simp_all add: sp_rows_def)
    show ?thesis
    proof (cases r)
      case (Inl err)
      then have "sp' = ?sp1" "isl res"
        using assms(5) w False by (auto simp: flush_signal_with_def take_next_seq_def Let_def)
      with inv rows other show ?thesis
        by (simp add: sp_step_def unat_succ_le)
    next
      case (Inr meta)
      then have sp': "sp' = ?sp1\<lparr>sstables := sstables sp @ [meta]\<rparr>" "\<not> isl res"
        using assms(5) w False by (auto simp: flush_signal_with_def take_next_seq_def add_sstable_def Let_def)
      note m = write_meta [OF w [unfolded Inr]]
      note h = write_holds_rows [OF assms(1) w [unfolded Inr]]
      have "covers_rows sch (sst_zone_map meta) (table_rows E fs' meta)"
        using write_zone_map [OF assms(1) w [unfolded Inr]] assms(4)
        unfolding holds_table_rows [OF h] covers_rows_def by auto
      moreover have "next_seq sp \<notin> sst_seq ` set (sstables sp)"
        using assms(2) by (auto simp: sp_inv_def)
      ultimately have "sp_inv E fs' sch sp'"
        using inv h less_succ [OF assms(3)] by (auto simp: sp_inv_def sp' m)
      moreover have "sp_rows E fs' sp' = sp_rows E fs sp @ map (row E) ?rs"
        using rows holds_table_rows [OF h] by (simp add: sp_rows_def sp')
      ultimately show ?thesis
        using other by (simp add: sp_step_def sp' unat_succ_le)
    qed
  qed
  then show "sp_step E sch fs sp fs' sp'"
    "sp_rows E fs' sp' = sp_rows E fs sp @ (if isl res then [] else map (row E) ?rs)" by auto
qed

end

lemma compact_signal_step:
  assumes "env_ok E" "sp_inv E fs sch sp" "next_seq sp + 1 \<noteq> 0"
    and "compact_signal E sig sp fs = (fs', sp', res)"
  shows "sp_step E sch fs sp fs' sp'"
    "sp_rows E fs' sp' = (if isl res then [] else sp_rows E fs sp)"
proof -
  have other: "\<not> in_dir (sp_dir sp) q \<longrightarrow> fs_get fs' q = fs_get fs q" for q
    using compact_signal_other_dir [OF _ _ assms(4)] assms(2) by (auto simp: in_dir_def sp_inv_def)
  have "sp_step E sch fs sp fs' sp' \<and> sp_rows E fs' sp' = (if isl res then [] else sp_rows E fs sp)"
  proof (cases res)
    case (Inl err)
    then have "sstables sp' = []" "sp_dir sp' = sp_dir sp" "next_seq sp' = next_seq sp + 1"
      using assms(4) by (auto simp: compact_signal_def take_next_seq_def Let_def split: if_splits sum.splits prod.splits)
    with other Inl show ?thesis
      by (simp add: sp_step_def sp_inv_def sp_rows_def unat_succ_le)
  next
    case (Inr b)
    have "unat (next_seq sp') \<le> unat (next_seq sp) + 1"
      using assms(4) unfolding Inr by (cases rule: compact_signal_Inr) (simp_all add: unat_succ_le)
    with compact_signal_keeps_inv [OF assms(1-3) assms(4) [unfolded Inr]] other Inr show ?thesis
      by (simp add: sp_step_def)
  qed
  then show "sp_step E sch fs sp fs' sp'" "sp_rows E fs' sp' = (if isl res then [] else sp_rows E fs sp)" by auto
qed

section \<open>Partitions\<close>

definition part_inv :: "'w storage_env \<Rightarrow> path \<Rightarrow> nat \<Rightarrow> fs \<Rightarrow> partition \<Rightarrow> bool" where
  "part_inv E d n fs p \<longleftrightarrow>
     (\<forall>sig. sp_dir (get_signal_partition sig p) = path_join d (sig_name sig)
        \<and> sp_inv E fs (sig_schema sig) (get_signal_partition sig p)
        \<and> unat (next_seq (get_signal_partition sig p)) \<le> n)"

text \<open>Files below a partition's directory: those of its three signals.\<close>

definition in_part :: "path \<Rightarrow> path \<Rightarrow> bool" where
  "in_part d q \<longleftrightarrow> (\<exists>sig. in_dir (path_join d (sig_name sig)) q)"

lemma part_inv_step:
  assumes "part_inv E d n fs p" "n < n'"
    and "sp_step E (sig_schema sig) fs (get_signal_partition sig p) fs' sp'"
  shows "part_inv E d n' fs' (set_signal_partition sig sp' p)"
    "sig' \<noteq> sig \<Longrightarrow> sp_rows E fs' (get_signal_partition sig' p) = sp_rows E fs (get_signal_partition sig' p)"
    "\<not> in_part d q \<Longrightarrow> fs_get fs' q = fs_get fs q"
proof -
  have d: "sp_dir (get_signal_partition s p) = path_join d (sig_name s)" for s
    using assms(1) by (simp add: part_inv_def)
  have other: "\<forall>m \<in> set (sstables (get_signal_partition s p)).
      fs_get fs' (meta_parquet_path m) = fs_get fs (meta_parquet_path m)" if "s \<noteq> sig" for s
  proof
    fix m assume "m \<in> set (sstables (get_signal_partition s p))"
    then have "in_dir (path_join d (sig_name s)) (meta_parquet_path m)"
      using assms(1) d by (metis in_dir_paths(1) meta_parquet_path_def part_inv_def sp_inv_dir)
    then have "\<not> in_dir (sp_dir (get_signal_partition sig p)) (meta_parquet_path m)"
      using that in_dir_unique d by fastforce
    then show "fs_get fs' (meta_parquet_path m) = fs_get fs (meta_parquet_path m)"
      using assms(3) by (simp add: sp_step_def)
  qed
  show "part_inv E d n' fs' (set_signal_partition sig sp' p)"
    unfolding part_inv_def
  proof
    fix s
    show "sp_dir (get_signal_partition s (set_signal_partition sig sp' p)) = path_join d (sig_name s)
        \<and> sp_inv E fs' (sig_schema s) (get_signal_partition s (set_signal_partition sig sp' p))
        \<and> unat (next_seq (get_signal_partition s (set_signal_partition sig sp' p))) \<le> n'"
    proof (cases "s = sig")
      case True
      have "unat (next_seq (get_signal_partition sig p)) \<le> n" using assms(1) by (simp add: part_inv_def)
      with True assms(2,3) d show ?thesis by (simp add: sp_step_def)
    next
      case False
      with sp_inv_cong(1) [OF other [OF False]] assms(1,2) show ?thesis
        by (auto simp: part_inv_def intro: order_trans [of _ n n'])
    qed
  qed
  show "sp_rows E fs' (get_signal_partition sig' p) = sp_rows E fs (get_signal_partition sig' p)" if "sig' \<noteq> sig"
    using sp_inv_cong(2) [OF other [OF that]] .
  show "fs_get fs' q = fs_get fs q" if "\<not> in_part d q"
    using that assms(3) d by (auto simp: sp_step_def in_part_def)
qed

lemma part_inv_mono: "part_inv E d n fs p \<Longrightarrow> n \<le> n' \<Longrightarrow> part_inv E d n' fs p"
  by (auto simp: part_inv_def intro: order_trans)

lemma part_inv_wal:
  assumes "\<forall>q. q \<noteq> path_join d' ''wal.log'' \<longrightarrow> fs_get fs' q = fs_get fs q"
  shows "part_inv E d n fs' p = part_inv E d n fs p"
    "sp_rows E fs' (get_signal_partition sig p) = sp_rows E fs (get_signal_partition sig p)"
proof -
  have "fs_get fs' (meta_parquet_path m) = fs_get fs (meta_parquet_path m)" for m
    using assms wal_not_parquet by (metis meta_parquet_path_def)
  then have "\<forall>m \<in> set (sstables (get_signal_partition s p)).
      fs_get fs' (meta_parquet_path m) = fs_get fs (meta_parquet_path m)" for s by blast
  note c = sp_inv_cong [OF this]
  show "part_inv E d n fs' p = part_inv E d n fs p" by (simp add: part_inv_def c(1))
  show "sp_rows E fs' (get_signal_partition sig p) = sp_rows E fs (get_signal_partition sig p)" by (rule c(2))
qed

subsection \<open>Flushing and compacting a partition\<close>

text \<open>The flush of each signal as one function of the signal.\<close>

fun flush_signal ::
  "'w storage_env \<Rightarrow> signal_type \<Rightarrow> partition \<Rightarrow> memtable \<Rightarrow> fs \<Rightarrow> (fs \<times> partition \<times> (storage_error + unit)) option" where
  "flush_signal E Log p mem fs = flush_signal_logs E p mem fs"
| "flush_signal E Metric p mem fs = flush_signal_metrics E p mem fs"
| "flush_signal E Span p mem fs = flush_signal_spans E p mem fs"

lemma next_seq_room: "unat n \<le> m \<Longrightarrow> m + 1 < 2 ^ 64 \<Longrightarrow> n + 1 \<noteq> 0" for n :: u64
  using unat_Suc_word [of n] by (metis Suc_eq_plus1 Suc_le_mono le_less_trans nat.distinct(1) unat_eq_zero)

lemma flush_signal_part:
  assumes "env_ok E" "part_inv E d n fs p" "n + 1 < 2 ^ 64" "flush_signal E sig p mem fs = Some (fs', p', res)"
  shows "\<exists>sp'. p' = set_signal_partition sig sp' p
    \<and> sp_step E (sig_schema sig) fs (get_signal_partition sig p) fs' sp'
    \<and> sp_rows E fs' sp' = sp_rows E fs (get_signal_partition sig p) @ (if isl res then [] else mem_rows E sig mem)"
proof -
  have inv: "sp_inv E fs (sig_schema sig) (get_signal_partition sig p)"
    and room: "next_seq (get_signal_partition sig p) + 1 \<noteq> 0"
    using assms(2,3) next_seq_room by (auto simp: part_inv_def)
  show ?thesis
  proof (cases sig)
    case Log
    then obtain sp' where f: "flush_signal_with E Log (de_log (env_bincode E)) write_logs (p_logs p) mem fs = Some (fs', sp', res)"
      "p' = p\<lparr>p_logs := sp'\<rparr>"
      using assms(4) by (auto simp: flush_signal_logs_def split: option.splits)
    show ?thesis
      using wlog.flush_signal_step [OF assms(1) _ _ _ f(1)] inv room f(2) by (auto simp: Log)
  next
    case Metric
    then obtain sp' where f: "flush_signal_with E Metric (de_metric (env_bincode E)) write_metrics (p_metrics p) mem fs = Some (fs', sp', res)"
      "p' = p\<lparr>p_metrics := sp'\<rparr>"
      using assms(4) by (auto simp: flush_signal_metrics_def split: option.splits)
    show ?thesis
      using wmet.flush_signal_step [OF assms(1) _ _ _ f(1)] inv room f(2) by (auto simp: Metric)
  next
    case Span
    then obtain sp' where f: "flush_signal_with E Span (de_span (env_bincode E)) write_spans (p_spans p) mem fs = Some (fs', sp', res)"
      "p' = p\<lparr>p_spans := sp'\<rparr>"
      using assms(4) by (auto simp: flush_signal_spans_def split: option.splits)
    show ?thesis
      using wspan.flush_signal_step [OF assms(1) _ _ _ f(1)] inv room f(2) by (auto simp: Span)
  qed
qed

text \<open>What a step of a worker does to a partition: the invariant with a higher bound on the
  counters, changes only below the partition's directory, and per signal the given rows.\<close>

definition part_step ::
  "'w storage_env \<Rightarrow> path \<Rightarrow> nat \<Rightarrow> fs \<Rightarrow> partition \<Rightarrow> fs \<Rightarrow> partition \<Rightarrow> (signal_type \<Rightarrow> cell list list) \<Rightarrow> bool" where
  "part_step E d n fs p fs' p' rows \<longleftrightarrow>
     part_inv E d n fs' p'
   \<and> (\<forall>q. \<not> in_part d q \<longrightarrow> fs_get fs' q = fs_get fs q)
   \<and> (\<forall>sig. sp_rows E fs' (get_signal_partition sig p') = rows sig)"

lemma flush_signal_part_step:
  assumes "env_ok E" "part_step E d n fs0 p0 fs p rows" "n + 1 < 2 ^ 64"
    and "flush_signal E sig p mem fs = Some (fs', p', res)"
  shows "part_step E d (Suc n) fs0 p0 fs' p'
    (rows(sig := rows sig @ (if isl res then [] else mem_rows E sig mem)))"
proof -
  have inv: "part_inv E d n fs p" and frame: "\<forall>q. \<not> in_part d q \<longrightarrow> fs_get fs q = fs_get fs0 q"
    and rows: "\<And>s. sp_rows E fs (get_signal_partition s p) = rows s"
    using assms(2) by (auto simp: part_step_def)
  obtain sp' where sp': "p' = set_signal_partition sig sp' p"
    "sp_step E (sig_schema sig) fs (get_signal_partition sig p) fs' sp'"
    "sp_rows E fs' sp' = sp_rows E fs (get_signal_partition sig p) @ (if isl res then [] else mem_rows E sig mem)"
    using flush_signal_part [OF assms(1) inv assms(3,4)] by blast
  note st = part_inv_step [OF inv lessI sp'(2)]
  show ?thesis
    unfolding part_step_def sp'(1)
    using st(1) st(2) st(3) frame rows sp'(3) by simp
qed

lemma part_inv_3: "part_inv E d n fs p \<Longrightarrow> part_step E d n fs p fs p (\<lambda>sig. sp_rows E fs (get_signal_partition sig p))"
  by (simp add: part_step_def)

lemma checkpoint_wal_other: "q \<noteq> p \<Longrightarrow> fs_get (checkpoint_wal E p fs) q = fs_get fs q"
  by (auto simp: checkpoint_wal_def dest!: wal_open_other [of _ _ _ _ _ q] split: sum.splits prod.splits)
    (metis fst_conv prod_cases3 wal_checkpoint_other)

lemma part_step_wal:
  assumes "part_step E d n fs0 p0 fs p rows"
  shows "part_step E d n fs0 p0 (checkpoint_wal E (sp_wal_path (p_logs p)) fs) p rows"
proof -
  have "sp_dir (get_signal_partition Log p) = path_join d ''logs''"
    using assms unfolding part_step_def part_inv_def by (metis sig_name.simps(1))
  then have w: "sp_wal_path (p_logs p) = path_join (path_join d ''logs'') ''wal.log''"
    by (simp add: sp_wal_path_def)
  then have same: "\<forall>q. q \<noteq> path_join (path_join d ''logs'') ''wal.log'' \<longrightarrow>
      fs_get (checkpoint_wal E (sp_wal_path (p_logs p)) fs) q = fs_get fs q"
    using checkpoint_wal_other by metis
  have "in_part d (path_join (path_join d ''logs'') ''wal.log'')"
    unfolding in_part_def in_dir_def by (metis sig_name.simps(1))
  with assms same show ?thesis
    unfolding part_step_def by (simp add: part_inv_wal [OF same]) metis
qed

text \<open>A flush moves all rows of a MemTable into tables, or fails having moved those of the first
  signals.\<close>

lemma part_step_weaken:
  assumes "part_step E d m fs0 p0 fs p r" "m \<le> m'" "r Log = r' Log" "r Metric = r' Metric" "r Span = r' Span"
  shows "part_step E d m' fs0 p0 fs p r'"
proof -
  have "r sig = r' sig" for sig using assms(3-5) by (cases sig) simp_all
  with assms(1,2) show ?thesis by (auto simp: part_step_def intro: part_inv_mono)
qed

lemma flush_immutable_step:
  assumes "env_ok E" "part_inv E d n fs p" "n + 3 < 2 ^ 64" "flush_immutable E mem p fs = Some (fs', p', res)"
  obtains flushed where
    "part_step E d (n + 3) fs p fs' p' (\<lambda>sig. sp_rows E fs (get_signal_partition sig p) @ flushed sig)"
    "\<forall>sig. flushed sig = [] \<or> flushed sig = mem_rows E sig mem"
    "\<not> isl res \<longrightarrow> flushed = (\<lambda>sig. mem_rows E sig mem)"
proof -
  obtain fs1 p1 res1 where 1: "flush_signal E Log p mem fs = Some (fs1, p1, res1)"
    using assms(4) by (auto simp: flush_immutable_def split: option.splits)
  have room: "n + 1 < 2 ^ 64" "Suc n + 1 < 2 ^ 64" "Suc (Suc n) + 1 < 2 ^ 64" using assms(3) by simp_all
  note s1 = flush_signal_part_step [OF assms(1) part_inv_3 [OF assms(2)] room(1) 1]
  show thesis
  proof (cases "isl res1")
    case True
    then have eq: "fs' = fs1" "p' = p1" "isl res" using assms(4) 1 by (auto simp: flush_immutable_def isl_def)
    have "part_step E d (n + 3) fs p fs' p' (\<lambda>sig. sp_rows E fs (get_signal_partition sig p) @ [])"
      unfolding eq by (rule part_step_weaken [OF s1]) (use True in simp_all)
    with eq(3) show thesis by (intro that [of "\<lambda>_. []"]) simp_all
  next
    case ok1: False
    then obtain fs2 p2 res2 where 2: "flush_signal E Metric p1 mem fs1 = Some (fs2, p2, res2)"
      using assms(4) 1 by (cases res1) (auto simp: flush_immutable_def split: option.splits)
    note s2 = flush_signal_part_step [OF assms(1) s1 room(2) 2]
    show thesis
    proof (cases "isl res2")
      case True
      then have eq: "fs' = fs2" "p' = p2" "isl res"
        using assms(4) 1 2 ok1 by (cases res1; auto simp: flush_immutable_def isl_def)+
      let ?f = "\<lambda>sig. if sig = Log then mem_rows E sig mem else []"
      have "part_step E d (n + 3) fs p fs' p' (\<lambda>sig. sp_rows E fs (get_signal_partition sig p) @ ?f sig)"
        unfolding eq by (rule part_step_weaken [OF s2]) (use True ok1 in simp_all)
      with eq(3) show thesis by (intro that [of ?f]) simp_all
    next
      case ok2: False
      then obtain fs3 p3 res3 where 3: "flush_signal E Span p2 mem fs2 = Some (fs3, p3, res3)"
        using assms(4) 1 2 ok1 by (cases res1; cases res2) (auto simp: flush_immutable_def split: option.splits)
      note s3 = flush_signal_part_step [OF assms(1) s2 room(3) 3]
      show thesis
      proof (cases "isl res3")
        case True
        then have eq: "fs' = fs3" "p' = p3" "isl res"
          using assms(4) 1 2 3 ok1 ok2 by (cases res1; cases res2; auto simp: flush_immutable_def isl_def)+
        let ?f = "\<lambda>sig. if sig = Span then [] else mem_rows E sig mem"
        have "part_step E d (n + 3) fs p fs' p' (\<lambda>sig. sp_rows E fs (get_signal_partition sig p) @ ?f sig)"
          unfolding eq by (rule part_step_weaken [OF s3]) (use True ok1 ok2 in simp_all)
        with eq(3) show thesis by (intro that [of ?f]) simp_all
      next
        case ok3: False
        then have eq: "fs' = checkpoint_wal E (sp_wal_path (p_logs p3)) fs3" "p' = p3"
          using assms(4) 1 2 3 ok1 ok2 by (cases res1; cases res2; cases res3; auto simp: flush_immutable_def)+
        have "part_step E d (n + 3) fs p fs' p' (\<lambda>sig. sp_rows E fs (get_signal_partition sig p) @ mem_rows E sig mem)"
          unfolding eq by (rule part_step_wal, rule part_step_weaken [OF s3]) (use ok1 ok2 ok3 in simp_all)
        then show thesis by (intro that [of "\<lambda>sig. mem_rows E sig mem"]) simp_all
      qed
    qed
  qed
qed

text \<open>A compaction pass keeps all rows, or logs a warning having dropped those of a signal.\<close>

lemma compact_partition_signal_step:
  assumes "env_ok E" "part_step E d n fs0 p0 fs p rows" "n + 1 < 2 ^ 64"
    and "compact_partition_signal E trigger sig (fs, p, ops, warns) = (fs', p', ops', warns')"
  obtains kept where "part_step E d (Suc n) fs0 p0 fs' p' (rows(sig := kept))"
    "kept = [] \<or> kept = rows sig" "warns' = warns \<longrightarrow> kept = rows sig" "length warns \<le> length warns'"
proof -
  have inv: "part_inv E d n fs p" and frame: "\<forall>q. \<not> in_part d q \<longrightarrow> fs_get fs q = fs_get fs0 q"
    and rows: "\<And>s. sp_rows E fs (get_signal_partition s p) = rows s"
    using assms(2) by (auto simp: part_step_def)
  have room: "next_seq (get_signal_partition sig p) + 1 \<noteq> 0"
    and sp: "sp_inv E fs (sig_schema sig) (get_signal_partition sig p)"
    using inv assms(3) next_seq_room by (auto simp: part_inv_def)
  show thesis
  proof (cases "trigger \<le> sstable_count (get_signal_partition sig p)")
    case False
    with assms(2,4) show thesis
      by (intro that [of "rows sig"]) (auto simp: compact_partition_signal_def intro: part_step_weaken)
  next
    case True
    obtain sp' res where c: "compact_signal E sig (get_signal_partition sig p) fs = (fs', sp', res)"
      and p': "p' = set_signal_partition sig sp' p"
      and w: "isl res \<longrightarrow> warns' \<noteq> warns" "length warns \<le> length warns'"
      using assms(4) True by (auto simp: compact_partition_signal_def split: prod.splits sum.splits bool.splits)
    note st = compact_signal_step [OF assms(1) sp room c]
    note ps = part_inv_step [OF inv lessI st(1)]
    have "part_step E d (Suc n) fs0 p0 fs' p' (rows(sig := if isl res then [] else rows sig))"
      unfolding part_step_def p' using ps frame rows st(2) by simp
    with w show thesis by (intro that [of "if isl res then [] else rows sig"]) auto
  qed
qed

lemma compact_partition_step:
  assumes "env_ok E" "part_inv E d n fs p" "n + 3 < 2 ^ 64"
    and "compact_partition E p trigger fs = (fs', p', ops, warns)"
  obtains kept where "part_step E d (n + 3) fs p fs' p' kept"
    "\<forall>sig. kept sig = [] \<or> kept sig = sp_rows E fs (get_signal_partition sig p)"
    "warns = [] \<longrightarrow> kept = (\<lambda>sig. sp_rows E fs (get_signal_partition sig p))"
proof -
  let ?r0 = "\<lambda>sig. sp_rows E fs (get_signal_partition sig p)"
  have room: "n + 1 < 2 ^ 64" "Suc n + 1 < 2 ^ 64" "Suc (Suc n) + 1 < 2 ^ 64" using assms(3) by simp_all
  obtain fs1 p1 o1 w1 where 1: "compact_partition_signal E trigger Log (fs, p, 0, []) = (fs1, p1, o1, w1)"
    by (metis prod_cases4)
  obtain fs2 p2 o2 w2 where 2: "compact_partition_signal E trigger Metric (fs1, p1, o1, w1) = (fs2, p2, o2, w2)"
    by (metis prod_cases4)
  have 3: "compact_partition_signal E trigger Span (fs2, p2, o2, w2) = (fs', p', ops, warns)"
    using assms(4) by (simp add: compact_partition_def 1 2)
  obtain k1 where k1: "part_step E d (Suc n) fs p fs1 p1 (?r0(Log := k1))" "k1 = [] \<or> k1 = ?r0 Log"
    "w1 = [] \<longrightarrow> k1 = ?r0 Log"
    by (rule compact_partition_signal_step [OF assms(1) part_inv_3 [OF assms(2)] room(1) 1])
  obtain k2 where k2: "part_step E d (Suc (Suc n)) fs p fs2 p2 (?r0(Log := k1, Metric := k2))" "k2 = [] \<or> k2 = ?r0 Metric"
    "w2 = w1 \<longrightarrow> k2 = ?r0 Metric" "length w1 \<le> length w2"
    by (rule compact_partition_signal_step [OF assms(1) k1(1) room(2) 2]) simp
  obtain k3 where k3: "part_step E d (Suc (Suc (Suc n))) fs p fs' p' (?r0(Log := k1, Metric := k2, Span := k3))"
    "k3 = [] \<or> k3 = ?r0 Span" "warns = w2 \<longrightarrow> k3 = ?r0 Span" "length w2 \<le> length warns"
    by (rule compact_partition_signal_step [OF assms(1) k2(1) room(3) 3]) simp
  let ?k = "?r0(Log := k1, Metric := k2, Span := k3)"
  have "\<forall>sig. ?k sig = [] \<or> ?k sig = ?r0 sig"
    using k1(2) k2(2) k3(2) by auto
  moreover have "?k = ?r0" if "warns = []"
    using that k1(3) k2(3,4) k3(3,4) by (auto simp: fun_eq_iff)
  moreover have "part_step E d (n + 3) fs p fs' p' ?k"
    using k3(1) by (simp add: numeral_3_eq_3)
  ultimately show thesis by (intro that [of ?k]) blast+
qed

end
