(* ===== verification/Engine_Runs.thy ===== *)
theory Engine_Runs
  imports Engine_Correct
begin

text \<open>
  The invariant of the engine over its runs and the effect of every operation on the contents:
  rows move from MemTables through the flush queue into tables, are never invented or duplicated,
  and are lost only by steps that log an event.
\<close>

section \<open>The flush queue\<close>

locale flush_queue = mpsc send recv queued cap alive
  for send :: "'c flush_send" and recv :: "'c flush_recv"
    and queued :: "'c \<Rightarrow> flush_request list" and cap :: "'c \<Rightarrow> nat" and alive :: "'c \<Rightarrow> bool"

interpretation fq: flush_queue chan_try_send chan_recv ch_items ch_capacity ch_open
  by unfold_locales

section \<open>The invariant\<close>

definition engine_inv ::
  "'w storage_env \<Rightarrow> ('c \<Rightarrow> flush_request list) \<Rightarrow> ('c \<Rightarrow> bool) \<Rightarrow> nat \<Rightarrow> fs \<Rightarrow> 'c storage_engine \<Rightarrow> bool" where
  "engine_inv E queued alive n fs e \<longleftrightarrow>
     e_bucket_ns e = engine_bucket_ns (e_config e)
   \<and> alive (e_flush_tx e)
   \<and> (\<forall>k p. dm_get (e_partitions e) k = Some p \<longrightarrow> hour_aligned k \<and> part_inv E (part_dir E e k) (3 * n + 1) fs p)
   \<and> (\<forall>k m. dm_get (e_memtables e) k = Some m \<longrightarrow> hour_aligned k \<and> memtable_wf m \<and> unat (sequence m) \<le> n)
   \<and> (\<forall>r \<in> set (queued (e_flush_tx e)). dm_get (e_partitions e) (fr_partition r) \<noteq> None)
   \<and> (\<forall>k w. dm_get (e_wals e) k = Some w \<longrightarrow> dm_get (e_partitions e) k \<noteq> None
        \<and> wal_path w = path_join (path_join (part_dir E e k) ''logs'') ''wal.log'')
   \<and> (\<forall>k q. hour_aligned k \<and> dm_get (e_partitions e) k = None \<and> in_part (part_dir E e k) q \<longrightarrow> \<not> fs_exists fs q)"

lemma part_dir_simps [simp]:
  "part_dir E (e\<lparr>e_partitions := ps\<rparr>) k = part_dir E e k" "part_dir E (e\<lparr>e_memtables := ms\<rparr>) k = part_dir E e k"
  "part_dir E (e\<lparr>e_wals := ws\<rparr>) k = part_dir E e k" "part_dir E (e\<lparr>e_flush_tx := c\<rparr>) k = part_dir E e k"
  "part_dir E (e\<lparr>e_closed := b\<rparr>) k = part_dir E e k"
  by (simp_all add: part_dir_def data_path_def)

lemma data_path_simps [simp]:
  "data_path (e\<lparr>e_partitions := ps\<rparr>) = data_path e" "data_path (e\<lparr>e_memtables := ms\<rparr>) = data_path e"
  by (simp_all add: data_path_def)

lemma in_part_unique: "in_part d q \<Longrightarrow> in_part d' q \<Longrightarrow> d = d'"
  by (auto simp: in_part_def in_dir_def)

lemma engine_invD:
  assumes "engine_inv E queued alive n fs e"
  shows "e_bucket_ns e = engine_bucket_ns (e_config e)" "alive (e_flush_tx e)"
    "dm_get (e_partitions e) k = Some p \<Longrightarrow> hour_aligned k \<and> part_inv E (part_dir E e k) (3 * n + 1) fs p"
    "dm_get (e_memtables e) k = Some m \<Longrightarrow> hour_aligned k \<and> memtable_wf m \<and> unat (sequence m) \<le> n"
    "r \<in> set (queued (e_flush_tx e)) \<Longrightarrow> dm_get (e_partitions e) (fr_partition r) \<noteq> None"
    "dm_get (e_wals e) k = Some w \<Longrightarrow> dm_get (e_partitions e) k \<noteq> None
      \<and> wal_path w = path_join (path_join (part_dir E e k) ''logs'') ''wal.log''"
    "hour_aligned k \<Longrightarrow> dm_get (e_partitions e) k = None \<Longrightarrow> in_part (part_dir E e k) q \<Longrightarrow> \<not> fs_exists fs q"
  using assms unfolding engine_inv_def by blast+

lemma engine_invI:
  assumes "e_bucket_ns e = engine_bucket_ns (e_config e)" "alive (e_flush_tx e)"
    "\<And>k p. dm_get (e_partitions e) k = Some p \<Longrightarrow> hour_aligned k \<and> part_inv E (part_dir E e k) (3 * n + 1) fs p"
    "\<And>k m. dm_get (e_memtables e) k = Some m \<Longrightarrow> hour_aligned k \<and> memtable_wf m \<and> unat (sequence m) \<le> n"
    "\<And>r. r \<in> set (queued (e_flush_tx e)) \<Longrightarrow> dm_get (e_partitions e) (fr_partition r) \<noteq> None"
    "\<And>k w. dm_get (e_wals e) k = Some w \<Longrightarrow> dm_get (e_partitions e) k \<noteq> None
      \<and> wal_path w = path_join (path_join (part_dir E e k) ''logs'') ''wal.log''"
    "\<And>k q. hour_aligned k \<Longrightarrow> dm_get (e_partitions e) k = None \<Longrightarrow> in_part (part_dir E e k) q \<Longrightarrow> \<not> fs_exists fs q"
  shows "engine_inv E queued alive n fs e"
  using assms unfolding engine_inv_def by blast

lemma engine_inv_mono:
  assumes inv: "engine_inv E queued alive n fs e" and "n \<le> n'"
  shows "engine_inv E queued alive n' fs e"
proof (rule engine_invI)
  show "hour_aligned k \<and> part_inv E (part_dir E e k) (3 * n' + 1) fs p" if "dm_get (e_partitions e) k = Some p" for k p
    using engine_invD(3) [OF inv that] part_inv_mono [of E _ "3 * n + 1" fs p "3 * n' + 1"] assms(2) by simp
  show "hour_aligned k \<and> memtable_wf m \<and> unat (sequence m) \<le> n'" if "dm_get (e_memtables e) k = Some m" for k m
    using engine_invD(4) [OF inv that] assms(2) by simp
qed (rule engine_invD [OF inv]; assumption)+

section \<open>Opening a partition\<close>

lemma signal_open_empty:
  assumes "\<forall>q. in_dir d q \<longrightarrow> \<not> fs_exists fs q" "signal_partition_open E d fs = Inr sp"
  shows "sp = \<lparr>sp_dir = d, sstables = [], next_seq = 1\<rparr>"
proof -
  have "q \<notin> set (fs_read_dir fs d)" for q
    using assms(1) by (auto simp: in_fs_read_dir in_dir_def)
  then have "fs_read_dir fs d = []" by (metis list.set_intros(1) neq_Nil_conv)
  with assms(2) show ?thesis
    by (simp add: signal_partition_open_def split: if_splits)
qed

lemma partition_open_empty:
  assumes "\<forall>q. in_part (part_dir E e k) q \<longrightarrow> \<not> fs_exists fs q"
    and "partition_open E (data_path e) (PartitionKey k) fs = Inr p"
  shows "part_inv E (part_dir E e k) 1 fs p" "sp_rows E fs (get_signal_partition sig p) = []"
proof -
  have empty: "signal_partition_open E (path_join (part_dir E e k) (sig_name s)) fs = Inr sp
      \<Longrightarrow> sp = \<lparr>sp_dir = path_join (part_dir E e k) (sig_name s), sstables = [], next_seq = 1\<rparr>" for s sp
    using assms(1) by (intro signal_open_empty) (auto simp: in_part_def)
  have "get_signal_partition s p = \<lparr>sp_dir = path_join (part_dir E e k) (sig_name s), sstables = [], next_seq = 1\<rparr>" for s
    using assms(2) empty [of Log] empty [of Metric] empty [of Span]
    by (cases s) (auto simp: partition_open_def part_dir_def Let_def result_simps split: if_splits)
  then show "part_inv E (part_dir E e k) 1 fs p" "sp_rows E fs (get_signal_partition sig p) = []"
    by (simp_all add: part_inv_def sp_inv_def sp_rows_def)
qed

lemma get_or_create_partition_inv:
  assumes inv: "engine_inv E queued alive n fs e" and "hour_aligned k"
    and g: "get_or_create_partition E (PartitionKey k) fs e = Some (p, e')"
  obtains ps where "e' = e\<lparr>e_partitions := ps\<rparr>" "dm_get ps k = Some p"
    "\<forall>k'. k' \<noteq> k \<longrightarrow> dm_get ps k' = dm_get (e_partitions e) k'"
    "engine_inv E queued alive n fs e'" "\<forall>k sig. table_content E fs e' k sig = table_content E fs e k sig"
proof (cases "dm_get (e_partitions e) k")
  case (Some p0)
  with g inv show thesis
    by (intro that [of "e_partitions e"]) (auto simp: get_or_create_partition_def)
next
  case None
  then obtain ps where o: "partition_open E (data_path e) (PartitionKey k) fs = Inr p"
    "ps = dm_put k p (e_partitions e)" "e' = e\<lparr>e_partitions := ps\<rparr>"
    using g by (auto simp: get_or_create_partition_def split: sum.splits)
  have "\<forall>q. in_part (part_dir E e k) q \<longrightarrow> \<not> fs_exists fs q"
    using inv None assms(2) by (simp add: engine_inv_def)
  note p = partition_open_empty [OF this o(1)]
  have "part_inv E (part_dir E e k) (3 * n + 1) fs p"
    using p(1) by (rule part_inv_mono) simp
  then have "engine_inv E queued alive n fs e'"
    unfolding o(2,3)
    by (intro engine_invI) (use engine_invD [OF inv] assms(2) in \<open>auto split: if_splits\<close>)
  moreover have "\<forall>k' sig. table_content E fs e' k' sig = table_content E fs e k' sig"
    using p(2) None by (simp add: table_content_def o(2,3))
  ultimately show thesis
    using o by (intro that [of ps]) simp_all
qed

section \<open>Changes of the log file\<close>

lemma wal_change_inv:
  assumes "utc_hour_injective E" and inv: "engine_inv E queued alive n fs e"
    and k: "dm_get (e_partitions e) k = Some p"
    and same: "\<forall>q. q \<noteq> path_join (path_join (part_dir E e k) ''logs'') ''wal.log'' \<longrightarrow> fs_get fs' q = fs_get fs q"
  shows "engine_inv E queued alive n fs' e" "table_content E fs' e k' sig = table_content E fs e k' sig"
proof -
  let ?w = "path_join (path_join (part_dir E e k) ''logs'') ''wal.log''"
  have w: "in_part (part_dir E e k) ?w"
    unfolding in_part_def in_dir_def by (metis sig_name.simps(1))
  have al: "hour_aligned k" using inv k by (simp add: engine_inv_def)
  have "\<not> fs_exists fs' q" if "hour_aligned j" "dm_get (e_partitions e) j = None" "in_part (part_dir E e j) q" for j q
  proof -
    have "q \<noteq> ?w"
      using that w in_part_unique part_dir_inject [OF assms(1) al that(1)] k by fastforce
    then show ?thesis
      using same inv that by (simp add: engine_inv_def fs_exists_def)
  qed
  moreover have "part_inv E d m fs' p' = part_inv E d m fs p'" for d m p'
    by (rule part_inv_wal(1) [OF same])
  ultimately show "engine_inv E queued alive n fs' e"
    using inv unfolding engine_inv_def by blast
  show "table_content E fs' e k' sig = table_content E fs e k' sig"
    using part_inv_wal(2) [OF same, of E] by (simp add: table_content_def split: option.split)
qed

lemma get_or_create_wal_inv:
  assumes "utc_hour_injective E" and inv: "engine_inv E queued alive n fs e" and al: "hour_aligned k"
    and g: "get_or_create_wal E (PartitionKey k) fs e = Some (fs', w, e')"
  obtains ps ws where "e' = e\<lparr>e_partitions := ps, e_wals := ws\<rparr>" "engine_inv E queued alive n fs' e'"
    "\<forall>k sig. table_content E fs' e' k sig = table_content E fs e k sig" "dm_get ws k = Some w"
proof (cases "dm_get (e_wals e) k")
  case (Some w0)
  with g inv show thesis
    by (intro that [where ps = "e_partitions e" and ws = "e_wals e"]) (auto simp: get_or_create_wal_def)
next
  case None
  then obtain p e1 where p: "get_or_create_partition E (PartitionKey k) fs e = Some (p, e1)"
    and o: "wal_open (env_io E) (sp_wal_path (p_logs p)) fs = Inr (fs', w)"
    and e': "e' = e1\<lparr>e_wals := dm_put k w (e_wals e1)\<rparr>"
    using g by (auto simp: get_or_create_wal_def split: option.splits sum.splits)
  obtain ps where ps: "e1 = e\<lparr>e_partitions := ps\<rparr>" "dm_get ps k = Some p" "engine_inv E queued alive n fs e1"
    "\<forall>k sig. table_content E fs e1 k sig = table_content E fs e k sig"
    by (rule get_or_create_partition_inv [OF inv al p])
  have "part_inv E (part_dir E e1 k) (3 * n + 1) fs p"
    using ps by (simp add: engine_inv_def)
  then have d: "sp_dir (p_logs p) = path_join (part_dir E e1 k) ''logs''"
    unfolding part_inv_def by (metis get_signal_partition.simps(1) sig_name.simps(1))
  then have "\<forall>q. q \<noteq> path_join (path_join (part_dir E e1 k) ''logs'') ''wal.log'' \<longrightarrow> fs_get fs' q = fs_get fs q"
    and path: "wal_path w = path_join (path_join (part_dir E e1 k) ''logs'') ''wal.log''"
    using wal_open_other [OF o] by (simp_all add: sp_wal_path_def)
  from wal_change_inv [OF assms(1) ps(3) _ this(1), of p] ps(1,2)
  have inv1: "engine_inv E queued alive n fs' e1" and tc: "\<And>k sig. table_content E fs' e1 k sig = table_content E fs e1 k sig"
    by auto
  have "engine_inv E queued alive n fs' e'"
    unfolding e'
    by (intro engine_invI) (use engine_invD [OF inv1] path ps(2) in \<open>auto simp: ps(1) split: if_splits\<close>)
  moreover have "table_content E fs' e' k sig = table_content E fs' e1 k sig" for k sig
    by (simp add: table_content_def e')
  ultimately show thesis
    using ps tc by (intro that [where ps = ps and ws = "dm_put k w (e_wals e)"]) (simp_all add: e')
qed

section \<open>Rows of a MemTable\<close>

lemma mset_oks: "mset (oks xs) = image_mset projr (filter_mset (\<lambda>x. \<not> isl x) (mset xs))"
  by (simp add: oks_def mset_filter)

lemma mset_drain_insert:
  assumes "memtable_wf m"
  shows "mset (drain_signal s (memtable_insert t s' d m))
    = (if s = s' then {#(RowKey t s' (sequence m), d)#} else {#}) + mset (drain_signal s m)"
  using mset_inner_insert [OF assms, of t s' d] by (simp add: drain_signal_def mset_filter)

lemma memtable_new_sequence [simp]: "sequence (memtable_new n) = 0"
  by (simp add: memtable_new_def)

lemma mem_rows_new [simp]: "mem_rows E sig (memtable_new n) = []"
  by (cases sig) (simp_all add: memtable_new_def drain_signal_def oks_def)

text \<open>What a record becomes in its MemTable.\<close>

fun telemetry_ser :: "'w storage_env \<Rightarrow> telemetry \<Rightarrow> string + bytes" where
  "telemetry_ser E (RLog r) = ser_log (env_bincode E) r"
| "telemetry_ser E (RMetric r) = ser_metric (env_bincode E) r"
| "telemetry_ser E (RSpan r) = ser_span (env_bincode E) r"

fun telemetry_entry :: "telemetry \<Rightarrow> u8" where
  "telemetry_entry (RLog r) = ENTRY_LOG"
| "telemetry_entry (RMetric r) = ENTRY_METRIC"
| "telemetry_entry (RSpan r) = ENTRY_SPAN"

definition telemetry_insert :: "'w storage_env \<Rightarrow> telemetry \<Rightarrow> memtable \<Rightarrow> storage_error + memtable" where
  "telemetry_insert E r m =
     and_then (map_err Serialisation (telemetry_ser E r)) (\<lambda>d.
       Inr (memtable_insert (telemetry_ts r) (signal_as_u8 (telemetry_sig r)) d m))"

lemma telemetry_insert_simps:
  "telemetry_insert E (RLog l) = memtable_write_log (env_bincode E) l"
  "telemetry_insert E (RMetric p) = memtable_write_metric (env_bincode E) p"
  "telemetry_insert E (RSpan s) = memtable_write_span (env_bincode E) s"
  by (simp_all add: fun_eq_iff telemetry_insert_def memtable_write_log_def memtable_write_metric_def
      memtable_write_span_def)

lemma write_record_one:
  "write_record E send r fs e
    = write_one E send (telemetry_entry r) (telemetry_ts r) (telemetry_ser E r) (telemetry_insert E r) fs e"
  by (cases r) (simp_all add: write_log_record_def write_metric_record_def write_span_record_def
      telemetry_insert_simps)

lemma mem_rows_insert:
  assumes "bincode_roundtrips (env_bincode E)" "memtable_wf m" "telemetry_ser E r = Inr d"
  shows "mset (mem_rows E sig (memtable_insert (telemetry_ts r) (signal_as_u8 (telemetry_sig r)) d m))
    = (if sig = telemetry_sig r then {#telemetry_row E r#} else {#}) + mset (mem_rows E sig m)"
  using assms
  by (cases r; cases sig)
    (simp_all add: bincode_roundtrips_def mset_oks mset_drain_insert)

section \<open>Steps\<close>

text \<open>What a step promises: the invariant with a higher count, the configuration unchanged, and
  contents that are at most the old ones and what the step accepts, exactly so when it logs no
  event.\<close>

definition step_ok ::
  "'w storage_env \<Rightarrow> ('c \<Rightarrow> flush_request list) \<Rightarrow> ('c \<Rightarrow> bool) \<Rightarrow> nat \<Rightarrow> fs \<Rightarrow> 'c storage_engine \<Rightarrow>
   fs \<Rightarrow> 'c storage_engine \<Rightarrow> (u64 \<Rightarrow> signal_type \<Rightarrow> cell list multiset) \<Rightarrow> event list \<Rightarrow> bool" where
  "step_ok E queued alive n fs e fs' e' acc evs \<longleftrightarrow>
     engine_inv E queued alive n fs' e' \<and> e_config e' = e_config e
   \<and> (\<forall>k sig. content E queued fs' e' k sig \<subseteq># content E queued fs e k sig + acc k sig)
   \<and> (evs = [] \<longrightarrow> (\<forall>k sig. content E queued fs' e' k sig = content E queued fs e k sig + acc k sig))"

lemma step_okI_eq:
  assumes "engine_inv E queued alive n fs' e'" "e_config e' = e_config e"
    and "\<And>k sig. content E queued fs' e' k sig = content E queued fs e k sig + acc k sig"
  shows "step_ok E queued alive n fs e fs' e' acc evs"
  using assms by (simp add: step_ok_def)

lemma step_ok_trans:
  assumes "step_ok E queued alive n fs e fs1 e1 acc []" "step_ok E queued alive n' fs1 e1 fs2 e2 acc' evs"
  shows "step_ok E queued alive n' fs e fs2 e2 (\<lambda>k sig. acc k sig + acc' k sig) evs"
  using assms by (simp add: step_ok_def ac_simps)

text \<open>Replacing a MemTable.\<close>

lemma put_memtable_inv:
  assumes inv: "engine_inv E queued alive n fs e" and "hour_aligned k" "memtable_wf m" "unat (sequence m) \<le> n"
  shows "engine_inv E queued alive n fs (e\<lparr>e_memtables := dm_put k m (e_memtables e)\<rparr>)"
  by (intro engine_invI) (use engine_invD [OF inv] assms(2-4) in \<open>auto split: if_splits\<close>)

lemma put_wal_inv:
  assumes inv: "engine_inv E queued alive n fs e" and "dm_get (e_wals e) k = Some w0" "wal_path w = wal_path w0"
  shows "engine_inv E queued alive n fs (e\<lparr>e_wals := dm_put k w (e_wals e)\<rparr>)"
  by (intro engine_invI) (use engine_invD [OF inv] assms(2,3) in \<open>auto split: if_splits\<close>)

lemma content_put_memtable:
  "content E queued fs (e\<lparr>e_memtables := dm_put k m (e_memtables e)\<rparr>) k' sig
    = (if k' = k then mset (mem_rows E sig m) else mem_content E e k' sig)
      + queue_content E (queued (e_flush_tx e)) k' sig + table_content E fs e k' sig"
  by (simp add: content_def mem_content_def table_content_def)

lemma mem_content_simps [simp]:
  "mem_content E (e\<lparr>e_partitions := ps\<rparr>) k sig = mem_content E e k sig"
  "mem_content E (e\<lparr>e_wals := ws\<rparr>) k sig = mem_content E e k sig"
  "mem_content E (e\<lparr>e_flush_tx := c\<rparr>) k sig = mem_content E e k sig"
  "mem_content E (e\<lparr>e_closed := b\<rparr>) k sig = mem_content E e k sig"
  by (simp_all add: mem_content_def)

lemma table_content_simps [simp]:
  "table_content E fs (e\<lparr>e_memtables := ms\<rparr>) k sig = table_content E fs e k sig"
  "table_content E fs (e\<lparr>e_wals := ws\<rparr>) k sig = table_content E fs e k sig"
  "table_content E fs (e\<lparr>e_flush_tx := c\<rparr>) k sig = table_content E fs e k sig"
  "table_content E fs (e\<lparr>e_closed := b\<rparr>) k sig = table_content E fs e k sig"
  by (simp_all add: table_content_def)

lemma content_wals [simp]: "content E queued fs (e\<lparr>e_wals := ws\<rparr>) k sig = content E queued fs e k sig"
  by (simp add: content_def mem_content_def table_content_def)

lemma content_partitions:
  "\<forall>k sig. table_content E fs' (e\<lparr>e_partitions := ps\<rparr>) k sig = table_content E fs e k sig \<Longrightarrow>
   content E queued fs' (e\<lparr>e_partitions := ps\<rparr>) k sig = content E queued fs e k sig"
  by (simp add: content_def mem_content_def)

lemma get_or_create_memtable_step:
  assumes inv: "engine_inv E queued alive n fs e" and "hour_aligned (pk_raw key)"
    and g: "get_or_create_memtable key e = (m, e')"
  shows "step_ok E queued alive n fs e fs e' (\<lambda>_ _. {#}) []"
    "dm_get (e_memtables e') (pk_raw key) = Some m" "e_bucket_ns e' = e_bucket_ns e"
proof -
  have c: "content E queued fs (e\<lparr>e_memtables := dm_put k (memtable_new s) (e_memtables e)\<rparr>) k' sig
      = content E queued fs e k' sig" if "dm_get (e_memtables e) k = None" for k s k' sig
    using that by (simp add: content_put_memtable) (simp add: content_def mem_content_def)
  have "engine_inv E queued alive n fs (e\<lparr>e_memtables := dm_put (pk_raw key) (memtable_new s) (e_memtables e)\<rparr>)" for s
    using assms(2) by (intro put_memtable_inv [OF inv]) simp_all
  with c inv g show "step_ok E queued alive n fs e fs e' (\<lambda>_ _. {#}) []"
    "dm_get (e_memtables e') (pk_raw key) = Some m" "e_bucket_ns e' = e_bucket_ns e"
    by (auto simp: get_or_create_memtable_def fresh_memtable_def split: option.splits intro!: step_okI_eq)
qed

lemma queue_content_append [simp]:
  "queue_content E (rs @ rs') k sig = queue_content E rs k sig + queue_content E rs' k sig"
  "queue_content E [] k sig = {#}"
  "queue_content E (r # rs) k sig
    = (if fr_partition r = k then mset (mem_rows E sig (fr_imm r)) else {#}) + queue_content E rs k sig"
  by (simp_all add: queue_content_def)

lemma content_flush_tx:
  "content E queued fs (e\<lparr>e_flush_tx := c\<rparr>) k sig
    = mem_content E e k sig + queue_content E (queued c) k sig + table_content E fs e k sig"
  by (simp add: content_def mem_content_def table_content_def)

text \<open>The configuration never changes.\<close>

lemma config_get_or_create:
  "get_or_create_memtable key e = (m, e1) \<Longrightarrow> e_config e1 = e_config e"
  "get_or_create_partition E key fs e = Some (p, e2) \<Longrightarrow> e_config e2 = e_config e"
  "get_or_create_wal E key fs e = Some (fs3, w, e3) \<Longrightarrow> e_config e3 = e_config e"
  by (auto simp: get_or_create_memtable_def get_or_create_partition_def get_or_create_wal_def
      split: option.splits sum.splits prod.splits)

lemma config_maybe_freeze: "maybe_freeze E send key mem fs e = Some (e', evs) \<Longrightarrow> e_config e' = e_config e"
  by (auto simp: maybe_freeze_def Let_def dest!: config_get_or_create(2) split: if_splits option.splits sum.splits)

lemma config_write_record:
  assumes "write_record E send r fs e = Some (fs', e', evs, res)"
  shows "e_config e' = e_config e"
  using assms unfolding write_record_one write_one_def
  by (auto simp: Let_def dest!: config_get_or_create config_maybe_freeze
      split: option.splits prod.splits sum.splits)

lemma config_flush_key: "flush_key E send k fs e = Ready e' \<Longrightarrow> e_config e' = e_config e"
  by (auto simp: flush_key_def Let_def dest!: config_get_or_create(2)
      split: if_splits option.splits sum.splits send_error.splits)

lemma config_workers:
  "flush_worker E recv fs e = Some (fs', e', evs) \<Longrightarrow> e_config e' = e_config e"
  "compact_key E k fs e = (fs'', e'', evs') \<Longrightarrow> e_config e'' = e_config e"
  by (auto simp: flush_worker_def compact_key_def split: if_splits option.splits prod.splits)

text \<open>Replacing a partition after changes below its directory.\<close>

lemma part_inv_frame:
  assumes "part_inv E d n fs p" "\<And>q. in_part d q \<Longrightarrow> fs_get fs' q = fs_get fs q"
  shows "part_inv E d n fs' p" "sp_rows E fs' (get_signal_partition sig p) = sp_rows E fs (get_signal_partition sig p)"
proof -
  have "\<forall>m \<in> set (sstables (get_signal_partition s p)). fs_get fs' (meta_parquet_path m) = fs_get fs (meta_parquet_path m)" for s
  proof
    fix m assume "m \<in> set (sstables (get_signal_partition s p))"
    then have "sst_dir m = path_join d (sig_name s)"
      using assms(1) unfolding part_inv_def by (metis sp_inv_dir)
    then have "in_part d (meta_parquet_path m)"
      unfolding in_part_def meta_parquet_path_def by (metis in_dir_paths(1))
    then show "fs_get fs' (meta_parquet_path m) = fs_get fs (meta_parquet_path m)" by (rule assms(2))
  qed
  note c = sp_inv_cong [OF this]
  show "part_inv E d n fs' p" using assms(1) by (simp add: part_inv_def c(1))
  show "sp_rows E fs' (get_signal_partition sig p) = sp_rows E fs (get_signal_partition sig p)" by (rule c(2))
qed

lemma put_partition_inv:
  assumes "utc_hour_injective E" and inv: "engine_inv E queued alive n fs e"
    and k: "dm_get (e_partitions e) k = Some p"
    and st: "part_step E (part_dir E e k) (3 * n + 1 + 3) fs p fs' p' rows"
  defines "e' \<equiv> e\<lparr>e_partitions := dm_put k p' (e_partitions e)\<rparr>"
  shows "engine_inv E queued alive (Suc n) fs' e'"
    "table_content E fs' e' k' sig = (if k' = k then mset (rows sig) else table_content E fs e k' sig)"
proof -
  have al: "hour_aligned k" using engine_invD(3) [OF inv k] by simp
  have apart: "fs_get fs' q = fs_get fs q" if "hour_aligned j" "j \<noteq> k" "in_part (part_dir E e j) q" for j q
  proof -
    have "\<not> in_part (part_dir E e k) q"
      using that in_part_unique part_dir_inject [OF assms(1) al that(1)] by metis
    then show ?thesis using st by (simp add: part_step_def)
  qed
  have parts: "part_inv E (part_dir E e j) (3 * n + 1) fs' pj
      \<and> sp_rows E fs' (get_signal_partition s pj) = sp_rows E fs (get_signal_partition s pj)"
    if "j \<noteq> k" "dm_get (e_partitions e) j = Some pj" for j pj s
    using engine_invD(3) [OF inv that(2)] apart [OF _ that(1)] part_inv_frame by blast
  show "engine_inv E queued alive (Suc n) fs' e'"
  proof (rule engine_invI)
    fix j pj assume j: "dm_get (e_partitions e') j = Some pj"
    show "hour_aligned j \<and> part_inv E (part_dir E e' j) (3 * Suc n + 1) fs' pj"
    proof (cases "j = k")
      case True
      with j al st show ?thesis by (simp add: e'_def part_step_def)
    next
      case False
      with j have "dm_get (e_partitions e) j = Some pj" by (simp add: e'_def)
      then show ?thesis
        using parts [OF False] engine_invD(3) [OF inv] part_inv_mono [of E _ "3 * n + 1" fs' pj "3 * Suc n + 1"]
        by (simp add: e'_def)
    qed
  next
    fix j q assume "hour_aligned j" "dm_get (e_partitions e') j = None" "in_part (part_dir E e' j) q"
    then have *: "hour_aligned j" "j \<noteq> k" "dm_get (e_partitions e) j = None" "in_part (part_dir E e j) q"
      by (auto simp: e'_def split: if_splits)
    show "\<not> fs_exists fs' q"
      using engine_invD(7) [OF inv *(1,3,4)] apart [OF *(1,2,4)] by (simp add: fs_exists_def)
  qed (use engine_invD [OF inv] in \<open>auto simp: e'_def le_Suc_eq\<close>)
  show "table_content E fs' e' k' sig = (if k' = k then mset (rows sig) else table_content E fs e k' sig)"
    using st parts by (auto simp: e'_def table_content_def part_step_def split: option.split)
qed

context flush_queue
begin

lemma enqueue_inv:
  assumes inv: "engine_inv E queued alive n fs e" and "send (e_flush_tx e) r = Inr c"
    and "dm_get (e_partitions e) (fr_partition r) \<noteq> None"
  shows "engine_inv E queued alive n fs (e\<lparr>e_flush_tx := c\<rparr>)"
  by (intro engine_invI) (use engine_invD [OF inv] try_send_Inr [OF assms(2)] assms(3) in auto)

text \<open>Freezing moves the rows of a full table into the queue, or drops them with an event.\<close>

lemma maybe_freeze_step:
  assumes inv: "engine_inv E queued alive n fs e" and m: "dm_get (e_memtables e) (pk_raw key) = Some mem"
    and f: "maybe_freeze E send key mem fs e = Some (e', evs)"
  shows "step_ok E queued alive n fs e fs e' (\<lambda>_ _. {#}) evs"
proof (cases "memtable_is_full mem")
  case False
  with f inv show ?thesis by (auto simp: maybe_freeze_def intro!: step_okI_eq)
next
  case True
  define k where "k = pk_raw key"
  then have key: "key = PartitionKey k" by simp
  let ?e1 = "e\<lparr>e_memtables := dm_put k (fresh_memtable e) (e_memtables e)\<rparr>"
  have al: "hour_aligned k" using engine_invD(4) [OF inv m] by (simp add: k_def)
  have inv1: "engine_inv E queued alive n fs ?e1"
    using al by (intro put_memtable_inv [OF inv]) (simp_all add: fresh_memtable_def)
  obtain p e2 where g: "get_or_create_partition E (PartitionKey k) fs ?e1 = Some (p, e2)"
    using f True by (auto simp: maybe_freeze_def key Let_def split: option.splits)
  obtain ps where ps: "e2 = ?e1\<lparr>e_partitions := ps\<rparr>" "dm_get ps k = Some p" "engine_inv E queued alive n fs e2"
    "\<forall>k sig. table_content E fs e2 k sig = table_content E fs ?e1 k sig"
    by (rule get_or_create_partition_inv [OF inv1 al g])
  have m2: "mem_content E e2 k' sig = (if k' = k then {#} else mem_content E e k' sig)" for k' sig
    by (simp add: mem_content_def ps(1) fresh_memtable_def)
  have t2: "table_content E fs e2 k' sig = table_content E fs e k' sig" for k' sig
    using ps(4) by (simp add: table_content_def)
  have q2: "e_flush_tx e2 = e_flush_tx e" by (simp add: ps(1))
  have c: "content E queued fs e k' sig = (if k' = k then mset (mem_rows E sig mem) else mem_content E e k' sig)
      + queue_content E (queued (e_flush_tx e)) k' sig + table_content E fs e k' sig" for k' sig
    using m by (simp add: content_def mem_content_def k_def)
  show ?thesis
  proof (cases "send (e_flush_tx e2) \<lparr>fr_imm = mem, fr_partition = k\<rparr>")
    case (Inl err)
    with f True g have "e' = e2" "evs \<noteq> []" by (auto simp: maybe_freeze_def key Let_def)
    moreover have "content E queued fs e2 k' sig \<subseteq># content E queued fs e k' sig" for k' sig
      unfolding c content_def [of E queued fs e2] m2 t2 q2 by simp
    moreover have "e_config e2 = e_config e" by (simp add: ps(1))
    ultimately show ?thesis
      using ps(3) unfolding step_ok_def by simp
  next
    case (Inr ch)
    with f True g have e': "e' = e2\<lparr>e_flush_tx := ch\<rparr>" by (auto simp: maybe_freeze_def key Let_def)
    have "engine_inv E queued alive n fs e'"
      unfolding e' using ps(1,2) by (intro enqueue_inv [OF ps(3) Inr]) simp
    moreover have "queued ch = queued (e_flush_tx e) @ [\<lparr>fr_imm = mem, fr_partition = k\<rparr>]"
      using try_send_Inr(1) [OF Inr] by (simp add: q2)
    then have "content E queued fs e' k' sig = content E queued fs e k' sig" for k' sig
      unfolding e' content_flush_tx c m2 t2 by simp
    ultimately show ?thesis
      by (intro step_okI_eq) (simp_all add: e' ps(1))
  qed
qed

text \<open>One write: the record's row is added where it belongs.\<close>

lemma write_record_step:
  assumes "bincode_roundtrips (env_bincode E)" "utc_hour_injective E" "hours_ok (e_config e)"
    and inv: "engine_inv E queued alive n fs e" and room: "n + 1 < 2 ^ 64"
    and w: "write_record E send r fs e = Some (fs', e', evs, res)"
  shows "step_ok E queued alive (Suc n) fs e fs' e' (\<lambda>k sig. accepted_by E (e_bucket_ns e) k sig (OpWrite r res)) evs"
proof -
  obtain key where key: "for_timestamp (telemetry_ts r) (e_bucket_ns e) = Some key"
    using w by (auto simp: write_record_one write_one_def split: option.splits)
  define k where "k = pk_raw key"
  have kk: "key = PartitionKey k" by (simp add: k_def)
  have al: "hour_aligned k"
    using for_timestamp_aligned [OF assms(3)] key engine_invD(1) [OF inv] by (simp add: k_def)
  obtain m e1 where m: "get_or_create_memtable key e = (m, e1)" by fastforce
  note s1 = get_or_create_memtable_step [OF inv _ m, folded k_def, OF al]
  have inv1: "engine_inv E queued alive n fs e1" using s1(1) by (simp add: step_ok_def)
  show ?thesis
  proof (cases "telemetry_ser E r")
    case (Inl err)
    then have "fs' = fs" "e' = e1" "isl res" using w key m by (auto simp: write_record_one write_one_def)
    moreover have "engine_inv E queued alive (Suc n) fs e1" using engine_inv_mono [OF inv1] by simp
    ultimately show ?thesis
      using s1(1) by (auto simp: step_ok_def accepted_by_def isl_def)
  next
    case (Inr d)
    obtain fs1 wl e2 where g: "get_or_create_wal E key fs e1 = Some (fs1, wl, e2)"
      using w key m Inr by (auto simp: write_record_one write_one_def split: option.splits)
    obtain ps ws where e2: "e2 = e1\<lparr>e_partitions := ps, e_wals := ws\<rparr>" "engine_inv E queued alive n fs1 e2"
      "\<forall>k sig. table_content E fs1 e2 k sig = table_content E fs e1 k sig" "dm_get ws k = Some wl"
      by (rule get_or_create_wal_inv [OF assms(2) inv1 al g [unfolded kk]])
    obtain fs2 w1 ra where a: "wal_append (env_crc E) (env_io E) (telemetry_entry r) d fs1 wl = (fs2, w1, ra)"
      by (metis prod_cases3)
    let ?e3 = "e2\<lparr>e_wals := dm_put k w1 (e_wals e2)\<rparr>"
    have wk: "dm_get (e_wals e2) k = Some wl" using e2 by simp
    have path: "wal_path w1 = wal_path wl" and other: "\<forall>q. q \<noteq> wal_path wl \<longrightarrow> fs_get fs2 q = fs_get fs1 q"
      using wal_append_other [OF a] by auto
    obtain p where p: "dm_get (e_partitions e2) k = Some p"
      "wal_path wl = path_join (path_join (part_dir E e2 k) ''logs'') ''wal.log''"
      using engine_invD(6) [OF e2(2) wk] by auto
    note wc = wal_change_inv [OF assms(2) e2(2) p(1) other [unfolded p(2)]]
    have inv3: "engine_inv E queued alive n fs2 ?e3"
      by (rule put_wal_inv [OF wc(1) wk path])
    have same: "mem_content E e2 k' sig = mem_content E e1 k' sig" "e_flush_tx e2 = e_flush_tx e1"
      "e_config e2 = e_config e1" "e_memtables e2 = e_memtables e1" for k' sig
      by (simp_all add: e2(1))
    have c3: "content E queued fs2 ?e3 k' sig = content E queued fs e k' sig" for k' sig
      using s1(1) e2(3) wc(2) by (simp add: step_ok_def content_def same)
    show ?thesis
    proof (cases ra)
      case (Inl err)
      then have "fs' = fs2" "e' = ?e3" "isl res"
        using w key m \<open>telemetry_ser E r = Inr d\<close> g a by (auto simp: write_record_one write_one_def k_def Let_def)
      then show ?thesis
        using engine_inv_mono [OF inv3, of "Suc n"] c3 s1(1)
        by (intro step_okI_eq) (auto simp: step_ok_def accepted_by_def isl_def same)
    next
      case ok: (Inr off)
      let ?m1 = "memtable_insert (telemetry_ts r) (signal_as_u8 (telemetry_sig r)) d m"
      let ?e4 = "?e3\<lparr>e_memtables := dm_put k ?m1 (e_memtables ?e3)\<rparr>"
      obtain f: "maybe_freeze E send key ?m1 fs2 ?e4 = Some (e', evs)" and "fs' = fs2" "res = Inr ()"
        using w key m Inr g a ok
        by (auto simp: write_record_one write_one_def k_def Let_def telemetry_insert_def split: option.splits)
      have wf: "memtable_wf m" "unat (sequence m) \<le> n"
        using engine_invD(4) [OF inv1 s1(2)] by auto
      then have "memtable_wf ?m1" "unat (sequence ?m1) \<le> Suc n"
        using room by (auto intro!: memtable_wf_insert simp: memtable_room_def intro: order_trans [OF unat_succ_le])
      then have inv4: "engine_inv E queued alive (Suc n) fs2 ?e4"
        using al by (intro put_memtable_inv [OF engine_inv_mono [OF inv3]]) auto
      have mk: "mem_content E e2 k sig = mset (mem_rows E sig m)" for sig
        using s1(2) by (simp add: mem_content_def e2(1))
      have c4: "content E queued fs2 ?e4 k' sig
          = content E queued fs e k' sig + accepted_by E (e_bucket_ns e) k' sig (OpWrite r res)" for k' sig
        unfolding content_put_memtable c3 [symmetric] content_def [of E queued fs2]
        using mem_rows_insert [OF assms(1) wf(1) Inr, of sig] mk [of sig]
        by (simp add: accepted_by_def key kk \<open>res = Inr ()\<close>)
      have s4: "step_ok E queued alive (Suc n) fs e fs2 ?e4
          (\<lambda>k sig. accepted_by E (e_bucket_ns e) k sig (OpWrite r res)) []"
        using s1(1) by (intro step_okI_eq inv4 c4) (simp add: step_ok_def e2(1))
      have "step_ok E queued alive (Suc n) fs2 ?e4 fs2 e' (\<lambda>_ _. {#}) evs"
        by (rule maybe_freeze_step [OF inv4 _ f]) (simp add: k_def)
      from step_ok_trans [OF s4 this] show ?thesis by (simp add: \<open>fs' = fs2\<close>)
    qed
  qed
qed

text \<open>Flushing on demand moves a table into the queue.\<close>

lemma flush_key_step:
  assumes inv: "engine_inv E queued alive n fs e" and f: "flush_key E send k fs e = Ready e'"
  shows "step_ok E queued alive n fs e fs e' (\<lambda>_ _. {#}) []"
proof (cases "dm_get (e_memtables e) k")
  case None
  with f inv show ?thesis by (auto simp: flush_key_def intro!: step_okI_eq)
next
  case (Some mem)
  let ?e1 = "e\<lparr>e_memtables := dm_remove k (e_memtables e)\<rparr>"
  have inv1: "engine_inv E queued alive n fs ?e1"
    by (intro engine_invI) (use engine_invD [OF inv] in \<open>auto split: if_splits\<close>)
  have al: "hour_aligned k" using engine_invD(4) [OF inv Some] by simp
  have m1: "mem_content E e k' sig = mem_content E ?e1 k' sig + (if k' = k then mset (mem_rows E sig mem) else {#})" for k' sig
    using Some by (simp add: mem_content_def)
  show ?thesis
  proof (cases "memtable_is_empty mem")
    case True
    then have "mem_rows E sig mem = []" for sig
      by (cases sig) (simp_all add: memtable_is_empty_def drain_signal_def oks_def)
    then have "content E queued fs ?e1 k' sig = content E queued fs e k' sig" for k' sig
      using m1 [of k' sig] by (simp add: content_def)
    moreover have "e' = ?e1" using f Some True by (simp add: flush_key_def)
    ultimately show ?thesis using inv1 by (intro step_okI_eq) simp_all
  next
    case False
    then obtain p e2 where g: "get_or_create_partition E (PartitionKey k) fs ?e1 = Some (p, e2)"
      using f Some by (auto simp: flush_key_def Let_def split: option.splits)
    obtain ps where ps: "e2 = ?e1\<lparr>e_partitions := ps\<rparr>" "dm_get ps k = Some p" "engine_inv E queued alive n fs e2"
      "\<forall>k sig. table_content E fs e2 k sig = table_content E fs ?e1 k sig"
      by (rule get_or_create_partition_inv [OF inv1 al g])
    have same: "mem_content E e2 k' sig = mem_content E ?e1 k' sig" "e_flush_tx e2 = e_flush_tx e"
      "table_content E fs e2 k' sig = table_content E fs e k' sig" "e_config e2 = e_config e" for k' sig
      using ps(4) by (simp_all add: ps(1))
    have live: "alive (e_flush_tx e2)" by (rule engine_invD(2) [OF ps(3)])
    then obtain c where c: "send (e_flush_tx e2) \<lparr>fr_imm = mem, fr_partition = k\<rparr> = Inr c"
      using f Some False g try_send_Inl [of "e_flush_tx e2"]
      by (auto simp: flush_key_def Let_def split: sum.splits send_error.splits)
    then have e': "e' = e2\<lparr>e_flush_tx := c\<rparr>"
      using f Some False g by (simp add: flush_key_def Let_def)
    have "queued c = queued (e_flush_tx e) @ [\<lparr>fr_imm = mem, fr_partition = k\<rparr>]"
      using try_send_Inr(1) [OF c] by (simp add: same)
    then have "content E queued fs e' k' sig = content E queued fs e k' sig" for k' sig
      unfolding e' content_flush_tx same content_def [of E queued fs e] m1 by simp
    moreover have "engine_inv E queued alive n fs e'"
      unfolding e' using ps(1,2) by (intro enqueue_inv [OF ps(3) c]) simp
    ultimately show ?thesis by (intro step_okI_eq) (simp_all add: e' same)
  qed
qed

text \<open>The flush worker moves the rows of a request into tables, or fails with an event.\<close>

lemma flush_worker_step:
  assumes "env_ok E" "utc_hour_injective E" and inv: "engine_inv E queued alive n fs e"
    and room: "3 * n + 4 < 2 ^ 64" and w: "flush_worker E recv fs e = Some (fs', e', evs)"
  shows "step_ok E queued alive (Suc n) fs e fs' e' (\<lambda>_ _. {#}) evs"
proof (cases "recv (e_flush_tx e)")
  case None
  with w inv engine_inv_mono [OF inv, of "Suc n"] show ?thesis
    by (auto simp: flush_worker_def intro!: step_okI_eq)
next
  case (Some rc)
  obtain req c where rc: "recv (e_flush_tx e) = Some (req, c)" using Some by (cases rc) simp
  define k where "k = fr_partition req"
  obtain p fs1 p1 r where p: "dm_get (e_partitions e) k = Some p"
    and f: "flush_immutable E (fr_imm req) p fs = Some (fs1, p1, r)"
    and e': "fs' = fs1" "e' = e\<lparr>e_flush_tx := c, e_partitions := dm_put k p1 (e_partitions e)\<rparr>"
      "evs = (case r of Inl err \<Rightarrow> [FlushFailed err] | Inr _ \<Rightarrow> [])"
    using w rc by (auto simp: flush_worker_def k_def split: option.splits)
  have q: "queued (e_flush_tx e) = req # queued c"
    using recv_Some [OF rc] by simp
  then have alive: "alive c" using recv_some [of "e_flush_tx e"] rc engine_invD(2) [OF inv] by fastforce
  have pinv: "part_inv E (part_dir E e k) (3 * n + 1) fs p" using engine_invD(3) [OF inv p] by simp
  obtain flushed where fl: "part_step E (part_dir E e k) (3 * n + 1 + 3) fs p fs1 p1
      (\<lambda>sig. sp_rows E fs (get_signal_partition sig p) @ flushed sig)"
    "\<forall>sig. flushed sig = [] \<or> flushed sig = mem_rows E sig (fr_imm req)"
    "\<not> isl r \<longrightarrow> flushed = (\<lambda>sig. mem_rows E sig (fr_imm req))"
    by (rule flush_immutable_step [OF assms(1) pinv _ f]) (use room in simp)
  let ?e1 = "e\<lparr>e_flush_tx := c\<rparr>"
  have inv1: "engine_inv E queued alive n fs ?e1"
    by (intro engine_invI) (use engine_invD [OF inv] alive q in auto)
  note pp = put_partition_inv [OF assms(2) inv1, of k p, simplified, OF p, of fs1 p1]
  have inv': "engine_inv E queued alive (Suc n) fs' e'" and
    tc: "table_content E fs' e' k' sig = (if k' = k then mset (sp_rows E fs (get_signal_partition sig p) @ flushed sig)
      else table_content E fs e k' sig)" for k' sig
    using pp [OF fl(1) [simplified]] by (simp_all add: e')
  have tk: "table_content E fs e k sig = mset (sp_rows E fs (get_signal_partition sig p))" for sig
    using p by (simp add: table_content_def)
  have c': "content E queued fs' e' k' sig = mem_content E e k' sig + queue_content E (queued c) k' sig
      + (table_content E fs e k' sig + (if k' = k then mset (flushed sig) else {#}))" for k' sig
    unfolding content_def tc by (simp add: e' tk)
  have c0: "content E queued fs e k' sig = mem_content E e k' sig
      + ((if k = k' then mset (mem_rows E sig (fr_imm req)) else {#}) + queue_content E (queued c) k' sig)
      + table_content E fs e k' sig" for k' sig
    unfolding content_def q by (simp add: k_def)
  have le: "content E queued fs' e' k' sig \<subseteq># content E queued fs e k' sig" for k' sig
  proof -
    let ?x = "mem_content E e k' sig + queue_content E (queued c) k' sig + table_content E fs e k' sig"
    have "mset (flushed sig) \<subseteq># mset (mem_rows E sig (fr_imm req))" using fl(2) by (metis mset.simps(1) empty_le subset_mset.order_refl)
    then have "?x + mset (flushed sig) \<subseteq># ?x + mset (mem_rows E sig (fr_imm req))" by simp
    then show ?thesis unfolding c' c0 by (cases "k' = k") (simp_all add: ac_simps)
  qed
  have eq: "content E queued fs' e' k' sig = content E queued fs e k' sig" if "evs = []" for k' sig
  proof -
    have "\<not> isl r" using that e'(3) by (cases r) simp_all
    with fl(3) show ?thesis unfolding c' c0 by (simp add: ac_simps)
  qed
  show ?thesis
    unfolding step_ok_def using inv' le eq by (simp add: e')
qed

text \<open>Compaction keeps the rows of a partition, or drops those of a signal with an event.\<close>

lemma compact_key_step:
  assumes "env_ok E" "utc_hour_injective E" and inv: "engine_inv E queued alive n fs e"
    and room: "3 * n + 4 < 2 ^ 64" and w: "compact_key E k fs e = (fs', e', evs)"
  shows "step_ok E queued alive (Suc n) fs e fs' e' (\<lambda>_ _. {#}) evs"
proof (cases "dm_get (e_partitions e) k = None")
  case True
  then have "fs' = fs" "e' = e" "evs = []"
    using w by (auto simp: compact_key_def split: if_splits)
  with engine_inv_mono [OF inv, of "Suc n"] show ?thesis
    by (auto intro!: step_okI_eq)
next
  case False
  then obtain p where p: "dm_get (e_partitions e) k = Some p" by auto
  obtain fs1 p1 n1 warns where c: "compact_partition E p (l0_compaction_trigger (e_config e)) fs = (fs1, p1, n1, warns)"
    by (metis prod_cases4)
  then have e': "fs' = fs1" "e' = e\<lparr>e_partitions := dm_put k p1 (e_partitions e)\<rparr>" "evs = map CompactionFailed warns"
    using w False p by (auto simp: compact_key_def)
  have pinv: "part_inv E (part_dir E e k) (3 * n + 1) fs p" using engine_invD(3) [OF inv p] by simp
  obtain kept where kp: "part_step E (part_dir E e k) (3 * n + 1 + 3) fs p fs1 p1 kept"
    "\<forall>sig. kept sig = [] \<or> kept sig = sp_rows E fs (get_signal_partition sig p)"
    "warns = [] \<longrightarrow> kept = (\<lambda>sig. sp_rows E fs (get_signal_partition sig p))"
    by (rule compact_partition_step [OF assms(1) pinv _ c]) (use room in simp)
  note pp = put_partition_inv [OF assms(2) inv p kp(1), folded e'(2), folded e'(1)]
  have tk: "table_content E fs e k sig = mset (sp_rows E fs (get_signal_partition sig p))" for sig
    using p by (simp add: table_content_def)
  have same: "mem_content E e' k' sig = mem_content E e k' sig" "e_flush_tx e' = e_flush_tx e" for k' sig
    by (simp_all add: e')
  have "mset (kept sig) \<subseteq># table_content E fs e k sig" for sig
    using kp(2) tk by (metis mset.simps(1) empty_le subset_mset.order_refl)
  then have "content E queued fs' e' k' sig \<subseteq># content E queued fs e k' sig" for k' sig
    by (simp add: content_def pp(2) same)
  moreover have "content E queued fs' e' k' sig = content E queued fs e k' sig" if "evs = []" for k' sig
    using that kp(3) tk by (simp add: content_def pp(2) same e'(3))
  ultimately show ?thesis
    unfolding step_ok_def using pp(1) by (simp add: e'(2))
qed

lemma close_step:
  assumes inv: "engine_inv E queued alive n fs e"
  shows "step_ok E queued alive n fs e fs (e\<lparr>e_closed := True\<rparr>) (\<lambda>_ _. {#}) []"
proof (rule step_okI_eq)
  show "engine_inv E queued alive n fs (e\<lparr>e_closed := True\<rparr>)"
    by (intro engine_invI) (use engine_invD [OF inv] in auto)
qed (simp_all add: content_def)

lemma open_inv:
  assumes "engine_open E config c = Inr e" "queued c = []" "alive c"
    and "\<And>q rest. fs_exists fs q \<Longrightarrow> q \<noteq> data_dir config # rest"
  shows "engine_inv E queued alive 0 fs e" "content E queued fs e k sig = {#}"
proof -
  have e: "e = \<lparr>e_config = config, e_partitions = [], e_memtables = [], e_wals = [], e_flush_tx = c,
      e_closed = False, e_bucket_ns = engine_bucket_ns config\<rparr>"
    using assms(1) by (simp add: engine_open_def split: if_splits)
  have "\<not> fs_exists fs q" if "in_part (part_dir E e k) q" for k q
    using that assms(4) [of q] by (auto simp: in_part_def in_dir_def part_dir_def data_path_def path_join_def e)
  then show "engine_inv E queued alive 0 fs e"
    by (intro engine_invI) (use assms(2,3) in \<open>auto simp: e\<close>)
  show "content E queued fs e k sig = {#}"
    using assms(2) by (simp add: content_def mem_content_def table_content_def e)
qed

lemma accepted_snoc:
  "accepted E b (ops @ [op]) k sig = accepted E b ops k sig + accepted_by E b k sig op"
  by (simp add: accepted_def)

lemma accepted_by_other [simp]:
  "accepted_by E b k sig (OpFlushKey j) = {#}" "accepted_by E b k sig OpFlushWorker = {#}"
  "accepted_by E b k sig (OpCompact j) = {#}" "accepted_by E b k sig OpClose = {#}"
  by (simp_all add: accepted_by_def)

definition run_ok :: "'w storage_env \<Rightarrow> engine_op list \<Rightarrow> fs \<Rightarrow> 'c storage_engine \<Rightarrow> event list \<Rightarrow> bool" where
  "run_ok E ops fs e evs \<longleftrightarrow>
     engine_inv E queued alive (length ops) fs e
   \<and> (\<forall>k sig. content E queued fs e k sig \<subseteq># accepted E (e_bucket_ns e) ops k sig)
   \<and> (evs = [] \<longrightarrow> (\<forall>k sig. content E queued fs e k sig = accepted E (e_bucket_ns e) ops k sig))"

lemma run_ok_step:
  assumes "run_ok E ops fs e evs" "step_ok E queued alive n fs e fs' e' acc evs'" "n \<le> Suc (length ops)"
    and "\<And>k sig. acc k sig = accepted_by E (e_bucket_ns e) k sig op"
  shows "run_ok E (ops @ [op]) fs' e' (evs @ evs')"
proof -
  have inv: "engine_inv E queued alive (length ops) fs e" "engine_inv E queued alive (Suc (length ops)) fs' e'"
    using assms(1-3) engine_inv_mono by (auto simp: run_ok_def step_ok_def)
  have b: "e_bucket_ns e' = e_bucket_ns e"
    using engine_invD(1) [OF inv(1)] engine_invD(1) [OF inv(2)] assms(2) by (simp add: step_ok_def)
  have "content E queued fs' e' k sig \<subseteq># accepted E (e_bucket_ns e) ops k sig + accepted_by E (e_bucket_ns e) k sig op" for k sig
    using assms(1,2,4) unfolding run_ok_def step_ok_def
    by (metis subset_mset.add_right_mono subset_mset.order_trans)
  with assms(1,2,4) inv(2) b show ?thesis
    by (auto simp: run_ok_def step_ok_def accepted_snoc)
qed

lemma engine_run_ok:
  assumes "env_ok E" "utc_hour_injective E"
    and "engine_run E send recv queued alive ops (fs, e) evs" "hours_ok (e_config e)" "3 * length ops + 4 < 2 ^ 64"
  shows "run_ok E ops fs e evs"
  using assms(3-5)
proof (induction ops "(fs, e)" evs arbitrary: fs e rule: engine_run.induct)
  case (run_open config c e fs)
  then show ?case
    using open_inv [OF run_open(1-3)] by (simp add: run_ok_def accepted_def)
next
  case (run_write ops fs e evs r fs' e' evs' res)
  then have h: "hours_ok (e_config e)" using config_write_record by metis
  with run_write have ok: "run_ok E ops fs e evs" by simp
  then have "engine_inv E queued alive (length ops) fs e" by (simp add: run_ok_def)
  with h run_write show ?case
    using assms(1,2) by (intro run_ok_step [OF ok write_record_step]) (auto simp: env_ok_def)
next
  case (run_flush_key ops fs e evs k e')
  then have h: "hours_ok (e_config e)" using config_flush_key by metis
  with run_flush_key have ok: "run_ok E ops fs e evs" by simp
  then have "engine_inv E queued alive (length ops) fs e" by (simp add: run_ok_def)
  with run_flush_key show ?case
    using run_ok_step [OF ok flush_key_step] by fastforce
next
  case (run_flush_worker ops fs e evs fs' e' evs')
  then have h: "hours_ok (e_config e)" using config_workers(1) by metis
  with run_flush_worker have ok: "run_ok E ops fs e evs" by simp
  then have "engine_inv E queued alive (length ops) fs e" by (simp add: run_ok_def)
  with run_flush_worker show ?case
    using assms(1,2) by (intro run_ok_step [OF ok flush_worker_step]) auto
next
  case (run_compact ops fs e evs k fs' e' evs')
  then have h: "hours_ok (e_config e)" using config_workers(2) by metis
  with run_compact have ok: "run_ok E ops fs e evs" by simp
  then have "engine_inv E queued alive (length ops) fs e" by (simp add: run_ok_def)
  with run_compact show ?case
    using assms(1,2) by (intro run_ok_step [OF ok compact_key_step]) auto
next
  case (run_close ops fs e evs)
  then have ok: "run_ok E ops fs e evs" by simp
  then have "engine_inv E queued alive (length ops) fs e" by (simp add: run_ok_def)
  then show ?case
    using run_ok_step [OF ok close_step] by fastforce
qed

end

end
