(* ===== verification/Engine_Properties.thy ===== *)
theory Engine_Properties
  imports Engine_Runs
begin

text \<open>
  The properties of the storage engine: what its runs guarantee about the accepted records, that
  a batch is a sequence of record writes, and that without faults writes make progress.
\<close>

section \<open>Progress without faults\<close>

lemma no_fault_append: "\<exists>fs' w' off. wal_append crc no_faults ty d fs w = (fs', w', Inr off)"
proof -
  have flush: "\<exists>fs' w'. flush_buf no_faults fs w = (fs', w', Inr ())" for fs w
    by (auto simp: flush_buf_def fs_append_def)
  have wr: "\<exists>fs' w'. write_all no_faults b fs w = (fs', w', Inr ())" for b fs w
    using flush [of fs w] by (auto simp: write_all_def Let_def fs_append_def)
  obtain fs1 w1 where 1: "write_all no_faults (entry_header crc ty d) fs w = (fs1, w1, Inr ())"
    using wr by blast
  obtain fs2 w2 where "write_all no_faults d fs1 w1 = (fs2, w2, Inr ())"
    using wr by blast
  with 1 show ?thesis by (simp add: wal_append_def)
qed

lemma no_fault_signal_open: "env_io E = no_faults \<Longrightarrow> \<exists>sp. signal_partition_open E d fs = Inr sp"
  by (simp add: signal_partition_open_def split: prod.split)

lemma no_fault_partition:
  assumes "env_io E = no_faults"
  shows "\<exists>p e'. get_or_create_partition E key fs e = Some (p, e') \<and> e_flush_tx e' = e_flush_tx e"
proof -
  have "\<exists>p. partition_open E d key fs = Inr p" for d
  proof -
    let ?d = "path_join (path_join d ''partitions'') (dir_name E key)"
    obtain a b c where "signal_partition_open E (path_join ?d ''logs'') fs = Inr a"
      "signal_partition_open E (path_join ?d ''metrics'') fs = Inr b"
      "signal_partition_open E (path_join ?d ''spans'') fs = Inr c"
      using no_fault_signal_open [OF assms] by blast
    then show ?thesis by (simp add: partition_open_def Let_def assms)
  qed
  then obtain p where "partition_open E (data_path e) key fs = Inr p" by blast
  then show ?thesis
    by (simp add: get_or_create_partition_def split: option.split)
qed

lemma no_fault_wal:
  assumes "env_io E = no_faults"
  shows "\<exists>fs' w e'. get_or_create_wal E key fs e = Some (fs', w, e') \<and> e_flush_tx e' = e_flush_tx e"
proof -
  obtain p e1 where p: "get_or_create_partition E key fs e = Some (p, e1)" "e_flush_tx e1 = e_flush_tx e"
    using no_fault_partition [OF assms] by blast
  obtain fs1 w where "wal_open no_faults (sp_wal_path (p_logs p)) fs = Inr (fs1, w)"
    by (simp add: wal_open_def fs_open_append_def)
  with p show ?thesis
    by (simp add: get_or_create_wal_def assms split: option.split)
qed

text \<open>A serialisable record is accepted by an engine with a non-zero bucket, and no event is logged
  while the queue has room. A table that is full after the insertion is queued and replaced.\<close>

lemma no_fault_write_step:
  assumes io: "env_io E = no_faults" and "e_bucket_ns e \<noteq> 0" "telemetry_ser E r = Inr d"
    and send: "\<And>req. \<exists>c. send (e_flush_tx e) req = Inr c"
    and key: "for_timestamp (telemetry_ts r) (e_bucket_ns e) = Some key"
    and m: "get_or_create_memtable key e = (m, e1)"
  defines "m' \<equiv> memtable_insert (telemetry_ts r) (signal_as_u8 (telemetry_sig r)) d m"
  shows "\<exists>fs' e'. write_record E send r fs e = Some (fs', e', [], Inr ())
    \<and> (\<not> memtable_is_full m' \<longrightarrow> e_flush_tx e' = e_flush_tx e)
    \<and> (memtable_is_full m' \<longrightarrow> e_memtables e' = dm_put (pk_raw key) (fresh_memtable e) (e_memtables e1)
        \<and> send (e_flush_tx e) \<lparr>fr_imm = m', fr_partition = pk_raw key\<rparr> = Inr (e_flush_tx e'))"
proof -
  have f1: "e_flush_tx e1 = e_flush_tx e" "e_config e1 = e_config e"
    using m by (auto simp: get_or_create_memtable_def split: option.splits)
  obtain fs2 w e2 where g: "get_or_create_wal E key fs e1 = Some (fs2, w, e2)" "e_flush_tx e2 = e_flush_tx e1"
    using no_fault_wal [OF io] by blast
  obtain fs3 w3 off where a: "wal_append (env_crc E) no_faults (telemetry_entry r) d fs2 w = (fs3, w3, Inr off)"
    using no_fault_append by blast
  let ?e3 = "e2\<lparr>e_wals := dm_put (pk_raw key) w3 (e_wals e2)\<rparr>"
  let ?e4 = "?e3\<lparr>e_memtables := dm_put (pk_raw key) m' (e_memtables ?e3)\<rparr>"
  let ?e4' = "?e4\<lparr>e_memtables := dm_put (pk_raw key) (fresh_memtable ?e4) (e_memtables ?e4)\<rparr>"
  obtain p e5 where p: "get_or_create_partition E key fs3 ?e4' = Some (p, e5)" "e_flush_tx e5 = e_flush_tx e2"
    using no_fault_partition [OF io, of key fs3 ?e4'] by auto
  have memtables: "e_memtables e'' = e_memtables e'"
    if "get_or_create_partition E key fs e' = Some (q, e'')" for q fs e' e''
    using that by (auto simp: get_or_create_partition_def split: option.splits sum.splits)
  then have c5: "e_memtables e5 = dm_put (pk_raw key) (fresh_memtable ?e4) (e_memtables e1)"
    using memtables [OF p(1)] g(1)
    by (auto simp: get_or_create_wal_def dm_put_def dest!: memtables split: option.splits sum.splits)
  have c2: "fresh_memtable ?e4 = fresh_memtable e"
    using config_get_or_create(3) [OF g(1)] f1 by (simp add: fresh_memtable_def)
  obtain c where c: "send (e_flush_tx e) \<lparr>fr_imm = m', fr_partition = pk_raw key\<rparr> = Inr c"
    using send by blast
  have "\<exists>e6. maybe_freeze E send key m' fs3 ?e4 = Some (e6, [])
      \<and> (\<not> memtable_is_full m' \<longrightarrow> e_flush_tx e6 = e_flush_tx e)
      \<and> (memtable_is_full m' \<longrightarrow> e_memtables e6 = dm_put (pk_raw key) (fresh_memtable e) (e_memtables e1) \<and> e_flush_tx e6 = c)"
  proof (cases "memtable_is_full m'")
    case True
    with p c c2 c5 g(2) f1 show ?thesis
      unfolding maybe_freeze_def Let_def by simp
  qed (use g(2) f1 in \<open>simp add: maybe_freeze_def\<close>)
  then obtain e6 where "maybe_freeze E send key m' fs3 ?e4 = Some (e6, [])"
    "\<not> memtable_is_full m' \<longrightarrow> e_flush_tx e6 = e_flush_tx e"
    "memtable_is_full m' \<longrightarrow> e_memtables e6 = dm_put (pk_raw key) (fresh_memtable e) (e_memtables e1) \<and> e_flush_tx e6 = c"
    by blast
  with key m g(1) a assms(3) c show ?thesis
    by (simp add: write_record_one write_one_def io telemetry_insert_def Let_def m'_def)
qed

lemma no_fault_write:
  assumes "env_io E = no_faults" "e_bucket_ns e \<noteq> 0" "telemetry_ser E r = Inr d"
    and "\<And>req. \<exists>c. send (e_flush_tx e) req = Inr c"
  shows "\<exists>fs' e'. write_record E send r fs e = Some (fs', e', [], Inr ())
    \<and> (e_flush_tx e' = e_flush_tx e \<or> (\<exists>req. send (e_flush_tx e) req = Inr (e_flush_tx e')))"
proof -
  obtain key where "for_timestamp (telemetry_ts r) (e_bucket_ns e) = Some key"
    using assms(2) by (simp add: for_timestamp_def)
  moreover obtain m e1 where "get_or_create_memtable key e = (m, e1)" by fastforce
  ultimately show ?thesis
    using no_fault_write_step [OF assms(1-3), of send key m e1] assms(4) by blast
qed

section \<open>A clean run\<close>

definition demo_config :: storage_config where
  "demo_config = \<lparr>data_dir = ''d'', memtable_size_bytes = 1, l0_compaction_trigger = 4,
     compaction_interval_secs = 30, partition_hours = 1, parquet_row_group_size = 1000000,
     wal_sync_interval_ms = 100\<rparr>"

definition demo_engine :: "flush_request chan storage_engine" where
  "demo_engine = \<lparr>e_config = demo_config, e_partitions = [], e_memtables = [], e_wals = [],
     e_flush_tx = chan_new 64, e_closed = False, e_bucket_ns = 3600000000000\<rparr>"

definition demo_env :: "record_batch list storage_env" where
  "demo_env = log_env [sample_log]"

definition demo_run ::
  "engine_op list \<Rightarrow> fs \<times> flush_request chan storage_engine \<Rightarrow> event list \<Rightarrow> bool" where
  "demo_run = engine_run demo_env chan_try_send chan_recv ch_items ch_open"

lemma demo_engine_open: "engine_open demo_env demo_config (chan_new 64) = Inr demo_engine"
  by (simp add: engine_open_def demo_env_def log_env_def demo_engine_def engine_bucket_ns_def demo_config_def)

lemma demo_run_open: "demo_run [] ([], demo_engine) []"
  unfolding demo_run_def
  by (rule run_open [OF demo_engine_open]) (simp_all add: chan_new_def fs_exists_def fs_get_def)

lemma demo_env_ok [simp]: "env_ok demo_env" "utc_hour_injective demo_env" "env_io demo_env = no_faults"
proof -
  have "dec_string m = dec_string n \<Longrightarrow> m = n" for m n
    using parse_digits_dec_string by (metis option.inject)
  then show "utc_hour_injective demo_env"
    by (auto simp: utc_hour_injective_def demo_env_def log_env_def sample_env_def dest: eq_nat_nat_iff [THEN iffD1, rotated 2])
qed (simp_all add: demo_env_def log_env_def sample_env_ok)

lemma demo_config_hours [simp]: "hours_ok demo_config" "e_config demo_engine = demo_config"
  by (simp_all add: hours_ok_def demo_config_def demo_engine_def)

definition demo_table :: memtable where
  "demo_table = memtable_insert 7 0 [] (fresh_memtable demo_engine)"

lemma demo_drain:
  "drain_signal s demo_table = (if s = 0 then [(RowKey 7 0 0, [])] else [])"
  by (simp add: demo_table_def drain_signal_def memtable_insert_def fresh_memtable_def memtable_new_def)

lemma demo_run_write:
  "\<exists>fs e. demo_run [OpWrite (RLog sample_log) (Inr ())] (fs, e) []
    \<and> e_config e = demo_config \<and> e_memtables e = [(0, fresh_memtable demo_engine)]
    \<and> ch_items (e_flush_tx e) = [\<lparr>fr_imm = demo_table, fr_partition = 0\<rparr>]"
proof -
  have key: "for_timestamp (telemetry_ts (RLog sample_log)) (e_bucket_ns demo_engine) = Some (PartitionKey 0)"
    by (simp add: for_timestamp_def demo_engine_def sample_log_def)
  have ser: "telemetry_ser demo_env (RLog sample_log) = Inr []"
    by (simp add: demo_env_def log_env_def sample_bincode_def table_ser_def)
  have "\<exists>c. chan_try_send (e_flush_tx demo_engine) req = Inr c" for req
    by (simp add: demo_engine_def chan_new_def chan_try_send_def)
  moreover have "get_or_create_memtable (PartitionKey 0) demo_engine = (fresh_memtable demo_engine,
      demo_engine\<lparr>e_memtables := [(0, fresh_memtable demo_engine)]\<rparr>)"
    by (simp add: get_or_create_memtable_def demo_engine_def dm_put_def)
  moreover have "e_bucket_ns demo_engine \<noteq> 0" by (simp add: demo_engine_def)
  moreover have "memtable_is_full demo_table"
    by (simp add: demo_table_def memtable_is_full_def memtable_used_bytes_def memtable_insert_def
        fresh_memtable_def memtable_new_def row_key_size_def demo_config_def Let_def)
  moreover have "memtable_insert (telemetry_ts (RLog sample_log)) (signal_as_u8 (telemetry_sig (RLog sample_log)))
      [] (fresh_memtable demo_engine) = demo_table"
    by (simp add: demo_table_def signal_as_u8_def sample_log_def)
  ultimately obtain fs e where w: "write_record demo_env chan_try_send (RLog sample_log) [] demo_engine
      = Some (fs, e, [], Inr ())"
    and e: "e_memtables e = [(0, fresh_memtable demo_engine)]"
      "chan_try_send (e_flush_tx demo_engine) \<lparr>fr_imm = demo_table, fr_partition = 0\<rparr> = Inr (e_flush_tx e)"
    using no_fault_write_step [of demo_env demo_engine "RLog sample_log" "[]" chan_try_send "PartitionKey 0"
        "fresh_memtable demo_engine" "demo_engine\<lparr>e_memtables := [(0, fresh_memtable demo_engine)]\<rparr>" "[]"]
    by (auto simp del: telemetry_ts.simps telemetry_ser.simps telemetry_sig.simps write_record.simps
        simp: ser key dm_put_def)
  have "demo_run [OpWrite (RLog sample_log) (Inr ())] (fs, e) []"
    using run_write [OF demo_run_open [unfolded demo_run_def] w] by (simp add: demo_run_def)
  moreover have "ch_items (e_flush_tx e) = [\<lparr>fr_imm = demo_table, fr_partition = 0\<rparr>]"
    using ch.try_send_Inr(1) [OF e(2)] by (simp add: demo_engine_def chan_new_def)
  moreover have "e_config e = demo_config"
    using config_write_record [OF w] by simp
  ultimately show ?thesis using e(1) by blast
qed

lemma demo_flush_immutable:
  "\<exists>fs' p'. flush_immutable demo_env demo_table p fs = Some (fs', p', Inr ())"
proof -
  have "\<exists>fs' p'. flush_signal_logs demo_env p demo_table fs = Some (fs', p', Inr ())"
    using log_env_writes [of "[sample_log]" "sp_dir (p_logs p)" "next_seq (p_logs p)" fs]
    by (auto simp: flush_signal_logs_def flush_signal_with_def demo_drain signal_as_u8_def Let_def oks_def
        take_next_seq_def demo_env_def log_env_def sample_bincode_def table_de_def)
  moreover have "flush_signal_metrics demo_env p demo_table fs = Some (fs, p, Inr ())"
    "flush_signal_spans demo_env p demo_table fs = Some (fs, p, Inr ())" for p fs
    by (simp_all add: flush_signal_metrics_def flush_signal_spans_def flush_signal_with_def demo_drain signal_as_u8_def)
  ultimately show ?thesis by (auto simp: flush_immutable_def)
qed

lemma demo_run_flush:
  "\<exists>fs e. demo_run [OpWrite (RLog sample_log) (Inr ()), OpFlushWorker] (fs, e) []
    \<and> e_memtables e = [(0, fresh_memtable demo_engine)] \<and> ch_items (e_flush_tx e) = []
    \<and> e_config e = demo_config"
proof -
  obtain fs e where r: "demo_run [OpWrite (RLog sample_log) (Inr ())] (fs, e) []"
    and e: "e_memtables e = [(0, fresh_memtable demo_engine)]"
      "ch_items (e_flush_tx e) = [\<lparr>fr_imm = demo_table, fr_partition = 0\<rparr>]" "e_config e = demo_config"
    using demo_run_write by blast
  have "fq.run_ok demo_env [OpWrite (RLog sample_log) (Inr ())] fs e []"
    using r unfolding demo_run_def by (intro fq.engine_run_ok) (simp_all add: e(3))
  then have inv: "engine_inv demo_env ch_items ch_open 1 fs e" by (simp add: fq.run_ok_def)
  then obtain p where p: "dm_get (e_partitions e) 0 = Some p"
    using engine_invD(5) [OF inv, of "\<lparr>fr_imm = demo_table, fr_partition = 0\<rparr>"] e(2) by auto
  obtain fs' p' where "flush_immutable demo_env demo_table p fs = Some (fs', p', Inr ())"
    using demo_flush_immutable by blast
  then have "flush_worker demo_env chan_recv fs e = Some (fs', e\<lparr>e_flush_tx := (e_flush_tx e)\<lparr>ch_items := []\<rparr>,
      e_partitions := dm_put 0 p' (e_partitions e)\<rparr>, [])"
    by (simp add: flush_worker_def chan_recv_def e(2) p)
  then show ?thesis
    using run_flush_worker [OF r [unfolded demo_run_def]] e(1,3) by (fastforce simp: demo_run_def)
qed

section \<open>Batches and flushing everything\<close>

fun batch_telemetry :: "ingest_batch \<Rightarrow> telemetry list" where
  "batch_telemetry (Logs rs) = map RLog rs"
| "batch_telemetry (Metrics rs) = map RMetric rs"
| "batch_telemetry (Spans rs) = map RSpan rs"

definition oks_ops :: "telemetry list \<Rightarrow> engine_op list" where
  "oks_ops ts = map (\<lambda>t. OpWrite t (Inr ())) ts"

lemma write_records_map: "write_records (\<lambda>r. f (g r)) rs fs e = write_records f (map g rs) fs e"
  by (induction rs arbitrary: fs e) (simp_all split: option.split sum.split)

lemma write_batch_records:
  "\<not> e_closed e \<Longrightarrow> write_batch E send b fs e = write_records (write_record E send) (batch_telemetry b) fs e"
proof (cases b)
  case (Logs rs)
  assume "\<not> e_closed e"
  with Logs show ?thesis
    using write_records_map [of "write_record E send" RLog rs fs e] by (simp add: write_batch_def)
next
  case (Metrics rs)
  assume "\<not> e_closed e"
  with Metrics show ?thesis
    using write_records_map [of "write_record E send" RMetric rs fs e] by (simp add: write_batch_def)
next
  case (Spans rs)
  assume "\<not> e_closed e"
  with Spans show ?thesis
    using write_records_map [of "write_record E send" RSpan rs fs e] by (simp add: write_batch_def)
qed

text \<open>The writes of a list of records succeed up to position \<open>n\<close>, where the record fails.\<close>

definition fails_at ::
  "'w storage_env \<Rightarrow> 'c flush_send \<Rightarrow> telemetry list \<Rightarrow> nat \<Rightarrow> storage_error \<Rightarrow> fs \<Rightarrow> 'c storage_engine \<Rightarrow> fs \<Rightarrow> 'c storage_engine \<Rightarrow> bool" where
  "fails_at E send ts n err fs e fs' e' \<longleftrightarrow> n < length ts
   \<and> (\<exists>fs1 e1 evs1 evs2. write_records (write_record E send) (take n ts) fs e = Some (fs1, e1, evs1, Inr ())
        \<and> write_record E send (ts ! n) fs1 e1 = Some (fs', e', evs2, Inl err))"

lemma fails_at_Cons:
  assumes "write_record E send t fs e = Some (fs1, e1, ev1, Inr u)" "fails_at E send ts n err fs1 e1 fs' e'"
  shows "fails_at E send (t # ts) (Suc n) err fs e fs' e'"
  using assms by (fastforce simp: fails_at_def)

lemma write_records_run:
  assumes "engine_run E send recv queued alive ops (fs, e) evs"
    and "write_records (write_record E send) ts fs e = Some (fs', e', evs', r)"
  shows "\<exists>n \<le> length ts. \<exists>failed. (r = Inr () \<longrightarrow> n = length ts \<and> failed = [])
    \<and> (\<forall>err. r = Inl err \<longrightarrow> fails_at E send ts n err fs e fs' e' \<and> failed = [OpWrite (ts ! n) (Inl err)])
    \<and> engine_run E send recv queued alive (ops @ oks_ops (take n ts) @ failed) (fs', e') (evs @ evs')"
  using assms
proof (induction ts arbitrary: ops fs e evs evs')
  case Nil
  then show ?case by (auto simp: oks_ops_def)
next
  case (Cons t ts)
  obtain fs1 e1 ev1 r1 where w: "write_record E send t fs e = Some (fs1, e1, ev1, r1)"
    using Cons.prems(2) by (cases "write_record E send t fs e") auto
  note run1 = run_write [OF Cons.prems(1) w]
  show ?case
  proof (cases r1)
    case (Inl err)
    with w Cons.prems(2) run1 show ?thesis
      by (intro exI [of _ 0] conjI exI [of _ "[OpWrite t (Inl err)]"]) (auto simp: oks_ops_def fails_at_def)
  next
    case (Inr u)
    with w Cons.prems(2) obtain ev2 where
      rest: "write_records (write_record E send) ts fs1 e1 = Some (fs', e', ev2, r)" "evs' = ev1 @ ev2"
      by (auto split: option.splits)
    from Cons.IH [OF run1 rest(1)] obtain n failed where
      "n \<le> length ts" "r = Inr () \<longrightarrow> n = length ts \<and> failed = []"
      "\<forall>err. r = Inl err \<longrightarrow> fails_at E send ts n err fs1 e1 fs' e' \<and> failed = [OpWrite (ts ! n) (Inl err)]"
      "engine_run E send recv queued alive ((ops @ [OpWrite t r1]) @ oks_ops (take n ts) @ failed) (fs', e')
         ((evs @ ev1) @ ev2)" by blast
    with Inr rest(2) show ?thesis
      using fails_at_Cons [OF w [unfolded Inr]]
      by (intro exI [of _ "Suc n"] conjI exI [of _ failed]) (auto simp: oks_ops_def)
  qed
qed

lemma flush_keys_run:
  assumes "engine_run E send recv queued alive ops (fs, e) evs" "flush_keys E send ks fs e = Ready e'"
  shows "engine_run E send recv queued alive (ops @ map OpFlushKey ks) (fs, e') evs"
  using assms
proof (induction ks arbitrary: ops e)
  case (Cons k ks)
  then obtain e1 where "flush_key E send k fs e = Ready e1" "flush_keys E send ks fs e1 = Ready e'"
    by (auto split: poll.splits)
  with Cons.IH [OF run_flush_key [OF Cons.prems(1)]] show ?case by simp
qed simp

lemma dm_remove_absent: "dm_get m k = None \<Longrightarrow> dm_remove k m = m"
  by (auto simp: dm_get_def dm_remove_def map_of_eq_None_iff filter_id_conv)

lemma flush_key_removes:
  assumes "flush_key E send k fs e = Ready e'"
  shows "e_memtables e' = dm_remove k (e_memtables e) \<and> e_closed e' = e_closed e"
proof (cases "dm_get (e_memtables e) k")
  case None
  with assms show ?thesis by (auto simp: flush_key_def dm_remove_absent)
next
  case (Some m)
  have "e_memtables e2 = e_memtables e1 \<and> e_closed e2 = e_closed e1"
    if "get_or_create_partition E key fs e1 = Some (p, e2)" for key p e1 e2
    using that by (auto simp: get_or_create_partition_def split: option.splits sum.splits)
  with assms Some show ?thesis
    by (fastforce simp: flush_key_def Let_def split: option.splits if_splits sum.splits send_error.splits)
qed

lemma flush_keys_removes:
  "flush_keys E send ks fs e = Ready e' \<Longrightarrow>
     e_memtables e' = filter (\<lambda>x. fst x \<notin> set ks) (e_memtables e) \<and> e_closed e' = e_closed e"
proof (induction ks arbitrary: e)
  case (Cons k ks)
  then obtain e1 where "flush_key E send k fs e = Ready e1" "flush_keys E send ks fs e1 = Ready e'"
    by (auto split: poll.splits)
  with Cons.IH flush_key_removes [of E send k fs e e1] show ?case
    by (simp add: dm_remove_def conj_commute)
qed simp

lemma config_flush_keys: "flush_keys E send ks fs e = Ready e' \<Longrightarrow> e_config e' = e_config e"
  by (induction ks arbitrary: e) (auto dest: config_flush_key split: poll.splits)

lemma config_write_records:
  assumes "write_records (write_record E send) ts fs e = Some (fs', e', evs, r)"
  shows "e_config e' = e_config e"
  using assms
proof (induction ts arbitrary: fs e evs)
  case (Cons t ts)
  then obtain fs1 e1 ev1 r1 where w: "write_record E send t fs e = Some (fs1, e1, ev1, r1)"
    by (cases "write_record E send t fs e") auto
  with Cons show ?case
    using config_write_record [OF w] by (auto split: option.splits sum.splits)
qed simp

lemma bucket_get_or_create:
  "get_or_create_memtable key e = (m, e1) \<Longrightarrow> e_bucket_ns e1 = e_bucket_ns e"
  "get_or_create_partition E key fs e = Some (p, e2) \<Longrightarrow> e_bucket_ns e2 = e_bucket_ns e"
  "get_or_create_wal E key fs e = Some (fs3, w, e3) \<Longrightarrow> e_bucket_ns e3 = e_bucket_ns e"
  by (auto simp: get_or_create_memtable_def get_or_create_partition_def get_or_create_wal_def
      split: option.splits sum.splits)

lemma bucket_maybe_freeze: "maybe_freeze E send key mem fs e = Some (e', evs) \<Longrightarrow> e_bucket_ns e' = e_bucket_ns e"
  by (auto simp: maybe_freeze_def Let_def dest!: bucket_get_or_create(2) split: if_splits option.splits sum.splits)

lemma bucket_write_record:
  assumes "write_record E send r fs e = Some (fs', e', evs, res)"
  shows "e_bucket_ns e' = e_bucket_ns e"
  using assms unfolding write_record_one write_one_def
  by (auto simp: Let_def dest!: bucket_get_or_create bucket_maybe_freeze
      split: option.splits sum.splits prod.splits)

lemma accepted_append: "accepted E b (ops @ ops') k sig = accepted E b ops k sig + accepted E b ops' k sig"
  by (simp add: accepted_def)

lemma accepted_close: "accepted E b (OpClose # map (OpFlushKey \<circ> f) ms) k sig = {#}"
  by (induction ms) (simp_all add: accepted_def accepted_by_def)

text \<open>The rows a reader of the file gets.\<close>

definition path_rows :: "'w storage_env \<Rightarrow> fs \<Rightarrow> path \<Rightarrow> cell list list" where
  "path_rows E fs p =
     (case read_parquet E p 65536 fs of Inl _ \<Rightarrow> [] | Inr items \<Rightarrow> batches_rows (oks items))"

lemma paths_table_content:
  "mset (concat (map (path_rows E fs) (sstable_paths_for_signal (signal_as_u8 sig) [k] e)))
    = table_content E fs e k sig"
  by (simp add: sstable_paths_for_signal_def table_content_def sp_rows_def table_rows_def path_rows_def
      meta_parquet_path_def parquet_path_def o_def mset_concat split: option.split)

lemma mem_rows_empty: "memtable_is_empty m \<Longrightarrow> mem_rows E sig m = []"
  by (cases sig) (simp_all add: memtable_is_empty_def drain_signal_def oks_def)

lemma queue_content_Nil [simp]: "queue_content E [] k sig = {#}"
  by (simp add: queue_content_def)

lemmas demo_run_content = fq.flush_queue_axioms demo_env_ok(1,2)

section \<open>Properties\<close>

text \<open>
  C3. The engine neither invents nor duplicates rows, and loses none silently. After any
  interleaving of record writes, flushes, compactions and a close on an engine opened on a data
  directory without tables, the rows held for a partition and signal (active MemTable, queued
  MemTables and tables together) are a sub-multiset of the rows of the writes that returned
  \<open>Ok\<close>. When no warning was logged they are exactly those rows. The bound on the number of
  operations keeps the sequence counters below their wrap-around.
\<close>

theorem engine_contents:
  assumes "flush_queue send recv queued cap alive" "env_ok E" "utc_hour_injective E"
    and "engine_run E send recv queued alive ops (fs, e) evs"
    and "hours_ok (e_config e)" "3 * length ops + 4 < 2 ^ 64"
  shows "content E queued fs e k sig \<subseteq># accepted E (e_bucket_ns e) ops k sig
    \<and> (evs = [] \<longrightarrow> content E queued fs e k sig = accepted E (e_bucket_ns e) ops k sig)"
  using flush_queue.engine_run_ok [OF assms(1-4)] assms(5,6)
  unfolding flush_queue.run_ok_def [OF assms(1)] by blast

theorem engine_contents_witness:
  "\<exists>fs e. demo_run [OpWrite (RLog sample_log) (Inr ())] (fs, e) []
    \<and> content demo_env ch_items fs e 0 Log
        = accepted demo_env (e_bucket_ns e) [OpWrite (RLog sample_log) (Inr ())] 0 Log"
proof -
  obtain fs e where r: "demo_run [OpWrite (RLog sample_log) (Inr ())] (fs, e) []" "e_config e = demo_config"
    using demo_run_write by blast
  from engine_contents [OF demo_run_content this(1) [unfolded demo_run_def], of 0 Log] r show ?thesis
    by auto
qed

text \<open>
  Flushed records are visible to queries. On a run without warnings, once the MemTable of a
  partition is empty or gone and the flush queue is drained, reading the files that
  \<open>sstable_paths_for_signal\<close> returns for the partition gives exactly the rows of the accepted
  writes of that signal and partition.
\<close>

lemma flushed_records_visible:
  assumes "flush_queue send recv queued cap alive" "env_ok E" "utc_hour_injective E"
    and "engine_run E send recv queued alive ops (fs, e) []"
    and "hours_ok (e_config e)" "3 * length ops + 4 < 2 ^ 64"
    and "\<And>m. dm_get (e_memtables e) k = Some m \<Longrightarrow> memtable_is_empty m" "queued (e_flush_tx e) = []"
  shows "mset (concat (map (path_rows E fs) (sstable_paths_for_signal (signal_as_u8 sig) [k] e)))
    = accepted E (e_bucket_ns e) ops k sig"
proof -
  have "mem_content E e k sig = {#}"
    using assms(7) by (auto simp: mem_content_def mem_rows_empty split: option.split)
  then have "content E queued fs e k sig = table_content E fs e k sig"
    using assms(8) by (simp add: content_def)
  then show ?thesis
    using flush_queue.engine_run_ok [OF assms(1-6)]
    unfolding flush_queue.run_ok_def [OF assms(1)] paths_table_content by metis
qed

text \<open>
  C24. Closing drains the MemTables without losing rows. When \<open>close\<close> returns after a run
  without warnings, the engine is closed, no MemTable is left, the rows waiting in the flush queue
  and those in the tables are together exactly the rows of the accepted writes, and every later
  batch is refused with \<open>StorageClosed\<close> and changes nothing.
\<close>

theorem close_drains:
  assumes "flush_queue send recv queued cap alive" "env_ok E" "utc_hour_injective E"
    and "engine_run E send recv queued alive ops (fs, e) []" "engine_close E send fs e = Ready e'"
    and "hours_ok (e_config e)" "3 * (length ops + 1 + length (e_memtables e)) + 4 < 2 ^ 64"
  shows "e_closed e' \<and> e_memtables e' = []
    \<and> (\<forall>k sig. queue_content E (queued (e_flush_tx e')) k sig + table_content E fs e' k sig
          = accepted E (e_bucket_ns e') ops k sig)
    \<and> (\<forall>b. write_batch E send b fs e' = Some (fs, e', [], Inl StorageClosed))"
proof -
  let ?ks = "map fst (e_memtables e)"
  have f: "flush_keys E send ?ks fs (e\<lparr>e_closed := True\<rparr>) = Ready e'"
    using assms(5) by (simp add: engine_close_def flush_all_def)
  have m: "e_memtables e' = []" "e_closed e'"
    using flush_keys_removes [OF f] by (auto simp: filter_empty_conv)
  have "engine_run E send recv queued alive ((ops @ [OpClose]) @ map OpFlushKey ?ks) (fs, e') []"
    by (rule flush_keys_run [OF run_close [OF assms(4)] f])
  then have "flush_queue.run_ok queued alive E ((ops @ [OpClose]) @ map OpFlushKey ?ks) fs e' []"
    using config_flush_keys [OF f] assms(6,7)
    by (intro flush_queue.engine_run_ok [OF assms(1-3)]) simp_all
  then have "content E queued fs e' k sig = accepted E (e_bucket_ns e') ((ops @ [OpClose]) @ map OpFlushKey ?ks) k sig" for k sig
    by (simp add: flush_queue.run_ok_def [OF assms(1)])
  then show ?thesis
    using m by (simp add: accepted_close accepted_append fq.accepted_snoc content_def mem_content_def write_batch_def)
qed

theorem close_drains_witness:
  "\<exists>fs e e'. demo_run [OpWrite (RLog sample_log) (Inr ())] (fs, e) []
    \<and> engine_close demo_env chan_try_send fs e = Ready e'
    \<and> queue_content demo_env (ch_items (e_flush_tx e')) 0 Log + table_content demo_env fs e' 0 Log
        = accepted demo_env (e_bucket_ns e') [OpWrite (RLog sample_log) (Inr ())] 0 Log"
proof -
  obtain fs e where r: "demo_run [OpWrite (RLog sample_log) (Inr ())] (fs, e) []" "e_config e = demo_config"
    "e_memtables e = [(0, fresh_memtable demo_engine)]"
    using demo_run_write by blast
  have c: "engine_close demo_env chan_try_send fs e = Ready (e\<lparr>e_closed := True, e_memtables := []\<rparr>)"
    by (simp add: engine_close_def flush_all_def r(3) flush_key_def dm_get_def fresh_memtable_def memtable_new_def
        memtable_is_empty_def dm_remove_def)
  show ?thesis
    using close_drains [OF demo_run_content r(1) [unfolded demo_run_def] c] r c
    by (intro exI conjI) (assumption | simp)+
qed

text \<open>
  C25. A batch is written record by record up to the first failure. On an open engine whose run
  logged no warning, a batch whose writes log none adds exactly the rows of its first \<open>n\<close>
  records to the contents, where \<open>n\<close> is the whole batch when it returns \<open>Ok\<close>. When it returns an
  error, \<open>n\<close> is the position of the failing record: the records before it are written
  successfully, and writing it in the state they lead to returns that error and ends the batch.
\<close>

theorem write_batch_prefix:
  assumes "flush_queue send recv queued cap alive" "env_ok E" "utc_hour_injective E"
    and "engine_run E send recv queued alive ops (fs, e) []" "\<not> e_closed e"
    and "write_batch E send b fs e = Some (fs', e', [], r)"
    and "hours_ok (e_config e)" "3 * (length ops + batch_len b + 1) + 4 < 2 ^ 64"
  shows "\<exists>n. (r = Inr () \<longrightarrow> n = batch_len b)
    \<and> (\<forall>err. r = Inl err \<longrightarrow> fails_at E send (batch_telemetry b) n err fs e fs' e')
    \<and> (\<forall>k sig. content E queued fs' e' k sig = content E queued fs e k sig
          + accepted E (e_bucket_ns e') (oks_ops (take n (batch_telemetry b))) k sig)"
proof -
  have w: "write_records (write_record E send) (batch_telemetry b) fs e = Some (fs', e', [], r)"
    using assms(5,6) by (simp add: write_batch_records)
  have len: "length (batch_telemetry b) = batch_len b" by (cases b) (simp_all add: batch_len_def)
  from write_records_run [OF assms(4) w] obtain n failed where n: "n \<le> batch_len b"
    "r = Inr () \<longrightarrow> n = batch_len b \<and> failed = []"
    "\<forall>err. r = Inl err \<longrightarrow> fails_at E send (batch_telemetry b) n err fs e fs' e'
      \<and> failed = [OpWrite (batch_telemetry b ! n) (Inl err)]"
    "engine_run E send recv queued alive (ops @ oks_ops (take n (batch_telemetry b)) @ failed) (fs', e') []"
    unfolding len by auto
  have f: "accepted E bk failed k sig = {#}" "length failed \<le> 1" for bk k sig
    using n(2,3) by (cases r; simp add: accepted_def accepted_by_def)+
  have c: "e_config e' = e_config e" by (rule config_write_records [OF w])
  have ok: "flush_queue.run_ok queued alive E ops fs e []"
    "flush_queue.run_ok queued alive E (ops @ oks_ops (take n (batch_telemetry b)) @ failed) fs' e' []"
    using assms(4,7,8) n(1,4) f(2) c len
    by (auto intro!: flush_queue.engine_run_ok [OF assms(1-3)] simp: oks_ops_def)
  then have "e_bucket_ns e' = e_bucket_ns e"
    using c engine_invD(1) by (metis flush_queue.run_ok_def [OF assms(1)])
  with ok have "content E queued fs' e' k sig = content E queued fs e k sig
      + accepted E (e_bucket_ns e') (oks_ops (take n (batch_telemetry b))) k sig" for k sig
    by (simp add: flush_queue.run_ok_def [OF assms(1)] accepted_append f(1))
  with n(2,3) show ?thesis by blast
qed

lemma demo_write: "\<exists>fs e. write_record demo_env chan_try_send (RLog sample_log) [] demo_engine = Some (fs, e, [], Inr ())"
proof -
  have "\<exists>fs e. write_record demo_env chan_try_send (RLog sample_log) [] demo_engine = Some (fs, e, [], Inr ())
      \<and> (e_flush_tx e = e_flush_tx demo_engine
         \<or> (\<exists>req. chan_try_send (e_flush_tx demo_engine) req = Inr (e_flush_tx e)))"
    by (rule no_fault_write [where d = "[]"])
      (simp_all add: demo_engine_def demo_env_def log_env_def sample_bincode_def table_ser_def chan_new_def chan_try_send_def)
  then show ?thesis by blast
qed

text \<open>A record the serialiser refuses ends the batch.\<close>

lemma demo_unserialisable:
  assumes "e_bucket_ns e \<noteq> 0"
  shows "\<exists>e' err. write_record demo_env chan_try_send (RLog (sample_log\<lparr>lr_timestamp_ns := 9\<rparr>)) fs e = Some (fs, e', [], Inl err)"
proof -
  have "\<exists>err. ser_log (env_bincode demo_env) (sample_log\<lparr>lr_timestamp_ns := 9\<rparr>) = Inl err"
    by (simp add: demo_env_def log_env_def sample_bincode_def table_ser_def sample_log_def)
  then show ?thesis
    using assms by (auto simp: write_log_record_def write_one_def for_timestamp_def split: prod.split)
qed

theorem write_batch_prefix_witness:
  "(\<exists>fs e. write_batch demo_env chan_try_send (Logs [sample_log]) [] demo_engine = Some (fs, e, [], Inr ())
    \<and> content demo_env ch_items fs e 0 Log = content demo_env ch_items [] demo_engine 0 Log
        + accepted demo_env (e_bucket_ns e) (oks_ops [RLog sample_log]) 0 Log)
   \<and> (\<exists>fs e err n. write_batch demo_env chan_try_send (Logs [sample_log, sample_log\<lparr>lr_timestamp_ns := 9\<rparr>]) [] demo_engine
        = Some (fs, e, [], Inl err)
    \<and> fails_at demo_env chan_try_send [RLog sample_log, RLog (sample_log\<lparr>lr_timestamp_ns := 9\<rparr>)] n err [] demo_engine fs e)"
proof -
  obtain fs e where r: "write_record demo_env chan_try_send (RLog sample_log) [] demo_engine = Some (fs, e, [], Inr ())"
    using demo_write by blast
  then have w: "write_batch demo_env chan_try_send (Logs [sample_log]) [] demo_engine = Some (fs, e, [], Inr ())"
    by (auto simp: write_batch_def demo_engine_def)
  have "e_bucket_ns e \<noteq> 0" using bucket_write_record [OF r] by (simp add: demo_engine_def)
  then obtain e' err where "write_record demo_env chan_try_send (RLog (sample_log\<lparr>lr_timestamp_ns := 9\<rparr>)) fs e = Some (fs, e', [], Inl err)"
    using demo_unserialisable by blast
  with r have w': "write_batch demo_env chan_try_send (Logs [sample_log, sample_log\<lparr>lr_timestamp_ns := 9\<rparr>]) [] demo_engine
      = Some (fs, e', [], Inl err)"
    by (auto simp: write_batch_def demo_engine_def)
  have o: "\<not> e_closed demo_engine" by (simp add: demo_engine_def)
  note prefix = write_batch_prefix [OF demo_run_content demo_run_open [unfolded demo_run_def] o]
  show ?thesis
    using prefix [OF w] prefix [OF w'] w w' by (auto simp: batch_len_def)
qed

lemma write_records_progress:
  assumes fq: "flush_queue send recv queued cap alive" and io: "env_io E = no_faults"
    and "e_bucket_ns e \<noteq> 0" "\<forall>t \<in> set ts. \<exists>d. telemetry_ser E t = Inr d"
    and "alive (e_flush_tx e)" "length (queued (e_flush_tx e)) + length ts \<le> cap (e_flush_tx e)"
  shows "\<exists>fs' e'. write_records (write_record E send) ts fs e = Some (fs', e', [], Inr ())"
  using assms(3-)
proof (induction ts arbitrary: fs e)
  case (Cons t ts)
  note mpsc = fq [unfolded flush_queue_def]
  obtain d where d: "telemetry_ser E t = Inr d" using Cons.prems(2) by auto
  have room: "\<exists>c. send (e_flush_tx e) req = Inr c" for req
    using mpsc.try_send_ok [OF mpsc, of "e_flush_tx e" req] Cons.prems(3,4) by auto
  obtain fs1 e1 where w: "write_record E send t fs e = Some (fs1, e1, [], Inr ())"
    and tx: "e_flush_tx e1 = e_flush_tx e \<or> (\<exists>req. send (e_flush_tx e) req = Inr (e_flush_tx e1))"
    using no_fault_write [OF io Cons.prems(1) d, of send fs] room by blast
  have "alive (e_flush_tx e1) \<and> length (queued (e_flush_tx e1)) + length ts \<le> cap (e_flush_tx e1)"
    using tx Cons.prems(3,4) mpsc.try_send_Inr [OF mpsc] by fastforce
  moreover have "e_bucket_ns e1 \<noteq> 0"
    using Cons.prems(1) bucket_write_record [OF w] by simp
  ultimately obtain fs2 e2 where "write_records (write_record E send) ts fs1 e1 = Some (fs2, e2, [], Inr ())"
    using Cons.IH [of e1 fs1] Cons.prems(2) by auto
  with w show ?case by simp
qed simp

text \<open>
  C26. Writes make progress. Without device faults, on an open engine whose bucket is non-zero, a
  batch of serialisable records is accepted in full and logs no warning when the flush queue has
  room for as many requests as the batch has records.
\<close>

theorem write_batch_progress:
  assumes "flush_queue send recv queued cap alive" "env_io E = no_faults"
    and "e_bucket_ns e \<noteq> 0" "\<not> e_closed e"
    and "\<forall>t \<in> set (batch_telemetry b). \<exists>d. telemetry_ser E t = Inr d"
    and "alive (e_flush_tx e)" "length (queued (e_flush_tx e)) + batch_len b \<le> cap (e_flush_tx e)"
  shows "\<exists>fs' e'. write_batch E send b fs e = Some (fs', e', [], Inr ())"
proof -
  have "length (batch_telemetry b) = batch_len b" by (cases b) (simp_all add: batch_len_def)
  then show ?thesis
    using write_records_progress [OF assms(1-3,5,6)] assms(4,7) by (simp add: write_batch_records)
qed

theorem write_batch_progress_witness:
  "\<exists>fs e. write_batch demo_env chan_try_send (Logs [sample_log, sample_log]) [] demo_engine = Some (fs, e, [], Inr ())"
  by (rule write_batch_progress [OF fq.flush_queue_axioms demo_env_ok(3)])
    (simp_all add: demo_engine_def demo_env_def log_env_def sample_bincode_def table_ser_def chan_new_def batch_len_def)

end
