(* ===== verification/Replication.thy ===== *)
theory Replication
  imports Membership Engine_Properties "HOL-Library.Sublist"
begin

text \<open>
  Replication (\<open>infralens-cluster/src/replication.rs\<close>): the primary numbers each WAL entry
  and queues it for the replicas, one bounded channel per replica drained by a task; a replica
  applies a received entry to its own storage engine, also from the stream of the internal service
  (\<open>infralens-rpc/src/server.rs\<close>). The channel is a parameter under the contract
  \<open>replica_channel\<close>, which extends the contract of the flush queue's channel by the state of
  a new channel. Delivery over the network is a stub in the sources: an entry taken from the queue
  counts as sent.
\<close>

section \<open>State\<close>

definition buffer_per_replica :: nat where "buffer_per_replica = 4096"

definition wal_entry_log :: u8 where "wal_entry_log = 1"
definition wal_entry_metric :: u8 where "wal_entry_metric = 2"
definition wal_entry_span :: u8 where "wal_entry_span = 3"

record replication_entry =
  re_sequence :: u64
  re_partition_key :: string
  re_signal :: string
  re_wal_bytes :: bytes

record 'c replication_engine =
  rp_min_ack :: u32
  rp_senders :: "(string \<times> 'c) list"
  rp_sequence :: u64

datatype replication_event =
    AddressUnknown string
  | BufferFull string
  | SenderClosed string
  | BelowMinAck u32 u32

definition replication_new :: "cluster_config \<Rightarrow> 'c replication_engine" where
  "replication_new config = \<lparr>rp_min_ack = cc_min_ack_replicas config, rp_senders = [], rp_sequence = 0\<rparr>"

section \<open>The channel\<close>

locale replica_channel = mpsc send recv queued cap alive
  for send :: "'c \<Rightarrow> replication_entry \<Rightarrow> send_error + 'c" and recv :: "'c \<Rightarrow> (replication_entry \<times> 'c) option"
    and queued :: "'c \<Rightarrow> replication_entry list" and cap :: "'c \<Rightarrow> nat" and alive :: "'c \<Rightarrow> bool" +
  fixes fresh :: "nat \<Rightarrow> 'c"
  assumes fresh_channel: "queued (fresh n) = [] \<and> cap (fresh n) = n \<and> alive (fresh n)"
    and recv_alive: "recv c = Some (x, c') \<Longrightarrow> alive c' = alive c"

interpretation rc: replica_channel chan_try_send chan_recv ch_items ch_capacity ch_open chan_new
  by unfold_locales (auto simp: chan_new_def chan_recv_def split: list.splits)

section \<open>The primary\<close>

definition get_or_create_sender ::
  "(nat \<Rightarrow> 'c) \<Rightarrow> string \<Rightarrow> 'c replication_engine \<Rightarrow> 'c \<times> 'c replication_engine" where
  "get_or_create_sender fresh node_id s =
     (case dm_get (rp_senders s) node_id of
        Some tx \<Rightarrow> (tx, s)
      | None \<Rightarrow>
          let tx = fresh buffer_per_replica in
          (tx, s\<lparr>rp_senders := dm_put node_id tx (rp_senders s)\<rparr>))"

definition send_one ::
  "('c \<Rightarrow> replication_entry \<Rightarrow> send_error + 'c) \<Rightarrow> (nat \<Rightarrow> 'c) \<Rightarrow> cluster_view \<Rightarrow> replication_entry \<Rightarrow> string \<Rightarrow>
   'c replication_engine \<Rightarrow> 'c replication_engine \<times> replication_event list \<times> u32" where
  "send_one send fresh view entry node_id s =
     (case grpc_addr node_id view of
        None \<Rightarrow> (s, [AddressUnknown node_id], 0)
      | Some _ \<Rightarrow>
          (case get_or_create_sender fresh node_id s of (tx, s1) \<Rightarrow>
             (case send tx entry of
                Inr tx' \<Rightarrow> (s1\<lparr>rp_senders := dm_put node_id tx' (rp_senders s1)\<rparr>, [], 1)
              | Inl Full \<Rightarrow> (s1, [BufferFull node_id], 0)
              | Inl Closed \<Rightarrow> (s1\<lparr>rp_senders := dm_remove node_id (rp_senders s1)\<rparr>, [SenderClosed node_id], 0))))"

fun send_all ::
  "('c \<Rightarrow> replication_entry \<Rightarrow> send_error + 'c) \<Rightarrow> (nat \<Rightarrow> 'c) \<Rightarrow> cluster_view \<Rightarrow> replication_entry \<Rightarrow> string list \<Rightarrow>
   'c replication_engine \<Rightarrow> 'c replication_engine \<times> replication_event list \<times> u32" where
  "send_all send fresh view entry [] s = (s, [], 0)"
| "send_all send fresh view entry (n # ns) s =
     (case send_one send fresh view entry n s of (s1, evs, a) \<Rightarrow>
       (case send_all send fresh view entry ns s1 of (s2, evs', b) \<Rightarrow> (s2, evs @ evs', a + b)))"

definition replicate_entry ::
  "('c \<Rightarrow> replication_entry \<Rightarrow> send_error + 'c) \<Rightarrow> (nat \<Rightarrow> 'c) \<Rightarrow> cluster_view \<Rightarrow> string list \<Rightarrow> string \<Rightarrow> string \<Rightarrow> bytes \<Rightarrow>
   'c replication_engine \<Rightarrow> 'c replication_engine \<times> replication_event list" where
  "replicate_entry send fresh view replica_node_ids partition_key signal wal_bytes s =
     (let entry = \<lparr>re_sequence = rp_sequence s, re_partition_key = partition_key, re_signal = signal, re_wal_bytes = wal_bytes\<rparr> in
      case send_all send fresh view entry replica_node_ids (s\<lparr>rp_sequence := rp_sequence s + 1\<rparr>) of
        (s1, evs, ack_count) \<Rightarrow>
          (s1, evs @ (if ack_count < rp_min_ack s then [BelowMinAck ack_count (rp_min_ack s)] else [])))"

text \<open>One turn of the task that drains a replica's queue: the entry it sends, if there is one.\<close>

definition replica_send_turn ::
  "('c \<Rightarrow> (replication_entry \<times> 'c) option) \<Rightarrow> string \<Rightarrow> 'c replication_engine \<Rightarrow>
   'c replication_engine \<times> replication_entry list" where
  "replica_send_turn recv node_id s =
     (case dm_get (rp_senders s) node_id of
        None \<Rightarrow> (s, [])
      | Some c \<Rightarrow>
          (case recv c of
             None \<Rightarrow> (s, [])
           | Some (entry, c') \<Rightarrow> (s\<lparr>rp_senders := dm_put node_id c' (rp_senders s)\<rparr>, [entry])))"

section \<open>The replica\<close>

definition apply_batch ::
  "'w storage_env \<Rightarrow> 'q flush_send \<Rightarrow> (string + ingest_batch) \<Rightarrow> fs \<Rightarrow> 'q storage_engine \<Rightarrow>
   (fs \<times> 'q storage_engine \<times> event list \<times> (cluster_error + unit)) option" where
  "apply_batch E send batch fs e =
     (case batch of
        Inl _ \<Rightarrow> Some (fs, e, [], Inr ())
      | Inr b \<Rightarrow>
          map_option (\<lambda>(fs', e', evs, r). (fs', e', evs, map_err (ReplicationFailed ''local'') r)) (write_batch E send b fs e))"

definition apply_replica_entry ::
  "'w storage_env \<Rightarrow> 'q flush_send \<Rightarrow> replication_entry \<Rightarrow> fs \<Rightarrow> 'q storage_engine \<Rightarrow>
   (fs \<times> 'q storage_engine \<times> event list \<times> (cluster_error + unit)) option" where
  "apply_replica_entry E send entry fs e =
     (case re_wal_bytes entry of
        [] \<Rightarrow> Some (fs, e, [], Inr ())
      | ty # data \<Rightarrow>
          let B = env_bincode E in
          if ty = wal_entry_log then
            apply_batch E send (and_then (de_log B data) (\<lambda>r. Inr (Logs [r]))) fs e
          else if ty = wal_entry_metric then
            apply_batch E send (and_then (de_metric B data) (\<lambda>r. Inr (Metrics [r]))) fs e
          else if ty = wal_entry_span then
            apply_batch E send (and_then (de_span B data) (\<lambda>r. Inr (Spans [r]))) fs e
          else Some (fs, e, [], Inr ()))"

record replicate_ack =
  ack_sequence :: u64
  ack_accepted :: bool

text \<open>The handler of the replication stream: one acknowledgement per request, in order.\<close>

fun replicate_stream ::
  "'w storage_env \<Rightarrow> 'q flush_send \<Rightarrow> replication_entry list \<Rightarrow> fs \<Rightarrow> 'q storage_engine \<Rightarrow>
   (fs \<times> 'q storage_engine \<times> event list \<times> replicate_ack list) option" where
  "replicate_stream E send [] fs e = Some (fs, e, [], [])"
| "replicate_stream E send (entry # entries) fs e =
     (case apply_replica_entry E send entry fs e of
        None \<Rightarrow> None
      | Some (fs1, e1, evs, r) \<Rightarrow>
          (case replicate_stream E send entries fs1 e1 of
             None \<Rightarrow> None
           | Some (fs2, e2, evs', acks) \<Rightarrow>
               Some (fs2, e2, evs @ evs', \<lparr>ack_sequence = re_sequence entry, ack_accepted = (\<not> isl r)\<rparr> # acks)))"

section \<open>Runs of the primary\<close>

datatype replication_op =
    RepEntry cluster_view "string list" string string bytes
  | RepTurn string

text \<open>Replication calls and sender turns in any order; \<open>sent\<close> is the history of each replica.\<close>

inductive replication_run ::
  "('c \<Rightarrow> replication_entry \<Rightarrow> send_error + 'c) \<Rightarrow> ('c \<Rightarrow> (replication_entry \<times> 'c) option) \<Rightarrow> (nat \<Rightarrow> 'c) \<Rightarrow> cluster_config \<Rightarrow>
   replication_op list \<Rightarrow> 'c replication_engine \<Rightarrow> (string \<Rightarrow> replication_entry list) \<Rightarrow> replication_event list \<Rightarrow> bool"
  for send recv fresh config where
  rep_new: "replication_run send recv fresh config [] (replication_new config) (\<lambda>_. []) []"
| rep_entry:
    "replication_run send recv fresh config ops s sent evs \<Longrightarrow>
     replicate_entry send fresh view ns pk sig bs s = (s', evs') \<Longrightarrow>
     replication_run send recv fresh config (ops @ [RepEntry view ns pk sig bs]) s' sent (evs @ evs')"
| rep_turn:
    "replication_run send recv fresh config ops s sent evs \<Longrightarrow>
     replica_send_turn recv n s = (s', out) \<Longrightarrow>
     replication_run send recv fresh config (ops @ [RepTurn n]) s' (sent(n := sent n @ out)) evs"

text \<open>The entries a replica was named for, numbered in the order of the calls.\<close>

fun entries_for :: "string \<Rightarrow> nat \<Rightarrow> replication_op list \<Rightarrow> replication_entry list" where
  "entries_for n i [] = []"
| "entries_for n i (RepEntry view ns pk sig bs # ops) =
     replicate (count_list ns n)
       \<lparr>re_sequence = word_of_nat i, re_partition_key = pk, re_signal = sig, re_wal_bytes = bs\<rparr> @ entries_for n (Suc i) ops"
| "entries_for n i (RepTurn m # ops) = entries_for n i ops"

definition entry_calls :: "replication_op list \<Rightarrow> nat" where
  "entry_calls ops = length (filter (\<lambda>op. case op of RepEntry _ _ _ _ _ \<Rightarrow> True | _ \<Rightarrow> False) ops)"

definition waiting :: "('c \<Rightarrow> replication_entry list) \<Rightarrow> 'c replication_engine \<Rightarrow> string \<Rightarrow> replication_entry list" where
  "waiting queued s n = (case dm_get (rp_senders s) n of None \<Rightarrow> [] | Some c \<Rightarrow> queued c)"

definition dropped_for :: "string \<Rightarrow> replication_event \<Rightarrow> bool" where
  "dropped_for n ev \<longleftrightarrow> ev = AddressUnknown n \<or> ev = BufferFull n"

lemma entries_for_append: "entries_for n i (ops @ ops') = entries_for n i ops @ entries_for n (i + entry_calls ops) ops'"
  by (induction n i ops rule: entries_for.induct) (simp_all add: entry_calls_def)

lemma entry_calls_snoc:
  "entry_calls (ops @ [RepEntry v ns pk sg bs]) = Suc (entry_calls ops)" "entry_calls (ops @ [RepTurn n]) = entry_calls ops"
  by (simp_all add: entry_calls_def)

lemma waiting_put:
  "waiting queued (s\<lparr>rp_senders := dm_put n c (rp_senders s)\<rparr>) m = (if m = n then queued c else waiting queued s m)"
  by (simp add: waiting_def)

lemma waiting_sequence [simp]: "waiting queued (s\<lparr>rp_sequence := q\<rparr>) m = waiting queued s m"
  by (simp add: waiting_def)

definition all_alive :: "('c \<Rightarrow> bool) \<Rightarrow> 'c replication_engine \<Rightarrow> bool" where
  "all_alive alive s \<longleftrightarrow> (\<forall>n c. dm_get (rp_senders s) n = Some c \<longrightarrow> alive c)"

lemma subseq_replicate: "k \<le> m \<Longrightarrow> subseq (replicate k x) (replicate m x)"
  by (metis le_add_diff_inverse list_emb_prefix replicate_add subseq_order.order_refl)

context replica_channel
begin

lemma sender_state:
  assumes "get_or_create_sender fresh n s = (tx, s1)" "all_alive alive s"
  shows "alive tx \<and> all_alive alive s1 \<and> queued tx = waiting queued s n \<and> (\<forall>m. waiting queued s1 m = waiting queued s m)
    \<and> rp_sequence s1 = rp_sequence s"
proof (cases "dm_get (rp_senders s) n")
  case None
  then show ?thesis
    using assms fresh_channel
    by (auto simp: get_or_create_sender_def Let_def waiting_def all_alive_def split: if_splits)
next
  case (Some c)
  then show ?thesis using assms by (auto simp: get_or_create_sender_def waiting_def all_alive_def)
qed

lemma send_one_step:
  assumes "send_one send fresh view entry n s = (s', evs, a)" "all_alive alive s"
  shows "all_alive alive s' \<and> rp_sequence s' = rp_sequence s
    \<and> (evs = [] \<and> (\<forall>m. waiting queued s' m = waiting queued s m @ (if m = n then [entry] else []))
      \<or> (\<exists>ev. evs = [ev] \<and> dropped_for n ev) \<and> (\<forall>m. waiting queued s' m = waiting queued s m))"
proof (cases "grpc_addr n view")
  case None
  then show ?thesis using assms by (auto simp: send_one_def dropped_for_def)
next
  case (Some addr)
  obtain tx s1 where g: "get_or_create_sender fresh n s = (tx, s1)" by force
  note st = sender_state [OF g assms(2)]
  show ?thesis
  proof (cases "send tx entry")
    case (Inr tx')
    have s': "s' = s1\<lparr>rp_senders := dm_put n tx' (rp_senders s1)\<rparr>" "evs = []"
      using assms(1) Some g Inr by (simp_all add: send_one_def)
    have "queued tx' = waiting queued s n @ [entry]" "alive tx'"
      using try_send_Inr [OF Inr] st by simp_all
    then show ?thesis
      using st unfolding s' by (auto simp: waiting_put all_alive_def)
  next
    case (Inl err)
    then have "err = Full" using try_send_Inl [of tx entry err] st by simp
    then have "s' = s1" "evs = [BufferFull n]"
      using assms(1) Some g Inl by (simp_all add: send_one_def)
    then show ?thesis using st by (auto simp: dropped_for_def)
  qed
qed

lemma send_all_step:
  assumes "send_all send fresh view entry ns s = (s', evs, a)" "all_alive alive s"
  shows "all_alive alive s' \<and> rp_sequence s' = rp_sequence s
    \<and> (\<forall>m. \<exists>k \<le> count_list ns m. waiting queued s' m = waiting queued s m @ replicate k entry
        \<and> ((\<forall>ev \<in> set evs. \<not> dropped_for m ev) \<longrightarrow> k = count_list ns m))"
  using assms
proof (induction ns arbitrary: s evs a)
  case (Cons n ns)
  obtain s1 ev1 a1 ev2 a2 where o: "send_one send fresh view entry n s = (s1, ev1, a1)"
    "send_all send fresh view entry ns s1 = (s', ev2, a2)" "evs = ev1 @ ev2"
    using Cons.prems(1) by (auto split: prod.splits)
  note one = send_one_step [OF o(1) Cons.prems(2)]
  then have rest: "all_alive alive s'" "rp_sequence s' = rp_sequence s1"
    and ih: "\<exists>k \<le> count_list ns m. waiting queued s' m = waiting queued s1 m @ replicate k entry
        \<and> ((\<forall>ev \<in> set ev2. \<not> dropped_for m ev) \<longrightarrow> k = count_list ns m)" for m
    using Cons.IH [OF o(2)] by blast+
  have "\<exists>k \<le> count_list (n # ns) m. waiting queued s' m = waiting queued s m @ replicate k entry
        \<and> ((\<forall>ev \<in> set evs. \<not> dropped_for m ev) \<longrightarrow> k = count_list (n # ns) m)" for m
  proof -
    obtain k where k: "k \<le> count_list ns m" "waiting queued s' m = waiting queued s1 m @ replicate k entry"
      "(\<forall>ev \<in> set ev2. \<not> dropped_for m ev) \<longrightarrow> k = count_list ns m"
      using ih by blast
    consider "ev1 = []" "waiting queued s1 m = waiting queued s m @ (if m = n then [entry] else [])"
      | ev where "ev1 = [ev]" "dropped_for n ev" "waiting queued s1 m = waiting queued s m"
      using one by auto
    then show ?thesis
    proof cases
      case 1
      then show ?thesis using k o(3) by (intro exI [of _ "if m = n then Suc k else k"]) auto
    next
      case 2
      then show ?thesis using k o(3) by (intro exI [of _ k]) auto
    qed
  qed
  then show ?case using one rest by simp
qed auto

lemma turn_step:
  assumes "replica_send_turn recv n s = (s', out)" "all_alive alive s"
  shows "all_alive alive s' \<and> rp_sequence s' = rp_sequence s
    \<and> (\<forall>m. (if m = n then out else []) @ waiting queued s' m = waiting queued s m)"
proof (cases "dm_get (rp_senders s) n")
  case (Some c)
  show ?thesis
  proof (cases "recv c")
    case None
    then show ?thesis using assms Some by (auto simp: replica_send_turn_def)
  next
    case (Some p)
    obtain entry c' where p: "p = (entry, c')" by force
    then have r: "queued c = entry # queued c'" "alive c' = alive c"
      using recv_Some [of c entry c'] recv_alive [of c entry c'] Some by simp_all
    have "s' = s\<lparr>rp_senders := dm_put n c' (rp_senders s)\<rparr>" "out = [entry]"
      using assms(1) Some p \<open>dm_get (rp_senders s) n = Some c\<close> by (simp_all add: replica_send_turn_def)
    then show ?thesis
      using r assms(2) \<open>dm_get (rp_senders s) n = Some c\<close> by (auto simp: all_alive_def waiting_def)
  qed
qed (use assms in \<open>auto simp: replica_send_turn_def\<close>)

lemma replication_history:
  assumes "replication_run send recv fresh config ops s sent evs"
  shows "all_alive alive s \<and> rp_sequence s = word_of_nat (entry_calls ops)
    \<and> (\<forall>n. subseq (sent n @ waiting queued s n) (entries_for n 0 ops)
      \<and> ((\<forall>ev \<in> set evs. \<not> dropped_for n ev) \<longrightarrow> sent n @ waiting queued s n = entries_for n 0 ops))"
  using assms
proof (induction rule: replication_run.induct)
  case rep_new
  show ?case by (simp add: replication_new_def all_alive_def waiting_def entry_calls_def)
next
  case (rep_entry ops s sent evs view ns pk sg bs s' evs')
  let ?e = "\<lparr>re_sequence = rp_sequence s, re_partition_key = pk, re_signal = sg, re_wal_bytes = bs\<rparr>"
  obtain ev1 a where sa: "send_all send fresh view ?e ns (s\<lparr>rp_sequence := rp_sequence s + 1\<rparr>) = (s', ev1, a)"
    "set ev1 \<subseteq> set evs'"
    using rep_entry.hyps(2) by (auto simp: replicate_entry_def Let_def split: prod.splits)
  have alive: "all_alive alive (s\<lparr>rp_sequence := rp_sequence s + 1\<rparr>)"
    using rep_entry.IH by (simp add: all_alive_def)
  note step = send_all_step [OF sa(1) alive]
  have "subseq (sent n @ waiting queued s' n) (entries_for n 0 (ops @ [RepEntry view ns pk sg bs]))
      \<and> ((\<forall>ev \<in> set (evs @ evs'). \<not> dropped_for n ev) \<longrightarrow>
          sent n @ waiting queued s' n = entries_for n 0 (ops @ [RepEntry view ns pk sg bs]))" for n
  proof -
    obtain k where k: "k \<le> count_list ns n" "waiting queued s' n = waiting queued s n @ replicate k ?e"
      "(\<forall>ev \<in> set ev1. \<not> dropped_for n ev) \<longrightarrow> k = count_list ns n"
      using step by auto
    have all: "entries_for n 0 (ops @ [RepEntry view ns pk sg bs]) = entries_for n 0 ops @ replicate (count_list ns n) ?e"
      using rep_entry.IH by (simp add: entries_for_append)
    have now: "sent n @ waiting queued s' n = (sent n @ waiting queued s n) @ replicate k ?e" using k(2) by simp
    have ih: "subseq (sent n @ waiting queued s n) (entries_for n 0 ops)"
      "(\<forall>ev \<in> set evs. \<not> dropped_for n ev) \<longrightarrow> sent n @ waiting queued s n = entries_for n 0 ops"
      using rep_entry.IH by blast+
    have "k = count_list ns n" if "\<forall>ev \<in> set (evs @ evs'). \<not> dropped_for n ev"
      using that k(3) sa(2) by auto
    then show ?thesis
      unfolding all now using ih list_emb_append_mono [OF ih(1) subseq_replicate [OF k(1), of ?e]] by simp
  qed
  then show ?case using step rep_entry.IH by (simp add: entry_calls_snoc)
next
  case (rep_turn ops s sent evs n s' out)
  have alive: "all_alive alive s" using rep_turn.IH by blast
  note step = turn_step [OF rep_turn.hyps(2) alive]
  then have "(if m = n then out else []) @ waiting queued s' m = waiting queued s m" for m by blast
  from this [symmetric] have "(sent(n := sent n @ out)) m @ waiting queued s' m = sent m @ waiting queued s m" for m
    by simp
  then show ?case using step rep_turn.IH by (simp add: entry_calls_snoc entries_for_append)
qed

end

section \<open>Applying entries\<close>

definition entry_encodes :: "'w storage_env \<Rightarrow> telemetry \<Rightarrow> replication_entry \<Rightarrow> bool" where
  "entry_encodes E t entry \<longleftrightarrow> (\<exists>d. telemetry_ser E t = Inr d \<and> re_wal_bytes entry = telemetry_entry t # d)"

lemmas wal_entry_defs = wal_entry_log_def wal_entry_metric_def wal_entry_span_def ENTRY_LOG_def ENTRY_METRIC_def ENTRY_SPAN_def

lemma apply_encoded:
  assumes "bincode_roundtrips (env_bincode E)" "entry_encodes E t entry" "\<not> e_closed e"
  shows "apply_replica_entry E send entry fs e
    = map_option (\<lambda>(fs', e', evs, r). (fs', e', evs, map_err (ReplicationFailed ''local'') r)) (write_record E send t fs e)"
proof -
  obtain d where d: "telemetry_ser E t = Inr d" "re_wal_bytes entry = telemetry_entry t # d"
    using assms(2) by (auto simp: entry_encodes_def)
  have "write_batch E send b fs e = write_record E send t fs e" if "batch_telemetry b = [t]" for b
    using assms(3) that by (simp add: write_batch_records option.map_ident split: option.split sum.split)
  then show ?thesis
    using assms(1) d
    by (cases t) (simp_all add: apply_replica_entry_def apply_batch_def wal_entry_defs bincode_roundtrips_def Let_def)
qed

lemma closed_get_or_create:
  "get_or_create_memtable key e = (m, e1) \<Longrightarrow> e_closed e1 = e_closed e"
  "get_or_create_partition E key fs e = Some (p, e2) \<Longrightarrow> e_closed e2 = e_closed e"
  "get_or_create_wal E key fs e = Some (fs3, w, e3) \<Longrightarrow> e_closed e3 = e_closed e"
  by (auto simp: get_or_create_memtable_def get_or_create_partition_def get_or_create_wal_def
      split: option.splits sum.splits)

lemma closed_maybe_freeze: "maybe_freeze E send key mem fs e = Some (e', evs) \<Longrightarrow> e_closed e' = e_closed e"
  by (auto simp: maybe_freeze_def Let_def dest!: closed_get_or_create(2) split: if_splits option.splits sum.splits)

lemma closed_write_record:
  assumes "write_record E send r fs e = Some (fs', e', evs, res)"
  shows "e_closed e' = e_closed e"
  using assms unfolding write_record_one write_one_def
  by (auto simp: Let_def dest!: closed_get_or_create closed_maybe_freeze
      split: option.splits sum.splits prod.splits)

text \<open>The stream is a run of the replica's engine, with the outcome of each write acknowledged.\<close>

lemma replicate_stream_run:
  assumes "bincode_roundtrips (env_bincode E)" "engine_run E send recv queued alive ops (fs, e) evs" "\<not> e_closed e"
    and "list_all2 (entry_encodes E) ts entries" "replicate_stream E send entries fs e = Some (fs', e', evs', acks)"
  shows "\<exists>rs. length rs = length ts \<and> map (\<lambda>r. \<not> isl r) rs = map ack_accepted acks
    \<and> map ack_sequence acks = map re_sequence entries \<and> e_config e' = e_config e
    \<and> engine_run E send recv queued alive (ops @ map2 OpWrite ts rs) (fs', e') (evs @ evs')"
  using assms(2-5)
proof (induction entries arbitrary: ops fs e evs ts evs' acks)
  case Nil
  then show ?case by auto
next
  case (Cons entry entries)
  obtain t us where t: "ts = t # us" "entry_encodes E t entry" "list_all2 (entry_encodes E) us entries"
    using Cons.prems(3) by (auto simp: list_all2_Cons2)
  obtain fs1 e1 ev1 r where w: "write_record E send t fs e = Some (fs1, e1, ev1, r)"
    using Cons.prems(4) apply_encoded [OF assms(1) t(2) Cons.prems(2), of send fs]
    by (cases "write_record E send t fs e") auto
  then have ap: "apply_replica_entry E send entry fs e = Some (fs1, e1, ev1, map_err (ReplicationFailed ''local'') r)"
    using apply_encoded [OF assms(1) t(2) Cons.prems(2), of send fs] by simp
  obtain ev2 acks' where rest: "replicate_stream E send entries fs1 e1 = Some (fs', e', ev2, acks')" "evs' = ev1 @ ev2"
    "acks = \<lparr>ack_sequence = re_sequence entry, ack_accepted = (\<not> isl r)\<rparr> # acks'"
    using Cons.prems(4) ap by (cases r) (auto simp: map_err_def split: option.splits)
  have "\<not> e_closed e1" using closed_write_record [OF w] Cons.prems(2) by simp
  from Cons.IH [OF run_write [OF Cons.prems(1) w] this t(3) rest(1)] obtain rs where
    "length rs = length us" "map (\<lambda>r. \<not> isl r) rs = map ack_accepted acks'"
    "map ack_sequence acks' = map re_sequence entries" "e_config e' = e_config e1"
    "engine_run E send recv queued alive ((ops @ [OpWrite t r]) @ map2 OpWrite us rs) (fs', e') ((evs @ ev1) @ ev2)"
    by blast
  then show ?case
    using t(1) rest(2,3) config_write_record [OF w] by (intro exI [of _ "r # rs"]) simp
qed

lemma accepted_writes:
  "length rs = length ts \<Longrightarrow> map (\<lambda>r. \<not> isl r) rs = flags \<Longrightarrow>
   accepted E b (map2 OpWrite ts rs) k sig = accepted E b (oks_ops (map fst (filter snd (zip ts flags)))) k sig"
proof (induction ts rs arbitrary: flags rule: list_induct2')
  case (4 t ts r rs)
  then obtain flags' where f: "flags = (\<not> isl r) # flags'" "map (\<lambda>r. \<not> isl r) rs = flags'" by auto
  have "accepted E b (map2 OpWrite ts rs) k sig = accepted E b (oks_ops (map fst (filter snd (zip ts flags')))) k sig"
    using 4 f(2) by simp
  then show ?case using f(1) by (cases r) (simp_all add: accepted_def accepted_by_def oks_ops_def)
qed (simp_all add: accepted_def oks_ops_def)

section \<open>Properties\<close>

text \<open>
  C23. The primary keeps the order of its replicas' streams. In any interleaving of replication
  calls and sender turns, what was sent to a replica followed by what waits in its queue is a
  subsequence of the entries it was named for, numbered in the order of the calls. It is exactly
  these entries when no unknown address and no full buffer was logged for the replica.
\<close>

theorem replication_order:
  assumes "replica_channel send recv queued cap alive fresh"
    and "replication_run send recv fresh config ops s sent evs"
  shows "subseq (sent n @ waiting queued s n) (entries_for n 0 ops)
    \<and> ((\<forall>ev \<in> set evs. \<not> dropped_for n ev) \<longrightarrow> sent n @ waiting queued s n = entries_for n 0 ops)
    \<and> rp_sequence s = word_of_nat (entry_calls ops)"
  using replica_channel.replication_history [OF assms] by blast

definition pair_view :: cluster_view where
  "pair_view = \<lparr>cv_nodes = [\<lparr>nm_node_id = ''b'', nm_internal_grpc_addr = ''b:4319'', nm_version = ''1'', nm_started_at_ns = 0\<rparr>],
     cv_ring = ring_new 2\<rparr>"

theorem replication_order_witness:
  "\<exists>s sent. replication_run chan_try_send chan_recv chan_new cluster_config_default
      [RepEntry pair_view [''b'', ''b''] ''p'' ''logs'' [1], RepTurn ''b''] s sent []
    \<and> sent ''b'' @ waiting ch_items s ''b''
        = replicate 2 \<lparr>re_sequence = 0, re_partition_key = ''p'', re_signal = ''logs'', re_wal_bytes = [1]\<rparr>"
proof -
  let ?run = "replication_run chan_try_send chan_recv chan_new cluster_config_default"
  obtain s where s: "replicate_entry chan_try_send chan_new pair_view [''b'', ''b''] ''p'' ''logs'' [1]
      (replication_new cluster_config_default) = (s, [])"
    by (simp add: replicate_entry_def replication_new_def send_one_def pair_view_def grpc_addr_def get_or_create_sender_def
        chan_new_def chan_try_send_def buffer_per_replica_def cluster_config_default_def Let_def)
  obtain s' out where "replica_send_turn chan_recv ''b'' s = (s', out)" by force
  then obtain sent where run: "?run [RepEntry pair_view [''b'', ''b''] ''p'' ''logs'' [1], RepTurn ''b''] s' sent []"
    using rep_turn [OF rep_entry [OF rep_new s]] by fastforce
  then show ?thesis
    using replication_order [OF rc.replica_channel_axioms run, of "''b''"] by (auto simp: numeral_2_eq_2)
qed

text \<open>
  C9. A replica reproduces the records it acknowledges. On an open engine whose run logged no
  warning, a stream of entries that encode telemetry records is acknowledged entry by entry, in
  order, and adds to the contents exactly the rows of the records whose acknowledgement says
  accepted.
\<close>

theorem replica_applies:
  assumes "flush_queue send recv queued cap alive" "env_ok E" "utc_hour_injective E"
    and "engine_run E send recv queued alive ops (fs, e) []" "\<not> e_closed e"
    and "list_all2 (entry_encodes E) ts entries" "replicate_stream E send entries fs e = Some (fs', e', [], acks)"
    and "hours_ok (e_config e)" "3 * (length ops + length ts) + 4 < 2 ^ 64"
  shows "map ack_sequence acks = map re_sequence entries
    \<and> (\<forall>k sig. content E queued fs' e' k sig = content E queued fs e k sig
        + accepted E (e_bucket_ns e') (oks_ops (map fst (filter snd (zip ts (map ack_accepted acks))))) k sig)"
proof -
  have "bincode_roundtrips (env_bincode E)" using assms(2) by (simp add: env_ok_def)
  from replicate_stream_run [OF this assms(4-7)] obtain rs where rs:
    "length rs = length ts" "map (\<lambda>r. \<not> isl r) rs = map ack_accepted acks"
    "map ack_sequence acks = map re_sequence entries" "e_config e' = e_config e"
    "engine_run E send recv queued alive (ops @ map2 OpWrite ts rs) (fs', e') []"
    by auto
  have ok: "flush_queue.run_ok queued alive E ops fs e []"
    "flush_queue.run_ok queued alive E (ops @ map2 OpWrite ts rs) fs' e' []"
    using assms(4,8,9) rs(1,4,5) by (auto intro!: flush_queue.engine_run_ok [OF assms(1-3)])
  then have "e_bucket_ns e' = e_bucket_ns e"
    using rs(4) engine_invD(1) by (metis flush_queue.run_ok_def [OF assms(1)])
  with ok rs(1-3) show ?thesis
    by (simp add: flush_queue.run_ok_def [OF assms(1)] accepted_append accepted_writes)
qed

theorem replica_applies_witness:
  "\<exists>fs e acks. replicate_stream demo_env chan_try_send
        [\<lparr>re_sequence = 5, re_partition_key = [], re_signal = ''logs'', re_wal_bytes = [1]\<rparr>] [] demo_engine = Some (fs, e, [], acks)
    \<and> map ack_sequence acks = [5] \<and> content demo_env ch_items fs e 0 Log
        = content demo_env ch_items [] demo_engine 0 Log + accepted demo_env (e_bucket_ns e) (oks_ops [RLog sample_log]) 0 Log"
proof -
  let ?entry = "\<lparr>re_sequence = 5, re_partition_key = [], re_signal = ''logs'', re_wal_bytes = [1]\<rparr> :: replication_entry"
  have ser: "telemetry_ser demo_env (RLog sample_log) = Inr []"
    by (simp add: demo_env_def log_env_def sample_bincode_def table_ser_def)
  then have enc: "entry_encodes demo_env (RLog sample_log) ?entry"
    by (simp add: entry_encodes_def wal_entry_defs del: telemetry_ser.simps)
  have "\<exists>fs e. write_record demo_env chan_try_send (RLog sample_log) [] demo_engine = Some (fs, e, [], Inr ())
      \<and> (e_flush_tx e = e_flush_tx demo_engine
         \<or> (\<exists>req. chan_try_send (e_flush_tx demo_engine) req = Inr (e_flush_tx e)))"
    by (rule no_fault_write [where d = "[]"])
      (simp_all add: demo_engine_def demo_env_def log_env_def sample_bincode_def table_ser_def chan_new_def chan_try_send_def)
  then obtain fs e where w: "write_record demo_env chan_try_send (RLog sample_log) [] demo_engine = Some (fs, e, [], Inr ())"
    by blast
  have o: "\<not> e_closed demo_engine" by (simp add: demo_engine_def)
  have rt: "bincode_roundtrips (env_bincode demo_env)" using demo_env_ok(1) by (simp add: env_ok_def)
  have st: "replicate_stream demo_env chan_try_send [?entry] [] demo_engine
      = Some (fs, e, [], [\<lparr>ack_sequence = 5, ack_accepted = True\<rparr>])"
    using apply_encoded [OF rt enc o, of chan_try_send "[]"] w by (simp add: map_err_def)
  have encs: "list_all2 (entry_encodes demo_env) [RLog sample_log] [?entry]" using enc by simp
  show ?thesis
    using replica_applies [OF demo_run_content demo_run_open [unfolded demo_run_def] o encs st] st
    by simp
qed

end
