(* ===== verification/Rpc.thy ===== *)
theory Rpc
  imports Membership
begin

text \<open>
  The internal service of a node and the distributed query coordinator (crate
  \<open>infralens-rpc\<close>: \<open>scatter_gather.rs\<close>, \<open>server.rs\<close>, messages of
  \<open>internal.proto\<close>). The transport, the Arrow IPC reader and the order in which a
  \<open>JoinSet\<close> yields its tasks are parameters. A response stream is the list of the results of
  \<open>message()\<close>: a message, or the text of the error; the stream is over where the list ends.
\<close>

section \<open>Messages\<close>

record shard_query_request =
  sq_query_id :: string
  sq_plan_bytes :: bytes
  sq_start_ns :: u64
  sq_end_ns :: u64
  sq_signal :: string
  sq_max_rows :: u32

record shard_query_response =
  sh_record_batch_ipc :: bytes
  sh_is_last :: bool
  sh_rows_returned :: u64
  sh_error :: string

record sync_shard_chunk =
  sy_filename :: string
  sy_data :: bytes
  sy_is_last_chunk :: bool
  sy_is_last_file :: bool

record node_stats =
  ns_memtable_bytes :: u64
  ns_sstable_count :: u64
  ns_ingested_total :: u64
  ns_ingest_rate_per_s :: f64

record node_info =
  ni_node_id :: string
  ni_version :: string
  ni_primary_shards :: "string list"
  ni_replica_shards :: "string list"
  ni_ring_version :: u64
  ni_ready :: bool
  ni_stats :: "node_stats option"

section \<open>The service of a node\<close>

definition query_shard :: "shard_query_request \<Rightarrow> shard_query_response list" where
  "query_shard req = [\<lparr>sh_record_batch_ipc = [], sh_is_last = True, sh_rows_returned = 0, sh_error = ''''\<rparr>]"

definition sync_shard :: "sync_shard_chunk list" where
  "sync_shard = [\<lparr>sy_filename = '''', sy_data = [], sy_is_last_chunk = True, sy_is_last_file = True\<rparr>]"

definition get_node_info :: "fp_ops \<Rightarrow> string \<Rightarrow> string \<Rightarrow> node_info" where
  "get_node_info F version node_id =
     \<lparr>ni_node_id = node_id, ni_version = version, ni_primary_shards = [], ni_replica_shards = [],
      ni_ring_version = 0, ni_ready = True,
      ni_stats = Some \<lparr>ns_memtable_bytes = 0, ns_sstable_count = 0, ns_ingested_total = 0,
                       ns_ingest_rate_per_s = fp_lit F ''0.0''\<rparr>\<rparr>"

section \<open>The coordinator\<close>

text \<open>
  What the coordinator uses of its libraries: opening a channel, sending a request, reading the
  record batches of an Arrow IPC stream, the order in which \<open>n\<close> spawned tasks are joined and
  the tasks that end with a join error.
\<close>

record rpc_env =
  rn_connect :: "string \<Rightarrow> string + unit"
  rn_query :: "string \<Rightarrow> shard_query_request \<Rightarrow> string + (string + shard_query_response) list"
  rn_ipc :: "bytes \<Rightarrow> string + (string + record_batch) list"
  rn_order :: "nat \<Rightarrow> nat list"
  rn_join_error :: "nat \<Rightarrow> bool"

definition read_ipc :: "rpc_env \<Rightarrow> bytes \<Rightarrow> string + record_batch list" where
  "read_ipc N ipc = (if ipc = [] then Inr [] else and_then (rn_ipc N ipc) (collect_r id))"

fun read_stream ::
  "rpc_env \<Rightarrow> (string + shard_query_response) list \<Rightarrow> record_batch list \<Rightarrow> string + record_batch list" where
  "read_stream N [] batches = Inr batches"
| "read_stream N (Inl e # _) batches = Inl e"
| "read_stream N (Inr resp # msgs) batches =
     (if sh_error resp \<noteq> '''' then Inl (sh_error resp)
      else and_then (read_ipc N (sh_record_batch_ipc resp)) (\<lambda>bs.
        if sh_is_last resp then Inr (batches @ bs) else read_stream N msgs (batches @ bs)))"

definition query_single_shard :: "rpc_env \<Rightarrow> string \<Rightarrow> shard_query_request \<Rightarrow> string + record_batch list" where
  "query_single_shard N addr req =
     and_then (rn_connect N (''http://'' @ addr)) (\<lambda>_.
       and_then (rn_query N addr req) (\<lambda>msgs. read_stream N msgs []))"

record scatter_result =
  sr_batches :: "record_batch list"
  sr_error_nodes :: "string list"

fun spawn_tasks ::
  "rpc_env \<Rightarrow> cluster_view \<Rightarrow> shard_query_request \<Rightarrow> string list \<Rightarrow> (string \<times> (string + record_batch list)) list" where
  "spawn_tasks N view req [] = []"
| "spawn_tasks N view req (node_id # ids) =
     (case grpc_addr node_id view of
        Some addr \<Rightarrow> (node_id, query_single_shard N addr req) # spawn_tasks N view req ids
      | None \<Rightarrow> spawn_tasks N view req ids)"

definition gather ::
  "rpc_env \<Rightarrow> (string \<times> (string + record_batch list)) list \<Rightarrow> nat \<Rightarrow> scatter_result \<Rightarrow> scatter_result" where
  "gather N tasks i r =
     (if rn_join_error N i then r
      else case tasks ! i of
             (node_id, Inr batches) \<Rightarrow> r\<lparr>sr_batches := sr_batches r @ batches\<rparr>
           | (node_id, Inl e) \<Rightarrow> r\<lparr>sr_error_nodes := sr_error_nodes r @ [node_id]\<rparr>)"

definition scatter_execute ::
  "rpc_env \<Rightarrow> cluster_view \<Rightarrow> string \<Rightarrow> bytes \<Rightarrow> u64 \<Rightarrow> u64 \<Rightarrow> string \<Rightarrow> string list \<Rightarrow> scatter_result" where
  "scatter_execute N view query_id plan_bytes start_ns end_ns signal target_nodes =
     (let req = \<lparr>sq_query_id = query_id, sq_plan_bytes = plan_bytes, sq_start_ns = start_ns,
                 sq_end_ns = end_ns, sq_signal = signal, sq_max_rows = 0\<rparr>;
          tasks = spawn_tasks N view req target_nodes in
      fold (gather N tasks) (rn_order N (length tasks)) \<lparr>sr_batches = [], sr_error_nodes = []\<rparr>)"

section \<open>Specification\<close>

definition shard_answer :: "rpc_env \<Rightarrow> cluster_view \<Rightarrow> shard_query_request \<Rightarrow> string \<Rightarrow> (string + record_batch list) option" where
  "shard_answer N view req n = map_option (\<lambda>addr. query_single_shard N addr req) (grpc_addr n view)"

fun answer_batches :: "(string + record_batch list) option \<Rightarrow> record_batch list" where
  "answer_batches (Some (Inr bs)) = bs"
| "answer_batches _ = []"

fun answer_failed :: "(string + record_batch list) option \<Rightarrow> bool" where
  "answer_failed (Some (Inl _)) = True"
| "answer_failed _ = False"

text \<open>The targets of the view get a task each; the shards of the tasks that were joined.\<close>

definition asked_shards :: "cluster_view \<Rightarrow> string list \<Rightarrow> string list" where
  "asked_shards view targets = filter (\<lambda>n. grpc_addr n view \<noteq> None) targets"

definition joined_shards :: "rpc_env \<Rightarrow> cluster_view \<Rightarrow> string list \<Rightarrow> string list" where
  "joined_shards N view targets =
     (let asked = asked_shards view targets in
      map ((!) asked) (filter (\<lambda>i. \<not> rn_join_error N i) [0..<length asked]))"

text \<open>Every node of the cluster is reachable and answers with the service's own handler.\<close>

definition served_by_handler :: "rpc_env \<Rightarrow> bool" where
  "served_by_handler N \<longleftrightarrow>
     (\<forall>addr req. rn_connect N addr = Inr () \<and> rn_query N addr req = Inr (map Inr (query_shard req)))"

lemma spawn_tasks_answers:
  "spawn_tasks N view req ids = map (\<lambda>n. (n, the (shard_answer N view req n))) (asked_shards view ids)"
  by (induction ids) (auto simp: shard_answer_def asked_shards_def)

lemma gather_collects:
  "mset (sr_batches (fold (gather N tasks) is r)) = mset (sr_batches r)
     + (\<Sum>i\<in>#{#i \<in># mset is. \<not> rn_join_error N i#}. mset (answer_batches (Some (snd (tasks ! i)))))"
  "mset (sr_error_nodes (fold (gather N tasks) is r)) = mset (sr_error_nodes r)
     + image_mset (\<lambda>i. fst (tasks ! i)) {#i \<in># mset is. \<not> rn_join_error N i \<and> answer_failed (Some (snd (tasks ! i)))#}"
  by (induction "is" arbitrary: r) (auto simp: gather_def split: sum.splits prod.splits)

lemma answer_asked: "n \<in> set (asked_shards view ids) \<Longrightarrow> Some (the (shard_answer N view req n)) = shard_answer N view req n"
  by (auto simp: asked_shards_def shard_answer_def)

lemma answer_unasked:
  "grpc_addr n view = None \<Longrightarrow> answer_batches (shard_answer N view req n) = [] \<and> \<not> answer_failed (shard_answer N view req n)"
  by (simp add: shard_answer_def)

lemma joined_everything:
  assumes "\<forall>i. \<not> rn_join_error N i"
  shows "joined_shards N view ids = asked_shards view ids"
  using assms by (simp add: joined_shards_def Let_def map_nth)

lemma asked_answers:
  "(\<Sum>n\<in>#mset (asked_shards view ids). mset (answer_batches (shard_answer N view req n)))
     = (\<Sum>n\<in>#mset ids. mset (answer_batches (shard_answer N view req n)))"
  "filter (\<lambda>n. answer_failed (shard_answer N view req n)) (asked_shards view ids)
     = filter (\<lambda>n. answer_failed (shard_answer N view req n)) ids"
  by (induction ids) (auto simp: asked_shards_def answer_unasked)

lemma read_stream_handler: "read_stream N (map Inr (query_shard req)) bs = Inr bs"
  by (simp add: query_shard_def read_ipc_def)

lemma query_handler: "served_by_handler N \<Longrightarrow> query_single_shard N addr req = Inr []"
  by (simp add: served_by_handler_def query_single_shard_def read_stream_handler)

lemma answer_handler: "served_by_handler N \<Longrightarrow> answer_batches (shard_answer N view req n) = [] \<and> \<not> answer_failed (shard_answer N view req n)"
  by (cases "grpc_addr n view") (simp_all add: shard_answer_def query_handler)

text \<open>
  C10. A distributed query gathers what the shards return. Whatever the order in which the shards
  finish, the batches are those of the asked shards whose task was joined and that answered, with
  their multiplicities, and the error nodes are the asked shards whose task was joined and whose
  query failed; the asked shards are the targets of the view. A shard whose task ends with a join
  error, and a target outside the view, appears in neither: the result does not show that it is
  missing. When every task is joined, the batches and error nodes are those of all the targets. The
  batches are concatenated, neither sorted nor limited, and a failed shard is not asked again. When
  the nodes run the service's own handler the result is empty, whatever they store.
\<close>

theorem scatter_gather_complete:
  assumes order: "\<And>n. mset (rn_order N n) = mset [0..<n]"
    and req: "req = \<lparr>sq_query_id = query_id, sq_plan_bytes = plan, sq_start_ns = start_ns, sq_end_ns = end_ns,
                     sq_signal = signal, sq_max_rows = 0\<rparr>"
    and result: "r = scatter_execute N view query_id plan start_ns end_ns signal targets"
  shows "mset (sr_batches r) = (\<Sum>n\<in>#mset (joined_shards N view targets). mset (answer_batches (shard_answer N view req n))) \<and>
         mset (sr_error_nodes r) = mset (filter (\<lambda>n. answer_failed (shard_answer N view req n)) (joined_shards N view targets)) \<and>
         ((\<forall>i. \<not> rn_join_error N i) \<longrightarrow>
           mset (sr_batches r) = (\<Sum>n\<in>#mset targets. mset (answer_batches (shard_answer N view req n))) \<and>
           mset (sr_error_nodes r) = mset (filter (\<lambda>n. answer_failed (shard_answer N view req n)) targets)) \<and>
         (served_by_handler N \<longrightarrow> r = \<lparr>sr_batches = [], sr_error_nodes = []\<rparr>)"
proof -
  define asked where "asked = asked_shards view targets"
  define tasks where "tasks = map (\<lambda>n. (n, the (shard_answer N view req n))) asked"
  have r: "r = fold (gather N tasks) (rn_order N (length tasks)) \<lparr>sr_batches = [], sr_error_nodes = []\<rparr>"
    by (simp add: result scatter_execute_def spawn_tasks_answers tasks_def asked_def req Let_def)
  have task: "fst (tasks ! i) = asked ! i" "Some (snd (tasks ! i)) = shard_answer N view req (asked ! i)"
    if "i < length asked" for i
    using that answer_asked [of "asked ! i" view targets] by (simp_all add: tasks_def asked_def)
  have len: "length tasks = length asked" by (simp add: tasks_def)
  have joined: "mset (joined_shards N view targets) = image_mset ((!) asked) {#i \<in># mset [0..<length tasks]. \<not> rn_join_error N i#}"
    by (simp add: joined_shards_def asked_def [symmetric] len)
  have batches: "mset (sr_batches r) = (\<Sum>n\<in>#mset (joined_shards N view targets). mset (answer_batches (shard_answer N view req n)))"
    unfolding r gather_collects(1) order joined
    by (auto simp: multiset.map_comp comp_def task len intro!: arg_cong [where f = sum_mset] image_mset_cong)
  let ?failed = "{#i \<in># mset [0..<length tasks]. \<not> rn_join_error N i \<and> answer_failed (shard_answer N view req (asked ! i))#}"
  have failed: "{#i \<in># mset [0..<length tasks]. \<not> rn_join_error N i \<and> answer_failed (Some (snd (tasks ! i)))#} = ?failed"
    by (intro filter_mset_cong) (auto simp: task len)
  have "mset (sr_error_nodes r) = image_mset (\<lambda>i. fst (tasks ! i)) ?failed"
    unfolding r gather_collects(2) order failed by simp
  also have "\<dots> = image_mset ((!) asked) ?failed"
    by (intro image_mset_cong) (simp add: task(1) len)
  also have "\<dots> = mset (filter (\<lambda>n. answer_failed (shard_answer N view req n)) (joined_shards N view targets))"
    by (simp add: joined filter_mset_image_mset filter_filter_mset comp_def)
  finally have errors: "mset (sr_error_nodes r) = \<dots>" .
  have "r = \<lparr>sr_batches = [], sr_error_nodes = []\<rparr>" if "served_by_handler N"
    using batches errors answer_handler [OF that] by (cases r) simp
  moreover have "mset (sr_batches r) = (\<Sum>n\<in>#mset targets. mset (answer_batches (shard_answer N view req n))) \<and>
      mset (sr_error_nodes r) = mset (filter (\<lambda>n. answer_failed (shard_answer N view req n)) targets)"
    if "\<forall>i. \<not> rn_join_error N i"
    using batches errors unfolding joined_everything [OF that] asked_answers by blast
  ultimately show ?thesis using batches errors by blast
qed

definition sample_batch :: record_batch where
  "sample_batch = \<lparr>rb_schema = [field_new ''n'' DT_Int64 False], rb_columns = [Int64Array [Some 7]]\<rparr>"

definition sample_rpc :: rpc_env where
  "sample_rpc = \<lparr>
     rn_connect = (\<lambda>addr. if addr = ''http://b:1'' then Inl ''connection refused'' else Inr ()),
     rn_query = (\<lambda>addr req. Inr [Inr \<lparr>sh_record_batch_ipc = [1], sh_is_last = False, sh_rows_returned = 1, sh_error = ''''\<rparr>,
                                Inr \<lparr>sh_record_batch_ipc = [2], sh_is_last = True, sh_rows_returned = 1, sh_error = ''''\<rparr>]),
     rn_ipc = (\<lambda>ipc. Inr [Inr sample_batch]),
     rn_order = (\<lambda>n. rev [0..<n]), rn_join_error = (\<lambda>_. False)\<rparr>"

definition sample_targets :: cluster_view where
  "sample_targets = \<lparr>
     cv_nodes = [\<lparr>nm_node_id = ''a'', nm_internal_grpc_addr = ''a:1'', nm_version = '''', nm_started_at_ns = 0\<rparr>,
                 \<lparr>nm_node_id = ''b'', nm_internal_grpc_addr = ''b:1'', nm_version = '''', nm_started_at_ns = 0\<rparr>],
     cv_ring = ring_new 1\<rparr>"

text \<open>The same cluster when the task of the first shard panics.\<close>

definition lossy_rpc :: rpc_env where
  "lossy_rpc = sample_rpc\<lparr>rn_join_error := (\<lambda>i. i = 0)\<rparr>"

theorem scatter_gather_complete_witness:
  "mset (sr_batches (scatter_execute sample_rpc sample_targets ''q'' [] 0 9 ''logs'' [''a'', ''b'', ''c''])) =
     {#sample_batch, sample_batch#} \<and>
   mset (sr_error_nodes (scatter_execute sample_rpc sample_targets ''q'' [] 0 9 ''logs'' [''a'', ''b'', ''c''])) = {#''b''#} \<and>
   mset (sr_batches (scatter_execute lossy_rpc sample_targets ''q'' [] 0 9 ''logs'' [''a'', ''b'', ''c''])) = {#} \<and>
   mset (sr_error_nodes (scatter_execute lossy_rpc sample_targets ''q'' [] 0 9 ''logs'' [''a'', ''b'', ''c''])) = {#''b''#}"
  using scatter_gather_complete [of sample_rpc _ "''q''" "[]" 0 9 "''logs''" _ sample_targets "[''a'', ''b'', ''c'']", OF _ refl refl]
    scatter_gather_complete [of lossy_rpc _ "''q''" "[]" 0 9 "''logs''" _ sample_targets "[''a'', ''b'', ''c'']", OF _ refl refl]
  by (simp add: lossy_rpc_def sample_rpc_def sample_targets_def shard_answer_def grpc_addr_def query_single_shard_def read_ipc_def
      joined_shards_def asked_shards_def Let_def)

end
