(* ===== verification/Otlp.thy ===== *)
theory Otlp
  imports Model "HOL-Library.AList"
begin

text \<open>
  The OTLP messages (\<open>src/proto/opentelemetry\<close>) and their conversion to the internal data
  model (\<open>infralens-ingest/src/normalizer.rs\<close>). A message is a record of the fields the
  conversion reads; counters of dropped items, flags and exemplars are left out. A \<open>oneof\<close>
  is a datatype, absent as \<open>None\<close>.
\<close>

section \<open>Hash maps\<close>

text \<open>Collecting pairs into a \<open>HashMap\<close>: a later pair replaces the value of an equal key.\<close>

definition hash_collect :: "(string \<times> 'v) list \<Rightarrow> (string \<times> 'v) list" where
  "hash_collect kvs = fold (\<lambda>(k, v). AList.update k v) kvs []"

lemma hash_collect_lookup: "map_of (hash_collect kvs) = map_of (rev kvs)"
proof -
  have "map_of (fold (\<lambda>(k, v). AList.update k v) kvs m) = map_of m ++ map_of (rev kvs)" for m
    by (induction kvs arbitrary: m) (auto simp: update_conv' map_add_upd_left fun_eq_iff map_add_def split: option.splits)
  then show ?thesis by (simp add: hash_collect_def)
qed

lemma hash_collect_distinct: "distinct (map fst (hash_collect kvs))"
proof -
  have "distinct (map fst m) \<Longrightarrow> distinct (map fst (fold (\<lambda>(k, v). AList.update k v) kvs m))" for m
    by (induction kvs arbitrary: m) (auto simp: distinct_update)
  then show ?thesis by (simp add: hash_collect_def)
qed

section \<open>Messages\<close>

datatype proto_any =
    PA_None
  | PA_String string
  | PA_Bool bool
  | PA_Int i64
  | PA_Double f64
  | PA_Array "proto_any list"
  | PA_Kvlist "(string \<times> proto_any option) list"
  | PA_Bytes bytes

type_synonym proto_kvs = "(string \<times> proto_any option) list"

record proto_scope =
  ps_name :: string
  ps_version :: string
  ps_attributes :: proto_kvs

record proto_resource =
  pr_attributes :: proto_kvs

record proto_log =
  pl_time_unix_nano :: u64
  pl_observed_time_unix_nano :: u64
  pl_severity_number :: i32
  pl_severity_text :: string
  pl_body :: "proto_any option"
  pl_attributes :: proto_kvs
  pl_trace_id :: bytes
  pl_span_id :: bytes

record scope_logs =
  sg_scope :: "proto_scope option"
  sg_log_records :: "proto_log list"
  sg_schema_url :: string

record resource_logs =
  rl_resource :: "proto_resource option"
  rl_scope_logs :: "scope_logs list"

datatype number_value = AsDouble f64 | AsInt i64

record number_data_point =
  nd_attributes :: proto_kvs
  nd_start_time_unix_nano :: u64
  nd_time_unix_nano :: u64
  nd_value :: "number_value option"

record histogram_data_point =
  hp_attributes :: proto_kvs
  hp_start_time_unix_nano :: u64
  hp_time_unix_nano :: u64
  hp_count :: u64
  hp_sum :: "f64 option"
  hp_bucket_counts :: "u64 list"
  hp_explicit_bounds :: "f64 list"
  hp_min :: "f64 option"
  hp_max :: "f64 option"

datatype metric_data =
    MD_Gauge "number_data_point list"
  | MD_Sum "number_data_point list" i32 bool
  | MD_Histogram "histogram_data_point list" i32
  | MD_ExponentialHistogram
  | MD_Summary

record proto_metric =
  pm_name :: string
  pm_description :: string
  pm_unit :: string
  pm_data :: "metric_data option"

record scope_metrics =
  sm_scope :: "proto_scope option"
  sm_metrics :: "proto_metric list"
  sm_schema_url :: string

record resource_metrics =
  rm_resource :: "proto_resource option"
  rm_scope_metrics :: "scope_metrics list"

record proto_event =
  pe_time_unix_nano :: u64
  pe_name :: string
  pe_attributes :: proto_kvs

record proto_link =
  pk_trace_id :: bytes
  pk_span_id :: bytes
  pk_trace_state :: string
  pk_attributes :: proto_kvs

record proto_status =
  pt_message :: string
  pt_code :: i32

record proto_span =
  pn_trace_id :: bytes
  pn_span_id :: bytes
  pn_parent_span_id :: bytes
  pn_name :: string
  pn_kind :: i32
  pn_start_time_unix_nano :: u64
  pn_end_time_unix_nano :: u64
  pn_attributes :: proto_kvs
  pn_events :: "proto_event list"
  pn_links :: "proto_link list"
  pn_status :: "proto_status option"

record scope_spans =
  sp_scope :: "proto_scope option"
  sp_spans :: "proto_span list"
  sp_schema_url :: string

record resource_spans =
  rs_resource :: "proto_resource option"
  rs_scope_spans :: "scope_spans list"

section \<open>Values, attributes and scopes\<close>

fun convert_any_value :: "proto_any \<Rightarrow> any_value" where
  "convert_any_value (PA_String s) = AV_String s"
| "convert_any_value (PA_Bool b) = AV_Bool b"
| "convert_any_value (PA_Int i) = AV_Int i"
| "convert_any_value (PA_Double d) = AV_Double d"
| "convert_any_value (PA_Bytes b) = AV_Bytes b"
| "convert_any_value (PA_Array vs) = AV_Array (map convert_any_value vs)"
| "convert_any_value (PA_Kvlist kvs) =
     AV_Map (hash_collect (map (\<lambda>(k, v). (k, case v of Some x \<Rightarrow> convert_any_value x | None \<Rightarrow> AV_String '''')) kvs))"
| "convert_any_value PA_None = AV_String ''''"

definition convert_attrs :: "proto_kvs \<Rightarrow> attrs" where
  "convert_attrs kvs =
     hash_collect (List.map_filter (\<lambda>(k, v). map_option (\<lambda>x. (k, convert_any_value x)) v) kvs)"

definition default_scope :: instrumentation_scope where
  "default_scope = \<lparr>sc_name = '''', sc_version = '''', sc_attributes = []\<rparr>"

definition convert_scope :: "proto_scope option \<Rightarrow> instrumentation_scope" where
  "convert_scope scope =
     (case scope of
        Some s \<Rightarrow> \<lparr>sc_name = ps_name s, sc_version = ps_version s, sc_attributes = convert_attrs (ps_attributes s)\<rparr>
      | None \<Rightarrow> default_scope)"

definition bytes_to_array16 :: "bytes \<Rightarrow> bytes option" where
  "bytes_to_array16 b = (if length b = 16 then Some b else None)"

definition bytes_to_array8 :: "bytes \<Rightarrow> bytes option" where
  "bytes_to_array8 b = (if length b = 8 then Some b else None)"

definition resource_attrs :: "proto_resource option \<Rightarrow> attrs" where
  "resource_attrs r = (case r of Some r \<Rightarrow> convert_attrs (pr_attributes r) | None \<Rightarrow> [])"

section \<open>Logs\<close>

definition normalise_log :: "attrs \<Rightarrow> instrumentation_scope \<Rightarrow> string \<Rightarrow> proto_log \<Rightarrow> log_record" where
  "normalise_log res scope url rec = \<lparr>
     lr_timestamp_ns = pl_time_unix_nano rec,
     lr_observed_timestamp_ns = pl_observed_time_unix_nano rec,
     lr_trace_id = bytes_to_array16 (pl_trace_id rec),
     lr_span_id = bytes_to_array8 (pl_span_id rec),
     lr_severity_number = pl_severity_number rec,
     lr_severity_text = pl_severity_text rec,
     lr_body = map_option convert_any_value (pl_body rec),
     lr_attributes = convert_attrs (pl_attributes rec),
     lr_resource_attributes = res,
     lr_scope = scope,
     lr_schema_url = url\<rparr>"

definition normalise_logs :: "resource_logs list \<Rightarrow> log_record list" where
  "normalise_logs rls =
     concat (map (\<lambda>rl. concat (map (\<lambda>sl.
       map (normalise_log (resource_attrs (rl_resource rl)) (convert_scope (sg_scope sl)) (sg_schema_url sl))
         (sg_log_records sl)) (rl_scope_logs rl))) rls)"

section \<open>Metrics\<close>

definition number_point ::
  "proto_metric \<Rightarrow> metric_type \<Rightarrow> attrs \<Rightarrow> instrumentation_scope \<Rightarrow> string \<Rightarrow> number_data_point \<Rightarrow> metric_point" where
  "number_point m ty res scope url dp = \<lparr>
     mp_timestamp_ns = nd_time_unix_nano dp,
     mp_start_timestamp_ns = nd_start_time_unix_nano dp,
     mp_name = pm_name m,
     mp_description = pm_description m,
     mp_unit = pm_unit m,
     mp_metric_type = ty,
     mp_value_double = (case nd_value dp of Some (AsDouble d) \<Rightarrow> Some d | _ \<Rightarrow> None),
     mp_value_int = (case nd_value dp of Some (AsInt i) \<Rightarrow> Some i | _ \<Rightarrow> None),
     mp_histogram = None,
     mp_attributes = convert_attrs (nd_attributes dp),
     mp_resource_attributes = res,
     mp_scope = scope,
     mp_schema_url = url\<rparr>"

definition histogram_point ::
  "proto_metric \<Rightarrow> i32 \<Rightarrow> attrs \<Rightarrow> instrumentation_scope \<Rightarrow> string \<Rightarrow> histogram_data_point \<Rightarrow> metric_point" where
  "histogram_point m temporality res scope url dp = \<lparr>
     mp_timestamp_ns = hp_time_unix_nano dp,
     mp_start_timestamp_ns = hp_start_time_unix_nano dp,
     mp_name = pm_name m,
     mp_description = pm_description m,
     mp_unit = pm_unit m,
     mp_metric_type = MT_Histogram temporality,
     mp_value_double = None,
     mp_value_int = None,
     mp_histogram = Some \<lparr>hd_count = hp_count dp, hd_sum = hp_sum dp, hd_min = hp_min dp, hd_max = hp_max dp,
                          hd_explicit_bounds = hp_explicit_bounds dp, hd_bucket_counts = hp_bucket_counts dp\<rparr>,
     mp_attributes = convert_attrs (hp_attributes dp),
     mp_resource_attributes = res,
     mp_scope = scope,
     mp_schema_url = url\<rparr>"

definition normalise_metric ::
  "attrs \<Rightarrow> instrumentation_scope \<Rightarrow> string \<Rightarrow> proto_metric \<Rightarrow> metric_point list" where
  "normalise_metric res scope url m =
     (case pm_data m of
        Some (MD_Gauge dps) \<Rightarrow> map (number_point m MT_Gauge res scope url) dps
      | Some (MD_Sum dps temporality monotonic) \<Rightarrow> map (number_point m (MT_Sum monotonic temporality) res scope url) dps
      | Some (MD_Histogram dps temporality) \<Rightarrow> map (histogram_point m temporality res scope url) dps
      | _ \<Rightarrow> [])"

definition normalise_metrics :: "resource_metrics list \<Rightarrow> metric_point list" where
  "normalise_metrics rms =
     concat (map (\<lambda>rm. concat (map (\<lambda>sm.
       concat (map (normalise_metric (resource_attrs (rm_resource rm)) (convert_scope (sm_scope sm)) (sm_schema_url sm))
         (sm_metrics sm))) (rm_scope_metrics rm))) rms)"

section \<open>Spans\<close>

definition saturating_sub :: "u64 \<Rightarrow> u64 \<Rightarrow> u64" where
  "saturating_sub a b = (if b \<le> a then a - b else 0)"

definition normalise_event :: "proto_event \<Rightarrow> span_event" where
  "normalise_event e =
     \<lparr>se_timestamp_ns = pe_time_unix_nano e, se_name = pe_name e, se_attributes = convert_attrs (pe_attributes e)\<rparr>"

definition normalise_link :: "proto_link \<Rightarrow> span_link option" where
  "normalise_link l =
     Option.bind (bytes_to_array16 (pk_trace_id l)) (\<lambda>trace_id.
       Option.bind (bytes_to_array8 (pk_span_id l)) (\<lambda>span_id.
         Some \<lparr>sl_trace_id = trace_id, sl_span_id = span_id, sl_trace_state = pk_trace_state l,
               sl_attributes = convert_attrs (pk_attributes l)\<rparr>))"

definition normalise_span ::
  "attrs \<Rightarrow> instrumentation_scope \<Rightarrow> string \<Rightarrow> proto_span \<Rightarrow> span_record option" where
  "normalise_span res scope url s =
     Option.bind (bytes_to_array16 (pn_trace_id s)) (\<lambda>trace_id.
       Option.bind (bytes_to_array8 (pn_span_id s)) (\<lambda>span_id.
         Some \<lparr>
           sr_trace_id = trace_id,
           sr_span_id = span_id,
           sr_parent_span_id = bytes_to_array8 (pn_parent_span_id s),
           sr_name = pn_name s,
           sr_kind = pn_kind s,
           sr_start_time_ns = pn_start_time_unix_nano s,
           sr_end_time_ns = pn_end_time_unix_nano s,
           sr_duration_ns = saturating_sub (pn_end_time_unix_nano s) (pn_start_time_unix_nano s),
           sr_status_code = (case pn_status s of Some st \<Rightarrow> pt_code st | None \<Rightarrow> 0),
           sr_status_message = (case pn_status s of Some st \<Rightarrow> pt_message st | None \<Rightarrow> ''''),
           sr_attributes = convert_attrs (pn_attributes s),
           sr_resource_attributes = res,
           sr_scope = scope,
           sr_events = map normalise_event (pn_events s),
           sr_links = List.map_filter normalise_link (pn_links s),
           sr_schema_url = url\<rparr>))"

definition normalise_spans :: "resource_spans list \<Rightarrow> span_record list" where
  "normalise_spans rss =
     concat (map (\<lambda>rs. concat (map (\<lambda>ss.
       List.map_filter (normalise_span (resource_attrs (rs_resource rs)) (convert_scope (sp_scope ss)) (sp_schema_url ss))
         (sp_spans ss)) (rs_scope_spans rs))) rss)"

end
