(* ===== verification/Ascii.thy ===== *)
theory Ascii
  imports Prelude
begin

text \<open>
  String operations of the Rust standard library that the query crate uses, on strings as lists
  of UTF-8 bytes: ASCII case conversion, trimming, the position of a substring, splitting and
  replacing. Searching bytes is searching characters, because no character's encoding occurs
  inside another's. \<open>trim\<close> removes the characters with the Unicode property
  \<open>White_Space\<close>; the letter test is that of ASCII, where a byte of a longer encoding
  counts as a letter.
\<close>

section \<open>Characters\<close>

definition char_code :: "char \<Rightarrow> nat" where
  "char_code c = of_char c"

definition is_upper :: "char \<Rightarrow> bool" where
  "is_upper c \<longleftrightarrow> 65 \<le> char_code c \<and> char_code c \<le> 90"

definition is_lower :: "char \<Rightarrow> bool" where
  "is_lower c \<longleftrightarrow> 97 \<le> char_code c \<and> char_code c \<le> 122"

definition is_ascii :: "char \<Rightarrow> bool" where
  "is_ascii c \<longleftrightarrow> char_code c < 128"

definition is_alphabetic :: "char \<Rightarrow> bool" where
  "is_alphabetic c \<longleftrightarrow> is_upper c \<or> is_lower c \<or> \<not> is_ascii c"

definition is_space :: "char \<Rightarrow> bool" where
  "is_space c \<longleftrightarrow> char_code c = 32 \<or> (9 \<le> char_code c \<and> char_code c \<le> 13)"

definition to_upper :: "char \<Rightarrow> char" where
  "to_upper c = (if is_lower c then char_of (char_code c - 32) else c)"

definition to_lower :: "char \<Rightarrow> char" where
  "to_lower c = (if is_upper c then char_of (char_code c + 32) else c)"

definition to_ascii_uppercase :: "string \<Rightarrow> string" where
  "to_ascii_uppercase s = map to_upper s"

definition to_ascii_lowercase :: "string \<Rightarrow> string" where
  "to_ascii_lowercase s = map to_lower s"

text \<open>\<open>String::push(b as char)\<close>: a byte from 128 on becomes a character of two bytes.\<close>

definition push_byte :: "char \<Rightarrow> string" where
  "push_byte c =
     (if is_ascii c then [c]
      else [char_of (192 + char_code c div 64), char_of (128 + char_code c mod 64)])"

section \<open>Strings\<close>

fun starts_with :: "string \<Rightarrow> string \<Rightarrow> bool" where
  "starts_with s [] = True"
| "starts_with [] (p # ps) = False"
| "starts_with (c # cs) (p # ps) = (c = p \<and> starts_with cs ps)"

text \<open>The encodings of the white space characters, and the removal of such strings at an end.\<close>

definition white_spaces :: "string list" where
  "white_spaces = map (map char_of)
     ([[9], [10], [11], [12], [13], [32], [194, 133], [194, 160], [225, 154, 128]]
    @ map (\<lambda>n. [226, 128, n]) [128, 129, 130, 131, 132, 133, 134, 135, 136, 137, 138, 168, 169, 175]
    @ [[226, 129, 159], [227, 128, 128 :: nat]])"

lemma white_spaces_code [code]:
  "white_spaces = [[CHR 0x09], [CHR 0x0A], [CHR 0x0B], [CHR 0x0C], [CHR 0x0D], [CHR 0x20], [CHR 0xC2, CHR 0x85], [CHR 0xC2, CHR 0xA0],
     [CHR 0xE1, CHR 0x9A, CHR 0x80], [CHR 0xE2, CHR 0x80, CHR 0x80], [CHR 0xE2, CHR 0x80, CHR 0x81], [CHR 0xE2, CHR 0x80, CHR 0x82],
     [CHR 0xE2, CHR 0x80, CHR 0x83], [CHR 0xE2, CHR 0x80, CHR 0x84], [CHR 0xE2, CHR 0x80, CHR 0x85], [CHR 0xE2, CHR 0x80, CHR 0x86],
     [CHR 0xE2, CHR 0x80, CHR 0x87], [CHR 0xE2, CHR 0x80, CHR 0x88], [CHR 0xE2, CHR 0x80, CHR 0x89], [CHR 0xE2, CHR 0x80, CHR 0x8A],
     [CHR 0xE2, CHR 0x80, CHR 0xA8], [CHR 0xE2, CHR 0x80, CHR 0xA9], [CHR 0xE2, CHR 0x80, CHR 0xAF], [CHR 0xE2, CHR 0x81, CHR 0x9F],
     [CHR 0xE3, CHR 0x80, CHR 0x80]]"
  by (simp add: white_spaces_def char_of_def bit_Suc_0_iff)

lemma starts_with_length: "starts_with s p \<Longrightarrow> length p \<le> length s"
  by (induction s p rule: starts_with.induct) auto

function trim_front :: "string list \<Rightarrow> string \<Rightarrow> string" where
  "trim_front ws s =
     (case find (\<lambda>w. w \<noteq> [] \<and> starts_with s w) ws of
        None \<Rightarrow> s
      | Some w \<Rightarrow> trim_front ws (drop (length w) s))"
  by pat_completeness auto
termination
proof (relation "measure (\<lambda>(ws, s). length s)")
  fix ws s w assume "find (\<lambda>w. w \<noteq> [] \<and> starts_with s w) ws = Some w"
  then have "w \<noteq> []" "starts_with s w" by (auto simp: find_Some_iff)
  then have "0 < length w" "length w \<le> length s" by (simp_all add: starts_with_length)
  then have "length (drop (length w) s) < length s" unfolding length_drop by linarith
  then show "((ws, drop (length w) s), (ws, s)) \<in> measure (\<lambda>(ws, s). length s)" by simp
qed simp

declare trim_front.simps [simp del]

definition trim :: "string \<Rightarrow> string" where
  "trim s = rev (trim_front (map rev white_spaces) (rev (trim_front white_spaces s)))"

definition ends_with :: "string \<Rightarrow> string \<Rightarrow> bool" where
  "ends_with s p = starts_with (rev s) (rev p)"

text \<open>The position of the first occurrence of a substring.\<close>

fun find_str :: "string \<Rightarrow> string \<Rightarrow> nat option" where
  "find_str p [] = (if p = [] then Some 0 else None)"
| "find_str p (c # cs) = (if starts_with (c # cs) p then Some 0 else map_option Suc (find_str p cs))"

definition contains_str :: "string \<Rightarrow> string \<Rightarrow> bool" where
  "contains_str s p = (find_str p s \<noteq> None)"

text \<open>Replacing a character by a string.\<close>

definition replace_char :: "char \<Rightarrow> string \<Rightarrow> string \<Rightarrow> string" where
  "replace_char c t s = concat (map (\<lambda>x. if x = c then t else [x]) s)"

text \<open>Splitting at every occurrence of a non-empty separator, from the left.\<close>

lemma find_str_less: "find_str p s = Some i \<Longrightarrow> i + length p \<le> length s"
proof (induction s arbitrary: i)
  case (Cons c cs)
  have "starts_with t q \<Longrightarrow> length q \<le> length t" for t q
    by (induction t q rule: starts_with.induct) auto
  from this [of "c # cs" p] Cons show ?case by (auto split: if_splits)
qed (auto split: if_splits)

function split_str :: "string \<Rightarrow> string \<Rightarrow> string list" where
  "split_str p s =
     (if p = [] then [s]
      else case find_str p s of
        None \<Rightarrow> [s]
      | Some i \<Rightarrow> take i s # split_str p (drop (i + length p) s))"
  by pat_completeness auto
termination
proof (relation "measure (\<lambda>(_, s). length s)")
  show "((p, drop (i + length p) s), p, s) \<in> measure (\<lambda>(_, s). length s)"
    if "p \<noteq> []" "find_str p s = Some i" for p s i
    using that find_str_less [of p s i] by (cases p) auto
qed simp

declare split_str.simps [simp del]

section \<open>Lemmas\<close>

lemma starts_with_iff: "starts_with s p \<longleftrightarrow> (\<exists>t. s = p @ t)"
  by (induction s p rule: starts_with.induct) auto

lemma find_str_Some: "find_str p s = Some i \<Longrightarrow> \<exists>u. s = take i s @ p @ u"
proof (induction s arbitrary: i)
  case (Cons c cs)
  show ?case
  proof (cases "starts_with (c # cs) p")
    case True
    with Cons.prems show ?thesis by (auto simp: starts_with_iff)
  next
    case False
    with Cons show ?thesis by (auto split: if_splits)
  qed
qed (auto split: if_splits)

lemma find_str_None: "find_str p s = None \<Longrightarrow> \<not> (\<exists>u v. s = u @ p @ v)"
proof (induction s)
  case (Cons c cs)
  have "u @ p @ v \<noteq> c # cs" for u v
  proof (cases u)
    case Nil
    with Cons.prems show ?thesis by (simp add: starts_with_iff split: if_splits) metis
  next
    case (Cons a as)
    with Cons.IH Cons.prems show ?thesis by (auto split: if_splits)
  qed
  then show ?case by metis
qed (auto split: if_splits)

lemma char_code_less: "char_code c < 256"
  by (simp add: char_code_def)

lemma push_byte_ascii [simp]: "is_ascii c \<Longrightarrow> push_byte c = [c]"
  by (simp add: push_byte_def)

lemma is_digit_ascii: "is_digit c \<Longrightarrow> is_ascii c \<and> \<not> is_alphabetic c \<and> \<not> is_space c"
  by (auto simp: is_digit_def is_ascii_def is_alphabetic_def is_space_def is_upper_def is_lower_def char_code_def)

lemma trim_front_id:
  assumes "s \<noteq> []" "\<And>w. w \<in> set ws \<Longrightarrow> w \<noteq> [] \<Longrightarrow> hd w \<noteq> hd s"
  shows "trim_front ws s = s"
proof -
  have "\<not> starts_with s w" if "w \<in> set ws" "w \<noteq> []" for w
    using assms(1) assms(2) [OF that] that(2) by (cases s; cases w) auto
  then have "find (\<lambda>w. w \<noteq> [] \<and> starts_with s w) ws = None" by (auto simp: find_None_iff)
  then show ?thesis by (simp add: trim_front.simps)
qed

lemma white_spaces_ends:
  "w \<in> set white_spaces \<Longrightarrow> w \<noteq> [] \<Longrightarrow>
     (is_space (hd w) \<or> \<not> is_ascii (hd w)) \<and> (is_space (last w) \<or> \<not> is_ascii (last w))"
  by (auto simp: white_spaces_def is_space_def is_ascii_def char_code_def)

lemma trim_id:
  assumes "s \<noteq> []" "is_ascii (hd s)" "\<not> is_space (hd s)" "is_ascii (last s)" "\<not> is_space (last s)"
  shows "trim s = s"
proof -
  have "trim_front white_spaces s = s"
    using assms white_spaces_ends by (intro trim_front_id) metis+
  moreover have "trim_front (map rev white_spaces) (rev s) = rev s"
  proof (rule trim_front_id)
    fix w assume "w \<in> set (map rev white_spaces)" "w \<noteq> []"
    then obtain v where "w = rev v" "v \<in> set white_spaces" "v \<noteq> []" by auto
    then show "hd w \<noteq> hd (rev s)" using assms white_spaces_ends [of v] by (auto simp: hd_rev)
  qed (use assms in simp)
  ultimately show ?thesis by (simp add: trim_def)
qed

end
