(* ===== verification/Json_Decoder.thy ===== *)
theory Json_Decoder
  imports Otlp Ascii
begin

text \<open>
  The OTLP/JSON decoder (\<open>infralens-ingest/src/json_decoder.rs\<close>). A \<open>serde_json::Value\<close>
  is a datatype with its six variants; a number is a non-negative integer, a negative integer or a
  float, as the library documents it, and an object holds each key once. A decoder returns
  \<open>None\<close> where the code panics: slicing a hexadecimal string panics inside a character of
  more than one byte.
\<close>

section \<open>JSON values\<close>

datatype json_number = N_PosInt u64 | N_NegInt i64 | N_Float f64

datatype json =
    J_Null
  | J_Bool bool
  | J_Number json_number
  | J_String string
  | J_Array "json list"
  | J_Object "(string \<times> json) list"

fun value_get :: "json \<Rightarrow> string \<Rightarrow> json option" where
  "value_get (J_Object kvs) k = map_of kvs k"
| "value_get _ k = None"

fun value_as_str :: "json \<Rightarrow> string option" where
  "value_as_str (J_String s) = Some s"
| "value_as_str _ = None"

fun value_as_bool :: "json \<Rightarrow> bool option" where
  "value_as_bool (J_Bool b) = Some b"
| "value_as_bool _ = None"

fun value_as_array :: "json \<Rightarrow> json list option" where
  "value_as_array (J_Array vs) = Some vs"
| "value_as_array _ = None"

fun value_as_i64 :: "json \<Rightarrow> i64 option" where
  "value_as_i64 (J_Number (N_PosInt n)) = (if int (unat n) \<le> i64_max then Some (int (unat n)) else None)"
| "value_as_i64 (J_Number (N_NegInt i)) = Some i"
| "value_as_i64 _ = None"

fun value_as_u64 :: "json \<Rightarrow> u64 option" where
  "value_as_u64 (J_Number (N_PosInt n)) = Some n"
| "value_as_u64 _ = None"

fun value_as_f64 :: "fp_ops \<Rightarrow> json \<Rightarrow> f64 option" where
  "value_as_f64 F (J_Number (N_PosInt n)) = Some (fp_of_u64 F n)"
| "value_as_f64 F (J_Number (N_NegInt i)) = Some (fp_of_i64 F i)"
| "value_as_f64 F (J_Number (N_Float d)) = Some d"
| "value_as_f64 F _ = None"

section \<open>Fields\<close>

definition field :: "json \<Rightarrow> string \<Rightarrow> (json \<Rightarrow> 'a option) \<Rightarrow> 'a option" where
  "field v k as = Option.bind (value_get v k) as"

definition field_str :: "json \<Rightarrow> string \<Rightarrow> string" where
  "field_str v k = (case field v k value_as_str of Some s \<Rightarrow> s | None \<Rightarrow> '''')"

definition field_array :: "json \<Rightarrow> string \<Rightarrow> json list" where
  "field_array v k = (case field v k value_as_array of Some vs \<Rightarrow> vs | None \<Rightarrow> [])"

text \<open>\<open>as i32\<close> on an integer: the low 32 bits, read as a signed number.\<close>

definition wrap_i32 :: "int \<Rightarrow> i32" where
  "wrap_i32 n = signed_take_bit 31 n"

definition field_i32 :: "json \<Rightarrow> string \<Rightarrow> i32" where
  "field_i32 v k = wrap_i32 (case field v k value_as_i64 of Some n \<Rightarrow> n | None \<Rightarrow> 0)"

definition decode_u64 :: "json \<Rightarrow> u64" where
  "decode_u64 v =
     (case value_as_u64 v of
        Some n \<Rightarrow> n
      | None \<Rightarrow> (case Option.bind (value_as_str v) parse_u64 of Some n \<Rightarrow> n | None \<Rightarrow> 0))"

definition field_u64 :: "u64 \<Rightarrow> json \<Rightarrow> string \<Rightarrow> u64" where
  "field_u64 dflt v k = (case value_get v k of Some n \<Rightarrow> decode_u64 n | None \<Rightarrow> dflt)"

section \<open>Attribute values\<close>

definition decode_int :: "json \<Rightarrow> i64" where
  "decode_int i =
     (case value_as_i64 i of
        Some n \<Rightarrow> n
      | None \<Rightarrow> (case Option.bind (value_as_str i) parse_i64 of Some n \<Rightarrow> n | None \<Rightarrow> 0))"

definition array_values :: "json \<Rightarrow> json list option" where
  "array_values v = field v ''arrayValue'' (\<lambda>av. field av ''values'' value_as_array)"

lemma size_value_get: "value_get v k = Some w \<Longrightarrow> size w < size v"
  by (cases v) (auto dest!: map_of_SomeD size_list_estimation'[where y = "size w" and f = "size_prod (\<lambda>_. 0) size"])

lemma size_array_values:
  assumes "array_values v = Some vs" "x \<in> set vs"
  shows "size x < size v"
proof -
  obtain av ws where av: "value_get v ''arrayValue'' = Some av" "value_get av ''values'' = Some ws" "ws = J_Array vs"
    using assms(1) unfolding array_values_def field_def
    by (auto simp: Option.bind_eq_Some_conv elim!: value_as_array.elims)
  then have "size x < size ws" using assms(2) by (simp add: size_list_estimation' le_imp_less_Suc)
  then show ?thesis using size_value_get [OF av(1)] size_value_get [OF av(2)] by linarith
qed

function decode_any_value :: "fp_ops \<Rightarrow> json \<Rightarrow> any_value" where
  "decode_any_value F v =
     (case field v ''stringValue'' value_as_str of
        Some s \<Rightarrow> AV_String s
      | None \<Rightarrow>
     (case field v ''boolValue'' value_as_bool of
        Some b \<Rightarrow> AV_Bool b
      | None \<Rightarrow>
     (case value_get v ''intValue'' of
        Some i \<Rightarrow> AV_Int (decode_int i)
      | None \<Rightarrow>
     (case field v ''doubleValue'' (value_as_f64 F) of
        Some d \<Rightarrow> AV_Double d
      | None \<Rightarrow>
     (case array_values v of
        Some vs \<Rightarrow> AV_Array (map (decode_any_value F) vs)
      | None \<Rightarrow> AV_String '''')))))"
  by pat_completeness auto
termination
  by (relation "measure (\<lambda>(F, v). size v)") (auto dest: size_array_values)

declare decode_any_value.simps [simp del]

definition decode_attr :: "fp_ops \<Rightarrow> json \<Rightarrow> (string \<times> any_value) option" where
  "decode_attr F kv =
     map_option (\<lambda>k. (k, case value_get kv ''value'' of Some v \<Rightarrow> decode_any_value F v | None \<Rightarrow> AV_String ''''))
       (field kv ''key'' value_as_str)"

definition decode_attrs :: "fp_ops \<Rightarrow> json \<Rightarrow> attrs" where
  "decode_attrs F v =
     (case value_as_array v of Some vs \<Rightarrow> hash_collect (List.map_filter (decode_attr F) vs) | None \<Rightarrow> [])"

definition field_attrs :: "fp_ops \<Rightarrow> json \<Rightarrow> attrs" where
  "field_attrs F v = (case value_get v ''attributes'' of Some a \<Rightarrow> decode_attrs F a | None \<Rightarrow> [])"

definition decode_resource :: "fp_ops \<Rightarrow> json \<Rightarrow> attrs" where
  "decode_resource F v = (case value_get v ''resource'' of Some r \<Rightarrow> field_attrs F r | None \<Rightarrow> [])"

definition decode_scope :: "fp_ops \<Rightarrow> json option \<Rightarrow> instrumentation_scope" where
  "decode_scope F scope =
     (case scope of
        Some s \<Rightarrow> \<lparr>sc_name = field_str s ''name'', sc_version = field_str s ''version'', sc_attributes = field_attrs F s\<rparr>
      | None \<Rightarrow> default_scope)"

section \<open>Identifiers\<close>

definition hex_digit :: "char \<Rightarrow> nat option" where
  "hex_digit c =
     (if is_digit c then Some (char_code c - 48)
      else if 97 \<le> char_code c \<and> char_code c \<le> 102 then Some (char_code c - 87)
      else if 65 \<le> char_code c \<and> char_code c \<le> 70 then Some (char_code c - 55)
      else None)"

text \<open>\<open>u8::from_str_radix(s, 16)\<close> on a string of two bytes; a leading plus sign is accepted.\<close>

definition hex_pair :: "char \<Rightarrow> char \<Rightarrow> u8 option" where
  "hex_pair a b =
     (if a = CHR ''+'' then map_option word_of_nat (hex_digit b)
      else Option.bind (hex_digit a) (\<lambda>h. map_option (\<lambda>l. word_of_nat (16 * h + l)) (hex_digit b)))"

text \<open>No character starts at a continuation byte, and a slice that ends there panics.\<close>

definition inside_char :: "string \<Rightarrow> bool" where
  "inside_char s = (case s of [] \<Rightarrow> False | c # _ \<Rightarrow> 128 \<le> char_code c \<and> char_code c < 192)"

fun hex_pairs :: "string \<Rightarrow> bytes option option" where
  "hex_pairs (a # b # cs) =
     (if inside_char (a # b # cs) \<or> inside_char cs then None
      else case hex_pair a b of
             None \<Rightarrow> Some None
           | Some x \<Rightarrow> map_option (map_option (\<lambda>xs. x # xs)) (hex_pairs cs))"
| "hex_pairs _ = Some (Some [])"

definition hex_to_16 :: "string \<Rightarrow> bytes option option" where
  "hex_to_16 s = (let s = trim s in if length s \<noteq> 32 then Some None else hex_pairs s)"

definition hex_to_8 :: "string \<Rightarrow> bytes option option" where
  "hex_to_8 s = (let s = trim s in if length s \<noteq> 16 then Some None else hex_pairs s)"

definition field_id :: "(string \<Rightarrow> bytes option option) \<Rightarrow> json \<Rightarrow> string \<Rightarrow> bytes option option" where
  "field_id hex v k = (case field v k value_as_str of Some s \<Rightarrow> hex s | None \<Rightarrow> Some None)"

text \<open>Mapping a decoder that may panic over an array, with the items it skips left out.\<close>

fun decode_all :: "('a \<Rightarrow> 'b option) \<Rightarrow> 'a list \<Rightarrow> 'b list option" where
  "decode_all f [] = Some []"
| "decode_all f (x # xs) = Option.bind (f x) (\<lambda>y. map_option (\<lambda>ys. y # ys) (decode_all f xs))"

section \<open>Logs\<close>

definition decode_log :: "fp_ops \<Rightarrow> attrs \<Rightarrow> instrumentation_scope \<Rightarrow> string \<Rightarrow> json \<Rightarrow> log_record option" where
  "decode_log F res scope url rec =
     (let ts = field_u64 0 rec ''timeUnixNano'' in
      Option.bind (field_id hex_to_16 rec ''traceId'') (\<lambda>trace_id.
        Option.bind (field_id hex_to_8 rec ''spanId'') (\<lambda>span_id.
          Some \<lparr>
            lr_timestamp_ns = ts,
            lr_observed_timestamp_ns = field_u64 ts rec ''observedTimeUnixNano'',
            lr_trace_id = trace_id,
            lr_span_id = span_id,
            lr_severity_number = field_i32 rec ''severityNumber'',
            lr_severity_text = field_str rec ''severityText'',
            lr_body = map_option (decode_any_value F) (value_get rec ''body''),
            lr_attributes = field_attrs F rec,
            lr_resource_attributes = res,
            lr_scope = scope,
            lr_schema_url = url\<rparr>)))"

definition decode_scope_logs :: "fp_ops \<Rightarrow> attrs \<Rightarrow> json \<Rightarrow> log_record list option" where
  "decode_scope_logs F res sl =
     decode_all (decode_log F res (decode_scope F (value_get sl ''scope'')) (field_str sl ''schemaUrl''))
       (field_array sl ''logRecords'')"

definition decode_resource_logs :: "fp_ops \<Rightarrow> json \<Rightarrow> log_record list option" where
  "decode_resource_logs F rl =
     map_option concat (decode_all (decode_scope_logs F (decode_resource F rl)) (field_array rl ''scopeLogs''))"

definition decode_logs :: "fp_ops \<Rightarrow> json \<Rightarrow> log_record list option" where
  "decode_logs F json = map_option concat (decode_all (decode_resource_logs F) (field_array json ''resourceLogs''))"

section \<open>Metrics\<close>

definition decode_point ::
  "fp_ops \<Rightarrow> json \<Rightarrow> metric_type \<Rightarrow> attrs \<Rightarrow> instrumentation_scope \<Rightarrow> string \<Rightarrow> json \<Rightarrow> metric_point" where
  "decode_point F m ty res scope url dp = \<lparr>
     mp_timestamp_ns = field_u64 0 dp ''timeUnixNano'',
     mp_start_timestamp_ns = field_u64 0 dp ''startTimeUnixNano'',
     mp_name = field_str m ''name'',
     mp_description = field_str m ''description'',
     mp_unit = field_str m ''unit'',
     mp_metric_type = ty,
     mp_value_double = field dp ''asDouble'' (value_as_f64 F),
     mp_value_int = field dp ''asInt'' value_as_i64,
     mp_histogram = None,
     mp_attributes = field_attrs F dp,
     mp_resource_attributes = res,
     mp_scope = scope,
     mp_schema_url = url\<rparr>"

definition decode_metric :: "fp_ops \<Rightarrow> attrs \<Rightarrow> instrumentation_scope \<Rightarrow> string \<Rightarrow> json \<Rightarrow> metric_point list" where
  "decode_metric F res scope url m =
     (case value_get m ''gauge'' of
        Some gauge \<Rightarrow> map (decode_point F m MT_Gauge res scope url) (field_array gauge ''dataPoints'')
      | None \<Rightarrow> [])
   @ (case value_get m ''sum'' of
        Some s \<Rightarrow>
          (let monotonic = (case field s ''isMonotonic'' value_as_bool of Some b \<Rightarrow> b | None \<Rightarrow> False);
               temporality = field_i32 s ''aggregationTemporality'' in
           map (decode_point F m (MT_Sum monotonic temporality) res scope url) (field_array s ''dataPoints''))
      | None \<Rightarrow> [])"

definition decode_scope_metrics :: "fp_ops \<Rightarrow> attrs \<Rightarrow> json \<Rightarrow> metric_point list" where
  "decode_scope_metrics F res sm =
     concat (map (decode_metric F res (decode_scope F (value_get sm ''scope'')) (field_str sm ''schemaUrl''))
       (field_array sm ''metrics''))"

definition decode_metrics :: "fp_ops \<Rightarrow> json \<Rightarrow> metric_point list" where
  "decode_metrics F json =
     concat (map (\<lambda>rm. concat (map (decode_scope_metrics F (decode_resource F rm)) (field_array rm ''scopeMetrics'')))
       (field_array json ''resourceMetrics''))"

section \<open>Spans\<close>

definition decode_event :: "fp_ops \<Rightarrow> json \<Rightarrow> span_event" where
  "decode_event F e =
     \<lparr>se_timestamp_ns = field_u64 0 e ''timeUnixNano'', se_name = field_str e ''name'', se_attributes = field_attrs F e\<rparr>"

definition decode_link :: "fp_ops \<Rightarrow> json \<Rightarrow> span_link option option" where
  "decode_link F l =
     Option.bind (field_id hex_to_16 l ''traceId'') (\<lambda>trace_id.
       case trace_id of
         None \<Rightarrow> Some None
       | Some trace_id \<Rightarrow>
           Option.bind (field_id hex_to_8 l ''spanId'') (\<lambda>span_id.
             Some (map_option (\<lambda>span_id.
               \<lparr>sl_trace_id = trace_id, sl_span_id = span_id, sl_trace_state = field_str l ''traceState'',
                sl_attributes = field_attrs F l\<rparr>) span_id)))"

definition decode_span ::
  "fp_ops \<Rightarrow> attrs \<Rightarrow> instrumentation_scope \<Rightarrow> string \<Rightarrow> json \<Rightarrow> span_record option option" where
  "decode_span F res scope url span =
     Option.bind (field_id hex_to_16 span ''traceId'') (\<lambda>trace_id.
       case trace_id of
         None \<Rightarrow> Some None
       | Some trace_id \<Rightarrow>
           Option.bind (field_id hex_to_8 span ''spanId'') (\<lambda>span_id.
             case span_id of
               None \<Rightarrow> Some None
             | Some span_id \<Rightarrow>
                 let start_ns = field_u64 0 span ''startTimeUnixNano'';
                     end_ns = field_u64 0 span ''endTimeUnixNano'';
                     status = (case value_get span ''status'' of Some s \<Rightarrow> s | None \<Rightarrow> J_Null) in
                 Option.bind (field_id hex_to_8 span ''parentSpanId'') (\<lambda>parent.
                   Option.bind (decode_all (decode_link F) (field_array span ''links'')) (\<lambda>links.
                     Some (Some \<lparr>
                       sr_trace_id = trace_id,
                       sr_span_id = span_id,
                       sr_parent_span_id = parent,
                       sr_name = field_str span ''name'',
                       sr_kind = field_i32 span ''kind'',
                       sr_start_time_ns = start_ns,
                       sr_end_time_ns = end_ns,
                       sr_duration_ns = saturating_sub end_ns start_ns,
                       sr_status_code = field_i32 status ''code'',
                       sr_status_message = field_str status ''message'',
                       sr_attributes = field_attrs F span,
                       sr_resource_attributes = res,
                       sr_scope = scope,
                       sr_events = map (decode_event F) (field_array span ''events''),
                       sr_links = List.map_filter id links,
                       sr_schema_url = url\<rparr>)))))"

definition decode_scope_spans :: "fp_ops \<Rightarrow> attrs \<Rightarrow> json \<Rightarrow> span_record list option" where
  "decode_scope_spans F res ss =
     map_option (List.map_filter id)
       (decode_all (decode_span F res (decode_scope F (value_get ss ''scope'')) (field_str ss ''schemaUrl''))
         (field_array ss ''spans''))"

definition decode_resource_spans :: "fp_ops \<Rightarrow> json \<Rightarrow> span_record list option" where
  "decode_resource_spans F rs =
     map_option concat (decode_all (decode_scope_spans F (decode_resource F rs)) (field_array rs ''scopeSpans''))"

definition decode_spans :: "fp_ops \<Rightarrow> json \<Rightarrow> span_record list option" where
  "decode_spans F json = map_option concat (decode_all (decode_resource_spans F) (field_array json ''resourceSpans''))"

end
