(* ===== verification/Json_Agreement.thy ===== *)
theory Json_Agreement
  imports Json_Decoder
begin

text \<open>
  The OTLP/JSON encoding of a request, as the protocol defines it, and what the decoder makes of
  it: the same records as the conversion of the protobuf message, up to the parts of a request the
  decoder ignores.
\<close>

section \<open>The encoding\<close>

definition hex_char :: "nat \<Rightarrow> char" where
  "hex_char n = (if n < 10 then digit_char n else char_of (87 + n))"

definition hex_string :: "bytes \<Rightarrow> string" where
  "hex_string b = concat (map (\<lambda>x. [hex_char (unat x div 16), hex_char (unat x mod 16)]) b)"

definition json_u64 :: "u64 \<Rightarrow> json" where
  "json_u64 n = J_String (dec_string (unat n))"

definition json_i64 :: "i64 \<Rightarrow> json" where
  "json_i64 i = J_String (signed_dec i)"

definition json_i32 :: "i32 \<Rightarrow> json" where
  "json_i32 i = J_Number (if 0 \<le> i then N_PosInt (word_of_int i) else N_NegInt i)"

text \<open>A double that is not a number or infinite, all of whose exponent bits are set, is a string.\<close>

definition f64_finite :: "f64 \<Rightarrow> bool" where
  "f64_finite d \<longleftrightarrow> unat d div 2 ^ 52 mod 2048 \<noteq> 2047"

definition json_double :: "f64 \<Rightarrow> json" where
  "json_double d =
     (if f64_finite d then J_Number (N_Float d)
      else J_String (if unat d mod 2 ^ 52 \<noteq> 0 then ''NaN'' else if unat d < 2 ^ 63 then ''Infinity'' else ''-Infinity''))"

text \<open>The encoding of byte strings (base 64) is an argument: the decoder does not read them.\<close>

fun json_any :: "(bytes \<Rightarrow> string) \<Rightarrow> proto_any \<Rightarrow> json" where
  "json_any B PA_None = J_Object []"
| "json_any B (PA_String s) = J_Object [(''stringValue'', J_String s)]"
| "json_any B (PA_Bool b) = J_Object [(''boolValue'', J_Bool b)]"
| "json_any B (PA_Int i) = J_Object [(''intValue'', json_i64 i)]"
| "json_any B (PA_Double d) = J_Object [(''doubleValue'', json_double d)]"
| "json_any B (PA_Array vs) = J_Object [(''arrayValue'', J_Object [(''values'', J_Array (map (json_any B) vs))])]"
| "json_any B (PA_Kvlist kvs) =
     J_Object [(''kvlistValue'', J_Object [(''values'', J_Array (map (\<lambda>(k, v).
       J_Object ((''key'', J_String k) # (case v of Some x \<Rightarrow> [(''value'', json_any B x)] | None \<Rightarrow> []))) kvs))])]"
| "json_any B (PA_Bytes b) = J_Object [(''bytesValue'', J_String (B b))]"

definition json_attrs :: "(bytes \<Rightarrow> string) \<Rightarrow> proto_kvs \<Rightarrow> json" where
  "json_attrs B kvs = J_Array (map (\<lambda>(k, v).
     J_Object ((''key'', J_String k) # (case v of Some x \<Rightarrow> [(''value'', json_any B x)] | None \<Rightarrow> []))) kvs)"

definition opt_field :: "string \<Rightarrow> ('a \<Rightarrow> json) \<Rightarrow> 'a option \<Rightarrow> (string \<times> json) list" where
  "opt_field k f x = (case x of Some y \<Rightarrow> [(k, f y)] | None \<Rightarrow> [])"

definition json_scope :: "(bytes \<Rightarrow> string) \<Rightarrow> proto_scope \<Rightarrow> json" where
  "json_scope B s = J_Object [(''name'', J_String (ps_name s)), (''version'', J_String (ps_version s)),
     (''attributes'', json_attrs B (ps_attributes s))]"

definition json_resource :: "(bytes \<Rightarrow> string) \<Rightarrow> proto_resource \<Rightarrow> json" where
  "json_resource B r = J_Object [(''attributes'', json_attrs B (pr_attributes r))]"

definition json_resource_item :: "(bytes \<Rightarrow> string) \<Rightarrow> string \<Rightarrow> proto_resource option \<Rightarrow> json list \<Rightarrow> json" where
  "json_resource_item B k r items = J_Object (opt_field ''resource'' (json_resource B) r @ [(k, J_Array items)])"

definition json_scope_item :: "(bytes \<Rightarrow> string) \<Rightarrow> string \<Rightarrow> proto_scope option \<Rightarrow> string \<Rightarrow> json list \<Rightarrow> json" where
  "json_scope_item B k scope url items =
     J_Object (opt_field ''scope'' (json_scope B) scope @ [(''schemaUrl'', J_String url), (k, J_Array items)])"

definition json_log :: "(bytes \<Rightarrow> string) \<Rightarrow> proto_log \<Rightarrow> json" where
  "json_log B r = J_Object
     ([(''timeUnixNano'', json_u64 (pl_time_unix_nano r)),
       (''observedTimeUnixNano'', json_u64 (pl_observed_time_unix_nano r)),
       (''severityNumber'', json_i32 (pl_severity_number r)),
       (''severityText'', J_String (pl_severity_text r)),
       (''attributes'', json_attrs B (pl_attributes r)),
       (''traceId'', J_String (hex_string (pl_trace_id r))),
       (''spanId'', J_String (hex_string (pl_span_id r)))]
      @ opt_field ''body'' (json_any B) (pl_body r))"

definition json_logs :: "(bytes \<Rightarrow> string) \<Rightarrow> resource_logs list \<Rightarrow> json" where
  "json_logs B rs = J_Object [(''resourceLogs'', J_Array (map (\<lambda>r. json_resource_item B ''scopeLogs'' (rl_resource r) (map (\<lambda>s.
     json_scope_item B ''logRecords'' (sg_scope s) (sg_schema_url s) (map (json_log B) (sg_log_records s))) (rl_scope_logs r))) rs))]"

definition json_number_point :: "(bytes \<Rightarrow> string) \<Rightarrow> number_data_point \<Rightarrow> json" where
  "json_number_point B dp = J_Object
     ([(''attributes'', json_attrs B (nd_attributes dp)),
       (''startTimeUnixNano'', json_u64 (nd_start_time_unix_nano dp)),
       (''timeUnixNano'', json_u64 (nd_time_unix_nano dp))]
      @ (case nd_value dp of
           Some (AsDouble d) \<Rightarrow> [(''asDouble'', json_double d)]
         | Some (AsInt i) \<Rightarrow> [(''asInt'', json_i64 i)]
         | None \<Rightarrow> []))"

text \<open>The points of the other kinds of metrics are left out: the decoder does not look inside them.\<close>

definition json_metric :: "(bytes \<Rightarrow> string) \<Rightarrow> proto_metric \<Rightarrow> json" where
  "json_metric B m = J_Object
     ([(''name'', J_String (pm_name m)), (''description'', J_String (pm_description m)), (''unit'', J_String (pm_unit m))]
      @ (case pm_data m of
           Some (MD_Gauge dps) \<Rightarrow> [(''gauge'', J_Object [(''dataPoints'', J_Array (map (json_number_point B) dps))])]
         | Some (MD_Sum dps temporality monotonic) \<Rightarrow>
             [(''sum'', J_Object [(''dataPoints'', J_Array (map (json_number_point B) dps)),
                                 (''aggregationTemporality'', json_i32 temporality), (''isMonotonic'', J_Bool monotonic)])]
         | Some (MD_Histogram dps temporality) \<Rightarrow> [(''histogram'', J_Object [(''aggregationTemporality'', json_i32 temporality)])]
         | Some MD_ExponentialHistogram \<Rightarrow> [(''exponentialHistogram'', J_Object [])]
         | Some MD_Summary \<Rightarrow> [(''summary'', J_Object [])]
         | None \<Rightarrow> []))"

definition json_metrics :: "(bytes \<Rightarrow> string) \<Rightarrow> resource_metrics list \<Rightarrow> json" where
  "json_metrics B rs = J_Object [(''resourceMetrics'', J_Array (map (\<lambda>r. json_resource_item B ''scopeMetrics'' (rm_resource r) (map (\<lambda>s.
     json_scope_item B ''metrics'' (sm_scope s) (sm_schema_url s) (map (json_metric B) (sm_metrics s))) (rm_scope_metrics r))) rs))]"

definition json_event :: "(bytes \<Rightarrow> string) \<Rightarrow> proto_event \<Rightarrow> json" where
  "json_event B e = J_Object [(''timeUnixNano'', json_u64 (pe_time_unix_nano e)), (''name'', J_String (pe_name e)),
     (''attributes'', json_attrs B (pe_attributes e))]"

definition json_link :: "(bytes \<Rightarrow> string) \<Rightarrow> proto_link \<Rightarrow> json" where
  "json_link B l = J_Object [(''traceId'', J_String (hex_string (pk_trace_id l))),
     (''spanId'', J_String (hex_string (pk_span_id l))), (''traceState'', J_String (pk_trace_state l)),
     (''attributes'', json_attrs B (pk_attributes l))]"

definition json_status :: "proto_status \<Rightarrow> json" where
  "json_status s = J_Object [(''message'', J_String (pt_message s)), (''code'', json_i32 (pt_code s))]"

definition json_span :: "(bytes \<Rightarrow> string) \<Rightarrow> proto_span \<Rightarrow> json" where
  "json_span B s = J_Object
     ([(''traceId'', J_String (hex_string (pn_trace_id s))), (''spanId'', J_String (hex_string (pn_span_id s))),
       (''parentSpanId'', J_String (hex_string (pn_parent_span_id s))), (''name'', J_String (pn_name s)),
       (''kind'', json_i32 (pn_kind s)), (''startTimeUnixNano'', json_u64 (pn_start_time_unix_nano s)),
       (''endTimeUnixNano'', json_u64 (pn_end_time_unix_nano s)), (''attributes'', json_attrs B (pn_attributes s)),
       (''events'', J_Array (map (json_event B) (pn_events s))), (''links'', J_Array (map (json_link B) (pn_links s)))]
      @ opt_field ''status'' json_status (pn_status s))"

definition json_spans :: "(bytes \<Rightarrow> string) \<Rightarrow> resource_spans list \<Rightarrow> json" where
  "json_spans B rs = J_Object [(''resourceSpans'', J_Array (map (\<lambda>r. json_resource_item B ''scopeSpans'' (rs_resource r) (map (\<lambda>s.
     json_scope_item B ''spans'' (sp_scope s) (sp_schema_url s) (map (json_span B) (sp_spans s))) (rs_scope_spans r))) rs))]"

section \<open>What the decoder ignores\<close>

text \<open>
  The decoder reads no key-value lists, no byte strings and no doubles encoded as a string (it
  returns an empty string), no integer or non-finite value of a data point and no histogram, and it
  gives an attribute without a value the empty string, where the conversion of the protobuf message
  drops it.
\<close>

fun forget_any :: "proto_any \<Rightarrow> proto_any" where
  "forget_any (PA_Kvlist kvs) = PA_None"
| "forget_any (PA_Bytes b) = PA_None"
| "forget_any (PA_Double d) = (if f64_finite d then PA_Double d else PA_None)"
| "forget_any (PA_Array vs) = PA_Array (map forget_any vs)"
| "forget_any v = v"

definition forget_kvs :: "proto_kvs \<Rightarrow> proto_kvs" where
  "forget_kvs kvs = map (\<lambda>(k, v). (k, Some (case v of Some x \<Rightarrow> forget_any x | None \<Rightarrow> PA_None))) kvs"

definition forget_scope :: "proto_scope \<Rightarrow> proto_scope" where
  "forget_scope s = s\<lparr>ps_attributes := forget_kvs (ps_attributes s)\<rparr>"

definition forget_resource :: "proto_resource \<Rightarrow> proto_resource" where
  "forget_resource r = r\<lparr>pr_attributes := forget_kvs (pr_attributes r)\<rparr>"

definition forget_log :: "proto_log \<Rightarrow> proto_log" where
  "forget_log r = r\<lparr>pl_attributes := forget_kvs (pl_attributes r), pl_body := map_option forget_any (pl_body r)\<rparr>"

definition forget_logs :: "resource_logs \<Rightarrow> resource_logs" where
  "forget_logs rl = rl\<lparr>rl_resource := map_option forget_resource (rl_resource rl),
     rl_scope_logs := map (\<lambda>sl. sl\<lparr>sg_scope := map_option forget_scope (sg_scope sl),
                                  sg_log_records := map forget_log (sg_log_records sl)\<rparr>) (rl_scope_logs rl)\<rparr>"

definition forget_point :: "number_data_point \<Rightarrow> number_data_point" where
  "forget_point dp = dp\<lparr>nd_attributes := forget_kvs (nd_attributes dp),
     nd_value := (case nd_value dp of Some (AsDouble d) \<Rightarrow> if f64_finite d then Some (AsDouble d) else None | _ \<Rightarrow> None)\<rparr>"

definition forget_metric :: "proto_metric \<Rightarrow> proto_metric" where
  "forget_metric m = m\<lparr>pm_data :=
     (case pm_data m of
        Some (MD_Gauge dps) \<Rightarrow> Some (MD_Gauge (map forget_point dps))
      | Some (MD_Sum dps temporality monotonic) \<Rightarrow> Some (MD_Sum (map forget_point dps) temporality monotonic)
      | _ \<Rightarrow> None)\<rparr>"

definition forget_metrics :: "resource_metrics \<Rightarrow> resource_metrics" where
  "forget_metrics rm = rm\<lparr>rm_resource := map_option forget_resource (rm_resource rm),
     rm_scope_metrics := map (\<lambda>sm. sm\<lparr>sm_scope := map_option forget_scope (sm_scope sm),
                                     sm_metrics := map forget_metric (sm_metrics sm)\<rparr>) (rm_scope_metrics rm)\<rparr>"

definition forget_span :: "proto_span \<Rightarrow> proto_span" where
  "forget_span s = s\<lparr>pn_attributes := forget_kvs (pn_attributes s),
     pn_events := map (\<lambda>e. e\<lparr>pe_attributes := forget_kvs (pe_attributes e)\<rparr>) (pn_events s),
     pn_links := map (\<lambda>l. l\<lparr>pk_attributes := forget_kvs (pk_attributes l)\<rparr>) (pn_links s)\<rparr>"

definition forget_spans :: "resource_spans \<Rightarrow> resource_spans" where
  "forget_spans rs = rs\<lparr>rs_resource := map_option forget_resource (rs_resource rs),
     rs_scope_spans := map (\<lambda>ss. ss\<lparr>sp_scope := map_option forget_scope (sp_scope ss),
                                   sp_spans := map forget_span (sp_spans ss)\<rparr>) (rs_scope_spans rs)\<rparr>"

text \<open>The integers of a message are in the range of their type.\<close>

fun any_ok :: "proto_any \<Rightarrow> bool" where
  "any_ok (PA_Int i) = (i64_min \<le> i \<and> i \<le> i64_max)"
| "any_ok (PA_Array vs) = list_all any_ok vs"
| "any_ok _ = True"

definition i32_ok :: "i32 \<Rightarrow> bool" where
  "i32_ok n \<longleftrightarrow> - (2 ^ 31) \<le> n \<and> n < 2 ^ 31"

definition kvs_ok :: "proto_kvs \<Rightarrow> bool" where
  "kvs_ok kvs = list_all (\<lambda>(k, v). pred_option any_ok v) kvs"

definition envelope_ok :: "proto_resource option \<Rightarrow> proto_scope option list \<Rightarrow> bool" where
  "envelope_ok r ss \<longleftrightarrow> pred_option (\<lambda>r. kvs_ok (pr_attributes r)) r \<and> list_all (pred_option (\<lambda>s. kvs_ok (ps_attributes s))) ss"

definition log_ok :: "proto_log \<Rightarrow> bool" where
  "log_ok r \<longleftrightarrow> kvs_ok (pl_attributes r) \<and> pred_option any_ok (pl_body r) \<and> i32_ok (pl_severity_number r)"

definition logs_ok :: "resource_logs \<Rightarrow> bool" where
  "logs_ok rl \<longleftrightarrow> envelope_ok (rl_resource rl) (map sg_scope (rl_scope_logs rl)) \<and>
     list_all (\<lambda>sl. list_all log_ok (sg_log_records sl)) (rl_scope_logs rl)"

definition metric_ok :: "proto_metric \<Rightarrow> bool" where
  "metric_ok m =
     (case pm_data m of
        Some (MD_Gauge dps) \<Rightarrow> list_all (\<lambda>dp. kvs_ok (nd_attributes dp)) dps
      | Some (MD_Sum dps temporality _) \<Rightarrow> list_all (\<lambda>dp. kvs_ok (nd_attributes dp)) dps \<and> i32_ok temporality
      | _ \<Rightarrow> True)"

definition metrics_ok :: "resource_metrics \<Rightarrow> bool" where
  "metrics_ok rm \<longleftrightarrow> envelope_ok (rm_resource rm) (map sm_scope (rm_scope_metrics rm)) \<and>
     list_all (\<lambda>sm. list_all metric_ok (sm_metrics sm)) (rm_scope_metrics rm)"

definition span_ok :: "proto_span \<Rightarrow> bool" where
  "span_ok s \<longleftrightarrow> kvs_ok (pn_attributes s) \<and> i32_ok (pn_kind s) \<and> pred_option (\<lambda>st. i32_ok (pt_code st)) (pn_status s) \<and>
     list_all (\<lambda>e. kvs_ok (pe_attributes e)) (pn_events s) \<and> list_all (\<lambda>l. kvs_ok (pk_attributes l)) (pn_links s)"

definition spans_ok :: "resource_spans \<Rightarrow> bool" where
  "spans_ok rs \<longleftrightarrow> envelope_ok (rs_resource rs) (map sp_scope (rs_scope_spans rs)) \<and>
     list_all (\<lambda>ss. list_all span_ok (sp_spans ss)) (rs_scope_spans rs)"

section \<open>Fields\<close>

lemma hex_digit_char: "n < 16 \<Longrightarrow> hex_digit (hex_char n) = Some n"
  by (auto simp: hex_digit_def hex_char_def is_digit_def char_code_def digit_char_def)

lemma hex_char_ascii: "n < 16 \<Longrightarrow> is_ascii (hex_char n) \<and> \<not> is_space (hex_char n) \<and> hex_char n \<noteq> CHR ''+''"
  using hex_digit_char [of n]
  by (auto simp: hex_digit_def is_ascii_def is_space_def is_digit_def char_code_def split: if_splits)

lemma nibbles: "unat (x :: u8) div 16 < 16" "unat x mod 16 < 16"
  using unsigned_less [of x] by (simp_all add: div_less_iff_less_mult)

lemma hex_string_ascii: "c \<in> set (hex_string b) \<Longrightarrow> is_ascii c \<and> \<not> is_space c"
  using hex_char_ascii nibbles by (auto simp: hex_string_def)

lemma trim_hex_string: "trim (hex_string b) = hex_string b"
proof (cases "hex_string b = []")
  case True
  have "find (\<lambda>w. w \<noteq> [] \<and> starts_with [] w) ws = None" for ws by (auto simp: find_None_iff elim: starts_with.elims)
  then have "trim_front ws [] = []" for ws by (simp add: trim_front.simps)
  then show ?thesis by (simp add: True trim_def)
next
  case False
  then have "is_ascii c \<and> \<not> is_space c" if "c = hd (hex_string b) \<or> c = last (hex_string b)" for c
    using that hex_string_ascii [of c b] by auto
  then show ?thesis using False by (intro trim_id) blast+
qed

lemma length_hex_string: "length (hex_string b) = 2 * length b"
  by (induction b) (simp_all add: hex_string_def)

lemma hex_pairs_string: "hex_pairs (hex_string b) = Some (Some b)"
proof (induction b)
  case (Cons x b)
  have inside: "\<not> inside_char (hex_string b)" for b
    using hex_string_ascii [of "hd (hex_string b)" b] by (cases "hex_string b") (auto simp: inside_char_def is_ascii_def)
  have "word_of_nat (16 * (unat x div 16) + unat x mod 16) = x" by (simp only: mult_div_mod_eq) simp
  then have pair: "hex_pair (hex_char (unat x div 16)) (hex_char (unat x mod 16)) = Some x"
    using hex_char_ascii [OF nibbles(1), of x] by (simp add: hex_pair_def hex_digit_char nibbles del: of_nat_add of_nat_mult)
  have "hex_string (x # b) = hex_char (unat x div 16) # hex_char (unat x mod 16) # hex_string b"
    by (simp add: hex_string_def)
  then show ?case using Cons inside [of "x # b"] inside [of b] pair by simp
qed (simp add: hex_string_def)

lemma hex_to_ids [simp]:
  "hex_to_16 (hex_string b) = Some (bytes_to_array16 b)" "hex_to_8 (hex_string b) = Some (bytes_to_array8 b)"
  by (simp_all add: hex_to_16_def hex_to_8_def trim_hex_string length_hex_string hex_pairs_string
      bytes_to_array16_def bytes_to_array8_def)

lemma decode_json_u64 [simp]: "decode_u64 (json_u64 n) = n"
  using parse_u64_pad_zeros [of 0 n] by (simp add: decode_u64_def json_u64_def pad_zeros_def)

lemma decode_json_i64 [simp]: "i64_min \<le> i \<Longrightarrow> i \<le> i64_max \<Longrightarrow> decode_int (json_i64 i) = i"
  by (simp add: decode_int_def json_i64_def parse_i64_signed_dec)

lemma value_as_json_i32 [simp]: "i32_ok n \<Longrightarrow> value_as_i64 (json_i32 n) = Some n"
  by (auto simp: json_i32_def i32_ok_def i64_max_def nat_take_bit_eq take_bit_int_eq_self unsigned_of_int)

lemma wrap_i32_ok [simp]: "i32_ok n \<Longrightarrow> wrap_i32 n = n"
  by (simp add: wrap_i32_def i32_ok_def signed_take_bit_int_eq_self)

lemma wrap_i32_0 [simp]: "wrap_i32 0 = 0"
  by (simp add: i32_ok_def)

lemmas json_fields = field_def field_str_def field_array_def field_i32_def field_u64_def field_attrs_def field_id_def
  json_double_def opt_field_def

section \<open>Agreement\<close>

lemma decode_json_any: "any_ok v \<Longrightarrow> decode_any_value F (json_any B v) = convert_any_value (forget_any v)"
proof (induction v rule: json_any.induct)
  case (6 B vs)
  then have "map (decode_any_value F \<circ> json_any B) vs = map (convert_any_value \<circ> forget_any) vs"
    by (auto simp: list_all_iff)
  then show ?case by (simp add: decode_any_value.simps json_fields array_values_def comp_def)
qed (simp_all add: decode_any_value.simps json_fields array_values_def)

lemma map_filter_Some: "(\<And>x. x \<in> set xs \<Longrightarrow> f x = Some (g x)) \<Longrightarrow> List.map_filter f xs = map g xs"
  by (induction xs) (auto simp: List.map_filter_simps)

lemma decode_json_attrs: "kvs_ok kvs \<Longrightarrow> decode_attrs F (json_attrs B kvs) = convert_attrs (forget_kvs kvs)"
proof -
  assume ok: "kvs_ok kvs"
  let ?g = "\<lambda>(k, v). (k, convert_any_value (case v of Some x \<Rightarrow> forget_any x | None \<Rightarrow> PA_None))"
  let ?j = "\<lambda>(k, v). J_Object ((''key'', J_String k) # (case v of Some x \<Rightarrow> [(''value'', json_any B x)] | None \<Rightarrow> []))"
  have "(decode_attr F \<circ> ?j) kv = Some (?g kv)" if "kv \<in> set kvs" for kv
  proof -
    obtain k v where kv: "kv = (k, v)" by fastforce
    then have "pred_option any_ok v" using that ok by (auto simp: kvs_ok_def list_all_iff)
    then show ?thesis by (cases v) (simp_all add: kv decode_attr_def json_fields decode_json_any)
  qed
  then have "List.map_filter (decode_attr F \<circ> ?j) kvs = map ?g kvs" by (rule map_filter_Some)
  moreover have "List.map_filter (\<lambda>(k, v). map_option (\<lambda>x. (k, convert_any_value x)) v) (forget_kvs kvs) = map ?g kvs"
    by (simp add: forget_kvs_def List.map_filter_def comp_def case_prod_unfold)
  moreover have "List.map_filter (decode_attr F) (map ?j kvs) = List.map_filter (decode_attr F \<circ> ?j) kvs"
    by (simp add: List.map_filter_def filter_map comp_def)
  ultimately show ?thesis by (simp add: decode_attrs_def json_attrs_def convert_attrs_def)
qed

lemma decode_all_map:
  "(\<And>x. x \<in> set xs \<Longrightarrow> f (enc x) = Some (g x)) \<Longrightarrow> decode_all f (map enc xs) = Some (map g xs)"
  by (induction xs) auto

lemma decode_all_enc: "decode_all f (map enc xs) = decode_all (\<lambda>x. f (enc x)) xs"
  by (induction xs) simp_all

lemma decode_all_Some: "decode_all (\<lambda>x. Some (g x)) xs = Some (map g xs)"
  by (induction xs) simp_all

lemma decode_all_cong: "xs = ys \<Longrightarrow> (\<And>x. x \<in> set ys \<Longrightarrow> f x = g x) \<Longrightarrow> decode_all f xs = decode_all g ys"
  by (induction ys arbitrary: xs) auto

lemma decode_json_scope:
  "pred_option (\<lambda>s. kvs_ok (ps_attributes s)) s \<Longrightarrow>
     decode_scope F (map_option (json_scope B) s) = convert_scope (map_option forget_scope s)"
  by (cases s) (simp_all add: decode_scope_def convert_scope_def json_scope_def forget_scope_def json_fields decode_json_attrs)

lemma decode_json_resource:
  "pred_option (\<lambda>r. kvs_ok (pr_attributes r)) r \<Longrightarrow> value_get v ''resource'' = map_option (json_resource B) r \<Longrightarrow>
     decode_resource F v = resource_attrs (map_option forget_resource r)"
  by (cases r) (simp_all add: decode_resource_def resource_attrs_def json_resource_def forget_resource_def json_fields decode_json_attrs)

lemma decode_json_log:
  "log_ok r \<Longrightarrow> decode_log F res scope url (json_log B r) = Some (normalise_log res scope url (forget_log r))"
  by (auto simp: decode_log_def json_log_def normalise_log_def forget_log_def log_ok_def json_fields decode_json_attrs
      decode_json_any Let_def split: option.splits)

lemma decode_json_point:
  "kvs_ok (nd_attributes dp) \<Longrightarrow>
     decode_point F (json_metric B m) ty res scope url (json_number_point B dp) =
     number_point (forget_metric m) ty res scope url (forget_point dp)"
  by (auto simp: decode_point_def json_metric_def json_number_point_def number_point_def forget_point_def forget_metric_def
      json_fields decode_json_attrs json_i64_def split: option.splits number_value.splits)

lemma decode_json_metric:
  assumes ok: "metric_ok m"
  shows "decode_metric F res scope url (json_metric B m) = normalise_metric res scope url (forget_metric m)"
proof -
  note defs = decode_metric_def normalise_metric_def metric_ok_def
  have point: "decode_point F (json_metric B m) ty res scope url (json_number_point B dp) =
      number_point (forget_metric m) ty res scope url (forget_point dp)" if "kvs_ok (nd_attributes dp)" for ty dp
    using that by (rule decode_json_point)
  consider (gauge) dps where "pm_data m = Some (MD_Gauge dps)" | (s) dps t mono where "pm_data m = Some (MD_Sum dps t mono)"
    | (other) "forget_metric m = m\<lparr>pm_data := None\<rparr>" "value_get (json_metric B m) ''gauge'' = None" "value_get (json_metric B m) ''sum'' = None"
    by (cases "pm_data m"; cases "the (pm_data m)") (simp_all add: forget_metric_def json_metric_def)
  then show ?thesis
  proof cases
    case gauge
    have f: "pm_data (forget_metric m) = Some (MD_Gauge (map forget_point dps))" by (simp add: forget_metric_def gauge)
    have g: "value_get (json_metric B m) ''gauge'' = Some (J_Object [(''dataPoints'', J_Array (map (json_number_point B) dps))])"
      "value_get (json_metric B m) ''sum'' = None"
      by (simp_all add: json_metric_def gauge)
    show ?thesis using ok point by (simp add: defs f g gauge json_fields list_all_iff)
  next
    case s
    have f: "pm_data (forget_metric m) = Some (MD_Sum (map forget_point dps) t mono)" by (simp add: forget_metric_def s)
    have g: "value_get (json_metric B m) ''sum'' = Some (J_Object [(''dataPoints'', J_Array (map (json_number_point B) dps)),
          (''aggregationTemporality'', json_i32 t), (''isMonotonic'', J_Bool mono)])"
      "value_get (json_metric B m) ''gauge'' = None"
      by (simp_all add: json_metric_def s)
    show ?thesis using ok point by (simp add: defs f g s json_fields list_all_iff Let_def)
  next
    case other
    then show ?thesis by (simp add: defs)
  qed
qed

lemma decode_json_event:
  "kvs_ok (pe_attributes e) \<Longrightarrow>
     decode_event F (json_event B e) = normalise_event (e\<lparr>pe_attributes := forget_kvs (pe_attributes e)\<rparr>)"
  by (simp add: decode_event_def json_event_def normalise_event_def json_fields decode_json_attrs)

lemma decode_json_link:
  "kvs_ok (pk_attributes l) \<Longrightarrow>
     decode_link F (json_link B l) = Some (normalise_link (l\<lparr>pk_attributes := forget_kvs (pk_attributes l)\<rparr>))"
  by (auto simp: decode_link_def json_link_def normalise_link_def json_fields decode_json_attrs
      bytes_to_array8_def bytes_to_array16_def)

lemma decode_json_links:
  assumes "list_all (\<lambda>l. kvs_ok (pk_attributes l)) ls"
  shows "decode_all (decode_link F) (map (json_link B) ls) =
    Some (map (\<lambda>l. normalise_link (l\<lparr>pk_attributes := forget_kvs (pk_attributes l)\<rparr>)) ls)"
  using assms by (intro decode_all_map decode_json_link) (simp add: list_all_iff)

lemma map_filter_id_map: "List.map_filter id (map f xs) = List.map_filter f xs"
  by (simp add: List.map_filter_def filter_map comp_def)

lemma map_filter_map: "List.map_filter f (map g xs) = List.map_filter (\<lambda>x. f (g x)) xs"
  by (simp add: List.map_filter_def filter_map comp_def)

lemma decode_json_span:
  assumes ok: "span_ok s"
  shows "decode_span F res scope url (json_span B s) = Some (normalise_span res scope url (forget_span s))"
proof -
  have status: "field_i32 (case value_get (json_span B s) ''status'' of Some v \<Rightarrow> v | None \<Rightarrow> J_Null) ''code'' =
      (case pn_status s of Some st \<Rightarrow> pt_code st | None \<Rightarrow> 0)"
    "field_str (case value_get (json_span B s) ''status'' of Some v \<Rightarrow> v | None \<Rightarrow> J_Null) ''message'' =
      (case pn_status s of Some st \<Rightarrow> pt_message st | None \<Rightarrow> '''')"
    using ok by (cases "pn_status s"; simp add: json_span_def json_status_def json_fields span_ok_def)+
  have fields: "field_id hex (json_span B s) ''traceId'' = hex (hex_string (pn_trace_id s))"
    "field_id hex (json_span B s) ''spanId'' = hex (hex_string (pn_span_id s))"
    "field_id hex (json_span B s) ''parentSpanId'' = hex (hex_string (pn_parent_span_id s))"
    "field_u64 0 (json_span B s) ''startTimeUnixNano'' = pn_start_time_unix_nano s"
    "field_u64 0 (json_span B s) ''endTimeUnixNano'' = pn_end_time_unix_nano s"
    "field_str (json_span B s) ''name'' = pn_name s"
    "field_i32 (json_span B s) ''kind'' = pn_kind s"
    "field_array (json_span B s) ''links'' = map (json_link B) (pn_links s)"
    "field_array (json_span B s) ''events'' = map (json_event B) (pn_events s)"
    "field_attrs F (json_span B s) = convert_attrs (forget_kvs (pn_attributes s))" for hex
    using ok by (simp_all add: json_span_def json_fields span_ok_def decode_json_attrs)
  have events: "map (\<lambda>e. decode_event F (json_event B e)) (pn_events s) =
      map (\<lambda>e. normalise_event (e\<lparr>pe_attributes := forget_kvs (pe_attributes e)\<rparr>)) (pn_events s)"
    using ok by (auto simp: span_ok_def list_all_iff decode_json_event)
  have links: "decode_all (decode_link F) (map (json_link B) (pn_links s)) =
      Some (map (\<lambda>l. normalise_link (l\<lparr>pk_attributes := forget_kvs (pk_attributes l)\<rparr>)) (pn_links s))"
    using ok by (simp add: decode_json_links span_ok_def)
  show ?thesis
    unfolding decode_span_def fields hex_to_ids Let_def status links
    by (cases "bytes_to_array16 (pn_trace_id s)"; cases "bytes_to_array8 (pn_span_id s)")
      (simp_all add: normalise_span_def forget_span_def comp_def events map_filter_id_map map_filter_map)
qed

lemma json_items:
  "k \<noteq> ''resource'' \<Longrightarrow> value_get (json_resource_item B k r items) ''resource'' = map_option (json_resource B) r"
  "k \<noteq> ''resource'' \<Longrightarrow> field_array (json_resource_item B k r items) k = items"
  "k \<noteq> ''scope'' \<Longrightarrow> value_get (json_scope_item B k s url items) ''scope'' = map_option (json_scope B) s"
  "field_str (json_scope_item B k s url items) ''schemaUrl'' = url"
  "k \<noteq> ''scope'' \<Longrightarrow> k \<noteq> ''schemaUrl'' \<Longrightarrow> field_array (json_scope_item B k s url items) k = items"
  by (cases r; cases s; simp add: json_resource_item_def json_scope_item_def json_fields)+

lemma decode_json_resource_item:
  "k \<noteq> ''resource'' \<Longrightarrow> pred_option (\<lambda>r. kvs_ok (pr_attributes r)) r \<Longrightarrow>
     decode_resource F (json_resource_item B k r items) = resource_attrs (map_option forget_resource r)"
  by (rule decode_json_resource) (simp_all add: json_items)

lemmas json_request_simps = list_all_iff envelope_ok_def decode_json_resource_item json_items decode_json_scope
  decode_all_enc decode_all_Some comp_def

lemma decode_json_logs:
  assumes "list_all logs_ok rls"
  shows "decode_logs F (json_logs B rls) = Some (normalise_logs (map forget_logs rls))"
proof -
  have "decode_resource_logs F (json_resource_item B ''scopeLogs'' (rl_resource r) (map (\<lambda>s.
      json_scope_item B ''logRecords'' (sg_scope s) (sg_schema_url s) (map (json_log B) (sg_log_records s))) (rl_scope_logs r))) =
    Some (normalise_logs [forget_logs r])" if "logs_ok r" for r
    using that unfolding decode_resource_logs_def decode_scope_logs_def
    by (simp add: logs_ok_def json_request_simps decode_json_log normalise_logs_def forget_logs_def cong: decode_all_cong)
  with assms have "decode_all (decode_resource_logs F) (map (\<lambda>r. json_resource_item B ''scopeLogs'' (rl_resource r) (map (\<lambda>s.
      json_scope_item B ''logRecords'' (sg_scope s) (sg_schema_url s) (map (json_log B) (sg_log_records s))) (rl_scope_logs r))) rls) =
    Some (map (\<lambda>r. normalise_logs [forget_logs r]) rls)"
    by (intro decode_all_map) (simp add: list_all_iff)
  then show ?thesis
    by (simp add: decode_logs_def json_logs_def field_array_def field_def normalise_logs_def comp_def)
qed

lemma decode_json_metrics:
  assumes "list_all metrics_ok rms"
  shows "decode_metrics F (json_metrics B rms) = normalise_metrics (map forget_metrics rms)"
proof -
  have metrics: "map (\<lambda>m. decode_metric F res scope url (json_metric B m)) ms = map (\<lambda>m. normalise_metric res scope url (forget_metric m)) ms"
    if "list_all metric_ok ms" for res scope url ms
    using that by (auto simp: list_all_iff decode_json_metric)
  have "concat (map (decode_scope_metrics F (decode_resource F r')) (field_array r' ''scopeMetrics'')) = normalise_metrics [forget_metrics r]"
    if "metrics_ok r" and r': "r' = json_resource_item B ''scopeMetrics'' (rm_resource r) (map (\<lambda>s.
      json_scope_item B ''metrics'' (sm_scope s) (sm_schema_url s) (map (json_metric B) (sm_metrics s))) (rm_scope_metrics r))" for r r'
  proof -
    have "decode_scope_metrics F res (json_scope_item B ''metrics'' (sm_scope s) (sm_schema_url s) (map (json_metric B) (sm_metrics s))) =
        concat (map (\<lambda>m. normalise_metric res (convert_scope (map_option forget_scope (sm_scope s))) (sm_schema_url s) (forget_metric m)) (sm_metrics s))"
      if "s \<in> set (rm_scope_metrics r)" for s res
      using that \<open>metrics_ok r\<close>
      by (simp add: decode_scope_metrics_def metrics_ok_def json_request_simps metrics [unfolded list_all_iff])
    then show ?thesis
      using \<open>metrics_ok r\<close> by (simp add: r' metrics_ok_def json_request_simps normalise_metrics_def forget_metrics_def cong: map_cong)
  qed
  then have eq: "map (\<lambda>rm. concat (map (decode_scope_metrics F (decode_resource F rm)) (field_array rm ''scopeMetrics'')))
      (map (\<lambda>r. json_resource_item B ''scopeMetrics'' (rm_resource r) (map (\<lambda>s.
        json_scope_item B ''metrics'' (sm_scope s) (sm_schema_url s) (map (json_metric B) (sm_metrics s))) (rm_scope_metrics r))) rms) =
    map (\<lambda>r. normalise_metrics [forget_metrics r]) rms"
    using assms by (simp add: list_all_iff)
  have items: "field_array (J_Object [(''resourceMetrics'', J_Array xs)]) ''resourceMetrics'' = xs" for xs
    by (simp add: field_array_def field_def)
  show ?thesis
    unfolding decode_metrics_def json_metrics_def items eq by (simp add: normalise_metrics_def comp_def)
qed

lemma decode_json_spans:
  assumes "list_all spans_ok rss"
  shows "decode_spans F (json_spans B rss) = Some (normalise_spans (map forget_spans rss))"
proof -
  have "decode_resource_spans F (json_resource_item B ''scopeSpans'' (rs_resource r) (map (\<lambda>s.
      json_scope_item B ''spans'' (sp_scope s) (sp_schema_url s) (map (json_span B) (sp_spans s))) (rs_scope_spans r))) =
    Some (normalise_spans [forget_spans r])" if "spans_ok r" for r
    using that unfolding decode_resource_spans_def decode_scope_spans_def
    by (simp add: spans_ok_def json_request_simps decode_json_span normalise_spans_def forget_spans_def
        map_filter_id_map map_filter_map cong: decode_all_cong)
  with assms have "decode_all (decode_resource_spans F) (map (\<lambda>r. json_resource_item B ''scopeSpans'' (rs_resource r) (map (\<lambda>s.
      json_scope_item B ''spans'' (sp_scope s) (sp_schema_url s) (map (json_span B) (sp_spans s))) (rs_scope_spans r))) rss) =
    Some (map (\<lambda>r. normalise_spans [forget_spans r]) rss)"
    by (intro decode_all_map) (simp add: list_all_iff)
  then show ?thesis
    by (simp add: decode_spans_def json_spans_def field_array_def field_def normalise_spans_def comp_def)
qed

text \<open>A sample request: a log with an integer attribute, a gauge with an integer, a double and a NaN point,
  and a span.\<close>

definition sample_proto_log :: proto_log where
  "sample_proto_log = \<lparr>pl_time_unix_nano = 5, pl_observed_time_unix_nano = 6, pl_severity_number = 9, pl_severity_text = ''INFO'',
     pl_body = Some (PA_String ''hi''), pl_attributes = [(''n'', Some (PA_Int (- 3)))], pl_trace_id = [], pl_span_id = []\<rparr>"

definition sample_otlp_logs :: "resource_logs list" where
  "sample_otlp_logs = [\<lparr>rl_resource = None, rl_scope_logs = [\<lparr>sg_scope = None, sg_log_records = [sample_proto_log], sg_schema_url = ''''\<rparr>]\<rparr>]"

definition sample_otlp_metrics :: "resource_metrics list" where
  "sample_otlp_metrics = [\<lparr>rm_resource = None, rm_scope_metrics = [\<lparr>sm_scope = None, sm_metrics =
     [\<lparr>pm_name = ''m'', pm_description = '''', pm_unit = '''', pm_data = Some (MD_Gauge
        [\<lparr>nd_attributes = [], nd_start_time_unix_nano = 0, nd_time_unix_nano = 1, nd_value = Some (AsInt 7)\<rparr>,
         \<lparr>nd_attributes = [], nd_start_time_unix_nano = 0, nd_time_unix_nano = 2, nd_value = Some (AsDouble 8)\<rparr>,
         \<lparr>nd_attributes = [], nd_start_time_unix_nano = 0, nd_time_unix_nano = 3, nd_value = Some (AsDouble 0x7FF8000000000000)\<rparr>])\<rparr>],
     sm_schema_url = ''''\<rparr>]\<rparr>]"

definition sample_otlp_spans :: "resource_spans list" where
  "sample_otlp_spans = [\<lparr>rs_resource = None, rs_scope_spans = [\<lparr>sp_scope = None, sp_spans =
     [\<lparr>pn_trace_id = replicate 16 1, pn_span_id = replicate 8 2, pn_parent_span_id = [], pn_name = ''s'', pn_kind = 1,
       pn_start_time_unix_nano = 10, pn_end_time_unix_nano = 14, pn_attributes = [], pn_events = [], pn_links = [], pn_status = None\<rparr>],
     sp_schema_url = ''''\<rparr>]\<rparr>]"



text \<open>A trace identifier of 32 bytes with a character of two bytes at an odd position makes the decoder panic.\<close>

lemma hex_to_16_panics: "hex_to_16 (CHR ''a'' # char_of (195 :: nat) # char_of (169 :: nat) # replicate 29 (CHR ''0'')) = None"
proof -
  let ?s = "CHR ''a'' # char_of (195 :: nat) # char_of (169 :: nat) # replicate 29 (CHR ''0'')"
  have "trim ?s = ?s"
    by (rule trim_id) (simp_all add: is_ascii_def is_space_def char_code_def)
  then show ?thesis by (simp add: hex_to_16_def inside_char_def char_code_def)
qed

end
