(* ===== verification/Ingest.thy ===== *)
theory Ingest
  imports Engine_Properties Json_Agreement
begin

text \<open>
  The ingest pipeline (crate \<open>infralens-ingest\<close>: \<open>processor.rs\<close>, \<open>error.rs\<close>,
  \<open>http.rs\<close>, \<open>grpc.rs\<close>): the OTLP handlers decode a request and offer its batch to a
  bounded channel; one writer task takes the batches and writes them to the storage engine. The
  channel, the JSON and protobuf parsers and the header conversion are parameters. A handler is
  \<open>None\<close> where decoding panics.
\<close>

section \<open>Errors\<close>

datatype ingest_error =
    IngestBufferFull
  | IngestStorage storage_error
  | IngestNormalisation string

definition is_retriable :: "ingest_error \<Rightarrow> bool" where
  "is_retriable e = (case e of IngestBufferFull \<Rightarrow> True | _ \<Rightarrow> False)"

text \<open>\<open>to_string\<close>; the text of a storage error comes from its own \<open>Display\<close>, an argument.\<close>

definition ingest_error_text :: "(storage_error \<Rightarrow> string) \<Rightarrow> ingest_error \<Rightarrow> string" where
  "ingest_error_text show_storage e =
     (case e of
        IngestBufferFull \<Rightarrow> ''back-pressure: ingest buffer full''
      | IngestStorage s \<Rightarrow> ''storage error: '' @ show_storage s
      | IngestNormalisation s \<Rightarrow> ''normalisation error: '' @ s)"

section \<open>The pipeline\<close>

record 'i ingest_pipeline =
  ip_tx :: 'i
  ip_config :: ingest_config

text \<open>\<open>fresh\<close> is \<open>mpsc::channel\<close>, which panics on a capacity of zero.\<close>

definition pipeline_new :: "(nat \<Rightarrow> 'i option) \<Rightarrow> ingest_config \<Rightarrow> 'i ingest_pipeline option" where
  "pipeline_new fresh config = map_option (\<lambda>tx. \<lparr>ip_tx = tx, ip_config = config\<rparr>) (fresh (buffer_depth config))"

definition submit ::
  "('i \<Rightarrow> ingest_batch \<Rightarrow> send_error + 'i) \<Rightarrow> ingest_batch \<Rightarrow> 'i ingest_pipeline \<Rightarrow>
   'i ingest_pipeline \<times> (ingest_error + unit)" where
  "submit isend batch p =
     (case isend (ip_tx p) batch of
        Inr tx \<Rightarrow> (p\<lparr>ip_tx := tx\<rparr>, Inr ())
      | Inl Full \<Rightarrow> (p, Inl IngestBufferFull)
      | Inl Closed \<Rightarrow> (p, Inl IngestBufferFull))"

text \<open>One turn of the writer task: the batch it took with the result of the write, if there was one.\<close>

definition writer_task ::
  "('i \<Rightarrow> (ingest_batch \<times> 'i) option) \<Rightarrow> 'w storage_env \<Rightarrow> 'c flush_send \<Rightarrow> 'i ingest_pipeline \<Rightarrow> fs \<Rightarrow> 'c storage_engine \<Rightarrow>
   ('i ingest_pipeline \<times> fs \<times> 'c storage_engine \<times> event list \<times> (ingest_batch \<times> (storage_error + unit)) option) option" where
  "writer_task irecv E send p fs e =
     (case irecv (ip_tx p) of
        None \<Rightarrow> Some (p, fs, e, [], None)
      | Some (batch, tx) \<Rightarrow>
          map_option (\<lambda>(fs', e', evs, r). (p\<lparr>ip_tx := tx\<rparr>, fs', e', evs, Some (batch, r))) (write_batch E send batch fs e))"

section \<open>OTLP over HTTP\<close>

record http_env =
  he_fp :: fp_ops
  he_to_str :: "bytes \<Rightarrow> string option"
  he_json :: "bytes \<Rightarrow> string + json"
  he_logs :: "bytes \<Rightarrow> string + resource_logs list"
  he_metrics :: "bytes \<Rightarrow> string + resource_metrics list"
  he_spans :: "bytes \<Rightarrow> string + resource_spans list"
  he_default_response :: bytes
  he_show_storage :: "storage_error \<Rightarrow> string"

text \<open>A response with the content type the handler sets; \<open>None\<close> leaves it to the framework.\<close>

record http_response =
  hr_status :: nat
  hr_content_type :: "string option"
  hr_body :: bytes

definition content_type_proto :: string where "content_type_proto = ''application/x-protobuf''"
definition content_type_json :: string where "content_type_json = ''application/json''"

text \<open>The value of the content type header, if the request has one.\<close>

definition content_type :: "http_env \<Rightarrow> bytes option \<Rightarrow> string" where
  "content_type H header = (case Option.bind header (he_to_str H) of Some s \<Rightarrow> s | None \<Rightarrow> '''')"

definition text_response :: "nat \<Rightarrow> string \<Rightarrow> http_response" where
  "text_response status text = \<lparr>hr_status = status, hr_content_type = None, hr_body = as_bytes text\<rparr>"

text \<open>The first half of the three handlers: the batch of a request, or the response that refuses it.\<close>

definition decode_body ::
  "http_env \<Rightarrow> (json \<Rightarrow> ingest_batch option) \<Rightarrow> (bytes \<Rightarrow> string + ingest_batch) \<Rightarrow> bytes option \<Rightarrow> bytes \<Rightarrow>
   (http_response + ingest_batch) option" where
  "decode_body H json proto header body =
     (let ct = content_type H header in
      if starts_with ct content_type_json then
        (case he_json H body of
           Inr v \<Rightarrow> map_option Inr (json v)
         | Inl err \<Rightarrow> Some (Inl (text_response 400 err)))
      else if starts_with ct content_type_proto then
        (case proto body of
           Inr b \<Rightarrow> Some (Inr b)
         | Inl err \<Rightarrow> Some (Inl (text_response 400 err)))
      else Some (Inl (text_response 415 ''Content-Type must be application/json or application/x-protobuf'')))"

text \<open>The second half: the response to a submission.\<close>

definition submit_response :: "http_env \<Rightarrow> bytes option \<Rightarrow> ingest_error + unit \<Rightarrow> http_response" where
  "submit_response H header r =
     (case r of
        Inr _ \<Rightarrow>
          (if starts_with (content_type H header) content_type_json
           then \<lparr>hr_status = 200, hr_content_type = Some content_type_json,
                 hr_body = as_bytes (''{'' @ [CHR 0x22] @ ''partialSuccess'' @ [CHR 0x22] @ '':{}}'')\<rparr>
           else \<lparr>hr_status = 200, hr_content_type = Some content_type_proto, hr_body = he_default_response H\<rparr>)
      | Inl err \<Rightarrow>
          (if is_retriable err then text_response 429 (ingest_error_text (he_show_storage H) err)
           else text_response 500 (ingest_error_text (he_show_storage H) err)))"

definition handle_batch ::
  "http_env \<Rightarrow> ('i \<Rightarrow> ingest_batch \<Rightarrow> send_error + 'i) \<Rightarrow> bytes option \<Rightarrow> (http_response + ingest_batch) option \<Rightarrow>
   'i ingest_pipeline \<Rightarrow> ('i ingest_pipeline \<times> http_response) option" where
  "handle_batch H isend header decoded p =
     (case decoded of
        None \<Rightarrow> None
      | Some (Inl resp) \<Rightarrow> Some (p, resp)
      | Some (Inr batch) \<Rightarrow> (case submit isend batch p of (p', r) \<Rightarrow> Some (p', submit_response H header r)))"

definition decode_logs_body :: "http_env \<Rightarrow> bytes option \<Rightarrow> bytes \<Rightarrow> (http_response + ingest_batch) option" where
  "decode_logs_body H =
     decode_body H (\<lambda>v. map_option Logs (decode_logs (he_fp H) v))
       (\<lambda>body. and_then (he_logs H body) (\<lambda>r. Inr (Logs (normalise_logs r))))"

definition decode_metrics_body :: "http_env \<Rightarrow> bytes option \<Rightarrow> bytes \<Rightarrow> (http_response + ingest_batch) option" where
  "decode_metrics_body H =
     decode_body H (\<lambda>v. Some (Metrics (decode_metrics (he_fp H) v)))
       (\<lambda>body. and_then (he_metrics H body) (\<lambda>r. Inr (Metrics (normalise_metrics r))))"

definition decode_traces_body :: "http_env \<Rightarrow> bytes option \<Rightarrow> bytes \<Rightarrow> (http_response + ingest_batch) option" where
  "decode_traces_body H =
     decode_body H (\<lambda>v. map_option Spans (decode_spans (he_fp H) v))
       (\<lambda>body. and_then (he_spans H body) (\<lambda>r. Inr (Spans (normalise_spans r))))"

definition handle_logs ::
  "http_env \<Rightarrow> ('i \<Rightarrow> ingest_batch \<Rightarrow> send_error + 'i) \<Rightarrow> bytes option \<Rightarrow> bytes \<Rightarrow> 'i ingest_pipeline \<Rightarrow>
   ('i ingest_pipeline \<times> http_response) option" where
  "handle_logs H isend header body = handle_batch H isend header (decode_logs_body H header body)"

definition handle_metrics ::
  "http_env \<Rightarrow> ('i \<Rightarrow> ingest_batch \<Rightarrow> send_error + 'i) \<Rightarrow> bytes option \<Rightarrow> bytes \<Rightarrow> 'i ingest_pipeline \<Rightarrow>
   ('i ingest_pipeline \<times> http_response) option" where
  "handle_metrics H isend header body = handle_batch H isend header (decode_metrics_body H header body)"

definition handle_traces ::
  "http_env \<Rightarrow> ('i \<Rightarrow> ingest_batch \<Rightarrow> send_error + 'i) \<Rightarrow> bytes option \<Rightarrow> bytes \<Rightarrow> 'i ingest_pipeline \<Rightarrow>
   ('i ingest_pipeline \<times> http_response) option" where
  "handle_traces H isend header body = handle_batch H isend header (decode_traces_body H header body)"

text \<open>The router; other paths and methods are answered by the framework.\<close>

definition ingest_router ::
  "http_env \<Rightarrow> ('i \<Rightarrow> ingest_batch \<Rightarrow> send_error + 'i) \<Rightarrow> string \<Rightarrow>
   (bytes option \<Rightarrow> bytes \<Rightarrow> 'i ingest_pipeline \<Rightarrow> ('i ingest_pipeline \<times> http_response) option) option" where
  "ingest_router H isend path =
     (if path = ''/v1/logs'' then Some (handle_logs H isend)
      else if path = ''/v1/metrics'' then Some (handle_metrics H isend)
      else if path = ''/v1/traces'' then Some (handle_traces H isend)
      else None)"

section \<open>OTLP over gRPC\<close>

datatype status_code = ResourceExhausted | Internal

record partial_success =
  pu_rejected :: i64
  pu_error_message :: string

definition grpc_response ::
  "(storage_error \<Rightarrow> string) \<Rightarrow> ingest_error + unit \<Rightarrow> status_code \<times> string + partial_success" where
  "grpc_response show_storage r =
     (case r of
        Inr _ \<Rightarrow> Inr \<lparr>pu_rejected = 0, pu_error_message = ''''\<rparr>
      | Inl err \<Rightarrow>
          Inl (if is_retriable err then ResourceExhausted else Internal, ingest_error_text show_storage err))"

definition export_logs ::
  "(storage_error \<Rightarrow> string) \<Rightarrow> ('i \<Rightarrow> ingest_batch \<Rightarrow> send_error + 'i) \<Rightarrow> resource_logs list \<Rightarrow> 'i ingest_pipeline \<Rightarrow>
   'i ingest_pipeline \<times> (status_code \<times> string + partial_success)" where
  "export_logs sh isend req p = (case submit isend (Logs (normalise_logs req)) p of (p', r) \<Rightarrow> (p', grpc_response sh r))"

definition export_metrics ::
  "(storage_error \<Rightarrow> string) \<Rightarrow> ('i \<Rightarrow> ingest_batch \<Rightarrow> send_error + 'i) \<Rightarrow> resource_metrics list \<Rightarrow> 'i ingest_pipeline \<Rightarrow>
   'i ingest_pipeline \<times> (status_code \<times> string + partial_success)" where
  "export_metrics sh isend req p = (case submit isend (Metrics (normalise_metrics req)) p of (p', r) \<Rightarrow> (p', grpc_response sh r))"

definition export_traces ::
  "(storage_error \<Rightarrow> string) \<Rightarrow> ('i \<Rightarrow> ingest_batch \<Rightarrow> send_error + 'i) \<Rightarrow> resource_spans list \<Rightarrow> 'i ingest_pipeline \<Rightarrow>
   'i ingest_pipeline \<times> (status_code \<times> string + partial_success)" where
  "export_traces sh isend req p = (case submit isend (Spans (normalise_spans req)) p of (p', r) \<Rightarrow> (p', grpc_response sh r))"

section \<open>Runs\<close>

datatype otlp_request =
    ReqLogs "resource_logs list"
  | ReqMetrics "resource_metrics list"
  | ReqTraces "resource_spans list"

fun request_batch :: "otlp_request \<Rightarrow> ingest_batch" where
  "request_batch (ReqLogs r) = Logs (normalise_logs r)"
| "request_batch (ReqMetrics r) = Metrics (normalise_metrics r)"
| "request_batch (ReqTraces r) = Spans (normalise_spans r)"

fun grpc_export ::
  "(storage_error \<Rightarrow> string) \<Rightarrow> ('i \<Rightarrow> ingest_batch \<Rightarrow> send_error + 'i) \<Rightarrow> otlp_request \<Rightarrow> 'i ingest_pipeline \<Rightarrow>
   'i ingest_pipeline \<times> (status_code \<times> string + partial_success)" where
  "grpc_export sh isend (ReqLogs r) = export_logs sh isend r"
| "grpc_export sh isend (ReqMetrics r) = export_metrics sh isend r"
| "grpc_export sh isend (ReqTraces r) = export_traces sh isend r"

datatype ingest_op =
    IngHttp string "bytes option" bytes http_response
  | IngGrpc otlp_request "status_code \<times> string + partial_success"
  | IngWrite "(ingest_batch \<times> (storage_error + unit)) option"
  | IngFlush
  | IngCompact u64

text \<open>
  Requests, writer turns and the workers of the engine in any order, on an engine opened on a data
  directory without tables.
\<close>

inductive ingest_run ::
  "'w storage_env \<Rightarrow> 'c flush_send \<Rightarrow> 'c flush_recv \<Rightarrow> ('c \<Rightarrow> flush_request list) \<Rightarrow> ('c \<Rightarrow> bool) \<Rightarrow>
   ('i \<Rightarrow> ingest_batch \<Rightarrow> send_error + 'i) \<Rightarrow> ('i \<Rightarrow> (ingest_batch \<times> 'i) option) \<Rightarrow> ('i \<Rightarrow> ingest_batch list) \<Rightarrow> http_env \<Rightarrow>
   ingest_op list \<Rightarrow> 'i ingest_pipeline \<Rightarrow> fs \<times> 'c storage_engine \<Rightarrow> event list \<Rightarrow> bool"
  for E send recv queued alive isend irecv iqueued H where
  ing_start:
    "engine_run E send recv queued alive [] (fs, e) [] \<Longrightarrow> pipeline_new fresh config = Some p \<Longrightarrow> iqueued (ip_tx p) = [] \<Longrightarrow>
     ingest_run E send recv queued alive isend irecv iqueued H [] p (fs, e) []"
| ing_http:
    "ingest_run E send recv queued alive isend irecv iqueued H ops p (fs, e) evs \<Longrightarrow>
     ingest_router H isend path = Some handler \<Longrightarrow> handler header body p = Some (p', resp) \<Longrightarrow>
     ingest_run E send recv queued alive isend irecv iqueued H (ops @ [IngHttp path header body resp]) p' (fs, e) evs"
| ing_grpc:
    "ingest_run E send recv queued alive isend irecv iqueued H ops p (fs, e) evs \<Longrightarrow>
     grpc_export (he_show_storage H) isend req p = (p', r) \<Longrightarrow>
     ingest_run E send recv queued alive isend irecv iqueued H (ops @ [IngGrpc req r]) p' (fs, e) evs"
| ing_write:
    "ingest_run E send recv queued alive isend irecv iqueued H ops p (fs, e) evs \<Longrightarrow>
     writer_task irecv E send p fs e = Some (p', fs', e', evs', w) \<Longrightarrow>
     ingest_run E send recv queued alive isend irecv iqueued H (ops @ [IngWrite w]) p' (fs', e') (evs @ evs')"
| ing_flush:
    "ingest_run E send recv queued alive isend irecv iqueued H ops p (fs, e) evs \<Longrightarrow>
     flush_worker E recv fs e = Some (fs', e', evs') \<Longrightarrow>
     ingest_run E send recv queued alive isend irecv iqueued H (ops @ [IngFlush]) p (fs', e') (evs @ evs')"
| ing_compact:
    "ingest_run E send recv queued alive isend irecv iqueued H ops p (fs, e) evs \<Longrightarrow>
     compact_key E k fs e = (fs', e', evs') \<Longrightarrow>
     ingest_run E send recv queued alive isend irecv iqueued H (ops @ [IngCompact k]) p (fs', e') (evs @ evs')"

text \<open>The batches whose requests were acknowledged, and those the writer took, in order.\<close>

definition http_batch :: "http_env \<Rightarrow> string \<Rightarrow> bytes option \<Rightarrow> bytes \<Rightarrow> ingest_batch option" where
  "http_batch H path header body =
     (case (if path = ''/v1/logs'' then decode_logs_body H header body
            else if path = ''/v1/metrics'' then decode_metrics_body H header body
            else decode_traces_body H header body) of
        Some (Inr b) \<Rightarrow> Some b
      | _ \<Rightarrow> None)"

fun acked_batch :: "http_env \<Rightarrow> ingest_op \<Rightarrow> ingest_batch list" where
  "acked_batch H (IngHttp path header body resp) =
     (if hr_status resp = 200 then (case http_batch H path header body of Some b \<Rightarrow> [b] | None \<Rightarrow> []) else [])"
| "acked_batch H (IngGrpc req r) = (if isl r then [] else [request_batch req])"
| "acked_batch H _ = []"

fun written_batch :: "ingest_op \<Rightarrow> ingest_batch list" where
  "written_batch (IngWrite (Some (b, r))) = [b]"
| "written_batch _ = []"

fun write_failed :: "ingest_op \<Rightarrow> bool" where
  "write_failed (IngWrite (Some (b, r))) = isl r"
| "write_failed _ = False"

fun engine_cost :: "ingest_op \<Rightarrow> nat" where
  "engine_cost (IngWrite (Some (b, r))) = batch_len b"
| "engine_cost IngFlush = 1"
| "engine_cost (IngCompact k) = 1"
| "engine_cost _ = 0"

definition acked :: "http_env \<Rightarrow> ingest_op list \<Rightarrow> ingest_batch list" where
  "acked H ops = concat (map (acked_batch H) ops)"

definition written :: "ingest_op list \<Rightarrow> ingest_batch list" where
  "written ops = concat (map written_batch ops)"

text \<open>The records of a list of batches, all written.\<close>

definition batch_writes :: "ingest_batch list \<Rightarrow> engine_op list" where
  "batch_writes bs = oks_ops (concat (map batch_telemetry bs))"

lemma acked_snoc [simp]: "acked H (ops @ [op]) = acked H ops @ acked_batch H op"
  by (simp add: acked_def)

lemma written_snoc [simp]: "written (ops @ [op]) = written ops @ written_batch op"
  by (simp add: written_def)

lemma batch_writes_append: "batch_writes (bs @ cs) = batch_writes bs @ batch_writes cs"
  by (simp add: batch_writes_def oks_ops_def)

lemma length_batch_telemetry: "length (batch_telemetry b) = batch_len b"
  by (cases b) (simp_all add: batch_len_def)

section \<open>Handlers\<close>

lemma handle_batch_cases:
  "handle_batch H isend header decoded p = Some (p', resp) \<longleftrightarrow>
     (\<exists>r. decoded = Some (Inl r) \<and> p' = p \<and> resp = r) \<or>
     (\<exists>b r. decoded = Some (Inr b) \<and> submit isend b p = (p', r) \<and> resp = submit_response H header r)"
  by (auto simp: handle_batch_def split: option.splits sum.splits prod.splits)

lemma decode_body_refusal: "decode_body H json proto header body = Some (Inl resp) \<Longrightarrow> hr_status resp = 400 \<or> hr_status resp = 415"
  by (auto simp: decode_body_def Let_def text_response_def split: if_splits sum.splits)

lemma http_batch_refusal:
  "(if path = ''/v1/logs'' then decode_logs_body H header body
    else if path = ''/v1/metrics'' then decode_metrics_body H header body
    else decode_traces_body H header body) = Some (Inl resp) \<Longrightarrow> hr_status resp = 400 \<or> hr_status resp = 415"
  using decode_body_refusal
  by (auto simp: decode_logs_body_def decode_metrics_body_def decode_traces_body_def split: if_splits)

lemma submit_status: "hr_status (submit_response H header r) = (case r of Inr _ \<Rightarrow> 200 | Inl err \<Rightarrow> if is_retriable err then 429 else 500)"
  by (auto simp: submit_response_def text_response_def split: sum.splits)

lemma router_handler:
  "ingest_router H isend path = Some handler \<Longrightarrow>
     handler header body = handle_batch H isend header
       (if path = ''/v1/logs'' then decode_logs_body H header body
        else if path = ''/v1/metrics'' then decode_metrics_body H header body
        else decode_traces_body H header body)"
  by (auto simp: ingest_router_def handle_logs_def handle_metrics_def handle_traces_def split: if_splits)

lemma grpc_export_submit:
  "grpc_export sh isend req p = (case submit isend (request_batch req) p of (p', r) \<Rightarrow> (p', grpc_response sh r))"
  by (cases req) (simp_all add: export_logs_def export_metrics_def export_traces_def)

lemma isl_grpc_response: "isl (grpc_response sh r) = isl r"
  by (cases r) (simp_all add: grpc_response_def)

lemma submit_cases:
  assumes "mpsc isend irecv iqueued icap ialive" "submit isend b p = (p', r)"
  shows "(r = Inr () \<and> iqueued (ip_tx p') = iqueued (ip_tx p) @ [b]) \<or> (r = Inl IngestBufferFull \<and> p' = p)"
  using assms(2) mpsc.try_send_Inr(1) [OF assms(1)]
  by (auto simp: submit_def split: sum.splits send_error.splits)

section \<open>Order of the batches\<close>

lemma http_step_fifo:
  assumes "mpsc isend irecv iqueued icap ialive" "ingest_router H isend path = Some handler" "handler header body p = Some (p', resp)"
  shows "iqueued (ip_tx p') = iqueued (ip_tx p) @ acked_batch H (IngHttp path header body resp)"
proof -
  let ?d = "if path = ''/v1/logs'' then decode_logs_body H header body
    else if path = ''/v1/metrics'' then decode_metrics_body H header body else decode_traces_body H header body"
  have "handle_batch H isend header ?d p = Some (p', resp)"
    using assms(3) unfolding router_handler [OF assms(2)] .
  then consider r where "?d = Some (Inl r)" "p' = p" "resp = r"
    | b r where "?d = Some (Inr b)" "submit isend b p = (p', r)" "resp = submit_response H header r"
    unfolding handle_batch_cases by blast
  then show ?thesis
  proof cases
    case 1
    then have "hr_status resp \<noteq> 200" using http_batch_refusal [OF 1(1)] by auto
    with 1(2) show ?thesis by simp
  next
    case 2
    then have "http_batch H path header body = Some b" unfolding http_batch_def by simp
    with 2 submit_cases [OF assms(1) 2(2)] show ?thesis
      by (auto simp: submit_status is_retriable_def)
  qed
qed

lemma grpc_step_fifo:
  assumes "mpsc isend irecv iqueued icap ialive" "grpc_export sh isend req p = (p', r)"
  shows "iqueued (ip_tx p') = iqueued (ip_tx p) @ acked_batch H (IngGrpc req r)"
proof -
  obtain r' where r': "submit isend (request_batch req) p = (p', r')" "r = grpc_response sh r'"
    using assms(2) by (auto simp: grpc_export_submit split: prod.splits)
  with submit_cases [OF assms(1) r'(1)] show ?thesis by (auto simp: isl_grpc_response)
qed

lemma writer_step_fifo:
  assumes "mpsc isend irecv iqueued icap ialive" "writer_task irecv E send p fs e = Some (p', fs', e', evs, w)"
  shows "iqueued (ip_tx p) = written_batch (IngWrite w) @ iqueued (ip_tx p')"
proof (cases "irecv (ip_tx p)")
  case None
  then show ?thesis using assms(2) by (simp add: writer_task_def)
next
  case (Some bc)
  obtain b tx where bc: "bc = (b, tx)" by fastforce
  then show ?thesis
    using Some assms(2) mpsc.recv_Some(1) [OF assms(1), of "ip_tx p" b tx] by (auto simp: writer_task_def)
qed

lemma ingest_fifo:
  assumes ch: "mpsc isend irecv iqueued icap ialive"
    and run: "ingest_run E send recv queued alive isend irecv iqueued H ops p s evs"
  shows "acked H ops = written ops @ iqueued (ip_tx p)"
  using run
proof induction
  case (ing_start fs e fresh config p)
  then show ?case by (simp add: acked_def written_def)
next
  case (ing_http ops p fs e evs path handler header body p' resp)
  then show ?case using http_step_fifo [OF ch ing_http.hyps(2,3)] by simp
next
  case (ing_grpc ops p fs e evs req p' r)
  then show ?case using grpc_step_fifo [OF ch ing_grpc.hyps(2), of H] by simp
next
  case (ing_write ops p fs e evs p' fs' e' evs' w)
  then show ?case using writer_step_fifo [OF ch ing_write.hyps(2)] by simp
qed simp_all

section \<open>The writes of the engine\<close>

lemma accepted_take: "accepted E b (oks_ops (take n ts)) k sig \<subseteq># accepted E b (oks_ops ts) k sig"
proof -
  have "oks_ops ts = oks_ops (take n ts) @ oks_ops (drop n ts)"
    by (metis append_take_drop_id map_append oks_ops_def)
  then show ?thesis by (metis accepted_append mset_subset_eq_add_left)
qed

lemma writer_step_run:
  assumes run: "engine_run E send recv queued alive eops (fs, e) evs"
    and turn: "writer_task irecv E send p fs e = Some (p', fs', e', evs', w)"
  shows "\<exists>xops. engine_run E send recv queued alive (eops @ xops) (fs', e') (evs @ evs')
    \<and> length xops \<le> engine_cost (IngWrite w)
    \<and> (\<forall>b k sig. accepted E b xops k sig \<subseteq># accepted E b (batch_writes (written_batch (IngWrite w))) k sig)
    \<and> (\<not> write_failed (IngWrite w) \<longrightarrow> xops = batch_writes (written_batch (IngWrite w)))"
proof (cases "irecv (ip_tx p)")
  case None
  then show ?thesis using turn run by (intro exI [of _ "[]"]) (auto simp: writer_task_def batch_writes_def oks_ops_def accepted_def)
next
  case (Some bc)
  obtain b tx where bc: "bc = (b, tx)" by fastforce
  obtain r where wb: "write_batch E send b fs e = Some (fs', e', evs', r)" and w: "w = Some (b, r)"
    using Some bc turn by (auto simp: writer_task_def)
  have writes: "batch_writes [b] = oks_ops (batch_telemetry b)" by (simp add: batch_writes_def)
  show ?thesis
  proof (cases "e_closed e")
    case True
    then have "fs' = fs" "e' = e" "evs' = []" "isl r" using wb by (auto simp: write_batch_def)
    then show ?thesis using run by (intro exI [of _ "[]"]) (auto simp: w accepted_def)
  next
    case False
    from write_records_run [OF run wb [unfolded write_batch_records [OF False]]] obtain n failed where n:
      "n \<le> length (batch_telemetry b)" "r = Inr () \<longrightarrow> n = length (batch_telemetry b) \<and> failed = []"
      "\<forall>err. r = Inl err \<longrightarrow> fails_at E send (batch_telemetry b) n err fs e fs' e' \<and> failed = [OpWrite (batch_telemetry b ! n) (Inl err)]"
      "engine_run E send recv queued alive (eops @ oks_ops (take n (batch_telemetry b)) @ failed) (fs', e') (evs @ evs')"
      by blast
    have f: "accepted E bk failed k sig = {#}" for bk k sig
      using n(2,3) by (cases r) (simp_all add: accepted_def accepted_by_def)
    have "length (oks_ops (take n (batch_telemetry b)) @ failed) \<le> batch_len b"
      using n(1-3) by (cases r) (simp_all add: oks_ops_def length_batch_telemetry fails_at_def)
    moreover have "oks_ops (take n (batch_telemetry b)) @ failed = oks_ops (batch_telemetry b)" if "\<not> isl r"
      using that n(2) by (cases r) simp_all
    ultimately show ?thesis
      using n(4) by (intro exI [of _ "oks_ops (take n (batch_telemetry b)) @ failed"])
        (simp add: w writes accepted_append f accepted_take)
  qed
qed

text \<open>The operations of the engine in a run: those of the written batches, up to failed writes.\<close>

definition engine_history :: "'w storage_env \<Rightarrow> ingest_op list \<Rightarrow> engine_op list \<Rightarrow> bool" where
  "engine_history E ops eops \<longleftrightarrow>
     length eops \<le> sum_list (map engine_cost ops)
     \<and> (\<forall>b k sig. accepted E b eops k sig \<subseteq># accepted E b (batch_writes (written ops)) k sig)
     \<and> ((\<forall>op \<in> set ops. \<not> write_failed op) \<longrightarrow>
         (\<forall>b k sig. accepted E b eops k sig = accepted E b (batch_writes (written ops)) k sig))"

lemma engine_history_request:
  "engine_history E ops eops \<Longrightarrow> written_batch op = [] \<Longrightarrow> \<not> write_failed op \<Longrightarrow> engine_history E (ops @ [op]) eops"
  by (simp add: engine_history_def)

lemma engine_history_worker:
  "engine_history E ops eops \<Longrightarrow> written_batch op = [] \<Longrightarrow> \<not> write_failed op \<Longrightarrow> engine_cost op = 1 \<Longrightarrow>
     (\<And>b k sig. accepted E b [eop] k sig = {#}) \<Longrightarrow> engine_history E (ops @ [op]) (eops @ [eop])"
  by (simp add: engine_history_def accepted_append)

lemma engine_history_write:
  assumes hist: "engine_history E ops eops" and xops: "length xops \<le> engine_cost op"
    "\<forall>b k sig. accepted E b xops k sig \<subseteq># accepted E b (batch_writes (written_batch op)) k sig"
    "\<not> write_failed op \<longrightarrow> xops = batch_writes (written_batch op)"
  shows "engine_history E (ops @ [op]) (eops @ xops)"
proof -
  have "accepted E b (eops @ xops) k sig \<subseteq># accepted E b (batch_writes (written (ops @ [op]))) k sig" for b k sig
    unfolding written_snoc batch_writes_append accepted_append
    using hist xops(2) by (intro subset_mset.add_mono) (auto simp: engine_history_def)
  moreover have "accepted E b (eops @ xops) k sig = accepted E b (batch_writes (written (ops @ [op]))) k sig"
    if "\<forall>op \<in> set (ops @ [op]). \<not> write_failed op" for b k sig
    using that hist xops(3) by (simp add: engine_history_def batch_writes_append accepted_append)
  ultimately show ?thesis using hist xops(1) by (auto simp: engine_history_def)
qed

lemma worker_ops_accept: "accepted E b [OpFlushWorker] k sig = {#}" "accepted E b [OpCompact j] k sig = {#}"
  by (simp_all add: accepted_def accepted_by_def)

lemma ingest_engine_run:
  assumes "ingest_run E send recv queued alive isend irecv iqueued H ops p s evs"
  shows "\<exists>eops. engine_run E send recv queued alive eops s evs \<and> engine_history E ops eops"
  using assms
proof induction
  case (ing_start fs e fresh config p)
  then show ?case by (intro exI [of _ "[]"]) (simp add: engine_history_def written_def batch_writes_def oks_ops_def)
next
  case (ing_http ops p fs e evs path handler header body p' resp)
  then show ?case using engine_history_request by (metis write_failed.simps(2) written_batch.simps(2))
next
  case (ing_grpc ops p fs e evs req p' r)
  then show ?case using engine_history_request by (metis write_failed.simps(3) written_batch.simps(3))
next
  case (ing_write ops p fs e evs p' fs' e' evs' w)
  then obtain eops where eops: "engine_run E send recv queued alive eops (fs, e) evs" "engine_history E ops eops" by blast
  from writer_step_run [OF eops(1) ing_write.hyps(2)] obtain xops where
    xops: "engine_run E send recv queued alive (eops @ xops) (fs', e') (evs @ evs')"
    and "length xops \<le> engine_cost (IngWrite w)"
    "\<forall>b k sig. accepted E b xops k sig \<subseteq># accepted E b (batch_writes (written_batch (IngWrite w))) k sig"
    "\<not> write_failed (IngWrite w) \<longrightarrow> xops = batch_writes (written_batch (IngWrite w))"
    by blast
  from xops engine_history_write [OF eops(2) this(2-4)] show ?case by blast
next
  case (ing_flush ops p fs e evs fs' e' evs')
  then obtain eops where "engine_run E send recv queued alive eops (fs, e) evs" "engine_history E ops eops" by blast
  with run_flush_worker [OF this(1) ing_flush.hyps(2)] show ?case
    by (intro exI [of _ "eops @ [OpFlushWorker]"]) (simp add: engine_history_worker worker_ops_accept)
next
  case (ing_compact ops p fs e evs k fs' e' evs')
  then obtain eops where "engine_run E send recv queued alive eops (fs, e) evs" "engine_history E ops eops" by blast
  with run_compact [OF this(1) ing_compact.hyps(2)] show ?case
    by (intro exI [of _ "eops @ [OpCompact k]"]) (simp add: engine_history_worker worker_ops_accept)
qed

section \<open>A sample pipeline\<close>

definition ingest_env :: "record_batch list storage_env" where
  "ingest_env = log_env (normalise_logs sample_otlp_logs)"

definition sample_http :: http_env where
  "sample_http = \<lparr>he_fp = sample_fp, he_to_str = (\<lambda>_. Some ''application/x-protobuf''), he_json = (\<lambda>_. Inl ''no JSON''),
     he_logs = (\<lambda>_. Inr sample_otlp_logs), he_metrics = (\<lambda>_. Inl ''no metrics''), he_spans = (\<lambda>_. Inl ''no spans''),
     he_default_response = [], he_show_storage = (\<lambda>_. '''')\<rparr>"

text \<open>\<open>mpsc::channel\<close> panics on a capacity of zero: \<open>None\<close>.\<close>

definition chan_channel :: "nat \<Rightarrow> 'a chan option" where
  "chan_channel n = (if n = 0 then None else Some (chan_new n))"

definition ingest_pair :: ingest_config where
  "ingest_pair = \<lparr>buffer_depth = 2, max_batch_records = 1000\<rparr>"

lemma ingest_env_ok: "env_ok ingest_env" "utc_hour_injective ingest_env" "env_io ingest_env = no_faults"
proof -
  have "dec_string m = dec_string n \<Longrightarrow> m = n" for m n
    using parse_digits_dec_string by (metis option.inject)
  then show "utc_hour_injective ingest_env"
    by (auto simp: utc_hour_injective_def ingest_env_def log_env_def sample_env_def dest: eq_nat_nat_iff [THEN iffD1, rotated 2])
qed (simp_all add: ingest_env_def log_env_def sample_env_ok)

lemma ingest_env_open: "engine_run ingest_env chan_try_send chan_recv ch_items ch_open [] ([], demo_engine) []"
proof -
  have "engine_open ingest_env demo_config (chan_new 64) = Inr demo_engine"
    by (simp add: engine_open_def ingest_env_def log_env_def demo_engine_def engine_bucket_ns_def demo_config_def)
  then show ?thesis by (rule run_open) (simp_all add: chan_new_def fs_exists_def fs_get_def)
qed

lemma ingest_env_ser: "\<exists>r d. normalise_logs sample_otlp_logs = [r] \<and> telemetry_ser ingest_env (RLog r) = Inr d"
  by (simp add: ingest_env_def log_env_def sample_bincode_def table_ser_def sample_otlp_logs_def normalise_logs_def)

section \<open>Properties\<close>

text \<open>
  C2. Acknowledged requests are stored. In any interleaving of OTLP requests over HTTP and gRPC,
  turns of the writer task, flushes and compactions, the batches whose requests were acknowledged
  are those the writer took followed by those waiting in the channel, in the order of the
  acknowledgements. The engine never holds rows of anything else, and it holds exactly their rows
  once the channel is drained, if no write failed and no warning was logged.
\<close>

theorem ingest_stores_acknowledged:
  assumes "flush_queue send recv queued cap alive" "mpsc isend irecv iqueued icap ialive"
    and "env_ok E" "utc_hour_injective E"
    and "ingest_run E send recv queued alive isend irecv iqueued H ops p (fs, e) evs"
    and "hours_ok (e_config e)" "3 * sum_list (map engine_cost ops) + 4 < 2 ^ 64"
  shows "acked H ops = written ops @ iqueued (ip_tx p)
    \<and> content E queued fs e k sig \<subseteq># accepted E (e_bucket_ns e) (batch_writes (acked H ops)) k sig
    \<and> (evs = [] \<and> iqueued (ip_tx p) = [] \<and> (\<forall>op \<in> set ops. \<not> write_failed op) \<longrightarrow>
        content E queued fs e k sig = accepted E (e_bucket_ns e) (batch_writes (acked H ops)) k sig)"
proof -
  note fifo = ingest_fifo [OF assms(2,5)]
  obtain eops where run: "engine_run E send recv queued alive eops (fs, e) evs" and hist: "engine_history E ops eops"
    using ingest_engine_run [OF assms(5)] by blast
  have "3 * length eops + 4 < 2 ^ 64" using hist assms(7) unfolding engine_history_def by linarith
  then have content: "content E queued fs e k sig \<subseteq># accepted E (e_bucket_ns e) eops k sig"
    "evs = [] \<longrightarrow> content E queued fs e k sig = accepted E (e_bucket_ns e) eops k sig"
    using flush_queue.engine_run_ok [OF assms(1,3,4) run] assms(6) unfolding flush_queue.run_ok_def [OF assms(1)] by blast+
  have "accepted E (e_bucket_ns e) eops k sig \<subseteq># accepted E (e_bucket_ns e) (batch_writes (written ops)) k sig"
    using hist by (simp add: engine_history_def)
  also have "\<dots> \<subseteq># accepted E (e_bucket_ns e) (batch_writes (acked H ops)) k sig"
    by (simp add: fifo batch_writes_append accepted_append)
  finally show ?thesis
    using fifo content hist by (auto simp: engine_history_def dest: subset_mset.order_trans)
qed

theorem ingest_stores_acknowledged_witness:
  "\<exists>ops p fs e. ingest_run ingest_env chan_try_send chan_recv ch_items ch_open chan_try_send chan_recv ch_items sample_http ops p (fs, e) []
    \<and> acked sample_http ops = [Logs (normalise_logs sample_otlp_logs)]
    \<and> content ingest_env ch_items fs e 0 Log
        = accepted ingest_env (e_bucket_ns e) (oks_ops (map RLog (normalise_logs sample_otlp_logs))) 0 Log"
proof -
  let ?b = "Logs (normalise_logs sample_otlp_logs)"
  let ?run = "ingest_run ingest_env chan_try_send chan_recv ch_items ch_open chan_try_send chan_recv ch_items sample_http"
  let ?p0 = "\<lparr>ip_tx = chan_new 2, ip_config = ingest_pair\<rparr>"
  let ?p1 = "?p0\<lparr>ip_tx := (ip_tx ?p0)\<lparr>ch_items := [?b]\<rparr>\<rparr>"
  define resp where "resp = submit_response sample_http (Some []) (Inr ())"
  have start: "?run [] ?p0 ([], demo_engine) []"
    by (rule ing_start [OF ingest_env_open, where fresh = chan_channel and config = ingest_pair])
      (simp_all add: pipeline_new_def chan_channel_def ingest_pair_def chan_new_def)
  have "handle_logs sample_http chan_try_send (Some []) [] ?p0 = Some (?p1, resp)"
    by (simp add: handle_logs_def handle_batch_def decode_logs_body_def decode_body_def content_type_def sample_http_def
        content_type_json_def content_type_proto_def submit_def ingest_pair_def chan_new_def chan_try_send_def resp_def)
  then have http: "?run ([] @ [IngHttp ''/v1/logs'' (Some []) [] resp]) ?p1 ([], demo_engine) []"
    by (intro ing_http [OF start, where handler = "handle_logs sample_http chan_try_send"]) (simp_all add: ingest_router_def)
  obtain r d where recs: "normalise_logs sample_otlp_logs = [r]" and "telemetry_ser ingest_env (RLog r) = Inr d"
    using ingest_env_ser by blast
  then have "\<exists>fs e. write_record ingest_env chan_try_send (RLog r) [] demo_engine = Some (fs, e, [], Inr ())
      \<and> (e_flush_tx e = e_flush_tx demo_engine \<or> (\<exists>req. chan_try_send (e_flush_tx demo_engine) req = Inr (e_flush_tx e)))"
    by (intro no_fault_write [where d = d]) (simp_all add: ingest_env_ok demo_engine_def chan_new_def chan_try_send_def)
  then obtain fs e where w: "write_record ingest_env chan_try_send (RLog r) [] demo_engine = Some (fs, e, [], Inr ())" by blast
  have "write_batch ingest_env chan_try_send ?b [] demo_engine = Some (fs, e, [], Inr ())"
    unfolding recs using w by (simp add: write_batch_def demo_engine_def)
  then have "writer_task chan_recv ingest_env chan_try_send ?p1 [] demo_engine = Some (?p0, fs, e, [], Some (?b, Inr ()))"
    by (simp add: writer_task_def chan_recv_def chan_new_def)
  from ing_write [OF http this] have run: "?run [IngHttp ''/v1/logs'' (Some []) [] resp, IngWrite (Some (?b, Inr ()))] ?p0 (fs, e) []"
    by simp
  have cfg: "e_config e = demo_config" using config_write_record [OF w] by simp
  have "hr_status resp = 200" by (simp add: resp_def submit_status)
  moreover have "http_batch sample_http ''/v1/logs'' (Some []) [] = Some ?b"
    by (simp add: http_batch_def decode_logs_body_def decode_body_def content_type_def sample_http_def content_type_json_def content_type_proto_def)
  ultimately have acked: "acked sample_http [IngHttp ''/v1/logs'' (Some []) [] resp, IngWrite (Some (?b, Inr ()))] = [?b]"
    by (simp add: acked_def)
  from ingest_stores_acknowledged [OF fq.flush_queue_axioms ch.mpsc_axioms ingest_env_ok(1,2) run, of 0 Log] cfg acked run
  show ?thesis
    by (intro exI conjI) (assumption | simp add: batch_writes_def batch_len_def recs chan_new_def)+
qed

lemma submit_room:
  assumes "mpsc isend irecv iqueued icap ialive"
  shows "if ialive (ip_tx p) \<and> length (iqueued (ip_tx p)) < icap (ip_tx p)
         then \<exists>p'. submit isend b p = (p', Inr ()) \<and> iqueued (ip_tx p') = iqueued (ip_tx p) @ [b]
         else submit isend b p = (p, Inl IngestBufferFull)"
proof (cases "ialive (ip_tx p) \<and> length (iqueued (ip_tx p)) < icap (ip_tx p)")
  case True
  then obtain tx where "isend (ip_tx p) b = Inr tx" "iqueued tx = iqueued (ip_tx p) @ [b]"
    using mpsc.try_send_ok [OF assms] by blast
  with True show ?thesis by (auto simp: submit_def)
next
  case False
  then have "isend (ip_tx p) b = Inl Full \<or> isend (ip_tx p) b = Inl Closed"
    using mpsc.try_send_full [OF assms] mpsc.try_send_closed [OF assms] by blast
  with False show ?thesis by (auto simp: submit_def)
qed

text \<open>What an endpoint decodes a parsed JSON document or a protobuf body to; a panic of the decoder
  is \<open>None\<close>.\<close>

definition json_batch :: "http_env \<Rightarrow> string \<Rightarrow> json \<Rightarrow> ingest_batch option" where
  "json_batch H path v =
     (if path = ''/v1/logs'' then map_option Logs (decode_logs (he_fp H) v)
      else if path = ''/v1/metrics'' then Some (Metrics (decode_metrics (he_fp H) v))
      else map_option Spans (decode_spans (he_fp H) v))"

definition proto_batch :: "http_env \<Rightarrow> string \<Rightarrow> bytes \<Rightarrow> string + ingest_batch" where
  "proto_batch H path body =
     (if path = ''/v1/logs'' then and_then (he_logs H body) (\<lambda>r. Inr (Logs (normalise_logs r)))
      else if path = ''/v1/metrics'' then and_then (he_metrics H body) (\<lambda>r. Inr (Metrics (normalise_metrics r)))
      else and_then (he_spans H body) (\<lambda>r. Inr (Spans (normalise_spans r))))"

text \<open>A batch offered to the channel: 200 and appended where there is room, else 429 and no change.\<close>

definition offered ::
  "('i \<Rightarrow> ingest_batch list) \<Rightarrow> ('i \<Rightarrow> nat) \<Rightarrow> ('i \<Rightarrow> bool) \<Rightarrow> 'i ingest_pipeline \<Rightarrow> ingest_batch \<Rightarrow>
   ('i ingest_pipeline \<times> http_response) option \<Rightarrow> bool" where
  "offered iqueued icap ialive p b answer \<longleftrightarrow>
     (if ialive (ip_tx p) \<and> length (iqueued (ip_tx p)) < icap (ip_tx p)
      then \<exists>p' resp. answer = Some (p', resp) \<and> hr_status resp = 200 \<and> iqueued (ip_tx p') = iqueued (ip_tx p) @ [b]
      else answer = Some (p, text_response 429 ''back-pressure: ingest buffer full''))"

lemma decoded_body:
  "(if path = ''/v1/logs'' then decode_logs_body H header body
    else if path = ''/v1/metrics'' then decode_metrics_body H header body else decode_traces_body H header body)
   = decode_body H (json_batch H path) (proto_batch H path) header body"
  by (auto simp: decode_logs_body_def decode_metrics_body_def decode_traces_body_def decode_body_def json_batch_def proto_batch_def
      Let_def split: sum.split)

lemma handle_offered:
  assumes "mpsc isend irecv iqueued icap ialive"
  shows "offered iqueued icap ialive p b (handle_batch H isend header (Some (Inr b)) p)"
  using submit_room [OF assms, of p b]
  by (auto simp: offered_def handle_batch_def submit_status submit_response_def is_retriable_def ingest_error_text_def)

lemma offered_status:
  "offered iqueued icap ialive p b (Some (p', resp)) \<Longrightarrow>
     hr_status resp \<in> {200, 429} \<and> (hr_status resp = 200 \<longleftrightarrow> iqueued (ip_tx p') = iqueued (ip_tx p) @ [b]) \<and> (hr_status resp \<noteq> 200 \<longrightarrow> p' = p)"
  by (auto simp: offered_def text_response_def split: if_splits)

text \<open>
  C29. The answers of the OTLP endpoints. A body declared as JSON that does not parse, and one
  declared as protobuf that does not decode, is answered 400 with the parser's message and queues
  nothing; a content type that is neither is answered 415. A body that decodes is answered 200 and
  its batch appended to the channel exactly when the channel has room; otherwise it is answered 429
  and nothing changes, also when the writer task is gone for good. A JSON document on which the
  decoder panics gets no answer. So an answer is 200 exactly when a batch was queued, and no request
  is answered 500. An export over gRPC succeeds exactly when its batch was appended, and is refused
  as resource exhausted otherwise.
\<close>

theorem otlp_answers:
  assumes ch: "mpsc isend irecv iqueued icap ialive" and route: "ingest_router H isend path = Some handler"
  shows "(if starts_with (content_type H header) content_type_json then
            (case he_json H body of
               Inl err \<Rightarrow> handler header body p = Some (p, text_response 400 err)
             | Inr v \<Rightarrow> (case json_batch H path v of
                 None \<Rightarrow> handler header body p = None
               | Some b \<Rightarrow> offered iqueued icap ialive p b (handler header body p)))
          else if starts_with (content_type H header) content_type_proto then
            (case proto_batch H path body of
               Inl err \<Rightarrow> handler header body p = Some (p, text_response 400 err)
             | Inr b \<Rightarrow> offered iqueued icap ialive p b (handler header body p))
          else handler header body p = Some (p, text_response 415 ''Content-Type must be application/json or application/x-protobuf''))
       \<and> (\<forall>p' resp. handler header body p = Some (p', resp) \<longrightarrow> hr_status resp \<in> {200, 400, 415, 429}
            \<and> (hr_status resp = 200 \<longleftrightarrow> (\<exists>b. iqueued (ip_tx p') = iqueued (ip_tx p) @ [b])) \<and> (hr_status resp \<noteq> 200 \<longrightarrow> p' = p))
       \<and> (if ialive (ip_tx p) \<and> length (iqueued (ip_tx p)) < icap (ip_tx p)
          then \<exists>p'. grpc_export sh isend req p = (p', Inr \<lparr>pu_rejected = 0, pu_error_message = ''''\<rparr>)
                  \<and> iqueued (ip_tx p') = iqueued (ip_tx p) @ [request_batch req]
          else grpc_export sh isend req p = (p, Inl (ResourceExhausted, ''back-pressure: ingest buffer full'')))"
proof (intro conjI allI impI)
  let ?d = "decode_body H (json_batch H path) (proto_batch H path) header body"
  have handler: "handler header body = handle_batch H isend header ?d"
    unfolding router_handler [OF route] decoded_body ..
  show "if starts_with (content_type H header) content_type_json then
            (case he_json H body of
               Inl err \<Rightarrow> handler header body p = Some (p, text_response 400 err)
             | Inr v \<Rightarrow> (case json_batch H path v of
                 None \<Rightarrow> handler header body p = None
               | Some b \<Rightarrow> offered iqueued icap ialive p b (handler header body p)))
          else if starts_with (content_type H header) content_type_proto then
            (case proto_batch H path body of
               Inl err \<Rightarrow> handler header body p = Some (p, text_response 400 err)
             | Inr b \<Rightarrow> offered iqueued icap ialive p b (handler header body p))
          else handler header body p = Some (p, text_response 415 ''Content-Type must be application/json or application/x-protobuf'')"
    using handle_offered [OF ch, of p] unfolding handler
    by (auto simp: decode_body_def Let_def handle_batch_def split: sum.split option.split)
  fix p' resp assume answer: "handler header body p = Some (p', resp)"
  then consider "?d = Some (Inl resp)" "p' = p"
    | b where "?d = Some (Inr b)" "offered iqueued icap ialive p b (Some (p', resp))"
    using handle_offered [OF ch, of p] unfolding handler handle_batch_cases by (metis handle_batch_cases)
  then have "hr_status resp \<in> {200, 400, 415, 429}
      \<and> (hr_status resp = 200 \<longleftrightarrow> (\<exists>b. iqueued (ip_tx p') = iqueued (ip_tx p) @ [b])) \<and> (hr_status resp \<noteq> 200 \<longrightarrow> p' = p)"
  proof cases
    case 1
    then show ?thesis using decode_body_refusal [OF 1(1)] by auto
  next
    case 2
    then show ?thesis using offered_status [OF 2(2)] by auto
  qed
  then show "hr_status resp \<in> {200, 400, 415, 429}"
    "(hr_status resp = 200) = (\<exists>b. iqueued (ip_tx p') = iqueued (ip_tx p) @ [b])" "hr_status resp \<noteq> 200 \<Longrightarrow> p' = p"
    by blast+
next
  show "if ialive (ip_tx p) \<and> length (iqueued (ip_tx p)) < icap (ip_tx p)
      then \<exists>p'. grpc_export sh isend req p = (p', Inr \<lparr>pu_rejected = 0, pu_error_message = ''''\<rparr>)
        \<and> iqueued (ip_tx p') = iqueued (ip_tx p) @ [request_batch req]
      else grpc_export sh isend req p = (p, Inl (ResourceExhausted, ''back-pressure: ingest buffer full''))"
    using submit_room [OF ch, of p "request_batch req"]
    by (auto simp: grpc_export_submit grpc_response_def is_retriable_def ingest_error_text_def)
qed

text \<open>A channel of capacity two, empty, and holding two batches; and a body that is not protobuf.\<close>

theorem otlp_answers_witness:
  "(\<exists>p' resp. handle_logs sample_http chan_try_send (Some []) [] \<lparr>ip_tx = chan_new 2, ip_config = ingest_pair\<rparr> = Some (p', resp)
      \<and> hr_status resp = 200 \<and> ch_items (ip_tx p') = [Logs (normalise_logs sample_otlp_logs)])
   \<and> handle_logs sample_http chan_try_send (Some []) [] \<lparr>ip_tx = (chan_new 2)\<lparr>ch_items := [Logs [], Logs []]\<rparr>, ip_config = ingest_pair\<rparr> =
     Some (\<lparr>ip_tx = (chan_new 2)\<lparr>ch_items := [Logs [], Logs []]\<rparr>, ip_config = ingest_pair\<rparr>,
       text_response 429 ''back-pressure: ingest buffer full'')
   \<and> handle_logs (sample_http\<lparr>he_logs := \<lambda>_. Inl ''bad''\<rparr>) chan_try_send (Some []) [] \<lparr>ip_tx = chan_new 2, ip_config = ingest_pair\<rparr> =
     Some (\<lparr>ip_tx = chan_new 2, ip_config = ingest_pair\<rparr>, text_response 400 ''bad'')"
proof -
  have route: "ingest_router H chan_try_send ''/v1/logs'' = Some (handle_logs H chan_try_send)" for H
    by (simp add: ingest_router_def)
  note answers = otlp_answers [OF ch.mpsc_axioms route, THEN conjunct1, of _ "Some []" "[]"]
  show ?thesis
    using answers [of sample_http "\<lparr>ip_tx = chan_new 2, ip_config = ingest_pair\<rparr>"]
      answers [of sample_http "\<lparr>ip_tx = (chan_new 2)\<lparr>ch_items := [Logs [], Logs []]\<rparr>, ip_config = ingest_pair\<rparr>"]
      answers [of "sample_http\<lparr>he_logs := \<lambda>_. Inl ''bad''\<rparr>" "\<lparr>ip_tx = chan_new 2, ip_config = ingest_pair\<rparr>"]
    by (simp add: chan_new_def content_type_def sample_http_def content_type_json_def content_type_proto_def proto_batch_def offered_def)
qed

end
