(* ===== verification/Operator.thy ===== *)
theory Operator
  imports Engine_Properties
begin

text \<open>
  The Kubernetes operator (\<open>src/deploy/kubernetes/operator\<close>: \<open>crd.rs\<close>,
  \<open>reconciler.rs\<close>): the custom resource with the defaults of its deserialisation, the
  objects the operator derives from it and the reconciliation loop body. An object is a record of
  the fields the code sets; a \<open>BTreeMap\<close> is an association list. The API server is a
  parameter: a patch returns the error, if any, and the state of the cluster after it.
\<close>

section \<open>The custom resource\<close>

record crd_config =
  cr_memtable_size_bytes :: u64
  cr_partition_hours :: u64
  cr_l0_compaction_trigger :: nat

record resource_quantity =
  rq_cpu :: string
  rq_memory :: string

record resource_spec =
  rq_requests :: resource_quantity
  rq_limits :: resource_quantity

record cluster_spec =
  cs_replicas :: u32
  cs_storage_class :: string
  cs_storage_size :: string
  cs_image :: string
  cs_etcd_endpoints :: "string list"
  cs_config :: crd_config
  cs_resources :: resource_spec

datatype cluster_phase = Pending | Provisioning | Running | Degraded | Failed

record cluster_status =
  st_phase :: cluster_phase
  st_ready_replicas :: u32
  st_observed_generation :: i64
  st_message :: "string option"

record infra_lens_cluster =
  cl_name :: string
  cl_namespace :: "string option"
  cl_generation :: "i64 option"
  cl_spec :: cluster_spec

definition default_storage_class :: string where "default_storage_class = ''standard''"
definition default_storage_size :: string where "default_storage_size = ''50Gi''"
definition default_image :: string where "default_image = ''ghcr.io/infralens/infralens-server:latest''"
definition default_memtable_size :: u64 where "default_memtable_size = 64 * 1024 * 1024"
definition default_partition_hours :: u64 where "default_partition_hours = 1"
definition default_l0_trigger :: nat where "default_l0_trigger = 4"

definition resource_quantity_default :: resource_quantity where
  "resource_quantity_default = \<lparr>rq_cpu = ''1'', rq_memory = ''2Gi''\<rparr>"

text \<open>The derived \<open>Default\<close> of the configuration, and its deserialisation field by field.\<close>

definition crd_config_default :: crd_config where
  "crd_config_default = \<lparr>cr_memtable_size_bytes = 0, cr_partition_hours = 0, cr_l0_compaction_trigger = 0\<rparr>"

record config_manifest =
  mc_memtable_size_bytes :: "u64 option"
  mc_partition_hours :: "u64 option"
  mc_l0_compaction_trigger :: "nat option"

record spec_manifest =
  mf_replicas :: u32
  mf_storage_class :: "string option"
  mf_storage_size :: "string option"
  mf_image :: "string option"
  mf_etcd_endpoints :: "string list"
  mf_config :: "config_manifest option"
  mf_resources :: "(resource_quantity option \<times> resource_quantity option) option"

definition unwrap_or :: "'a \<Rightarrow> 'a option \<Rightarrow> 'a" where
  "unwrap_or d x = (case x of Some v \<Rightarrow> v | None \<Rightarrow> d)"

definition deserialise_config :: "config_manifest \<Rightarrow> crd_config" where
  "deserialise_config m = \<lparr>
     cr_memtable_size_bytes = unwrap_or default_memtable_size (mc_memtable_size_bytes m),
     cr_partition_hours = unwrap_or default_partition_hours (mc_partition_hours m),
     cr_l0_compaction_trigger = unwrap_or default_l0_trigger (mc_l0_compaction_trigger m)\<rparr>"

definition deserialise_resources :: "resource_quantity option \<times> resource_quantity option \<Rightarrow> resource_spec" where
  "deserialise_resources rl = \<lparr>rq_requests = unwrap_or resource_quantity_default (fst rl),
                              rq_limits = unwrap_or resource_quantity_default (snd rl)\<rparr>"

definition deserialise_spec :: "spec_manifest \<Rightarrow> cluster_spec" where
  "deserialise_spec m = \<lparr>
     cs_replicas = mf_replicas m,
     cs_storage_class = unwrap_or default_storage_class (mf_storage_class m),
     cs_storage_size = unwrap_or default_storage_size (mf_storage_size m),
     cs_image = unwrap_or default_image (mf_image m),
     cs_etcd_endpoints = mf_etcd_endpoints m,
     cs_config = unwrap_or crd_config_default (map_option deserialise_config (mf_config m)),
     cs_resources = unwrap_or (deserialise_resources (None, None)) (map_option deserialise_resources (mf_resources m))\<rparr>"

section \<open>The objects\<close>

type_synonym label_map = "(string \<times> string) list"

record object_meta =
  om_name :: "string option"
  om_namespace :: "string option"
  om_labels :: "label_map option"

record config_map =
  cm_metadata :: object_meta
  cm_data :: "(string \<times> string) list"

record service =
  sv_metadata :: object_meta
  sv_cluster_ip :: string
  sv_selector :: label_map
  sv_ports :: "(string \<times> nat) list"

record container =
  ct_name :: string
  ct_image :: string
  ct_env_from_config_map :: string
  ct_env_field_refs :: "(string \<times> string) list"
  ct_ports :: "(string \<times> nat) list"
  ct_volume_mounts :: "(string \<times> string) list"

record volume_claim =
  vc_name :: string
  vc_access_modes :: "string list"
  vc_storage_class_name :: string
  vc_requests :: "(string \<times> string) list"

record stateful_set =
  ss_metadata :: object_meta
  ss_replicas :: i32
  ss_selector :: label_map
  ss_service_name :: string
  ss_template_labels :: label_map
  ss_containers :: "container list"
  ss_volume_claim_templates :: "volume_claim list"

definition labels :: "string \<Rightarrow> label_map" where
  "labels name =
     [(''app.kubernetes.io/name'', ''infralens''),
      (''app.kubernetes.io/instance'', name),
      (''app.kubernetes.io/component'', ''server'')]"

text \<open>\<open>join(",")\<close> on a vector of strings.\<close>

fun join_comma :: "string list \<Rightarrow> string" where
  "join_comma [] = ''''"
| "join_comma [s] = s"
| "join_comma (s # t # ss) = s @ '','' @ join_comma (t # ss)"

definition meta_for :: "string \<Rightarrow> string \<Rightarrow> label_map \<Rightarrow> object_meta" where
  "meta_for name ns lbls = \<lparr>om_name = Some name, om_namespace = Some ns, om_labels = Some lbls\<rparr>"

definition config_map_for :: "infra_lens_cluster \<Rightarrow> string \<Rightarrow> config_map" where
  "config_map_for cluster ns = \<lparr>
     cm_metadata = meta_for (cl_name cluster @ ''-config'') ns (labels (cl_name cluster)),
     cm_data =
       [(''INFRALENS__STORAGE__MEMTABLE_SIZE_BYTES'', dec_string (unat (cr_memtable_size_bytes (cs_config (cl_spec cluster))))),
        (''INFRALENS__STORAGE__PARTITION_HOURS'', dec_string (unat (cr_partition_hours (cs_config (cl_spec cluster))))),
        (''INFRALENS__CLUSTER__ETCD_ENDPOINTS'', join_comma (cs_etcd_endpoints (cl_spec cluster)))]\<rparr>"

definition service_for :: "infra_lens_cluster \<Rightarrow> string \<Rightarrow> service" where
  "service_for cluster ns = \<lparr>
     sv_metadata = meta_for (cl_name cluster) ns (labels (cl_name cluster)),
     sv_cluster_ip = ''None'',
     sv_selector = labels (cl_name cluster),
     sv_ports = [(''otlp-grpc'', 4317), (''otlp-http'', 4318), (''metrics'', 9090), (''internal'', 5317)]\<rparr>"

text \<open>\<open>as i32\<close> on a \<open>u32\<close>.\<close>

definition u32_as_i32 :: "u32 \<Rightarrow> i32" where
  "u32_as_i32 n = sint n"

definition stateful_set_for :: "infra_lens_cluster \<Rightarrow> string \<Rightarrow> stateful_set" where
  "stateful_set_for cluster ns = \<lparr>
     ss_metadata = meta_for (cl_name cluster) ns (labels (cl_name cluster)),
     ss_replicas = u32_as_i32 (cs_replicas (cl_spec cluster)),
     ss_selector = labels (cl_name cluster),
     ss_service_name = cl_name cluster,
     ss_template_labels = labels (cl_name cluster),
     ss_containers =
       [\<lparr>ct_name = ''infralens'', ct_image = cs_image (cl_spec cluster),
         ct_env_from_config_map = cl_name cluster @ ''-config'',
         ct_env_field_refs = [(''POD_NAME'', ''metadata.name'')],
         ct_ports = [(''otlp-grpc'', 4317), (''otlp-http'', 4318), (''metrics'', 9090)],
         ct_volume_mounts = [(''data'', ''/data'')]\<rparr>],
     ss_volume_claim_templates =
       [\<lparr>vc_name = ''data'', vc_access_modes = [''ReadWriteOnce''],
         vc_storage_class_name = cs_storage_class (cl_spec cluster),
         vc_requests = [(''storage'', cs_storage_size (cl_spec cluster))]\<rparr>]\<rparr>"

definition status_for :: "infra_lens_cluster \<Rightarrow> cluster_status" where
  "status_for cluster = \<lparr>
     st_phase = Running,
     st_ready_replicas = cs_replicas (cl_spec cluster),
     st_observed_generation = unwrap_or 0 (cl_generation cluster),
     st_message = None\<rparr>"

section \<open>Reconciliation\<close>

text \<open>Applying an object under a namespace and a name.\<close>

record 'k kube_api =
  ka_config_map :: "string \<Rightarrow> string \<Rightarrow> config_map \<Rightarrow> 'k \<Rightarrow> (string + unit) \<times> 'k"
  ka_service :: "string \<Rightarrow> string \<Rightarrow> service \<Rightarrow> 'k \<Rightarrow> (string + unit) \<times> 'k"
  ka_stateful_set :: "string \<Rightarrow> string \<Rightarrow> stateful_set \<Rightarrow> 'k \<Rightarrow> (string + unit) \<times> 'k"
  ka_status :: "string \<Rightarrow> string \<Rightarrow> cluster_status \<Rightarrow> 'k \<Rightarrow> (string + unit) \<times> 'k"

datatype action = RequeueSecs nat

definition patch_then ::
  "('k \<Rightarrow> (string + unit) \<times> 'k) \<Rightarrow> ('k \<Rightarrow> (string + 'a) \<times> 'k) \<Rightarrow> 'k \<Rightarrow> (string + 'a) \<times> 'k" where
  "patch_then f g k = (case f k of (Inl err, k') \<Rightarrow> (Inl err, k') | (Inr _, k') \<Rightarrow> g k')"

definition reconcile_configmap :: "'k kube_api \<Rightarrow> infra_lens_cluster \<Rightarrow> string \<Rightarrow> 'k \<Rightarrow> (string + unit) \<times> 'k" where
  "reconcile_configmap K cluster ns = ka_config_map K ns (cl_name cluster @ ''-config'') (config_map_for cluster ns)"

definition reconcile_service :: "'k kube_api \<Rightarrow> infra_lens_cluster \<Rightarrow> string \<Rightarrow> 'k \<Rightarrow> (string + unit) \<times> 'k" where
  "reconcile_service K cluster ns = ka_service K ns (cl_name cluster) (service_for cluster ns)"

definition reconcile_statefulset :: "'k kube_api \<Rightarrow> infra_lens_cluster \<Rightarrow> string \<Rightarrow> 'k \<Rightarrow> (string + unit) \<times> 'k" where
  "reconcile_statefulset K cluster ns = ka_stateful_set K ns (cl_name cluster) (stateful_set_for cluster ns)"

definition update_status :: "'k kube_api \<Rightarrow> infra_lens_cluster \<Rightarrow> string \<Rightarrow> 'k \<Rightarrow> (string + unit) \<times> 'k" where
  "update_status K cluster ns = ka_status K ns (cl_name cluster) (status_for cluster)"

definition reconcile :: "'k kube_api \<Rightarrow> infra_lens_cluster \<Rightarrow> 'k \<Rightarrow> (string + action) \<times> 'k" where
  "reconcile K cluster =
     (let ns = unwrap_or '''' (cl_namespace cluster) in
      patch_then (reconcile_configmap K cluster ns)
        (patch_then (reconcile_service K cluster ns)
          (patch_then (reconcile_statefulset K cluster ns)
            (patch_then (update_status K cluster ns)
              (\<lambda>k. (Inr (RequeueSecs 30), k))))))"

definition error_policy :: "string \<Rightarrow> action" where
  "error_policy err = RequeueSecs 10"

section \<open>The API server\<close>

text \<open>
  What a successful apply promises, and that a request touches only the object it names. A request
  that fails may or may not have taken effect on that object.
\<close>

locale kube_server =
  fixes K :: "'k kube_api"
    and get_cm :: "string \<Rightarrow> string \<Rightarrow> 'k \<Rightarrow> config_map option"
    and get_svc :: "string \<Rightarrow> string \<Rightarrow> 'k \<Rightarrow> service option"
    and get_sts :: "string \<Rightarrow> string \<Rightarrow> 'k \<Rightarrow> stateful_set option"
    and get_status :: "string \<Rightarrow> string \<Rightarrow> 'k \<Rightarrow> cluster_status option"
  assumes config_map_applied: "ka_config_map K ns n x k = (Inr u, k') \<Longrightarrow> get_cm ns n k' = Some x"
    and config_map_frame: "ka_config_map K ns n x k = (r, k') \<Longrightarrow>
       get_svc ns' m k' = get_svc ns' m k \<and> get_sts ns' m k' = get_sts ns' m k \<and> get_status ns' m k' = get_status ns' m k
       \<and> ((ns', m) \<noteq> (ns, n) \<longrightarrow> get_cm ns' m k' = get_cm ns' m k)"
    and service_applied: "ka_service K ns n y k = (Inr u, k') \<Longrightarrow> get_svc ns n k' = Some y"
    and service_frame: "ka_service K ns n y k = (r, k') \<Longrightarrow>
       get_cm ns' m k' = get_cm ns' m k \<and> get_sts ns' m k' = get_sts ns' m k \<and> get_status ns' m k' = get_status ns' m k
       \<and> ((ns', m) \<noteq> (ns, n) \<longrightarrow> get_svc ns' m k' = get_svc ns' m k)"
    and stateful_set_applied: "ka_stateful_set K ns n z k = (Inr u, k') \<Longrightarrow> get_sts ns n k' = Some z"
    and stateful_set_frame: "ka_stateful_set K ns n z k = (r, k') \<Longrightarrow>
       get_cm ns' m k' = get_cm ns' m k \<and> get_svc ns' m k' = get_svc ns' m k \<and> get_status ns' m k' = get_status ns' m k
       \<and> ((ns', m) \<noteq> (ns, n) \<longrightarrow> get_sts ns' m k' = get_sts ns' m k)"
    and status_applied: "ka_status K ns n s k = (Inr u, k') \<Longrightarrow> get_status ns n k' = Some s"
    and status_frame: "ka_status K ns n s k = (r, k') \<Longrightarrow>
       get_cm ns' m k' = get_cm ns' m k \<and> get_svc ns' m k' = get_svc ns' m k \<and> get_sts ns' m k' = get_sts ns' m k
       \<and> ((ns', m) \<noteq> (ns, n) \<longrightarrow> get_status ns' m k' = get_status ns' m k)"
begin

text \<open>The three objects of a cluster are in place.\<close>

definition deployed :: "infra_lens_cluster \<Rightarrow> string \<Rightarrow> 'k \<Rightarrow> bool" where
  "deployed cluster ns k \<longleftrightarrow>
     get_cm ns (cl_name cluster @ ''-config'') k = Some (config_map_for cluster ns)
     \<and> get_svc ns (cl_name cluster) k = Some (service_for cluster ns)
     \<and> get_sts ns (cl_name cluster) k = Some (stateful_set_for cluster ns)"

lemma reconcile_effect:
  assumes rec: "reconcile K cluster k = (r, k')" and ns: "ns = unwrap_or '''' (cl_namespace cluster)"
  shows "(\<forall>a. r = Inr a \<longrightarrow> a = RequeueSecs 30 \<and> deployed cluster ns k' \<and> get_status ns (cl_name cluster) k' = Some (status_for cluster))
    \<and> (get_status ns (cl_name cluster) k' \<noteq> get_status ns (cl_name cluster) k \<longrightarrow> deployed cluster ns k')
    \<and> (\<forall>ns' m. (ns', m) \<noteq> (ns, cl_name cluster) \<longrightarrow>
         get_svc ns' m k' = get_svc ns' m k \<and> get_sts ns' m k' = get_sts ns' m k \<and> get_status ns' m k' = get_status ns' m k)
    \<and> (\<forall>ns' m. (ns', m) \<noteq> (ns, cl_name cluster @ ''-config'') \<longrightarrow> get_cm ns' m k' = get_cm ns' m k)"
proof -
  obtain r1 k1 where 1: "reconcile_configmap K cluster ns k = (r1, k1)" by fastforce
  obtain r2 k2 where 2: "reconcile_service K cluster ns k1 = (r2, k2)" by fastforce
  obtain r3 k3 where 3: "reconcile_statefulset K cluster ns k2 = (r3, k3)" by fastforce
  obtain r4 k4 where 4: "update_status K cluster ns k3 = (r4, k4)" by fastforce
  note cm = 1 [unfolded reconcile_configmap_def] and svc = 2 [unfolded reconcile_service_def]
    and sts = 3 [unfolded reconcile_statefulset_def] and st = 4 [unfolded update_status_def]
  note frames = config_map_frame [OF cm] service_frame [OF svc] stateful_set_frame [OF sts] status_frame [OF st]
  have applied: "r1 = Inr () \<Longrightarrow> get_cm ns (cl_name cluster @ ''-config'') k1 = Some (config_map_for cluster ns)"
    "r2 = Inr () \<Longrightarrow> get_svc ns (cl_name cluster) k2 = Some (service_for cluster ns)"
    "r3 = Inr () \<Longrightarrow> get_sts ns (cl_name cluster) k3 = Some (stateful_set_for cluster ns)"
    "r4 = Inr () \<Longrightarrow> get_status ns (cl_name cluster) k4 = Some (status_for cluster)"
    using cm svc sts st by (simp_all only: config_map_applied service_applied stateful_set_applied status_applied)
  have run: "reconcile K cluster k = (case r1 of Inl err \<Rightarrow> (Inl err, k1) | Inr _ \<Rightarrow> case r2 of Inl err \<Rightarrow> (Inl err, k2)
      | Inr _ \<Rightarrow> case r3 of Inl err \<Rightarrow> (Inl err, k3) | Inr _ \<Rightarrow> case r4 of Inl err \<Rightarrow> (Inl err, k4) | Inr _ \<Rightarrow> (Inr (RequeueSecs 30), k4))"
    using 1 2 3 4 by (auto simp: reconcile_def patch_then_def ns [symmetric] Let_def split: sum.splits)
  consider "isl r1" "k' = k1" "isl r" | "r1 = Inr ()" "isl r2" "k' = k2" "isl r" | "r1 = Inr ()" "r2 = Inr ()" "isl r3" "k' = k3" "isl r"
    | "r1 = Inr ()" "r2 = Inr ()" "r3 = Inr ()" "k' = k4" "isl r \<longleftrightarrow> isl r4" "r = Inr (RequeueSecs 30) \<or> isl r"
    using run rec by (cases r1; cases r2; cases r3; cases r4) auto
  then show ?thesis
  proof cases
    case 1
    then show ?thesis by (cases r) (simp_all add: frames)
  next
    case 2
    then show ?thesis by (cases r) (simp_all add: frames)
  next
    case 3
    then show ?thesis by (cases r) (simp_all add: frames)
  next
    case 4
    then have "deployed cluster ns k'" using applied(1-3) by (simp add: deployed_def frames)
    moreover have "get_status ns (cl_name cluster) k' = Some (status_for cluster)" if "r = Inr a" for a
      using that 4 applied(4) by (cases r4) simp_all
    moreover have "a = RequeueSecs 30" if "r = Inr a" for a using that 4(6) by simp
    ultimately show ?thesis using 4(4) by (simp add: frames)
  qed
qed

end

text \<open>A reference server: maps from namespace and name to objects, with requests that fail on demand.\<close>

record kube_store =
  ks_config_maps :: "string \<times> string \<Rightarrow> config_map option"
  ks_services :: "string \<times> string \<Rightarrow> service option"
  ks_stateful_sets :: "string \<times> string \<Rightarrow> stateful_set option"
  ks_statuses :: "string \<times> string \<Rightarrow> cluster_status option"

definition store_api :: "string set \<Rightarrow> kube_store kube_api" where
  "store_api broken = \<lparr>
     ka_config_map = (\<lambda>ns n x k. if ''configmaps'' \<in> broken then (Inl ''refused'', k)
        else (Inr (), k\<lparr>ks_config_maps := (ks_config_maps k)((ns, n) \<mapsto> x)\<rparr>)),
     ka_service = (\<lambda>ns n x k. if ''services'' \<in> broken then (Inl ''refused'', k)
        else (Inr (), k\<lparr>ks_services := (ks_services k)((ns, n) \<mapsto> x)\<rparr>)),
     ka_stateful_set = (\<lambda>ns n x k. if ''statefulsets'' \<in> broken then (Inl ''refused'', k)
        else (Inr (), k\<lparr>ks_stateful_sets := (ks_stateful_sets k)((ns, n) \<mapsto> x)\<rparr>)),
     ka_status = (\<lambda>ns n x k. if ''status'' \<in> broken then (Inl ''refused'', k)
        else (Inr (), k\<lparr>ks_statuses := (ks_statuses k)((ns, n) \<mapsto> x)\<rparr>))\<rparr>"

interpretation ks: kube_server "store_api broken" "\<lambda>ns n k. ks_config_maps k (ns, n)" "\<lambda>ns n k. ks_services k (ns, n)"
  "\<lambda>ns n k. ks_stateful_sets k (ns, n)" "\<lambda>ns n k. ks_statuses k (ns, n)"
  by unfold_locales (auto simp: store_api_def split: if_splits)

lemma parse_u64_zero: "parse_u64 (dec_string 0) = Some 0"
  using parse_u64_pad_zeros [of 0 0] by (simp add: pad_zeros_def)

section \<open>Properties\<close>

definition sample_cluster_resource :: infra_lens_cluster where
  "sample_cluster_resource = \<lparr>cl_name = ''demo'', cl_namespace = Some ''obs'', cl_generation = Some 3,
     cl_spec = deserialise_spec \<lparr>mf_replicas = 2, mf_storage_class = None, mf_storage_size = None, mf_image = None,
       mf_etcd_endpoints = [''http://etcd:2379''], mf_config = None, mf_resources = None\<rparr>\<rparr>"

definition empty_store :: kube_store where
  "empty_store = \<lparr>ks_config_maps = (\<lambda>_. None), ks_services = (\<lambda>_. None), ks_stateful_sets = (\<lambda>_. None), ks_statuses = (\<lambda>_. None)\<rparr>"

text \<open>
  C27. Reconciliation deploys the desired objects. A run that succeeds leaves the config map, the
  service and the stateful set of the resource in its namespace, wired to each other: the service
  and the stateful set select the labels of the pods, the stateful set names the service and its
  container reads the config map. It reports the phase Running with every replica ready, whatever the
  cluster does, and asks for the next run after 30 seconds. The status changes only once the three objects are in
  place, also in a run that fails, and no run touches the objects of another name or namespace.
\<close>

theorem reconcile_deploys:
  assumes "kube_server K get_cm get_svc get_sts get_status" "reconcile K cluster k = (r, k')"
    and "ns = unwrap_or '''' (cl_namespace cluster)"
  shows "(\<forall>a. r = Inr a \<longrightarrow> a = RequeueSecs 30
          \<and> (\<exists>cm svc sts st. get_cm ns (cl_name cluster @ ''-config'') k' = Some cm \<and> get_svc ns (cl_name cluster) k' = Some svc
              \<and> get_sts ns (cl_name cluster) k' = Some sts \<and> get_status ns (cl_name cluster) k' = Some st
              \<and> sv_selector svc = ss_template_labels sts \<and> ss_selector sts = ss_template_labels sts
              \<and> Some (ss_service_name sts) = om_name (sv_metadata svc)
              \<and> (\<forall>c \<in> set (ss_containers sts). Some (ct_env_from_config_map c) = om_name (cm_metadata cm))
              \<and> st_phase st = Running \<and> st_ready_replicas st = cs_replicas (cl_spec cluster)))
       \<and> (get_status ns (cl_name cluster) k' \<noteq> get_status ns (cl_name cluster) k \<longrightarrow>
            get_cm ns (cl_name cluster @ ''-config'') k' = Some (config_map_for cluster ns)
            \<and> get_svc ns (cl_name cluster) k' = Some (service_for cluster ns)
            \<and> get_sts ns (cl_name cluster) k' = Some (stateful_set_for cluster ns))
       \<and> (\<forall>ns' m. (ns', m) \<noteq> (ns, cl_name cluster) \<longrightarrow>
            get_svc ns' m k' = get_svc ns' m k \<and> get_sts ns' m k' = get_sts ns' m k \<and> get_status ns' m k' = get_status ns' m k)
       \<and> (\<forall>ns' m. (ns', m) \<noteq> (ns, cl_name cluster @ ''-config'') \<longrightarrow> get_cm ns' m k' = get_cm ns' m k)"
proof -
  note effect = kube_server.reconcile_effect [OF assms, unfolded kube_server.deployed_def [OF assms(1)]]
  have wired: "sv_selector (service_for cluster ns) = ss_template_labels (stateful_set_for cluster ns)"
    "ss_selector (stateful_set_for cluster ns) = ss_template_labels (stateful_set_for cluster ns)"
    "Some (ss_service_name (stateful_set_for cluster ns)) = om_name (sv_metadata (service_for cluster ns))"
    "\<forall>c \<in> set (ss_containers (stateful_set_for cluster ns)). Some (ct_env_from_config_map c) = om_name (cm_metadata (config_map_for cluster ns))"
    "st_phase (status_for cluster) = Running" "st_ready_replicas (status_for cluster) = cs_replicas (cl_spec cluster)"
    by (simp_all add: service_for_def stateful_set_for_def config_map_for_def meta_for_def status_for_def)
  show ?thesis
  proof (intro conjI)
    show "\<forall>a. r = Inr a \<longrightarrow> a = RequeueSecs 30
          \<and> (\<exists>cm svc sts st. get_cm ns (cl_name cluster @ ''-config'') k' = Some cm \<and> get_svc ns (cl_name cluster) k' = Some svc
              \<and> get_sts ns (cl_name cluster) k' = Some sts \<and> get_status ns (cl_name cluster) k' = Some st
              \<and> sv_selector svc = ss_template_labels sts \<and> ss_selector sts = ss_template_labels sts
              \<and> Some (ss_service_name sts) = om_name (sv_metadata svc)
              \<and> (\<forall>c \<in> set (ss_containers sts). Some (ct_env_from_config_map c) = om_name (cm_metadata cm))
              \<and> st_phase st = Running \<and> st_ready_replicas st = cs_replicas (cl_spec cluster))"
      using effect [THEN conjunct1] wired by blast
  qed (use effect in blast)+
qed

theorem reconcile_deploys_witness:
  "map_option sv_selector (ks_services (snd (reconcile (store_api {}) sample_cluster_resource empty_store)) (''obs'', ''demo'')) =
     map_option ss_template_labels (ks_stateful_sets (snd (reconcile (store_api {}) sample_cluster_resource empty_store)) (''obs'', ''demo'')) \<and>
   ks_statuses (snd (reconcile (store_api {''statefulsets''}) sample_cluster_resource empty_store)) (''obs'', ''demo'') = None"
proof -
  let ?c = "sample_cluster_resource"
  have ns: "''obs'' = unwrap_or '''' (cl_namespace ?c)" "cl_name ?c = ''demo''" by (simp_all add: sample_cluster_resource_def unwrap_or_def)
  obtain a k1 where 1: "reconcile (store_api {}) ?c empty_store = (Inr a, k1)"
    by (simp add: reconcile_def Let_def patch_then_def store_api_def reconcile_configmap_def reconcile_service_def reconcile_statefulset_def update_status_def)
  obtain k2 where 2: "reconcile (store_api {''statefulsets''}) ?c empty_store = (Inl ''refused'', k2)"
    and none: "ks_stateful_sets k2 (''obs'', ''demo'') = None"
    by (simp add: reconcile_def Let_def patch_then_def store_api_def reconcile_configmap_def reconcile_service_def reconcile_statefulset_def empty_store_def)
  have "ks_statuses k2 (''obs'', ''demo'') = ks_statuses empty_store (''obs'', ''demo'')"
    using reconcile_deploys [OF ks.kube_server_axioms 2 ns(1)] none unfolding ns(2) by auto
  then show ?thesis
    using reconcile_deploys [OF ks.kube_server_axioms 1 ns(1)] 1 2 unfolding ns(2) by (auto simp: empty_store_def)
qed

text \<open>
  C40. A resource without a configuration section cannot store anything. Its config map sets
  the partition width to 0 hours, because the derived default of the section is used instead of the
  defaults of its fields; an engine with that configuration panics on every write.
\<close>

theorem omitted_config_panics:
  assumes "cl_spec cluster = deserialise_spec m" "mf_config m = None"
    and "Option.bind (map_of (cm_data (config_map_for cluster ns)) ''INFRALENS__STORAGE__PARTITION_HOURS'') parse_u64 = Some (partition_hours config)"
    and "engine_open E config c = Inr e" "batch_len b \<noteq> 0"
  shows "write_batch E send b fs e = None"
proof -
  have "cr_partition_hours (cs_config (cl_spec cluster)) = 0"
    by (simp add: assms(1,2) deserialise_spec_def unwrap_or_def crd_config_default_def)
  then have "map_of (cm_data (config_map_for cluster ns)) ''INFRALENS__STORAGE__PARTITION_HOURS'' = Some (dec_string 0)"
    by (simp add: config_map_for_def)
  then have "partition_hours config = 0" using assms(3) by (simp add: parse_u64_zero)
  then have e: "e_bucket_ns e = 0" "\<not> e_closed e"
    using assms(4) by (auto simp: engine_open_def engine_bucket_ns_def split: if_splits)
  have "length (batch_telemetry b) \<noteq> 0" using assms(5) by (cases b) (simp_all add: batch_len_def)
  then obtain t ts where "batch_telemetry b = t # ts" by (cases "batch_telemetry b") simp_all
  then show ?thesis using e by (simp add: write_batch_records write_record_one write_one_def for_timestamp_def)
qed

theorem omitted_config_panics_witness:
  "\<exists>e. engine_open demo_env (demo_config\<lparr>partition_hours := 0\<rparr>) (chan_new 64 :: flush_request chan) = Inr e
     \<and> write_batch demo_env chan_try_send (Logs [sample_log]) [] e = None"
proof -
  let ?config = "demo_config\<lparr>partition_hours := 0\<rparr>"
  obtain e where e: "engine_open demo_env ?config (chan_new 64 :: flush_request chan) = Inr e"
    by (simp add: engine_open_def demo_env_def log_env_def)
  obtain m where m: "cl_spec sample_cluster_resource = deserialise_spec m" "mf_config m = None"
    by (simp add: sample_cluster_resource_def)
  have hours: "Option.bind (map_of (cm_data (config_map_for sample_cluster_resource ''obs'')) ''INFRALENS__STORAGE__PARTITION_HOURS'') parse_u64
      = Some (partition_hours ?config)"
    by (simp add: config_map_for_def sample_cluster_resource_def deserialise_spec_def unwrap_or_def crd_config_default_def parse_u64_zero)
  from omitted_config_panics [OF m hours e, of "Logs [sample_log]" chan_try_send "[]"] e show ?thesis
    by (simp add: batch_len_def)
qed

end
