(* ===== verification/Lexer.thy ===== *)
theory Lexer
  imports Ascii
begin

text \<open>
  The lexer of the query language (\<open>infralens-query/src/lexer.rs\<close>). The lexer's state,
  a byte slice and a position, is the list of the bytes not yet read; \<open>peek\<close> past the end
  is the NUL byte, as in the source. An error holds what its message prints; for a stray
  exclamation mark that is the offset, given here by the bytes that follow it. Parsing a
  floating-point literal is the operation \<open>fp_lit\<close> of the parameter.
\<close>

datatype token =
    T_Select | T_From | T_Where | T_And | T_Or | T_Not | T_Is | T_Null | T_In | T_Between | T_Like
  | T_Join | T_Inner | T_Left | T_Right | T_On | T_As | T_Group | T_By | T_Having | T_Order | T_Asc | T_Desc
  | T_Limit | T_Offset | T_True | T_False | T_Distinct | T_Interval
  | T_Ident string
  | T_IntLit i64
  | T_FloatLit f64
  | T_StrLit string
  | T_Plus | T_Minus | T_Star | T_Slash | T_Percent
  | T_Eq | T_NotEq | T_Lt | T_LtEq | T_Gt | T_GtEq
  | T_LParen | T_RParen | T_Comma | T_Dot | T_Semicolon
  | T_Eof

datatype lex_error =
    UnexpectedBang string
  | UnexpectedByte char
  | UnterminatedString
  | UnterminatedIdent
  | IntParse string

section \<open>Reading bytes\<close>

definition nul :: char where "nul = CHR 0x00"
definition newline :: char where "newline = CHR 0x0A"
definition squote :: char where "squote = CHR 0x27"
definition dquote :: char where "dquote = CHR 0x22"

definition peek :: "string \<Rightarrow> char" where
  "peek s = (case s of [] \<Rightarrow> nul | c # _ \<Rightarrow> c)"

definition peek2 :: "string \<Rightarrow> char" where
  "peek2 s = peek (drop 1 s)"

definition is_blank :: "char \<Rightarrow> bool" where
  "is_blank c \<longleftrightarrow> char_code c = 32 \<or> char_code c = 9 \<or> char_code c = 10 \<or> char_code c = 13"

lemma dropWhile_shorter: "s \<noteq> [] \<Longrightarrow> P (hd s) \<Longrightarrow> length (dropWhile P s) < length s"
  by (cases s) (auto simp: le_imp_less_Suc length_dropWhile_le)

function skip_whitespace_and_comments :: "string \<Rightarrow> string" where
  "skip_whitespace_and_comments s =
     (if s = [] then []
      else if is_blank (peek s) then skip_whitespace_and_comments (drop 1 s)
      else if peek s = CHR ''-'' \<and> peek2 s = CHR ''-''
        then skip_whitespace_and_comments (dropWhile (\<lambda>c. c \<noteq> newline) s)
      else s)"
  by pat_completeness auto
termination
proof (relation "measure length")
  show "(dropWhile (\<lambda>c. c \<noteq> newline) s, s) \<in> measure length"
    if "s \<noteq> []" "peek s = CHR ''-'' \<and> peek2 s = CHR ''-''" for s
    using that by (auto simp: peek_def newline_def le_imp_less_Suc length_dropWhile_le split: list.splits)
qed simp_all

declare skip_whitespace_and_comments.simps [simp del]

section \<open>Tokens\<close>

fun lex_string_loop :: "string \<Rightarrow> string \<Rightarrow> lex_error + (token \<times> string)" where
  "lex_string_loop acc [] = Inl UnterminatedString"
| "lex_string_loop acc (c # cs) =
     (if c = nul then Inl UnterminatedString
      else if c = squote then
        (case cs of
           d # ds \<Rightarrow> if d = squote then lex_string_loop (acc @ [squote]) ds else Inr (T_StrLit acc, cs)
         | [] \<Rightarrow> Inr (T_StrLit acc, cs))
      else lex_string_loop (acc @ push_byte c) cs)"

definition lex_string :: "string \<Rightarrow> lex_error + (token \<times> string)" where
  "lex_string s = lex_string_loop [] (drop 1 s)"

definition lex_number :: "fp_ops \<Rightarrow> string \<Rightarrow> lex_error + (token \<times> string)" where
  "lex_number F s =
     (let digits = takeWhile is_digit s; rest = dropWhile is_digit s in
      if peek rest = CHR ''.'' \<and> is_digit (peek2 rest) then
        let frac = takeWhile is_digit (drop 1 rest) in
        Inr (T_FloatLit (fp_lit F (digits @ CHR ''.'' # frac)), dropWhile is_digit (drop 1 rest))
      else case parse_i64 digits of
        None \<Rightarrow> Inl (IntParse digits)
      | Some n \<Rightarrow> Inr (T_IntLit n, rest))"

definition is_ident_start :: "char \<Rightarrow> bool" where
  "is_ident_start c \<longleftrightarrow> is_lower c \<or> is_upper c \<or> c = CHR ''_''"

definition is_ident_char :: "char \<Rightarrow> bool" where
  "is_ident_char c \<longleftrightarrow> is_ident_start c \<or> is_digit c"

definition keywords_table :: "(string \<times> token) list" where
  "keywords_table =
    [(''SELECT'', T_Select), (''FROM'', T_From), (''WHERE'', T_Where), (''AND'', T_And), (''OR'', T_Or),
     (''NOT'', T_Not), (''IS'', T_Is), (''NULL'', T_Null), (''IN'', T_In), (''BETWEEN'', T_Between),
     (''LIKE'', T_Like), (''JOIN'', T_Join), (''INNER'', T_Inner), (''LEFT'', T_Left), (''RIGHT'', T_Right),
     (''ON'', T_On), (''AS'', T_As), (''GROUP'', T_Group), (''BY'', T_By), (''HAVING'', T_Having),
     (''ORDER'', T_Order), (''ASC'', T_Asc), (''DESC'', T_Desc), (''LIMIT'', T_Limit), (''OFFSET'', T_Offset),
     (''TRUE'', T_True), (''FALSE'', T_False), (''DISTINCT'', T_Distinct), (''INTERVAL'', T_Interval)]"

definition word_token :: "string \<Rightarrow> token" where
  "word_token w =
     (case map_of keywords_table (to_ascii_uppercase w) of Some t \<Rightarrow> t | None \<Rightarrow> T_Ident w)"

definition lex_ident_or_keyword :: "string \<Rightarrow> lex_error + (token \<times> string)" where
  "lex_ident_or_keyword s = Inr (word_token (takeWhile is_ident_char s), dropWhile is_ident_char s)"

fun lex_quoted_loop :: "string \<Rightarrow> string \<Rightarrow> lex_error + (token \<times> string)" where
  "lex_quoted_loop acc [] = Inl UnterminatedIdent"
| "lex_quoted_loop acc (c # cs) =
     (if c = nul then Inl UnterminatedIdent
      else if c = dquote then Inr (T_Ident acc, cs)
      else lex_quoted_loop (acc @ push_byte c) cs)"

definition lex_quoted_ident :: "string \<Rightarrow> lex_error + (token \<times> string)" where
  "lex_quoted_ident s = lex_quoted_loop [] (drop 1 s)"

definition next_token :: "fp_ops \<Rightarrow> string \<Rightarrow> lex_error + (token \<times> string)" where
  "next_token F s =
     (let c = peek s; r = drop 1 s in
      if c = CHR ''+'' then Inr (T_Plus, r)
      else if c = CHR ''-'' then Inr (T_Minus, r)
      else if c = CHR ''*'' then Inr (T_Star, r)
      else if c = CHR ''/'' then Inr (T_Slash, r)
      else if c = CHR ''%'' then Inr (T_Percent, r)
      else if c = CHR ''('' then Inr (T_LParen, r)
      else if c = CHR '')'' then Inr (T_RParen, r)
      else if c = CHR '','' then Inr (T_Comma, r)
      else if c = CHR ''.'' then Inr (T_Dot, r)
      else if c = CHR '';'' then Inr (T_Semicolon, r)
      else if c = CHR ''='' then Inr (T_Eq, r)
      else if c = CHR ''<'' then
        (if peek r = CHR ''='' then Inr (T_LtEq, drop 1 r)
         else if peek r = CHR ''>'' then Inr (T_NotEq, drop 1 r)
         else Inr (T_Lt, r))
      else if c = CHR ''>'' then
        (if peek r = CHR ''='' then Inr (T_GtEq, drop 1 r) else Inr (T_Gt, r))
      else if c = CHR ''!'' then
        (if peek r = CHR ''='' then Inr (T_NotEq, drop 1 r) else Inl (UnexpectedBang r))
      else if c = squote then lex_string s
      else if is_digit c then lex_number F s
      else if is_ident_start c then lex_ident_or_keyword s
      else if c = dquote then lex_quoted_ident s
      else Inl (UnexpectedByte c))"

lemma lex_string_loop_shorter:
  "lex_string_loop acc s = Inr (t, r) \<Longrightarrow> length r < length s"
  by (induction acc s rule: lex_string_loop.induct) (auto split: if_splits list.splits)

lemma lex_quoted_loop_shorter:
  "lex_quoted_loop acc s = Inr (t, r) \<Longrightarrow> length r < length s"
  by (induction acc s rule: lex_quoted_loop.induct) (auto split: if_splits)

lemma lex_number_shorter:
  assumes "s \<noteq> []" "is_digit (peek s)" "lex_number F s = Inr (t, r)"
  shows "length r < length s"
proof -
  have "length (dropWhile is_digit s) < length s"
    using assms(1,2) by (intro dropWhile_shorter) (auto simp: peek_def split: list.splits)
  moreover have "length (dropWhile is_digit (drop 1 u)) \<le> length u" for u
    by (rule order_trans [OF length_dropWhile_le]) simp
  ultimately show ?thesis
    using assms(3) by (auto simp: lex_number_def Let_def split: if_splits option.splits intro: le_less_trans)
qed

lemma next_token_shorter:
  assumes "s \<noteq> []" "next_token F s = Inr (t, r)"
  shows "length r < length s"
proof -
  have d: "length (drop 1 s) < length s" using assms(1) by simp
  have i: "lex_ident_or_keyword s = Inr (t, r) \<Longrightarrow> is_ident_start (peek s) \<Longrightarrow> length r < length s"
    using assms(1) dropWhile_shorter [OF assms(1), of is_ident_char]
    by (auto simp: lex_ident_or_keyword_def is_ident_char_def peek_def split: list.splits)
  have q: "lex_string s = Inr (t, r) \<Longrightarrow> length r < length s"
    "lex_quoted_ident s = Inr (t, r) \<Longrightarrow> length r < length s"
    using lex_string_loop_shorter lex_quoted_loop_shorter d
    by (fastforce simp: lex_string_def lex_quoted_ident_def)+
  show ?thesis
    using assms(2) i q lex_number_shorter [OF assms(1)] d
    unfolding next_token_def Let_def by (auto split: if_splits)
qed

lemma skip_length: "length (skip_whitespace_and_comments s) \<le> length s"
proof (induction s rule: skip_whitespace_and_comments.induct)
  case (1 s)
  have "length (dropWhile P s) \<le> length s" for P by (rule length_dropWhile_le)
  with 1 show ?case
    by (subst skip_whitespace_and_comments.simps) (auto intro: order_trans)
qed

function tokenise :: "fp_ops \<Rightarrow> string \<Rightarrow> lex_error + token list" where
  "tokenise F src =
     (let s = skip_whitespace_and_comments src in
      if s = [] then Inr [T_Eof]
      else case next_token F s of
        Inl e \<Rightarrow> Inl e
      | Inr (tok, rest) \<Rightarrow> and_then (tokenise F rest) (\<lambda>toks. Inr (tok # toks)))"
  by pat_completeness auto
termination
  using next_token_shorter skip_length
  by (relation "measure (\<lambda>(_, s). length s)") (fastforce intro: less_le_trans)+

declare tokenise.simps [simp del]

section \<open>What the lexer returns\<close>

definition literal_ok :: "token \<Rightarrow> bool" where
  "literal_ok t \<longleftrightarrow> (case t of T_IntLit n \<Rightarrow> 0 \<le> n \<and> n \<le> i64_max | T_Eof \<Rightarrow> False | _ \<Rightarrow> True)"

lemma literal_ok_simps [simp]:
  "literal_ok (T_Ident s)" "literal_ok (T_StrLit s)" "literal_ok (T_FloatLit f)"
  "literal_ok T_Plus" "literal_ok T_Minus" "literal_ok T_Star" "literal_ok T_Slash" "literal_ok T_Percent"
  "literal_ok T_LParen" "literal_ok T_RParen" "literal_ok T_Comma" "literal_ok T_Dot" "literal_ok T_Semicolon"
  "literal_ok T_Eq" "literal_ok T_NotEq" "literal_ok T_Lt" "literal_ok T_LtEq" "literal_ok T_Gt" "literal_ok T_GtEq"
  by (simp_all add: literal_ok_def)

lemma parse_i64_digits:
  assumes "\<forall>c \<in> set s. is_digit c" "parse_i64 s = Some n"
  shows "0 \<le> n \<and> n \<le> i64_max"
proof -
  have "(case s of [] \<Rightarrow> False | c # _ \<Rightarrow> c = CHR ''-'') = False"
    using assms(1) by (auto simp: is_digit_def split: list.splits)
  then show ?thesis
    using assms(2) by (auto simp: parse_i64_def Let_def split: if_splits option.splits list.splits)
qed

lemma word_token_ok: "literal_ok (word_token w)"
proof -
  have "\<forall>x \<in> set keywords_table. literal_ok (snd x)"
    by (simp add: keywords_table_def literal_ok_def)
  then show ?thesis
    by (auto simp: word_token_def dest!: map_of_SomeD split: option.split)
qed

lemma lex_string_loop_ok: "lex_string_loop acc s = Inr (t, r) \<Longrightarrow> literal_ok t"
  by (induction acc s rule: lex_string_loop.induct) (auto split: if_splits list.splits)

lemma lex_quoted_loop_ok: "lex_quoted_loop acc s = Inr (t, r) \<Longrightarrow> literal_ok t"
  by (induction acc s rule: lex_quoted_loop.induct) (auto split: if_splits)

lemma lex_number_ok: "lex_number F s = Inr (t, r) \<Longrightarrow> literal_ok t"
  by (auto simp: lex_number_def Let_def literal_ok_def split: if_splits option.splits
      dest!: parse_i64_digits [rotated] dest: set_takeWhileD)

lemma next_token_ok:
  assumes "next_token F s = Inr (t, r)"
  shows "literal_ok t"
proof -
  have "lex_ident_or_keyword s = Inr (t, r) \<Longrightarrow> literal_ok t"
    using word_token_ok by (auto simp: lex_ident_or_keyword_def)
  with assms lex_string_loop_ok lex_quoted_loop_ok lex_number_ok show ?thesis
    unfolding next_token_def Let_def lex_string_def lex_quoted_ident_def by (auto split: if_splits)
qed

lemma tokenise_shape:
  "tokenise F s = Inr ts \<Longrightarrow> \<exists>us. ts = us @ [T_Eof] \<and> (\<forall>u \<in> set us. literal_ok u) \<and> length us \<le> length s"
proof (induction F s arbitrary: ts rule: tokenise.induct)
  case (1 F src)
  let ?s = "skip_whitespace_and_comments src"
  show ?case
  proof (cases "?s = []")
    case True
    with "1.prems" show ?thesis by (simp add: tokenise.simps [of F src])
  next
    case False
    with "1.prems" obtain tok rest toks where n: "next_token F ?s = Inr (tok, rest)"
      "tokenise F rest = Inr toks" "ts = tok # toks"
      by (subst (asm) tokenise.simps) (auto simp: Let_def result_simps split: sum.splits)
    then obtain us where "toks = us @ [T_Eof]" "\<forall>u \<in> set us. literal_ok u" "length us \<le> length rest"
      using "1.IH" [OF refl False n(1) refl n(2)] by blast
    moreover have "length rest < length src"
      using next_token_shorter [OF False n(1)] skip_length [of src] by simp
    ultimately show ?thesis
      using n(3) next_token_ok [OF n(1)] by (intro exI [of _ "tok # us"]) auto
  qed
qed

section \<open>Printing tokens\<close>

fun escape :: "string \<Rightarrow> string" where
  "escape [] = []"
| "escape (c # cs) = (if c = squote then squote # squote # escape cs else c # escape cs)"

definition keyword_text :: "token \<Rightarrow> string" where
  "keyword_text t = (case find (\<lambda>x. snd x = t) keywords_table of Some x \<Rightarrow> fst x | None \<Rightarrow> [])"

definition print_token :: "token \<Rightarrow> string" where
  "print_token t =
     (case t of
        T_Ident s \<Rightarrow> dquote # s @ [dquote]
      | T_IntLit n \<Rightarrow> dec_string (nat n)
      | T_StrLit s \<Rightarrow> squote # escape s @ [squote]
      | T_Plus \<Rightarrow> ''+'' | T_Minus \<Rightarrow> ''-'' | T_Star \<Rightarrow> ''*'' | T_Slash \<Rightarrow> ''/'' | T_Percent \<Rightarrow> ''%''
      | T_Eq \<Rightarrow> ''='' | T_NotEq \<Rightarrow> ''!='' | T_Lt \<Rightarrow> ''<'' | T_LtEq \<Rightarrow> ''<='' | T_Gt \<Rightarrow> ''>'' | T_GtEq \<Rightarrow> ''>=''
      | T_LParen \<Rightarrow> ''('' | T_RParen \<Rightarrow> '')'' | T_Comma \<Rightarrow> '','' | T_Dot \<Rightarrow> ''.'' | T_Semicolon \<Rightarrow> '';''
      | _ \<Rightarrow> keyword_text t)"

definition printable :: "token \<Rightarrow> bool" where
  "printable t \<longleftrightarrow>
     (case t of
        T_Ident s \<Rightarrow> \<forall>c \<in> set s. is_ascii c \<and> c \<noteq> nul \<and> c \<noteq> dquote
      | T_StrLit s \<Rightarrow> \<forall>c \<in> set s. is_ascii c \<and> c \<noteq> nul
      | T_IntLit n \<Rightarrow> 0 \<le> n \<and> n \<le> i64_max
      | T_FloatLit _ \<Rightarrow> False
      | T_Eof \<Rightarrow> False
      | _ \<Rightarrow> True)"

definition print_tokens :: "token list \<Rightarrow> string" where
  "print_tokens ts = concat (map (\<lambda>t. print_token t @ '' '') ts)"

lemma lex_quoted_loop_print:
  "\<forall>c \<in> set s. is_ascii c \<and> c \<noteq> nul \<and> c \<noteq> dquote \<Longrightarrow>
     lex_quoted_loop acc (s @ dquote # rest) = Inr (T_Ident (acc @ s), rest)"
  by (induction s arbitrary: acc) (auto simp: dquote_def nul_def)

lemma lex_string_loop_print:
  "\<forall>c \<in> set s. is_ascii c \<and> c \<noteq> nul \<Longrightarrow> peek rest \<noteq> squote \<Longrightarrow>
     lex_string_loop acc (escape s @ squote # rest) = Inr (T_StrLit (acc @ s), rest)"
  by (induction s arbitrary: acc)
    (auto simp: squote_def nul_def peek_def is_ascii_def char_code_def split: list.splits)

lemma takeWhile_blank:
  "(\<And>c. c \<in> set s \<Longrightarrow> P c) \<Longrightarrow> \<not> P (CHR '' '') \<Longrightarrow> takeWhile P (s @ CHR '' '' # r) = s"
  "(\<And>c. c \<in> set s \<Longrightarrow> P c) \<Longrightarrow> \<not> P (CHR '' '') \<Longrightarrow> dropWhile P (s @ CHR '' '' # r) = CHR '' '' # r"
  by (simp_all add: takeWhile_append2 dropWhile_append2)

lemma not_ident_blank [simp]: "\<not> is_ident_char (CHR '' '')" "\<not> is_digit (CHR '' '')"
  by (simp_all add: is_ident_char_def is_ident_start_def is_lower_def is_upper_def is_digit_def char_code_def)

lemma lex_number_print:
  assumes "0 \<le> n" "n \<le> i64_max"
  shows "lex_number F (dec_string (nat n) @ CHR '' '' # rest) = Inr (T_IntLit n, CHR '' '' # rest)"
proof -
  have d: "\<forall>c \<in> set (dec_string (nat n)). is_digit c" using dec_string_digits by blast
  then have "\<not> (case dec_string (nat n) of [] \<Rightarrow> False | c # _ \<Rightarrow> c = CHR ''-'')"
    by (auto simp: is_digit_def split: list.splits)
  then have "parse_i64 (dec_string (nat n)) = Some n"
    using assms strip_plus_digits [OF d] by (simp add: parse_i64_def Let_def i64_min_def)
  with d show ?thesis
    by (simp add: lex_number_def takeWhile_blank Let_def peek_def)
qed

lemma ident_start_not_op:
  assumes "is_ident_start c"
  shows "c \<notin> set ''+-*/%(),.;=<>!'' \<and> c \<noteq> squote \<and> \<not> is_digit c"
  using assms
  by (auto simp: is_ident_start_def is_lower_def is_upper_def is_digit_def char_code_def squote_def)

lemma digit_not_op:
  assumes "is_digit c"
  shows "c \<notin> set ''+-*/%(),.;=<>!'' \<and> c \<noteq> squote"
  using assms by (auto simp: is_digit_def squote_def)

lemma blank_not_op:
  assumes "is_blank c"
  shows "c \<notin> set ''+-*/%(),.;=<>!'' \<and> c \<noteq> squote \<and> \<not> is_digit c \<and> \<not> is_ident_start c \<and> c \<noteq> dquote"
  using assms
  by (auto simp: is_blank_def is_ident_start_def is_lower_def is_upper_def is_digit_def char_code_def squote_def dquote_def)

lemma next_token_blank: "is_blank c \<Longrightarrow> next_token F (c # r) = Inl (UnexpectedByte c)"
  using blank_not_op [of c] by (simp add: next_token_def peek_def Let_def)

lemma next_token_word:
  assumes "w \<noteq> []" "\<forall>c \<in> set w. is_ident_start c"
  shows "next_token F (w @ CHR '' '' # rest) = Inr (word_token w, CHR '' '' # rest)"
proof -
  obtain c cs where w: "w = c # cs" using assms(1) by (cases w) auto
  then have c: "is_ident_start c" using assms(2) by simp
  have "lex_ident_or_keyword (w @ CHR '' '' # rest) = Inr (word_token w, CHR '' '' # rest)"
    using takeWhile_blank [of w is_ident_char rest] assms(2) not_ident_blank(1)
    unfolding lex_ident_or_keyword_def by (metis is_ident_char_def)
  then show ?thesis
    using ident_start_not_op [OF c] c by (simp add: next_token_def Let_def peek_def w)
qed

lemma next_token_keyword:
  assumes "x \<in> set keywords_table"
  shows "next_token F (fst x @ CHR '' '' # rest) = Inr (snd x, CHR '' '' # rest)"
proof -
  have "list_all (\<lambda>x. fst x \<noteq> [] \<and> list_all is_ident_start (fst x) \<and> word_token (fst x) = snd x) keywords_table"
    by code_simp
  then have "fst x \<noteq> []" "\<forall>c \<in> set (fst x). is_ident_start c" "word_token (fst x) = snd x"
    using assms by (auto simp: list_all_iff)
  with next_token_word [of "fst x" F rest] show ?thesis by simp
qed

lemma keyword_text_find:
  assumes "t \<in> snd ` set keywords_table"
  shows "\<exists>x \<in> set keywords_table. keyword_text t = fst x \<and> snd x = t"
proof (cases "find (\<lambda>x. snd x = t) keywords_table")
  case None
  with assms show ?thesis by (auto simp: find_None_iff)
next
  case (Some x)
  then have "x \<in> set keywords_table" "snd x = t" by (auto simp: find_Some_iff)
  with Some show ?thesis by (auto simp: keyword_text_def)
qed

lemma next_token_print:
  assumes "printable t"
  shows "next_token F (print_token t @ CHR '' '' # rest) = Inr (t, CHR '' '' # rest)"
proof (cases "t \<in> snd ` set keywords_table")
  case True
  then have "print_token t = keyword_text t"
    by (auto simp: keywords_table_def print_token_def)
  then obtain x where "x \<in> set keywords_table" "print_token t = fst x" "snd x = t"
    using keyword_text_find [OF True] by auto
  with next_token_keyword show ?thesis by metis
next
  case False
  show ?thesis
  proof (cases t)
    case (T_Ident s)
    with assms have "lex_quoted_loop [] (s @ dquote # CHR '' '' # rest) = Inr (T_Ident s, CHR '' '' # rest)"
      by (simp add: printable_def lex_quoted_loop_print)
    moreover have "\<not> is_ident_start dquote" "\<not> is_digit dquote" "dquote \<noteq> squote"
      by (simp_all add: dquote_def squote_def is_ident_start_def is_lower_def is_upper_def is_digit_def char_code_def)
    ultimately show ?thesis
      using T_Ident by (simp add: next_token_def print_token_def peek_def) (simp add: dquote_def lex_quoted_ident_def)
  next
    case (T_StrLit s)
    with assms have "lex_string_loop [] (escape s @ squote # CHR '' '' # rest) = Inr (T_StrLit s, CHR '' '' # rest)"
      using lex_string_loop_print [of s "CHR '' '' # rest" "[]"] by (simp add: printable_def peek_def) (simp add: squote_def)
    then show ?thesis
      using T_StrLit by (simp add: next_token_def print_token_def peek_def) (simp add: squote_def lex_string_def)
  next
    case (T_IntLit n)
    obtain c cs where c: "dec_string (nat n) = c # cs" by (cases "dec_string (nat n)") auto
    then have "is_digit c" using dec_string_digits [of c "nat n"] by simp
    with digit_not_op [OF this] have "next_token F (dec_string (nat n) @ CHR '' '' # rest)
        = lex_number F (dec_string (nat n) @ CHR '' '' # rest)"
      by (simp add: next_token_def c peek_def Let_def)
    with T_IntLit assms show ?thesis
      by (simp add: print_token_def printable_def lex_number_print)
  qed (use assms False in \<open>simp_all add: print_token_def printable_def next_token_def peek_def keywords_table_def\<close>)
qed

lemma print_token_head:
  assumes "printable t"
  shows "print_token t \<noteq> []" "skip_whitespace_and_comments (print_token t @ CHR '' '' # rest)
    = print_token t @ CHR '' '' # rest"
proof -
  have "is_blank (CHR '' '')" by (simp add: is_blank_def char_code_def)
  note blank = next_token_blank [OF this]
  show ne: "print_token t \<noteq> []"
    using next_token_print [OF assms, of undefined rest] blank by auto
  then obtain c cs where c: "print_token t = c # cs" by (cases "print_token t") auto
  have "\<not> is_blank c"
  proof
    assume "is_blank c"
    note next_token_blank [OF this, of undefined "cs @ CHR '' '' # rest"]
    then show False using next_token_print [OF assms, of undefined rest] c by simp
  qed
  moreover have "\<not> (c = CHR ''-'' \<and> peek (cs @ CHR '' '' # rest) = CHR ''-'')"
  proof
    assume a: "c = CHR ''-'' \<and> peek (cs @ CHR '' '' # rest) = CHR ''-''"
    then have "next_token undefined (c # cs @ CHR '' '' # rest) = Inr (T_Minus, cs @ CHR '' '' # rest)"
      by (simp add: next_token_def peek_def)
    then have "cs = []" using next_token_print [OF assms, of undefined rest] c by simp
    with a show False by (simp add: peek_def)
  qed
  ultimately show "skip_whitespace_and_comments (print_token t @ CHR '' '' # rest) = print_token t @ CHR '' '' # rest"
    by (subst skip_whitespace_and_comments.simps) (auto simp: c peek2_def peek_def)
qed

lemma tokenise_blank: "tokenise F (CHR '' '' # s) = tokenise F s"
proof -
  have "skip_whitespace_and_comments (CHR '' '' # s) = skip_whitespace_and_comments s"
    by (subst skip_whitespace_and_comments.simps) (simp add: peek_def is_blank_def char_code_def)
  then show ?thesis by (simp add: tokenise.simps [of F "CHR '' '' # s"] tokenise.simps [of F s])
qed

lemma tokenise_print:
  "\<forall>t \<in> set ts. printable t \<Longrightarrow> tokenise F (print_tokens ts) = Inr (ts @ [T_Eof])"
proof (induction ts)
  case Nil
  have "skip_whitespace_and_comments [] = []" by (simp add: skip_whitespace_and_comments.simps)
  then show ?case by (simp add: print_tokens_def tokenise.simps [of F "[]"])
next
  case (Cons t ts)
  let ?r = "CHR '' '' # print_tokens ts"
  have p: "printable t" using Cons.prems by simp
  have "tokenise F (print_tokens (t # ts)) = tokenise F (print_token t @ ?r)"
    by (simp add: print_tokens_def)
  also have "\<dots> = and_then (tokenise F ?r) (\<lambda>toks. Inr (t # toks))"
    using print_token_head [OF p] next_token_print [OF p] by (subst tokenise.simps) simp
  finally show ?case using Cons by (simp add: tokenise_blank)
qed

section \<open>Properties\<close>

text \<open>
  C35. The lexer terminates on every input and a successful result is well formed: it ends with
  the end-of-input token, which occurs nowhere else, its integer literals are in the range of
  \<open>i64\<close>, and there are at most as many tokens before the end as the input has bytes.
\<close>

theorem tokens_well_formed:
  assumes "tokenise F s = Inr ts"
  shows "ts \<noteq> [] \<and> last ts = T_Eof \<and> T_Eof \<notin> set (butlast ts)
    \<and> (\<forall>n. T_IntLit n \<in> set ts \<longrightarrow> 0 \<le> n \<and> n \<le> i64_max) \<and> length ts \<le> length s + 1"
proof -
  obtain us where "ts = us @ [T_Eof]" "\<forall>u \<in> set us. literal_ok u" "length us \<le> length s"
    using tokenise_shape [OF assms] by blast
  then show ?thesis by (fastforce simp: literal_ok_def)
qed

theorem tokens_well_formed_witness:
  "\<exists>ts. tokenise sample_fp ''a <= 10'' = Inr ts \<and> last ts = T_Eof \<and> length ts \<le> 8"
proof -
  have "tokenise sample_fp ''a <= 10'' = Inr [T_Ident ''a'', T_LtEq, T_IntLit 10, T_Eof]"
    by code_simp
  from tokens_well_formed [OF this] this show ?thesis by auto
qed

end
