(* ===== verification/Ast.thy ===== *)
theory Ast
  imports Lexer
begin

text \<open>
  The abstract syntax of the query language (\<open>infralens-query/src/ast.rs\<close>) and the errors of
  the query crate (\<open>error.rs\<close>). A parse error holds the tokens or texts its message prints.
\<close>

section \<open>Expressions\<close>

datatype binop =
    Op_Add | Op_Sub | Op_Mul | Op_Div | Op_Mod
  | Op_Eq | Op_NotEq | Op_Lt | Op_LtEq | Op_Gt | Op_GtEq
  | Op_And | Op_Or

datatype unaryop = Op_Neg | Op_Not

datatype literal =
    L_Int i64
  | L_Float f64
  | L_Str string
  | L_Bool bool
  | L_Null
  | L_IntervalNs i64

datatype expr =
    E_Column "string option" string
  | E_Literal literal
  | E_Star
  | E_BinOp binop expr expr
  | E_UnaryOp unaryop expr
  | E_IsNull expr
  | E_IsNotNull expr
  | E_Between expr expr expr
  | E_In expr "expr list"
  | E_Like expr string bool
  | E_Function string "expr list"
  | E_TimeBucket i64 expr
  | E_Rate expr i64
  | E_Delta expr i64
  | E_HistogramQuantile f64 expr u32
  | E_Now
  | E_Interval i64

text \<open>
  Every call of \<open>now()\<close> reads the system clock anew. A clock gives the reading of the call at
  each place of an expression, a place being the list of operand positions that lead to it;
  \<open>sub_clock i\<close> is the clock of operand \<open>i\<close>.
\<close>

type_synonym clock = "nat list \<Rightarrow> i64"

definition sub_clock :: "nat \<Rightarrow> clock \<Rightarrow> clock" where
  "sub_clock i c = (\<lambda>place. c (i # place))"

lemma sub_clock_const [simp]: "sub_clock i (\<lambda>_. t) = (\<lambda>_. t)"
  by (simp add: sub_clock_def)

section \<open>Statements\<close>

record table_ref =
  tr_name :: string
  tr_alias :: "string option"

datatype join_kind = J_Inner | J_Left | J_Right

record join_clause =
  jc_kind :: join_kind
  jc_table :: table_ref
  jc_condition :: expr

datatype projection =
    P_Star
  | P_Expr expr "string option"

record order_by_item =
  ob_expr :: expr
  ob_asc :: bool

record select_statement =
  sel_projections :: "projection list"
  sel_from :: table_ref
  sel_joins :: "join_clause list"
  sel_filter :: "expr option"
  sel_group_by :: "expr list"
  sel_having :: "expr option"
  sel_order_by :: "order_by_item list"
  sel_limit :: "u64 option"
  sel_offset :: "u64 option"

datatype statement = Select select_statement

section \<open>Display\<close>

fun binop_display :: "binop \<Rightarrow> string" where
  "binop_display Op_Add = ''+''" | "binop_display Op_Sub = ''-''" | "binop_display Op_Mul = ''*''"
| "binop_display Op_Div = ''/''" | "binop_display Op_Mod = ''%''" | "binop_display Op_Eq = ''=''"
| "binop_display Op_NotEq = ''!=''" | "binop_display Op_Lt = ''<''" | "binop_display Op_LtEq = ''<=''"
| "binop_display Op_Gt = ''>''" | "binop_display Op_GtEq = ''>=''" | "binop_display Op_And = ''AND''"
| "binop_display Op_Or = ''OR''"

definition table_ref_display :: "table_ref \<Rightarrow> string" where
  "table_ref_display t =
     (case tr_alias t of Some a \<Rightarrow> tr_name t @ '' AS '' @ a | None \<Rightarrow> tr_name t)"

section \<open>Errors\<close>

datatype parse_error =
    ExpectedSelect token
  | Expected token token
  | ExpectedIdent token
  | ExpectedInt token
  | ExpectedString token
  | ExpectedAfterNot
  | UnexpectedToken token
  | InvalidIntervalNumber string
  | UnknownIntervalUnit string

end
