(* ===== verification/Query_Error.thy ===== *)
theory Query_Error
  imports Ast Arrow File_System
begin

text \<open>
  The errors of the query crate (\<open>infralens-query/src/error.rs\<close>). Each execution error is
  one message of the sources; it holds the names, types and causes the message prints. A query
  can also panic, on an index or an \<open>unwrap\<close>: the outcome of a computation is a value, an
  error or a panic.
\<close>

datatype exec_error =
    FilterNotBoolean
  | ColumnNotFound string
  | CannotEvaluateStar
  | NotRequiresBoolean
  | LikeRequiresText
  | AndLeftNotBoolean
  | AndRightNotBoolean
  | OrLeftNotBoolean
  | OrRightNotBoolean
  | UnsupportedComparison data_type data_type
  | UnsupportedArithmetic
  | NegateNonNumeric
  | FunctionArity string
  | UnknownFunction string
  | ExpectedIntegerScalar
  | ExpectedFloatScalar
  | TimeBucketWidth
  | TimeBucketType
  | RateWindow
  | QuantileRange
  | UnsupportedNumeric
  | JoinUnsupported
  | ReadFailed storage_error

datatype query_error =
    QLex lex_error
  | QParse parse_error
  | QBind string
  | QOptimizer string
  | QExecution exec_error
  | QStorage storage_error
  | QArrow string
  | QIo io_error

datatype failure = Err query_error | Panic

type_synonym 'a outcome = "failure + 'a"

definition exec_fail :: "exec_error \<Rightarrow> 'a outcome" where
  "exec_fail e = Inl (Err (QExecution e))"

definition arrow_result :: "string + 'a \<Rightarrow> 'a outcome" where
  "arrow_result r = map_err (\<lambda>m. Err (QArrow m)) r"

lemma exec_fail_not_Inr [simp]: "exec_fail e \<noteq> Inr a" "Inr a \<noteq> exec_fail e"
  by (simp_all add: exec_fail_def)

lemma arrow_result_simps [simp, result_simps]:
  "arrow_result (Inr a) = Inr a" "arrow_result (Inl m) = Inl (Err (QArrow m))"
  by (simp_all add: arrow_result_def)

lemma arrow_result_Inr_iff [result_simps]: "arrow_result r = Inr a \<longleftrightarrow> r = Inr a"
  by (simp add: arrow_result_def map_err_Inr_iff)

end
