(* ===== verification/Catalog.thy ===== *)
theory Catalog
  imports Query_Error Zone_Map
begin

text \<open>
  The schema catalog (\<open>infralens-query/src/catalog.rs\<close>): the built-in tables, their columns,
  and the time range of every partition that the optimizer prunes with. The \<open>HashMap\<close> of
  tables is an association list with one entry per name; the lock around it is left out, each
  method holding it for its whole body.
\<close>

section \<open>Tables\<close>

record column_desc =
  cd_name :: string
  cd_data_type :: data_type
  cd_nullable :: bool

record table_stats =
  ts_partition_key :: u64
  ts_min_timestamp_ns :: u64
  ts_max_timestamp_ns :: u64
  ts_row_count :: u64

record table_desc =
  td_name :: string
  td_schema :: schema
  td_columns :: "column_desc list"
  td_stats :: "table_stats list"

type_synonym catalog = "(string \<times> table_desc) list"

definition from_schema :: "string \<Rightarrow> schema \<Rightarrow> table_desc" where
  "from_schema name sch =
     \<lparr>td_name = name, td_schema = sch,
      td_columns = map (\<lambda>f. \<lparr>cd_name = f_name f, cd_data_type = f_type f, cd_nullable = f_nullable f\<rparr>) sch,
      td_stats = []\<rparr>"

definition column :: "string \<Rightarrow> table_desc \<Rightarrow> column_desc option" where
  "column name desc = find (\<lambda>c. cd_name c = name) (td_columns desc)"

section \<open>Catalog\<close>

definition catalog_new :: catalog where
  "catalog_new =
     [(''logs'', from_schema ''logs'' log_schema),
      (''metrics'', from_schema ''metrics'' metric_schema),
      (''traces'', from_schema ''traces'' span_schema)]"

definition get_table :: "string \<Rightarrow> catalog \<Rightarrow> query_error + table_desc" where
  "get_table name cat = ok_or (QBind name) (map_of cat name)"

definition update_stats :: "string \<Rightarrow> (u64 \<times> zone_map) list \<Rightarrow> catalog \<Rightarrow> catalog" where
  "update_stats table zone_maps cat =
     map (\<lambda>(n, desc).
       if n = table
       then (n, desc\<lparr>td_stats :=
               map (\<lambda>(key, zm). \<lparr>ts_partition_key = key, ts_min_timestamp_ns = min_timestamp_ns zm,
                                 ts_max_timestamp_ns = max_timestamp_ns zm, ts_row_count = row_count zm\<rparr>)
                   zone_maps\<rparr>)
       else (n, desc)) cat"

definition stats_overlap :: "table_stats \<Rightarrow> u64 \<Rightarrow> u64 \<Rightarrow> bool" where
  "stats_overlap s start_ns end_ns \<longleftrightarrow>
     ts_min_timestamp_ns s \<le> end_ns \<and> start_ns \<le> ts_max_timestamp_ns s"

definition overlapping_partitions :: "string \<Rightarrow> u64 \<Rightarrow> u64 \<Rightarrow> catalog \<Rightarrow> u64 list" where
  "overlapping_partitions table start_ns end_ns cat =
     (case map_of cat table of
        None \<Rightarrow> []
      | Some desc \<Rightarrow> map ts_partition_key (filter (\<lambda>s. stats_overlap s start_ns end_ns) (td_stats desc)))"

section \<open>The statistics are a time index\<close>

interpretation st: time_index ts_min_timestamp_ns ts_max_timestamp_ns stats_overlap
  by unfold_locales (simp add: stats_overlap_def)

lemma catalog_new_tables:
  "map_of catalog_new t = Some d \<Longrightarrow> td_stats d = [] \<and> td_name d = t"
  by (auto simp: catalog_new_def from_schema_def split: if_splits)

lemma map_of_update_stats:
  "map_of (update_stats t zs cat) t' =
     (if t' = t
      then map_option (\<lambda>d. d\<lparr>td_stats := map (\<lambda>(key, zm). \<lparr>ts_partition_key = key,
        ts_min_timestamp_ns = min_timestamp_ns zm, ts_max_timestamp_ns = max_timestamp_ns zm,
        ts_row_count = row_count zm\<rparr>) zs\<rparr>) (map_of cat t')
      else map_of cat t')"
  by (induction cat) (auto simp: update_stats_def)

text \<open>
  A partition whose zone map covers an instant of the range is offered, after the statistics
  were refreshed with the zone maps of the partitions.
\<close>

lemma overlapping_partitions_sound:
  assumes "map_of cat t = Some d" "s \<in> set (td_stats d)" "st.covers s x" "lo \<le> x" "x \<le> hi"
  shows "ts_partition_key s \<in> set (overlapping_partitions t lo hi cat)"
  using assms st.prune_filter [of s "td_stats d" x lo hi] by (auto simp: overlapping_partitions_def)

lemma overlapping_partitions_empty:
  "(\<And>d. map_of cat t = Some d \<Longrightarrow> td_stats d = []) \<Longrightarrow> overlapping_partitions t lo hi cat = []"
  by (simp add: overlapping_partitions_def split: option.split)

end
