(* ===== verification/Planner.thy ===== *)
theory Planner
  imports Catalog
begin

text \<open>
  The planner (\<open>infralens-query/src/planner.rs\<close>) and the cost model it consults
  (\<open>optimizer/cost.rs\<close>): from a statement to a logical plan, and from that to a physical
  plan with the chosen join strategy.
\<close>

section \<open>Plans\<close>

record scan_op =
  so_table :: string
  so_predicate :: "expr option"
  so_projection :: "string list option"
  so_partition_filter :: "u64 list"
  so_limit :: "u64 option"

datatype join_strategy = NestedLoop | HashJoin | SortMerge

record agg_expr =
  ag_func :: string
  ag_arg :: "expr option"
  ag_alias :: string

datatype logical_plan =
    LScan scan_op
  | LFilter expr logical_plan
  | LProject "string list" logical_plan
  | LAggregate "expr list" "agg_expr list" logical_plan
  | LSort "(expr \<times> bool) list" logical_plan
  | LLimit u64 u64 logical_plan
  | LJoin join_kind logical_plan logical_plan expr

record physical_plan =
  pp_logical :: logical_plan
  pp_join_strategy :: "join_strategy option"
  pp_batch_size :: nat

section \<open>Cost model\<close>

definition estimated_rows :: "table_desc \<Rightarrow> u64" where
  "estimated_rows desc = sum_list (map ts_row_count (td_stats desc))"

definition choose_join_strategy :: "u64 \<Rightarrow> u64 \<Rightarrow> join_strategy" where
  "choose_join_strategy left_rows right_rows =
     (let small = 10000; medium = 1000000 in
      if left_rows \<le> small \<or> right_rows \<le> small then NestedLoop
      else if left_rows \<le> medium \<and> right_rows \<le> medium then HashJoin
      else SortMerge)"

section \<open>Planning a statement\<close>

definition agg_fns :: "string list" where
  "agg_fns = [''count'', ''sum'', ''avg'', ''min'', ''max'']"

fun extract_aggregates :: "projection list \<Rightarrow> agg_expr list \<times> string list" where
  "extract_aggregates [] = ([], [])"
| "extract_aggregates (p # ps) =
     (let (aggs, plain) = extract_aggregates ps in
      case p of
        P_Expr (E_Function name args) alias \<Rightarrow>
          (let lname = to_ascii_lowercase name in
           if lname \<in> set agg_fns
           then (\<lparr>ag_func = lname, ag_arg = (case args of [] \<Rightarrow> None | a # _ \<Rightarrow> Some a),
                  ag_alias = (case alias of Some a \<Rightarrow> a | None \<Rightarrow> name)\<rparr> # aggs, plain)
           else (aggs, plain))
      | P_Expr (E_Column _ name) None \<Rightarrow> (aggs, name # plain)
      | _ \<Rightarrow> (aggs, plain))"

definition base_scan :: "string \<Rightarrow> u64 option \<Rightarrow> logical_plan" where
  "base_scan table limit =
     LScan \<lparr>so_table = table, so_predicate = None, so_projection = None,
            so_partition_filter = [], so_limit = limit\<rparr>"

definition plan_join :: "join_clause \<Rightarrow> logical_plan \<Rightarrow> logical_plan" where
  "plan_join j plan =
     LJoin (jc_kind j) plan (base_scan (tr_name (jc_table j)) None) (jc_condition j)"

definition projected_column :: "projection \<Rightarrow> string option" where
  "projected_column p =
     (case p of
        P_Expr (E_Column _ name) alias \<Rightarrow> Some (case alias of Some a \<Rightarrow> a | None \<Rightarrow> name)
      | P_Expr _ (Some a) \<Rightarrow> Some a
      | _ \<Rightarrow> None)"

definition plan_select :: "select_statement \<Rightarrow> logical_plan" where
  "plan_select sel =
     (let plan = base_scan (tr_name (sel_from sel)) (sel_limit sel);
          plan = fold plan_join (sel_joins sel) plan;
          plan = (case sel_filter sel of Some pred \<Rightarrow> LFilter pred plan | None \<Rightarrow> plan);
          aggs = fst (extract_aggregates (sel_projections sel));
          plan = (if aggs \<noteq> [] \<or> sel_group_by sel \<noteq> [] then LAggregate (sel_group_by sel) aggs plan else plan);
          plan = (case sel_having sel of Some having \<Rightarrow> LFilter having plan | None \<Rightarrow> plan);
          cols = List.map_filter projected_column (sel_projections sel);
          plan = (if sel_projections sel \<noteq> [] \<and> cols \<noteq> [] then LProject cols plan else plan);
          plan = (if sel_order_by sel \<noteq> []
                  then LSort (map (\<lambda>ob. (ob_expr ob, ob_asc ob)) (sel_order_by sel)) plan else plan) in
      case sel_limit sel of
        Some n \<Rightarrow> LLimit n (case sel_offset sel of Some k \<Rightarrow> k | None \<Rightarrow> 0) plan
      | None \<Rightarrow> plan)"

fun plan_statement :: "statement \<Rightarrow> query_error + logical_plan" where
  "plan_statement (Select sel) = Inr (plan_select sel)"

section \<open>Physical plans\<close>

fun extract_scan_table :: "logical_plan \<Rightarrow> string option" where
  "extract_scan_table (LScan s) = Some (so_table s)"
| "extract_scan_table (LFilter _ input) = extract_scan_table input"
| "extract_scan_table (LProject _ input) = extract_scan_table input"
| "extract_scan_table _ = None"

definition side_rows :: "catalog \<Rightarrow> logical_plan \<Rightarrow> u64" where
  "side_rows cat plan =
     (case extract_scan_table plan of
        None \<Rightarrow> - 1
      | Some t \<Rightarrow>
          (case get_table t cat of
             Inl _ \<Rightarrow> - 1
           | Inr d \<Rightarrow> sum_list (map ts_row_count (td_stats d))))"

fun pick_join_strategy :: "catalog \<Rightarrow> logical_plan \<Rightarrow> join_strategy option" where
  "pick_join_strategy cat (LJoin _ left right _) =
     Some (choose_join_strategy (side_rows cat left) (side_rows cat right))"
| "pick_join_strategy cat _ = None"

definition to_physical :: "catalog \<Rightarrow> logical_plan \<Rightarrow> query_error + physical_plan" where
  "to_physical cat logical =
     Inr \<lparr>pp_logical = logical, pp_join_strategy = pick_join_strategy cat logical, pp_batch_size = 8192\<rparr>"

end
