(* ===== verification/Optimizer.thy ===== *)
theory Optimizer
  imports Planner "HOL-Library.Signed_Division"
begin

text \<open>
  The rewrites of the optimizer (\<open>infralens-query/src/optimizer/rules.rs\<close>, \<open>mod.rs\<close>):
  constant folding, predicate pushdown, projection pushdown and partition pruning. The clock
  readings the calls of \<open>now()\<close> fold to are an argument: one clock for each predicate.
\<close>

section \<open>Checked integer arithmetic\<close>

definition in_i64 :: "int \<Rightarrow> bool" where
  "in_i64 n \<longleftrightarrow> i64_min \<le> n \<and> n \<le> i64_max"

definition checked :: "int \<Rightarrow> i64 option" where
  "checked n = (if in_i64 n then Some n else None)"

definition checked_add :: "i64 \<Rightarrow> i64 \<Rightarrow> i64 option" where "checked_add a b = checked (a + b)"
definition checked_sub :: "i64 \<Rightarrow> i64 \<Rightarrow> i64 option" where "checked_sub a b = checked (a - b)"
definition checked_mul :: "i64 \<Rightarrow> i64 \<Rightarrow> i64 option" where "checked_mul a b = checked (a * b)"

definition checked_div :: "i64 \<Rightarrow> i64 \<Rightarrow> i64 option" where
  "checked_div a b = (if b = 0 then None else checked (a sdiv b))"

definition checked_rem :: "i64 \<Rightarrow> i64 \<Rightarrow> i64 option" where
  "checked_rem a b = (if b = 0 \<or> (a = i64_min \<and> b = - 1) then None else Some (a smod b))"

section \<open>Constant folding\<close>

definition fold_binop :: "binop \<Rightarrow> i64 \<Rightarrow> i64 \<Rightarrow> i64 option" where
  "fold_binop op a b =
     (case op of
        Op_Add \<Rightarrow> checked_add a b
      | Op_Sub \<Rightarrow> checked_sub a b
      | Op_Mul \<Rightarrow> checked_mul a b
      | Op_Div \<Rightarrow> (if b \<noteq> 0 then checked_div a b else None)
      | Op_Mod \<Rightarrow> (if b \<noteq> 0 then checked_rem a b else None)
      | _ \<Rightarrow> None)"

fun int_literal :: "expr \<Rightarrow> i64 option" where
  "int_literal (E_Literal (L_Int n)) = Some n"
| "int_literal _ = None"

fun fold_expr :: "clock \<Rightarrow> expr \<Rightarrow> expr" where
  "fold_expr c (E_Function name args) =
     (if name = ''now'' \<and> args = [] then E_Literal (L_Int (c [])) else E_Function name args)"
| "fold_expr c (E_BinOp op left right) =
     (let l = fold_expr (sub_clock 0 c) left; r = fold_expr (sub_clock 1 c) right in
      case (int_literal l, int_literal r) of
        (Some a, Some b) \<Rightarrow>
          (case fold_binop op a b of Some v \<Rightarrow> E_Literal (L_Int v) | None \<Rightarrow> E_BinOp op l r)
      | _ \<Rightarrow> E_BinOp op l r)"
| "fold_expr c e = e"

fun map_children :: "(logical_plan \<Rightarrow> logical_plan) \<Rightarrow> logical_plan \<Rightarrow> logical_plan" where
  "map_children f (LFilter p input) = LFilter p (f input)"
| "map_children f (LProject cols input) = LProject cols (f input)"
| "map_children f (LAggregate keys aggs input) = LAggregate keys aggs (f input)"
| "map_children f (LSort keys input) = LSort keys (f input)"
| "map_children f (LLimit n offset input) = LLimit n offset (f input)"
| "map_children f (LJoin kind left right cond) = LJoin kind (f left) (f right) cond"
| "map_children f (LScan s) = LScan s"

fun plan_children :: "logical_plan \<Rightarrow> logical_plan set" where
  "plan_children (LFilter p input) = {input}"
| "plan_children (LProject cols input) = {input}"
| "plan_children (LAggregate keys aggs input) = {input}"
| "plan_children (LSort keys input) = {input}"
| "plan_children (LLimit n offset input) = {input}"
| "plan_children (LJoin kind left right cond) = {left, right}"
| "plan_children (LScan s) = {}"

lemma map_children_cong [fundef_cong]:
  "plan = plan' \<Longrightarrow> (\<And>c. c \<in> plan_children plan' \<Longrightarrow> f c = g c) \<Longrightarrow> map_children f plan = map_children g plan'"
  by (cases plan') auto

lemma plan_children_size: "c \<in> plan_children plan \<Longrightarrow> size c < size plan"
  by (cases plan) auto

function transform_plan :: "(expr \<Rightarrow> expr) \<Rightarrow> logical_plan \<Rightarrow> logical_plan" where
  "transform_plan f plan =
     (case plan of
        LFilter predicate input \<Rightarrow> LFilter (f predicate) (transform_plan f input)
      | LScan scan \<Rightarrow> LScan (scan\<lparr>so_predicate := map_option f (so_predicate scan)\<rparr>)
      | other \<Rightarrow> map_children (transform_plan f) other)"
  by pat_completeness auto
termination
  by (relation "measure (\<lambda>(f, plan). size plan)") (auto simp: plan_children_size)

definition fold_constants :: "(expr \<Rightarrow> clock) \<Rightarrow> logical_plan \<Rightarrow> logical_plan" where
  "fold_constants clk plan = transform_plan (\<lambda>predicate. fold_expr (clk predicate) predicate) plan"

section \<open>Pushdown\<close>

function predicate_pushdown :: "logical_plan \<Rightarrow> logical_plan" where
  "predicate_pushdown plan =
     (case plan of
        LFilter predicate input \<Rightarrow>
          (case predicate_pushdown input of
             LScan scan \<Rightarrow> LScan (scan\<lparr>so_predicate := Some predicate\<rparr>)
           | other \<Rightarrow> LFilter predicate other)
      | other \<Rightarrow> map_children predicate_pushdown other)"
  by pat_completeness auto
termination
  by (relation "measure size") (auto simp: plan_children_size)

function projection_pushdown :: "logical_plan \<Rightarrow> logical_plan" where
  "projection_pushdown plan =
     (case plan of
        LProject cols input \<Rightarrow>
          (case projection_pushdown input of
             LScan scan \<Rightarrow>
               LProject cols (LScan
                 (if so_projection scan = None then scan\<lparr>so_projection := Some cols\<rparr> else scan))
           | other \<Rightarrow> LProject cols other)
      | other \<Rightarrow> map_children projection_pushdown other)"
  by pat_completeness auto
termination
  by (relation "measure size") (auto simp: plan_children_size)

declare transform_plan.simps [simp del] predicate_pushdown.simps [simp del] projection_pushdown.simps [simp del]

section \<open>Partition pruning\<close>

fun is_ts :: "expr \<Rightarrow> bool" where
  "is_ts (E_Column _ name) = (name = ''timestamp_ns'')"
| "is_ts _ = False"

fun as_u64 :: "expr \<Rightarrow> u64 option" where
  "as_u64 (E_Literal (L_Int n)) = Some (word_of_int n)"
| "as_u64 _ = None"

fun extract_time_range :: "expr \<Rightarrow> (u64 \<times> u64) option" where
  "extract_time_range (E_BinOp op left right) =
     (if op = Op_And then
        (case (extract_time_range left, extract_time_range right) of
           (Some (ls, _), Some (_, re)) \<Rightarrow> Some (ls, re)
         | (Some v, None) \<Rightarrow> Some v
         | (None, Some v) \<Rightarrow> Some v
         | (None, None) \<Rightarrow> None)
      else if op = Op_GtEq \<and> is_ts left then map_option (\<lambda>v. (v, - 1)) (as_u64 right)
      else if op = Op_LtEq \<and> is_ts left then map_option (\<lambda>v. (0, v)) (as_u64 right)
      else None)"
| "extract_time_range (E_Between expr low high) =
     (if is_ts expr then
        (case (as_u64 low, as_u64 high) of (Some lo, Some hi) \<Rightarrow> Some (lo, hi) | _ \<Rightarrow> None)
      else None)"
| "extract_time_range _ = None"

function partition_prune :: "catalog \<Rightarrow> logical_plan \<Rightarrow> logical_plan" where
  "partition_prune cat plan =
     (case plan of
        LScan scan \<Rightarrow>
          (case so_predicate scan of
             None \<Rightarrow> LScan scan
           | Some pred \<Rightarrow>
               (case extract_time_range pred of
                  None \<Rightarrow> LScan scan
                | Some (start, end_ns) \<Rightarrow>
                    LScan (scan\<lparr>so_partition_filter :=
                                overlapping_partitions (so_table scan) start end_ns cat\<rparr>)))
      | other \<Rightarrow> map_children (partition_prune cat) other)"
  by pat_completeness auto
termination
  by (relation "measure (\<lambda>(cat, plan). size plan)") (auto simp: plan_children_size)

declare partition_prune.simps [simp del]

section \<open>The optimizer\<close>

definition optimize :: "catalog \<Rightarrow> (expr \<Rightarrow> clock) \<Rightarrow> logical_plan \<Rightarrow> query_error + logical_plan" where
  "optimize cat clk plan =
     (let plan = fold_constants clk plan;
          plan = predicate_pushdown plan;
          plan = projection_pushdown plan in
      Inr (partition_prune cat plan))"

end
