(* ===== verification/Kernels.thy ===== *)
theory Kernels
  imports Optimizer
begin

text \<open>
  The Arrow compute kernels the evaluator and the executor call: boolean connectives,
  comparisons, arithmetic, filtering, concatenation, sorting and slicing. They are third-party
  code and arguments of the definitions that call them, collected in a record. What the theorems
  rely on is stated by one specification per kernel, after the documentation of the crate: nulls
  propagate, lengths must agree, integer arithmetic is checked. An instance that meets all of
  them closes the theory.
\<close>

unbundle bit_operations_syntax

section \<open>The kernels\<close>

record sort_column =
  sc_values :: arrow_array
  sc_descending :: bool
  sc_nulls_first :: bool

record arrow_ops =
  ar_and :: "bool option list \<Rightarrow> bool option list \<Rightarrow> string + bool option list"
  ar_or :: "bool option list \<Rightarrow> bool option list \<Rightarrow> string + bool option list"
  ar_not :: "bool option list \<Rightarrow> string + bool option list"
  ar_cmp :: "binop \<Rightarrow> arrow_array \<Rightarrow> arrow_array \<Rightarrow> string + bool option list"
  ar_arith :: "binop \<Rightarrow> arrow_array \<Rightarrow> arrow_array \<Rightarrow> string + arrow_array"
  ar_filter :: "record_batch \<Rightarrow> bool option list \<Rightarrow> string + record_batch"
  ar_concat :: "schema \<Rightarrow> record_batch list \<Rightarrow> string + record_batch"
  ar_lexsort :: "sort_column list \<Rightarrow> string + nat list"
  ar_take :: "record_batch \<Rightarrow> nat list \<Rightarrow> string + record_batch"
  ar_slice :: "record_batch \<Rightarrow> nat \<Rightarrow> nat \<Rightarrow> record_batch"

section \<open>What they promise\<close>

definition lift2 :: "('a \<Rightarrow> 'b \<Rightarrow> 'c) \<Rightarrow> 'a option \<Rightarrow> 'b option \<Rightarrow> 'c option" where
  "lift2 f x y = (case (x, y) of (Some a, Some b) \<Rightarrow> Some (f a b) | _ \<Rightarrow> None)"

definition bool_kernel_spec ::
  "(bool option list \<Rightarrow> bool option list \<Rightarrow> string + bool option list) \<Rightarrow> (bool \<Rightarrow> bool \<Rightarrow> bool) \<Rightarrow> bool" where
  "bool_kernel_spec k f \<longleftrightarrow>
     (\<forall>xs ys. if length xs = length ys then k xs ys = Inr (map2 (lift2 f) xs ys) else \<exists>e. k xs ys = Inl e)"

definition not_kernel_spec :: "(bool option list \<Rightarrow> string + bool option list) \<Rightarrow> bool" where
  "not_kernel_spec k \<longleftrightarrow> (\<forall>xs. k xs = Inr (map (map_option Not) xs))"

text \<open>Floating-point numbers are compared by the total order of their patterns, texts bytewise.\<close>

definition ord_holds :: "binop \<Rightarrow> bool \<Rightarrow> bool \<Rightarrow> bool" where
  "ord_holds op lt same =
     (case op of Op_Eq \<Rightarrow> same | Op_NotEq \<Rightarrow> \<not> same | Op_Lt \<Rightarrow> lt | Op_LtEq \<Rightarrow> lt \<or> same
       | Op_Gt \<Rightarrow> \<not> lt \<and> \<not> same | Op_GtEq \<Rightarrow> \<not> lt | _ \<Rightarrow> False)"

definition total_key :: "f64 \<Rightarrow> int" where
  "total_key w = (let s = sint w in if s < 0 then - 1 - uint (w AND 0x7FFFFFFFFFFFFFFF) else s)"

fun text_less :: "string \<Rightarrow> string \<Rightarrow> bool" where
  "text_less _ [] = False"
| "text_less [] (_ # _) = True"
| "text_less (c # cs) (d # ds) =
     (if (of_char c :: nat) = of_char d then text_less cs ds else (of_char c :: nat) < of_char d)"

definition is_cmp :: "binop \<Rightarrow> bool" where
  "is_cmp op \<longleftrightarrow> op \<in> {Op_Eq, Op_NotEq, Op_Lt, Op_LtEq, Op_Gt, Op_GtEq}"

definition cmp_values :: "binop \<Rightarrow> arrow_array \<Rightarrow> arrow_array \<Rightarrow> bool option list" where
  "cmp_values op x y =
     (case (x, y) of
        (UInt64Array xs, UInt64Array ys) \<Rightarrow> map2 (lift2 (\<lambda>a b. ord_holds op (a < b) (a = b))) xs ys
      | (Int64Array xs, Int64Array ys) \<Rightarrow> map2 (lift2 (\<lambda>a b. ord_holds op (a < b) (a = b))) xs ys
      | (Float64Array xs, Float64Array ys) \<Rightarrow>
          map2 (lift2 (\<lambda>a b. ord_holds op (total_key a < total_key b) (a = b))) xs ys
      | (StringArray xs, StringArray ys) \<Rightarrow> map2 (lift2 (\<lambda>a b. ord_holds op (text_less a b) (a = b))) xs ys
      | _ \<Rightarrow> [])"

definition cmp_kernel_spec :: "arrow_ops \<Rightarrow> bool" where
  "cmp_kernel_spec A \<longleftrightarrow>
     (\<forall>op x y. is_cmp op \<and> array_data_type x = array_data_type y
           \<and> array_data_type x \<in> {DT_UInt64, DT_Int64, DT_Float64, DT_Utf8} \<longrightarrow>
        (if array_len x = array_len y then ar_cmp A op x y = Inr (cmp_values op x y)
         else \<exists>e. ar_cmp A op x y = Inl e))"

definition int_arith :: "binop \<Rightarrow> i64 \<Rightarrow> i64 \<Rightarrow> i64 option" where
  "int_arith op a b =
     (if op = Op_Div \<and> b = 0 then None
      else
        let v = (case op of Op_Add \<Rightarrow> a + b | Op_Sub \<Rightarrow> a - b | Op_Mul \<Rightarrow> a * b | _ \<Rightarrow> a sdiv b) in
        if - (2 ^ 63) \<le> v \<and> v < 2 ^ 63 then Some v else None)"

definition int_results :: "binop \<Rightarrow> i64 option list \<Rightarrow> i64 option list \<Rightarrow> i64 option option list" where
  "int_results op xs ys = map2 (lift2 (int_arith op)) xs ys"

definition float_arith :: "fp_ops \<Rightarrow> binop \<Rightarrow> f64 \<Rightarrow> f64 \<Rightarrow> f64" where
  "float_arith F op =
     (case op of Op_Add \<Rightarrow> fp_add F | Op_Sub \<Rightarrow> fp_sub F | Op_Mul \<Rightarrow> fp_mul F | _ \<Rightarrow> fp_div F)"

text \<open>A null operand gives null; a pair of integers without a result is an error of the whole kernel.\<close>

definition arith_kernel_spec :: "fp_ops \<Rightarrow> arrow_ops \<Rightarrow> bool" where
  "arith_kernel_spec F A \<longleftrightarrow>
     (\<forall>op. op \<in> {Op_Add, Op_Sub, Op_Mul, Op_Div} \<longrightarrow>
        (\<forall>xs ys. if length xs = length ys \<and> Some None \<notin> set (int_results op xs ys)
         then ar_arith A op (Int64Array xs) (Int64Array ys)
                = Inr (Int64Array (map (\<lambda>r. Option.bind r id) (int_results op xs ys)))
         else \<exists>e. ar_arith A op (Int64Array xs) (Int64Array ys) = Inl e)
      \<and> (\<forall>xs ys. if length xs = length ys
         then ar_arith A op (Float64Array xs) (Float64Array ys)
                = Inr (Float64Array (map2 (lift2 (float_arith F op)) xs ys))
         else \<exists>e. ar_arith A op (Float64Array xs) (Float64Array ys) = Inl e))"

definition kept :: "'a list \<Rightarrow> bool option list \<Rightarrow> 'a list" where
  "kept rows msk = map fst (filter (\<lambda>(r, m). m = Some True) (zip rows msk))"

definition filter_kernel_spec :: "arrow_ops \<Rightarrow> bool" where
  "filter_kernel_spec A \<longleftrightarrow>
     (\<forall>b msk. batch_valid b \<and> length msk = num_rows b \<longrightarrow>
        (\<exists>c. ar_filter A b msk = Inr c \<and> rb_schema c = rb_schema b \<and> batch_valid c
           \<and> batch_rows c = kept (batch_rows b) msk))"

definition slice_kernel_spec :: "arrow_ops \<Rightarrow> bool" where
  "slice_kernel_spec A \<longleftrightarrow>
     (\<forall>b off len. batch_valid b \<and> off + len \<le> num_rows b \<longrightarrow>
        rb_schema (ar_slice A b off len) = rb_schema b \<and> batch_valid (ar_slice A b off len)
      \<and> batch_rows (ar_slice A b off len) = take len (drop off (batch_rows b)))"

definition concat_kernel_spec :: "arrow_ops \<Rightarrow> bool" where
  "concat_kernel_spec A \<longleftrightarrow>
     (\<forall>sch bs. bs \<noteq> [] \<and> (\<forall>b \<in> set bs. batch_valid b \<and> rb_schema b = sch) \<longrightarrow>
        (\<exists>c. ar_concat A sch bs = Inr c \<and> rb_schema c = sch \<and> batch_valid c
           \<and> batch_rows c = batches_rows bs))"

definition take_kernel_spec :: "arrow_ops \<Rightarrow> bool" where
  "take_kernel_spec A \<longleftrightarrow>
     (\<forall>b idx. batch_valid b \<and> (\<forall>i \<in> set idx. i < num_rows b) \<longrightarrow>
        (\<exists>c. ar_take A b idx = Inr c \<and> rb_schema c = rb_schema b \<and> batch_valid c
           \<and> batch_rows c = map ((!) (batch_rows b)) idx))"

text \<open>The order of one sort column, and the lexicographic order of several.\<close>

definition value_less :: "cell \<Rightarrow> cell \<Rightarrow> bool" where
  "value_less x y =
     (case (x, y) of
        (CUInt64 a, CUInt64 b) \<Rightarrow> a < b
      | (CInt64 a, CInt64 b) \<Rightarrow> a < b
      | (CInt32 a, CInt32 b) \<Rightarrow> a < b
      | (CInt8 a, CInt8 b) \<Rightarrow> a < b
      | (CFloat64 a, CFloat64 b) \<Rightarrow> total_key a < total_key b
      | (CUtf8 a, CUtf8 b) \<Rightarrow> text_less a b
      | (CBoolean a, CBoolean b) \<Rightarrow> \<not> a \<and> b
      | _ \<Rightarrow> False)"

definition cell_before :: "bool \<Rightarrow> bool \<Rightarrow> cell \<Rightarrow> cell \<Rightarrow> bool" where
  "cell_before descending nulls_first x y =
     (if x = CNull \<or> y = CNull then x \<noteq> y \<and> (if nulls_first then x = CNull else y = CNull)
      else if descending then value_less y x else value_less x y)"

fun keys_before :: "(bool \<times> bool) list \<Rightarrow> cell list \<Rightarrow> cell list \<Rightarrow> bool" where
  "keys_before ((d, nf) # os) (x # xs) (y # ys) =
     (cell_before d nf x y \<or> (\<not> cell_before d nf y x \<and> keys_before os xs ys))"
| "keys_before _ _ _ = False"

definition sort_options :: "sort_column list \<Rightarrow> (bool \<times> bool) list" where
  "sort_options cols = map (\<lambda>c. (sc_descending c, sc_nulls_first c)) cols"

definition key_cells :: "sort_column list \<Rightarrow> nat \<Rightarrow> cell list" where
  "key_cells cols i = map (\<lambda>c. array_cells (sc_values c) ! i) cols"

definition lexsort_kernel_spec :: "arrow_ops \<Rightarrow> bool" where
  "lexsort_kernel_spec A \<longleftrightarrow>
     (\<forall>cols idx. ar_lexsort A cols = Inr idx \<and> cols \<noteq> [] \<longrightarrow>
        mset idx = mset [0..<array_len (sc_values (hd cols))]
      \<and> sorted_wrt (\<lambda>i j. \<not> keys_before (sort_options cols) (key_cells cols j) (key_cells cols i)) idx)"

definition arrow_spec :: "fp_ops \<Rightarrow> arrow_ops \<Rightarrow> bool" where
  "arrow_spec F A \<longleftrightarrow>
     bool_kernel_spec (ar_and A) (\<and>) \<and> bool_kernel_spec (ar_or A) (\<or>) \<and> not_kernel_spec (ar_not A)
   \<and> cmp_kernel_spec A \<and> arith_kernel_spec F A \<and> filter_kernel_spec A \<and> slice_kernel_spec A
   \<and> concat_kernel_spec A \<and> take_kernel_spec A \<and> lexsort_kernel_spec A"

section \<open>Selecting rows\<close>

fun array_pick :: "nat list \<Rightarrow> arrow_array \<Rightarrow> arrow_array" where
  "array_pick idx (UInt64Array xs) = UInt64Array (map ((!) xs) idx)"
| "array_pick idx (Int64Array xs) = Int64Array (map ((!) xs) idx)"
| "array_pick idx (Int32Array xs) = Int32Array (map ((!) xs) idx)"
| "array_pick idx (Int8Array xs) = Int8Array (map ((!) xs) idx)"
| "array_pick idx (Float64Array xs) = Float64Array (map ((!) xs) idx)"
| "array_pick idx (StringArray xs) = StringArray (map ((!) xs) idx)"
| "array_pick idx (BinaryArray xs) = BinaryArray (map ((!) xs) idx)"
| "array_pick idx (BooleanArray xs) = BooleanArray (map ((!) xs) idx)"

definition batch_pick :: "nat list \<Rightarrow> record_batch \<Rightarrow> record_batch" where
  "batch_pick idx b = b\<lparr>rb_columns := map (array_pick idx) (rb_columns b)\<rparr>"

definition array_append :: "arrow_array \<Rightarrow> arrow_array \<Rightarrow> arrow_array" where
  "array_append x y =
     (case (x, y) of
        (UInt64Array xs, UInt64Array ys) \<Rightarrow> UInt64Array (xs @ ys)
      | (Int64Array xs, Int64Array ys) \<Rightarrow> Int64Array (xs @ ys)
      | (Int32Array xs, Int32Array ys) \<Rightarrow> Int32Array (xs @ ys)
      | (Int8Array xs, Int8Array ys) \<Rightarrow> Int8Array (xs @ ys)
      | (Float64Array xs, Float64Array ys) \<Rightarrow> Float64Array (xs @ ys)
      | (StringArray xs, StringArray ys) \<Rightarrow> StringArray (xs @ ys)
      | (BinaryArray xs, BinaryArray ys) \<Rightarrow> BinaryArray (xs @ ys)
      | (BooleanArray xs, BooleanArray ys) \<Rightarrow> BooleanArray (xs @ ys)
      | _ \<Rightarrow> x)"

definition batch_append :: "record_batch \<Rightarrow> record_batch \<Rightarrow> record_batch" where
  "batch_append b c = b\<lparr>rb_columns := map2 array_append (rb_columns b) (rb_columns c)\<rparr>"

lemma array_pick_type [simp]: "array_data_type (array_pick idx a) = array_data_type a"
  by (cases a) auto

lemma array_pick_len [simp]: "array_len (array_pick idx a) = length idx"
  by (cases a) auto

lemma array_pick_cells:
  "\<forall>i \<in> set idx. i < array_len a \<Longrightarrow> array_cells (array_pick idx a) = map ((!) (array_cells a)) idx"
  by (cases a) auto

lemma array_append_type [simp]:
  "array_data_type a = array_data_type b \<Longrightarrow> array_data_type (array_append a b) = array_data_type a"
  by (cases a; cases b) (auto simp: array_append_def)

lemma array_append_cells:
  "array_data_type a = array_data_type b \<Longrightarrow> array_cells (array_append a b) = array_cells a @ array_cells b"
  by (cases a; cases b) (auto simp: array_append_def)

lemma array_append_len:
  "array_data_type a = array_data_type b \<Longrightarrow> array_len (array_append a b) = array_len a + array_len b"
  by (simp add: array_len_def array_append_cells)

lemma batch_valid_lens:
  assumes "batch_valid b" "c \<in> set (rb_columns b)"
  shows "array_len c = num_rows b"
proof -
  obtain d ds where "rb_columns b = d # ds"
    using assms(2) by (cases "rb_columns b") auto
  moreover have "list_all2 (\<lambda>f c. array_len c = array_len (hd (rb_columns b))) (rb_schema b) (rb_columns b)"
    using assms(1) by (auto simp: batch_valid_def columns_valid_def elim: list_all2_mono)
  then have "array_len c = array_len (hd (rb_columns b))"
    using assms(2) by (auto simp: list_all2_conv_all_nth in_set_conv_nth)
  ultimately show ?thesis by (simp add: num_rows_def)
qed

lemma batch_pick_spec:
  assumes "batch_valid b" "\<forall>i \<in> set idx. i < num_rows b"
  shows "rb_schema (batch_pick idx b) = rb_schema b \<and> batch_valid (batch_pick idx b)
    \<and> batch_rows (batch_pick idx b) = map ((!) (batch_rows b)) idx"
proof -
  have cells: "array_cells (array_pick idx c) = map ((!) (array_cells c)) idx" if "c \<in> set (rb_columns b)" for c
    using that assms batch_valid_lens [OF assms(1)] by (simp add: array_pick_cells)
  have ne: "rb_columns b \<noteq> []" using assms(1) by (simp add: batch_valid_def columns_valid_def)
  have n: "num_rows (batch_pick idx b) = length idx"
    using ne by (cases "rb_columns b") (simp_all add: num_rows_def batch_pick_def)
  have "CNull \<notin> set (array_cells (array_pick idx c))" if "c \<in> set (rb_columns b)" "CNull \<notin> set (array_cells c)" for c
  proof -
    have "\<forall>i \<in> set idx. array_cells c ! i \<noteq> CNull"
      using that assms(2) batch_valid_lens [OF assms(1) that(1)] nth_mem [of _ "array_cells c"]
      by (metis array_len_def)
    then show ?thesis using cells [OF that(1)] by auto
  qed
  then have nf: "array_null_free (array_pick idx c)" if "c \<in> set (rb_columns b)" "array_null_free c" for c
    using that by (simp add: array_null_free_def)
  have "list_all2 (\<lambda>f c. f_type f = array_data_type c \<and> (f_nullable f \<or> array_null_free c)
      \<and> array_len c = array_len (hd (rb_columns b))) (rb_schema b) (rb_columns b)"
    using assms(1) by (simp add: batch_valid_def columns_valid_def)
  then have "list_all2 (\<lambda>f c. f_type f = array_data_type (array_pick idx c)
      \<and> (f_nullable f \<or> array_null_free (array_pick idx c))) (rb_schema b) (rb_columns b)"
    using nf by (auto simp: list_all2_conv_all_nth)
  then have "batch_valid (batch_pick idx b)"
    using assms(1) ne
    by (simp add: batch_valid_def columns_valid_def batch_pick_def list_all2_map2 hd_map)
  moreover have "batch_row (batch_pick idx b) i = batch_rows b ! (idx ! i)" if "i < length idx" for i
    using that cells assms(2) by (simp add: batch_row_def batch_rows_def batch_pick_def)
  then have "batch_rows (batch_pick idx b) = map ((!) (batch_rows b)) idx"
    using n by (intro nth_equalityI) (simp_all add: batch_rows_def)
  ultimately show ?thesis by (simp add: batch_pick_def)
qed

lemma batch_validD:
  assumes "batch_valid b"
  shows "rb_columns b \<noteq> []" "length (rb_columns b) = length (rb_schema b)"
    and "\<And>i. i < length (rb_schema b) \<Longrightarrow> f_type (rb_schema b ! i) = array_data_type (rb_columns b ! i)
      \<and> (f_nullable (rb_schema b ! i) \<or> array_null_free (rb_columns b ! i))
      \<and> array_len (rb_columns b ! i) = num_rows b"
proof -
  have v: "columns_valid (rb_schema b) (rb_columns b)" using assms by (simp add: batch_valid_def)
  then show ne: "rb_columns b \<noteq> []" and len: "length (rb_columns b) = length (rb_schema b)"
    by (simp_all add: columns_valid_def)
  fix i assume i: "i < length (rb_schema b)"
  have "array_len (rb_columns b ! i) = num_rows b"
    using batch_valid_lens [OF assms] i len by simp
  moreover have "f_type (rb_schema b ! i) = array_data_type (rb_columns b ! i)
      \<and> (f_nullable (rb_schema b ! i) \<or> array_null_free (rb_columns b ! i))"
    using v i unfolding columns_valid_def list_all2_conv_all_nth by blast
  ultimately show "f_type (rb_schema b ! i) = array_data_type (rb_columns b ! i)
      \<and> (f_nullable (rb_schema b ! i) \<or> array_null_free (rb_columns b ! i))
      \<and> array_len (rb_columns b ! i) = num_rows b" by blast
qed

lemma batch_validI:
  assumes "rb_columns b \<noteq> []" "length (rb_columns b) = length (rb_schema b)"
    and "\<And>i. i < length (rb_schema b) \<Longrightarrow> f_type (rb_schema b ! i) = array_data_type (rb_columns b ! i)
      \<and> (f_nullable (rb_schema b ! i) \<or> array_null_free (rb_columns b ! i))
      \<and> array_len (rb_columns b ! i) = num_rows b"
  shows "batch_valid b"
proof -
  have "array_len (hd (rb_columns b)) = num_rows b"
    using assms(1) by (cases "rb_columns b") (simp_all add: num_rows_def)
  then show ?thesis
    using assms by (simp add: batch_valid_def columns_valid_def list_all2_conv_all_nth)
qed

lemma batch_append_spec:
  assumes "batch_valid b" "batch_valid c" "rb_schema c = rb_schema b"
  shows "rb_schema (batch_append b c) = rb_schema b \<and> batch_valid (batch_append b c)
    \<and> batch_rows (batch_append b c) = batch_rows b @ batch_rows c"
proof -
  note vb = batch_validD [OF assms(1)] and vc = batch_validD [OF assms(2)]
  let ?d = "batch_append b c"
  have cols: "rb_columns ?d = map2 array_append (rb_columns b) (rb_columns c)" "rb_schema ?d = rb_schema b"
    by (simp_all add: batch_append_def)
  have len: "length (rb_columns ?d) = length (rb_schema b)"
    using vb(2) vc(2) assms(3) by (simp add: cols)
  have col: "rb_columns ?d ! i = array_append (rb_columns b ! i) (rb_columns c ! i)"
    "array_data_type (rb_columns b ! i) = array_data_type (rb_columns c ! i)" if "i < length (rb_schema b)" for i
    using that vb(2) vc(2) vb(3) [of i] vc(3) [of i] assms(3) by (simp_all add: cols)
  have pos: "0 < length (rb_schema b)" using vb(1,2) by (metis length_greater_0_conv)
  have rows: "array_len (rb_columns ?d ! i) = num_rows b + num_rows c" if "i < length (rb_schema b)" for i
    using that col [OF that] vb(3) [OF that] vc(3) [of i] assms(3) by (simp add: array_append_len)
  have n: "num_rows ?d = num_rows b + num_rows c"
    using rows [OF pos] len pos by (cases "rb_columns ?d") (simp_all add: num_rows_def)
  have "batch_valid ?d"
  proof (rule batch_validI)
    show "rb_columns ?d \<noteq> []" using len pos by force
    show "length (rb_columns ?d) = length (rb_schema ?d)" using len cols(2) by simp
    show "f_type (rb_schema ?d ! i) = array_data_type (rb_columns ?d ! i)
      \<and> (f_nullable (rb_schema ?d ! i) \<or> array_null_free (rb_columns ?d ! i))
      \<and> array_len (rb_columns ?d ! i) = num_rows ?d" if "i < length (rb_schema ?d)" for i
      using that col [of i] rows [of i] n vb(3) [of i] vc(3) [of i] assms(3)
      by (auto simp: cols(2) array_null_free_def array_append_cells)
  qed
  moreover have "batch_rows ?d = batch_rows b @ batch_rows c"
  proof (rule nth_equalityI)
    show "length (batch_rows ?d) = length (batch_rows b @ batch_rows c)" by (simp add: n)
    fix i assume "i < length (batch_rows ?d)"
    then have i: "i < num_rows b + num_rows c" by (simp add: n)
    have "batch_row ?d i ! j = (batch_rows b @ batch_rows c) ! i ! j" if "j < length (rb_schema b)" for j
      using i that col [OF that] len vb(2) vc(2) vb(3) [OF that] vc(3) [of j] assms(3)
      by (auto simp: batch_row_def batch_rows_def array_append_cells nth_append array_len_def)
    moreover have "length ((batch_rows b @ batch_rows c) ! i) = length (rb_schema b)"
      using i vb(2) vc(2) assms(3) by (auto simp: batch_rows_def batch_row_def nth_append)
    moreover have "length (batch_row ?d i) = length (rb_schema b)"
      using len by (simp add: batch_row_def)
    ultimately have "batch_row ?d i = (batch_rows b @ batch_rows c) ! i"
      by (simp add: list_eq_iff_nth_eq)
    then show "batch_rows ?d ! i = (batch_rows b @ batch_rows c) ! i"
      using i n by (simp add: batch_rows_def)
  qed
  ultimately show ?thesis by (simp add: cols(2))
qed

section \<open>A reference instance\<close>

text \<open>Kernels that meet every specification; sorting checks its own result.\<close>

definition ref_bool :: "(bool \<Rightarrow> bool \<Rightarrow> bool) \<Rightarrow> bool option list \<Rightarrow> bool option list \<Rightarrow> string + bool option list" where
  "ref_bool f xs ys = (if length xs = length ys then Inr (map2 (lift2 f) xs ys) else Inl ''length'')"

definition ref_arith :: "fp_ops \<Rightarrow> binop \<Rightarrow> arrow_array \<Rightarrow> arrow_array \<Rightarrow> string + arrow_array" where
  "ref_arith F op x y =
     (case (x, y) of
        (Int64Array xs, Int64Array ys) \<Rightarrow>
          if length xs = length ys \<and> Some None \<notin> set (int_results op xs ys)
          then Inr (Int64Array (map (\<lambda>r. Option.bind r id) (int_results op xs ys))) else Inl ''overflow''
      | (Float64Array xs, Float64Array ys) \<Rightarrow>
          if length xs = length ys then Inr (Float64Array (map2 (lift2 (float_arith F op)) xs ys))
          else Inl ''length''
      | _ \<Rightarrow> Inl ''type'')"

fun ref_insort :: "(nat \<Rightarrow> nat \<Rightarrow> bool) \<Rightarrow> nat \<Rightarrow> nat list \<Rightarrow> nat list" where
  "ref_insort before i [] = [i]"
| "ref_insort before i (j # js) = (if before j i then j # ref_insort before i js else i # j # js)"

definition ref_lexsort :: "sort_column list \<Rightarrow> string + nat list" where
  "ref_lexsort cols =
     (let before = (\<lambda>i j. keys_before (sort_options cols) (key_cells cols i) (key_cells cols j));
          idx = foldr (ref_insort before) [0..<array_len (sc_values (hd cols))] [] in
      if sorted_wrt (\<lambda>i j. \<not> before j i) idx then Inr idx else Inl ''unsorted'')"

definition ref_arrow :: "fp_ops \<Rightarrow> arrow_ops" where
  "ref_arrow F =
     \<lparr>ar_and = ref_bool (\<and>), ar_or = ref_bool (\<or>), ar_not = (\<lambda>xs. Inr (map (map_option Not) xs)),
      ar_cmp = (\<lambda>op x y. if array_len x = array_len y then Inr (cmp_values op x y) else Inl ''length''),
      ar_arith = ref_arith F,
      ar_filter = (\<lambda>b msk. Inr (batch_pick (filter (\<lambda>i. msk ! i = Some True) [0..<num_rows b]) b)),
      ar_concat = (\<lambda>sch bs. case bs of [] \<Rightarrow> Inl ''empty'' | b # cs \<Rightarrow> Inr (foldl batch_append b cs)),
      ar_lexsort = ref_lexsort,
      ar_take = (\<lambda>b idx. Inr (batch_pick idx b)),
      ar_slice = (\<lambda>b off len. batch_pick [off..<off + len] b)\<rparr>"

lemma kept_conv_index:
  "length msk = length rows \<Longrightarrow> kept rows msk = map ((!) rows) (filter (\<lambda>i. msk ! i = Some True) [0..<length rows])"
proof (induction rows arbitrary: msk)
  case (Cons r rows)
  then obtain m ms where m: "msk = m # ms" "length ms = length rows" by (cases msk) auto
  have "[0..<Suc (length rows)] = 0 # map Suc [0..<length rows]" by (simp add: upt_conv_Cons map_Suc_upt del: upt_Suc)
  then show ?case
    using Cons.IH [OF m(2)] m(1) by (simp add: kept_def filter_map o_def)
qed (simp add: kept_def)

lemma mset_ref_insort: "mset (ref_insort before i js) = add_mset i (mset js)"
  by (induction js) auto

lemma mset_ref_sort: "mset (foldr (ref_insort before) xs []) = mset xs"
  by (induction xs) (auto simp: mset_ref_insort)

lemma ref_concat:
  assumes "batch_valid b" "\<forall>c \<in> set cs. batch_valid c \<and> rb_schema c = rb_schema b"
  shows "rb_schema (foldl batch_append b cs) = rb_schema b \<and> batch_valid (foldl batch_append b cs)
    \<and> batch_rows (foldl batch_append b cs) = batches_rows (b # cs)"
  using assms
proof (induction cs arbitrary: b)
  case (Cons c cs)
  have a: "rb_schema (batch_append b c) = rb_schema b" "batch_valid (batch_append b c)"
    "batch_rows (batch_append b c) = batch_rows b @ batch_rows c"
    using batch_append_spec [OF Cons.prems(1), of c] Cons.prems(2) by (meson list.set_intros(1))+
  have "\<forall>d \<in> set cs. batch_valid d \<and> rb_schema d = rb_schema (batch_append b c)"
    unfolding a(1) using Cons.prems(2) by (meson list.set_intros(2))
  from Cons.IH [OF a(2) this] show ?case unfolding a by (simp add: a(3) del: foldl_Cons) (simp add: a(1))
next
  case Nil
  then show ?case by simp
qed

lemma ref_arrow_bool: "bool_kernel_spec (ar_and (ref_arrow F)) (\<and>)" "bool_kernel_spec (ar_or (ref_arrow F)) (\<or>)"
    "not_kernel_spec (ar_not (ref_arrow F))"
  by (simp_all add: ref_arrow_def bool_kernel_spec_def not_kernel_spec_def ref_bool_def)

lemma ref_arrow_values: "cmp_kernel_spec (ref_arrow F)" "arith_kernel_spec F (ref_arrow F)"
  by (simp_all add: ref_arrow_def cmp_kernel_spec_def arith_kernel_spec_def ref_arith_def)

lemma ref_arrow_filter: "filter_kernel_spec (ref_arrow F)"
  unfolding filter_kernel_spec_def
proof (intro allI impI)
  fix b and msk :: "bool option list" assume "batch_valid b \<and> length msk = num_rows b"
  then show "\<exists>c. ar_filter (ref_arrow F) b msk = Inr c \<and> rb_schema c = rb_schema b \<and> batch_valid c
      \<and> batch_rows c = kept (batch_rows b) msk"
    using batch_pick_spec [of b "filter (\<lambda>i. msk ! i = Some True) [0..<num_rows b]"]
    by (simp add: ref_arrow_def kept_conv_index)
qed

lemma ref_arrow_slice: "slice_kernel_spec (ref_arrow F)"
  unfolding slice_kernel_spec_def
proof (intro allI impI)
  fix b off len assume a: "batch_valid b \<and> off + len \<le> num_rows b"
  have "map ((!) (batch_rows b)) [off..<off + len] = take len (drop off (batch_rows b))"
    using a by (intro nth_equalityI) auto
  then show "rb_schema (ar_slice (ref_arrow F) b off len) = rb_schema b \<and> batch_valid (ar_slice (ref_arrow F) b off len)
      \<and> batch_rows (ar_slice (ref_arrow F) b off len) = take len (drop off (batch_rows b))"
    using a batch_pick_spec [of b "[off..<off + len]"] by (simp add: ref_arrow_def)
qed

lemma ref_arrow_rows: "concat_kernel_spec (ref_arrow F)" "take_kernel_spec (ref_arrow F)"
proof -
  show "take_kernel_spec (ref_arrow F)"
    using batch_pick_spec by (simp add: take_kernel_spec_def ref_arrow_def)
  have "\<exists>c. ar_concat (ref_arrow F) sch bs = Inr c \<and> rb_schema c = sch \<and> batch_valid c \<and> batch_rows c = batches_rows bs"
    if "bs \<noteq> []" "\<forall>b \<in> set bs. batch_valid b \<and> rb_schema b = sch" for sch bs
    using that ref_concat [of "hd bs" "tl bs"] by (cases bs) (simp_all add: ref_arrow_def)
  then show "concat_kernel_spec (ref_arrow F)" by (simp add: concat_kernel_spec_def)
qed

lemma ref_arrow_lexsort: "lexsort_kernel_spec (ref_arrow F)"
  by (auto simp: lexsort_kernel_spec_def ref_arrow_def ref_lexsort_def Let_def mset_ref_sort split: if_splits)

lemma ref_arrow_spec: "arrow_spec F (ref_arrow F)"
  by (simp add: arrow_spec_def ref_arrow_bool ref_arrow_values ref_arrow_filter ref_arrow_slice
      ref_arrow_rows ref_arrow_lexsort)

end
