(* ===== verification/Temporal.thy ===== *)
theory Temporal
  imports Kernels
begin

text \<open>
  The temporal functions of the query language (\<open>infralens-query/src/functions/temporal.rs\<close>)
  over Arrow arrays. Reading a null slot of a primitive or text array gives the default the
  array builders leave there: zero or the empty text.
\<close>

definition slot :: "'a \<Rightarrow> 'a option \<Rightarrow> 'a" where
  "slot d x = (case x of None \<Rightarrow> d | Some v \<Rightarrow> v)"

definition time_bucket :: "i64 \<Rightarrow> arrow_array \<Rightarrow> arrow_array outcome" where
  "time_bucket width_ns ts =
     (if width_ns \<le> 0 then exec_fail TimeBucketWidth
      else case ts of
        UInt64Array xs \<Rightarrow>
          (let w = (word_of_int width_ns :: u64) in
           Inr (UInt64Array (map (\<lambda>x. Some ((slot 0 x div w) * w)) xs)))
      | _ \<Rightarrow> exec_fail TimeBucketType)"

definition rate :: "fp_ops \<Rightarrow> arrow_array \<Rightarrow> i64 \<Rightarrow> arrow_array outcome" where
  "rate F vals window_ns =
     (let window_s = fp_div F (fp_of_i64 F window_ns) (fp_lit F ''1e9'') in
      if fp_le F window_s (fp_lit F ''0.0'') then exec_fail RateWindow
      else
        let r = fp_div F (fp_of_u64 F (word_of_nat (array_len vals))) window_s in
        Inr (Float64Array (replicate (array_len vals) (Some r))))"

definition to_f64_slice :: "fp_ops \<Rightarrow> arrow_array \<Rightarrow> f64 list outcome" where
  "to_f64_slice F arr =
     (case arr of
        Float64Array xs \<Rightarrow> Inr (map (slot 0) xs)
      | Int64Array xs \<Rightarrow> Inr (map (\<lambda>x. fp_of_i64 F (slot 0 x)) xs)
      | UInt64Array xs \<Rightarrow> Inr (map (\<lambda>x. fp_of_u64 F (slot 0 x)) xs)
      | _ \<Rightarrow> exec_fail UnsupportedNumeric)"

definition delta :: "fp_ops \<Rightarrow> arrow_array \<Rightarrow> i64 \<Rightarrow> arrow_array outcome" where
  "delta F vals window_ns =
     and_then (to_f64_slice F vals) (\<lambda>arr.
       if arr = [] then Inr (Float64Array [Some (fp_lit F ''0.0'')])
       else Inr (Float64Array (replicate (array_len vals) (Some (fp_sub F (last arr) (hd arr))))))"

text \<open>A stable sort by a comparison that panics on a number that is not comparable to itself.\<close>

fun insort_float :: "fp_ops \<Rightarrow> f64 \<Rightarrow> f64 list \<Rightarrow> f64 list" where
  "insort_float F v [] = [v]"
| "insort_float F v (w # ws) = (if fp_lt F w v then w # insort_float F v ws else v # w # ws)"

definition sort_floats :: "fp_ops \<Rightarrow> f64 list \<Rightarrow> f64 list outcome" where
  "sort_floats F vals =
     (if length vals \<ge> 2 \<and> (\<exists>v \<in> set vals. \<not> fp_le F v v) then Inl Panic
      else Inr (foldr (insort_float F) vals []))"

definition histogram_quantile :: "fp_ops \<Rightarrow> f64 \<Rightarrow> arrow_array \<Rightarrow> u32 \<Rightarrow> arrow_array outcome" where
  "histogram_quantile F q vals buckets =
     (if \<not> (fp_le F (fp_lit F ''0.0'') q \<and> fp_le F q (fp_lit F ''1.0'')) then exec_fail QuantileRange
      else and_then (to_f64_slice F vals) (\<lambda>vs.
        if vs = [] then Inr (Float64Array [Some (fp_lit F ''0.0'')])
        else and_then (sort_floats F vs) (\<lambda>ws.
          let n = length ws;
              pos = fp_round F (fp_mul F q (fp_sub F (fp_of_u64 F (word_of_nat n)) (fp_lit F ''1.0'')));
              idx = min (unat (fp_to_u64 F pos)) (n - 1) in
          Inr (Float64Array (replicate (array_len vals) (Some (ws ! idx)))))))"

section \<open>Lemmas\<close>

lemma length_insort_float [simp]: "length (insort_float F v ws) = Suc (length ws)"
  by (induction ws) auto

lemma sort_floats_length: "sort_floats F vs = Inr ws \<Longrightarrow> length ws = length vs"
proof -
  have "length (foldr (insort_float F) vs []) = length vs" by (induction vs) auto
  then show "sort_floats F vs = Inr ws \<Longrightarrow> length ws = length vs"
    by (auto simp: sort_floats_def split: if_splits)
qed

end
