(* ===== verification/Eval.thy ===== *)
theory Eval
  imports Temporal
begin

text \<open>
  The vectorised expression evaluator (\<open>infralens-query/src/functions/eval.rs\<close>): a batch and
  an expression give an array, an error or a panic. The environment holds the floating-point
  operations, the Arrow kernels, the batch constructor, the clock readings while an expression is
  evaluated over a batch, and the order in which a hash map with text keys is iterated.
\<close>

section \<open>Evaluation\<close>

record query_env =
  q_fp :: fp_ops
  q_arrow :: arrow_ops
  q_try_new :: try_new
  q_now :: "record_batch \<Rightarrow> clock"
  q_iter :: "string list \<Rightarrow> string list"

definition eval_literal :: "literal \<Rightarrow> nat \<Rightarrow> arrow_array" where
  "eval_literal lit nrows =
     (case lit of
        L_Int n \<Rightarrow> Int64Array (replicate nrows (Some n))
      | L_Float f \<Rightarrow> Float64Array (replicate nrows (Some f))
      | L_Str s \<Rightarrow> StringArray (replicate nrows (Some s))
      | L_Bool b \<Rightarrow> BooleanArray (replicate nrows (Some b))
      | L_Null \<Rightarrow> BooleanArray (replicate nrows None)
      | L_IntervalNs n \<Rightarrow> Int64Array (replicate nrows (Some n)))"

definition as_boolean :: "exec_error \<Rightarrow> arrow_array \<Rightarrow> bool option list outcome" where
  "as_boolean e a = (case a of BooleanArray xs \<Rightarrow> Inr xs | _ \<Rightarrow> exec_fail e)"

definition comparable :: "arrow_array \<Rightarrow> arrow_array \<Rightarrow> bool" where
  "comparable l r \<longleftrightarrow> array_data_type l = array_data_type r
     \<and> array_data_type l \<in> {DT_UInt64, DT_Int64, DT_Float64, DT_Utf8}"

definition compare_arrays :: "query_env \<Rightarrow> binop \<Rightarrow> arrow_array \<Rightarrow> arrow_array \<Rightarrow> bool option list outcome" where
  "compare_arrays Q op l r =
     (if is_cmp op \<and> comparable l r then arrow_result (ar_cmp (q_arrow Q) op l r)
      else exec_fail (UnsupportedComparison (array_data_type l) (array_data_type r)))"

definition arithmetic_arrays :: "query_env \<Rightarrow> binop \<Rightarrow> arrow_array \<Rightarrow> arrow_array \<Rightarrow> arrow_array outcome" where
  "arithmetic_arrays Q op l r =
     (if op \<in> {Op_Add, Op_Sub, Op_Mul, Op_Div} \<and> array_data_type l = array_data_type r
         \<and> array_data_type l \<in> {DT_Int64, DT_Float64}
      then arrow_result (ar_arith (q_arrow Q) op l r)
      else exec_fail UnsupportedArithmetic)"

definition negate_numeric :: "fp_ops \<Rightarrow> arrow_array \<Rightarrow> arrow_array outcome" where
  "negate_numeric F arr =
     (case arr of
        Int64Array xs \<Rightarrow> Inr (Int64Array (map (\<lambda>x. Some (wrap_i64 (- slot 0 x))) xs))
      | Float64Array xs \<Rightarrow> Inr (Float64Array (map (\<lambda>x. Some (fp_neg F (slot 0 x))) xs))
      | _ \<Rightarrow> exec_fail NegateNonNumeric)"

definition scalar_i64 :: "arrow_array \<Rightarrow> i64 outcome" where
  "scalar_i64 arr =
     (case arr of
        Int64Array [] \<Rightarrow> Inl Panic
      | Int64Array (x # _) \<Rightarrow> Inr (slot 0 x)
      | UInt64Array [] \<Rightarrow> Inl Panic
      | UInt64Array (x # _) \<Rightarrow> Inr (sint (slot 0 x))
      | _ \<Rightarrow> exec_fail ExpectedIntegerScalar)"

definition scalar_f64 :: "fp_ops \<Rightarrow> arrow_array \<Rightarrow> f64 outcome" where
  "scalar_f64 F arr =
     (case arr of
        Float64Array [] \<Rightarrow> Inl Panic
      | Float64Array (x # _) \<Rightarrow> Inr (slot 0 x)
      | Int64Array [] \<Rightarrow> Inl Panic
      | Int64Array (x # _) \<Rightarrow> Inr (fp_of_i64 F (slot 0 x))
      | _ \<Rightarrow> exec_fail ExpectedFloatScalar)"

definition glob_to_regex :: "string \<Rightarrow> string" where
  "glob_to_regex pat = replace_char (CHR ''_'') ''.'' (replace_char (CHR ''%'') ''.*'' pat)"

fun like_parts :: "string \<Rightarrow> nat \<Rightarrow> string list \<Rightarrow> string \<Rightarrow> string option" where
  "like_parts pattern i [] remaining = Some remaining"
| "like_parts pattern i (part # parts) remaining =
     (if part = [] then like_parts pattern (Suc i) parts remaining
      else case find_str part remaining of
        None \<Rightarrow> None
      | Some pos \<Rightarrow>
          if i = 0 \<and> \<not> starts_with pattern ''.*'' \<and> pos \<noteq> 0 then None
          else like_parts pattern (Suc i) parts (drop (pos + length part) remaining))"

definition simple_like_match :: "string \<Rightarrow> string \<Rightarrow> bool" where
  "simple_like_match s pattern =
     (if contains_str pattern ''.*'' then
        (case like_parts pattern 0 (split_str ''.*'' pattern) s of
           None \<Rightarrow> False
         | Some remaining \<Rightarrow> ends_with pattern ''.*'' \<or> remaining = [])
      else s = pattern)"

definition eval_like :: "string \<Rightarrow> bool \<Rightarrow> arrow_array \<Rightarrow> arrow_array outcome" where
  "eval_like pattern negated arr =
     (case arr of
        StringArray xs \<Rightarrow>
          (let pat = glob_to_regex pattern in
           Inr (BooleanArray (map (\<lambda>x. let m = simple_like_match (slot [] x) pat in
                                       Some (if negated then \<not> m else m)) xs)))
      | _ \<Rightarrow> exec_fail LikeRequiresText)"

definition eval_column :: "record_batch \<Rightarrow> string \<Rightarrow> arrow_array outcome" where
  "eval_column b name =
     (case column_by_name b name of Some c \<Rightarrow> Inr c | None \<Rightarrow> exec_fail (ColumnNotFound name))"

text \<open>The two operands of a binary operator, once evaluated.\<close>

definition apply_binop :: "query_env \<Rightarrow> binop \<Rightarrow> arrow_array \<Rightarrow> arrow_array \<Rightarrow> arrow_array outcome" where
  "apply_binop Q op l r =
     (case op of
        Op_And \<Rightarrow>
          and_then (as_boolean AndLeftNotBoolean l) (\<lambda>lb. and_then (as_boolean AndRightNotBoolean r) (\<lambda>rb.
            and_then (arrow_result (ar_and (q_arrow Q) lb rb)) (\<lambda>v. Inr (BooleanArray v))))
      | Op_Or \<Rightarrow>
          and_then (as_boolean OrLeftNotBoolean l) (\<lambda>lb. and_then (as_boolean OrRightNotBoolean r) (\<lambda>rb.
            and_then (arrow_result (ar_or (q_arrow Q) lb rb)) (\<lambda>v. Inr (BooleanArray v))))
      | _ \<Rightarrow>
          if op \<in> {Op_Add, Op_Sub, Op_Mul, Op_Div, Op_Mod} then arithmetic_arrays Q op l r
          else and_then (compare_arrays Q op l r) (\<lambda>v. Inr (BooleanArray v)))"

fun eval_expr :: "query_env \<Rightarrow> record_batch \<Rightarrow> clock \<Rightarrow> expr \<Rightarrow> arrow_array outcome"
and eval_in :: "query_env \<Rightarrow> record_batch \<Rightarrow> clock \<Rightarrow> arrow_array \<Rightarrow> bool option list \<Rightarrow> expr list \<Rightarrow> bool option list outcome"
and eval_function :: "query_env \<Rightarrow> record_batch \<Rightarrow> clock \<Rightarrow> string \<Rightarrow> expr list \<Rightarrow> arrow_array outcome" where
  "eval_expr Q b c (E_Literal lit) = Inr (eval_literal lit (num_rows b))"
| "eval_expr Q b c (E_Column _ name) = eval_column b name"
| "eval_expr Q b c E_Star = exec_fail CannotEvaluateStar"
| "eval_expr Q b c (E_BinOp op left right) =
     and_then (eval_expr Q b (sub_clock 0 c) left) (\<lambda>l. and_then (eval_expr Q b (sub_clock 1 c) right) (\<lambda>r. apply_binop Q op l r))"
| "eval_expr Q b c (E_UnaryOp op operand) =
     and_then (eval_expr Q b (sub_clock 0 c) operand) (\<lambda>arr.
       case op of
         Op_Neg \<Rightarrow> negate_numeric (q_fp Q) arr
       | Op_Not \<Rightarrow>
           and_then (as_boolean NotRequiresBoolean arr) (\<lambda>v.
             and_then (arrow_result (ar_not (q_arrow Q) v)) (\<lambda>w. Inr (BooleanArray w))))"
| "eval_expr Q b c (E_IsNull e) =
     and_then (eval_expr Q b (sub_clock 0 c) e) (\<lambda>arr. Inr (BooleanArray (map (\<lambda>c. Some (c = CNull)) (array_cells arr))))"
| "eval_expr Q b c (E_IsNotNull e) =
     and_then (eval_expr Q b (sub_clock 0 c) e) (\<lambda>arr. Inr (BooleanArray (map (\<lambda>c. Some (c \<noteq> CNull)) (array_cells arr))))"
| "eval_expr Q b c (E_Between e low high) =
     and_then (eval_expr Q b (sub_clock 0 c) e) (\<lambda>val. and_then (eval_expr Q b (sub_clock 1 c) low) (\<lambda>lo. and_then (eval_expr Q b (sub_clock 2 c) high) (\<lambda>hi.
       and_then (compare_arrays Q Op_GtEq val lo) (\<lambda>ge. and_then (compare_arrays Q Op_LtEq val hi) (\<lambda>le.
         and_then (arrow_result (ar_and (q_arrow Q) ge le)) (\<lambda>v. Inr (BooleanArray v)))))))"
| "eval_expr Q b c (E_In e items) =
     and_then (eval_expr Q b (sub_clock 0 c) e) (\<lambda>val.
       and_then (eval_in Q b (sub_clock 1 c) val (replicate (array_len val) (Some False)) items) (\<lambda>v. Inr (BooleanArray v)))"
| "eval_expr Q b c (E_Function name args) = eval_function Q b c name args"
| "eval_expr Q b c (E_TimeBucket width_ns e) = and_then (eval_expr Q b (sub_clock 0 c) e) (\<lambda>ts. time_bucket width_ns ts)"
| "eval_expr Q b c (E_Rate e window_ns) = and_then (eval_expr Q b (sub_clock 0 c) e) (\<lambda>vals. rate (q_fp Q) vals window_ns)"
| "eval_expr Q b c (E_Delta e window_ns) = and_then (eval_expr Q b (sub_clock 0 c) e) (\<lambda>vals. delta (q_fp Q) vals window_ns)"
| "eval_expr Q b c (E_HistogramQuantile q e buckets) =
     and_then (eval_expr Q b (sub_clock 0 c) e) (\<lambda>vals. histogram_quantile (q_fp Q) q vals buckets)"
| "eval_expr Q b c E_Now = Inr (eval_literal (L_Int (c [])) (num_rows b))"
| "eval_expr Q b c (E_Interval ns) = Inr (eval_literal (L_Int ns) (num_rows b))"
| "eval_expr Q b c (E_Like e pattern negated) = and_then (eval_expr Q b (sub_clock 0 c) e) (eval_like pattern negated)"
| "eval_in Q b c val msk [] = Inr msk"
| "eval_in Q b c val msk (item # items) =
     and_then (eval_expr Q b (sub_clock 0 c) item) (\<lambda>cmp_arr. and_then (compare_arrays Q Op_Eq val cmp_arr) (\<lambda>eq.
       and_then (arrow_result (ar_or (q_arrow Q) msk eq)) (\<lambda>msk'. eval_in Q b (sub_clock 1 c) val msk' items)))"
| "eval_function Q b c name args =
     (if name = ''now'' then Inr (Int64Array (replicate (num_rows b) (Some (c []))))
      else if name = ''time_bucket'' then
        (case args of
           a0 # a1 # _ \<Rightarrow>
             and_then (eval_expr Q b (sub_clock 0 c) a0) (\<lambda>width_arr. and_then (scalar_i64 width_arr) (\<lambda>width_ns.
               and_then (eval_expr Q b (sub_clock 1 c) a1) (\<lambda>ts. time_bucket width_ns ts)))
         | _ \<Rightarrow> exec_fail (FunctionArity name))
      else if name = ''rate'' then
        (case args of
           a0 # a1 # _ \<Rightarrow>
             and_then (eval_expr Q b (sub_clock 0 c) a0) (\<lambda>vals. and_then (eval_expr Q b (sub_clock 1 c) a1) (\<lambda>window.
               and_then (scalar_i64 window) (\<lambda>window_ns. rate (q_fp Q) vals window_ns)))
         | _ \<Rightarrow> exec_fail (FunctionArity name))
      else if name = ''delta'' then
        (case args of
           a0 # a1 # _ \<Rightarrow>
             and_then (eval_expr Q b (sub_clock 0 c) a0) (\<lambda>vals. and_then (eval_expr Q b (sub_clock 1 c) a1) (\<lambda>window.
               and_then (scalar_i64 window) (\<lambda>window_ns. delta (q_fp Q) vals window_ns)))
         | _ \<Rightarrow> exec_fail (FunctionArity name))
      else if name = ''histogram_quantile'' then
        (case args of
           a0 # a1 # rest \<Rightarrow>
             and_then (eval_expr Q b (sub_clock 0 c) a0) (\<lambda>q_arr. and_then (scalar_f64 (q_fp Q) q_arr) (\<lambda>q.
               and_then (eval_expr Q b (sub_clock 1 c) a1) (\<lambda>vals.
                 case rest of
                   [] \<Rightarrow> histogram_quantile (q_fp Q) q vals 50
                 | a2 # _ \<Rightarrow>
                     and_then (eval_expr Q b (sub_clock 2 c) a2) (\<lambda>barr. and_then (scalar_i64 barr) (\<lambda>buckets.
                       histogram_quantile (q_fp Q) q vals (word_of_int buckets))))))
         | _ \<Rightarrow> exec_fail (FunctionArity name))
      else exec_fail (UnknownFunction name))"

definition eval_filter :: "query_env \<Rightarrow> record_batch \<Rightarrow> expr \<Rightarrow> bool option list outcome" where
  "eval_filter Q b e = and_then (eval_expr Q b (q_now Q b) e) (as_boolean FilterNotBoolean)"

end
