(* ===== verification/Aggregate.thy ===== *)
theory Aggregate
  imports Eval
begin

text \<open>
  The aggregation of collected batches
  (\<open>infralens-query/src/executor/aggregate.rs\<close>): the output schema, the accumulators of
  the single-row aggregates, and the grouped form. The hash map of groups is an association list
  in the order of first insertion; the order it is iterated in comes from the environment.
\<close>

section \<open>Output schema\<close>

definition expr_name :: "expr \<Rightarrow> string" where
  "expr_name e = (case e of E_Column _ name \<Rightarrow> name | _ \<Rightarrow> ''key'')"

definition agg_schema :: "expr list \<Rightarrow> agg_expr list \<Rightarrow> schema" where
  "agg_schema keys aggs =
     map (\<lambda>k. field_new (expr_name k) DT_Int64 True) keys
   @ map (\<lambda>a. field_new (ag_alias a) (if ag_func a = ''count'' then DT_Int64 else DT_Float64) False) aggs"

fun empty_array :: "data_type \<Rightarrow> arrow_array" where
  "empty_array DT_UInt64 = UInt64Array []"
| "empty_array DT_Int64 = Int64Array []"
| "empty_array DT_Int32 = Int32Array []"
| "empty_array DT_Int8 = Int8Array []"
| "empty_array DT_Float64 = Float64Array []"
| "empty_array DT_Utf8 = StringArray []"
| "empty_array DT_Binary = BinaryArray []"
| "empty_array DT_Boolean = BooleanArray []"

definition batch_new_empty :: "schema \<Rightarrow> record_batch" where
  "batch_new_empty sch = \<lparr>rb_schema = sch, rb_columns = map (\<lambda>f. empty_array (f_type f)) sch\<rparr>"

section \<open>Single-row aggregates\<close>

definition agg_values :: "fp_ops \<Rightarrow> arrow_array \<Rightarrow> f64 list" where
  "agg_values F col =
     (case col of
        Float64Array xs \<Rightarrow> map (slot 0) xs
      | Int64Array xs \<Rightarrow> map (\<lambda>x. fp_of_i64 F (slot 0 x)) xs
      | _ \<Rightarrow> [])"

definition agg_step :: "fp_ops \<Rightarrow> string \<Rightarrow> f64 \<Rightarrow> f64 \<Rightarrow> f64" where
  "agg_step F func acc v =
     (if func = ''sum'' \<or> func = ''avg'' then fp_add F acc v
      else if func = ''min'' then (if fp_lt F v acc then v else acc)
      else if func = ''max'' then (if fp_lt F acc v then v else acc)
      else acc)"

definition agg_init :: "fp_ops \<Rightarrow> string \<Rightarrow> f64" where
  "agg_init F func =
     (if func = ''min'' then fp_infinity F else if func = ''max'' then fp_neg_infinity F else fp_lit F ''0.0'')"

fun agg_batches ::
  "fp_ops \<Rightarrow> string \<Rightarrow> string \<Rightarrow> record_batch list \<Rightarrow> f64 \<Rightarrow> nat \<Rightarrow> (f64 \<times> nat) outcome" where
  "agg_batches F func col_name [] acc cnt = Inr (acc, cnt)"
| "agg_batches F func col_name (b # bs) acc cnt =
     (case column_by_name b col_name of
        None \<Rightarrow> exec_fail (ColumnNotFound col_name)
      | Some col \<Rightarrow>
          let vals = agg_values F col in
          agg_batches F func col_name bs (foldl (agg_step F func) acc vals) (cnt + length vals))"

definition compute_scalar_agg :: "fp_ops \<Rightarrow> record_batch list \<Rightarrow> string \<Rightarrow> expr option \<Rightarrow> f64 outcome" where
  "compute_scalar_agg F batches func arg =
     (case arg of
        Some (E_Column _ col_name) \<Rightarrow>
          and_then (agg_batches F func col_name batches (agg_init F func) 0) (\<lambda>(acc, cnt).
            Inr (if func = ''avg''
                 then (if cnt > 0 then fp_div F acc (fp_of_u64 F (word_of_nat cnt)) else fp_lit F ''0.0'')
                 else acc))
      | _ \<Rightarrow> Inr (fp_lit F ''0.0''))"

definition agg_column :: "fp_ops \<Rightarrow> record_batch list \<Rightarrow> agg_expr \<Rightarrow> arrow_array outcome" where
  "agg_column F batches a =
     (if ag_func a = ''count''
      then Inr (Int64Array [Some (wrap_i64 (int (sum_list (map num_rows batches))))])
      else if ag_func a \<in> {''sum'', ''avg'', ''min'', ''max''}
      then and_then (compute_scalar_agg F batches (ag_func a) (ag_arg a)) (\<lambda>v. Inr (Float64Array [Some v]))
      else Inr (Float64Array [Some (fp_lit F ''0.0'')]))"

section \<open>Groups\<close>

record group_state =
  gs_count :: nat
  gs_sum :: f64
  gs_min :: f64
  gs_max :: f64

definition group_default :: "fp_ops \<Rightarrow> group_state" where
  "group_default F = \<lparr>gs_count = 0, gs_sum = fp_lit F ''0.0'', gs_min = fp_lit F ''0.0'', gs_max = fp_lit F ''0.0''\<rparr>"

definition accumulate :: "fp_ops \<Rightarrow> string \<Rightarrow> f64 option \<Rightarrow> group_state \<Rightarrow> group_state" where
  "accumulate F func val s =
     (case val of
        None \<Rightarrow> s
      | Some v \<Rightarrow>
          if func = ''sum'' \<or> func = ''avg'' then s\<lparr>gs_sum := fp_add F (gs_sum s) v\<rparr>
          else if func = ''min'' then (if fp_lt F v (gs_min s) \<or> gs_count s = 0 then s\<lparr>gs_min := v\<rparr> else s)
          else if func = ''max'' then (if fp_lt F (gs_max s) v \<or> gs_count s = 0 then s\<lparr>gs_max := v\<rparr> else s)
          else s)"

definition group_finalize :: "fp_ops \<Rightarrow> string \<Rightarrow> group_state \<Rightarrow> f64" where
  "group_finalize F func s =
     (if func = ''count'' then fp_of_u64 F (word_of_nat (gs_count s))
      else if func = ''sum'' then gs_sum s
      else if func = ''avg'' then
        (if gs_count s > 0 then fp_div F (gs_sum s) (fp_of_u64 F (word_of_nat (gs_count s))) else fp_lit F ''0.0'')
      else if func = ''min'' then gs_min s
      else if func = ''max'' then gs_max s
      else fp_lit F ''0.0'')"

definition extract_group_key :: "record_batch \<Rightarrow> nat \<Rightarrow> string outcome" where
  "extract_group_key b row =
     (case rb_columns b of
        [] \<Rightarrow> Inl Panic
      | UInt64Array xs # _ \<Rightarrow> Inr (dec_string (unat (slot 0 (xs ! row))))
      | _ \<Rightarrow> Inr ''?'')"

definition extract_f64 :: "fp_ops \<Rightarrow> record_batch \<Rightarrow> nat \<Rightarrow> expr option \<Rightarrow> f64 option" where
  "extract_f64 F b row col_expr =
     (case col_expr of
        Some (E_Column _ col_name) \<Rightarrow>
          (case column_by_name b col_name of
             Some (Float64Array xs) \<Rightarrow> Some (slot 0 (xs ! row))
           | Some (Int64Array xs) \<Rightarrow> Some (fp_of_i64 F (slot 0 (xs ! row)))
           | Some (UInt64Array xs) \<Rightarrow> Some (fp_of_u64 F (slot 0 (xs ! row)))
           | _ \<Rightarrow> None)
      | _ \<Rightarrow> None)"

definition group_put :: "string \<Rightarrow> group_state \<Rightarrow> (string \<times> group_state) list \<Rightarrow> (string \<times> group_state) list" where
  "group_put k s gs =
     (if k \<in> set (map fst gs) then map (\<lambda>(k', s'). if k' = k then (k, s) else (k', s')) gs else gs @ [(k, s)])"

definition group_row ::
  "fp_ops \<Rightarrow> agg_expr list \<Rightarrow> record_batch \<Rightarrow> nat \<Rightarrow> (string \<times> group_state) list \<Rightarrow> (string \<times> group_state) list outcome" where
  "group_row F aggs b row groups =
     and_then (extract_group_key b row) (\<lambda>key.
       let s = (case map_of groups key of None \<Rightarrow> group_default F | Some s \<Rightarrow> s);
           s = fold (\<lambda>a. accumulate F (ag_func a) (extract_f64 F b row (ag_arg a))) aggs s in
       Inr (group_put key (s\<lparr>gs_count := Suc (gs_count s)\<rparr>) groups))"

fun group_rows ::
  "fp_ops \<Rightarrow> agg_expr list \<Rightarrow> (record_batch \<times> nat) list \<Rightarrow> (string \<times> group_state) list \<Rightarrow> (string \<times> group_state) list outcome" where
  "group_rows F aggs [] groups = Inr groups"
| "group_rows F aggs ((b, row) # rest) groups = and_then (group_row F aggs b row groups) (group_rows F aggs rest)"

definition batch_positions :: "record_batch list \<Rightarrow> (record_batch \<times> nat) list" where
  "batch_positions bs = concat (map (\<lambda>b. map (\<lambda>i. (b, i)) [0..<num_rows b]) bs)"

definition group_columns :: "query_env \<Rightarrow> expr list \<Rightarrow> agg_expr list \<Rightarrow> (string \<times> group_state) list \<Rightarrow> arrow_array list" where
  "group_columns Q keys aggs groups =
     (let order = q_iter Q (map fst groups);
          state = (\<lambda>k. case map_of groups k of Some s \<Rightarrow> s | None \<Rightarrow> group_default (q_fp Q)) in
      (case keys of [] \<Rightarrow> [] | _ # ks \<Rightarrow> StringArray (map Some order) # map (\<lambda>_. StringArray []) ks)
    @ map (\<lambda>a. Float64Array (map (\<lambda>k. Some (group_finalize (q_fp Q) (ag_func a) (state k))) order)) aggs)"

section \<open>The operator's computation\<close>

definition aggregate_batches :: "query_env \<Rightarrow> expr list \<Rightarrow> agg_expr list \<Rightarrow> record_batch list \<Rightarrow> record_batch outcome" where
  "aggregate_batches Q keys aggs batches =
     (if batches = [] then Inr (batch_new_empty (agg_schema keys aggs))
      else if keys = [] then
        and_then (collect_r (agg_column (q_fp Q) batches) aggs) (\<lambda>cols.
          arrow_result (q_try_new Q (agg_schema keys aggs) cols))
      else
        and_then (group_rows (q_fp Q) aggs (batch_positions batches) []) (\<lambda>groups.
          arrow_result (q_try_new Q (agg_schema keys aggs) (group_columns Q keys aggs groups))))"

end
