(* ===== verification/Executor.thy ===== *)
theory Executor
  imports Aggregate Engine
begin

text \<open>
  The pull-based executor (\<open>infralens-query/src/executor/\<close>): the scan over the SSTables of
  the engine, the filter, limit, sort and aggregate operators, and the construction of the
  operator tree from a plan. Polling an operator is a function of its state with fuel: \<open>None\<close>
  is a loop that did not return. \<open>pull_all\<close> is the loop that polls until the stream ends.
\<close>

section \<open>Scan\<close>

definition apply_predicate :: "query_env \<Rightarrow> record_batch \<Rightarrow> expr \<Rightarrow> record_batch outcome" where
  "apply_predicate Q batch pred =
     and_then (eval_filter Q batch pred) (\<lambda>m. arrow_result (ar_filter (q_arrow Q) batch m))"

definition signal_for_table :: "string \<Rightarrow> u8 outcome" where
  "signal_for_table table =
     (if table = ''logs'' then Inr 0
      else if table = ''metrics'' then Inr 1
      else if table = ''traces'' then Inr 2
      else Inl (Err (QBind table)))"

definition infralens_storage_schema_for :: "string \<Rightarrow> schema outcome" where
  "infralens_storage_schema_for table =
     (if table = ''logs'' then Inr log_schema
      else if table = ''metrics'' then Inr metric_schema
      else if table = ''traces'' then Inr span_schema
      else Inl (Err (QBind table)))"

fun load_items :: "query_env \<Rightarrow> expr option \<Rightarrow> (storage_error + record_batch) list \<Rightarrow> record_batch list outcome" where
  "load_items Q pred [] = Inr []"
| "load_items Q pred (item # items) =
     and_then (map_err (\<lambda>e. Err (QExecution (ReadFailed e))) item) (\<lambda>batch.
       case pred of
         Some p \<Rightarrow>
           and_then (apply_predicate Q batch p) (\<lambda>filtered.
             and_then (load_items Q pred items) (\<lambda>rest.
               Inr (if num_rows filtered > 0 then filtered # rest else rest)))
       | None \<Rightarrow> and_then (load_items Q pred items) (\<lambda>rest. Inr (batch # rest)))"

fun load_paths ::
  "query_env \<Rightarrow> 'w storage_env \<Rightarrow> expr option \<Rightarrow> nat \<Rightarrow> fs \<Rightarrow> path list \<Rightarrow> record_batch list outcome" where
  "load_paths Q E pred batch_size fs [] = Inr []"
| "load_paths Q E pred batch_size fs (p # ps) =
     and_then (map_err (\<lambda>e. Err (QExecution (ReadFailed e))) (read_parquet E p batch_size fs)) (\<lambda>items.
       and_then (load_items Q pred items) (\<lambda>bs.
         and_then (load_paths Q E pred batch_size fs ps) (\<lambda>rest. Inr (bs @ rest))))"

fun retain_limit :: "nat \<Rightarrow> nat \<Rightarrow> record_batch list \<Rightarrow> record_batch list" where
  "retain_limit seen limit [] = []"
| "retain_limit seen limit (b # bs) =
     (if seen \<ge> limit then retain_limit seen limit bs
      else b # retain_limit (seen + num_rows b) limit bs)"

definition load_batches ::
  "query_env \<Rightarrow> 'w storage_env \<Rightarrow> scan_op \<Rightarrow> nat \<Rightarrow> fs \<Rightarrow> 'c storage_engine \<Rightarrow> record_batch list outcome" where
  "load_batches Q E op batch_size fs e =
     and_then (signal_for_table (so_table op)) (\<lambda>signal.
       and_then (load_paths Q E (so_predicate op) batch_size fs
                   (sstable_paths_for_signal signal (so_partition_filter op) e)) (\<lambda>all.
         Inr (case so_limit op of None \<Rightarrow> all | Some limit \<Rightarrow> retain_limit 0 (unat limit) all)))"

section \<open>Sorting\<close>

fun sort_columns :: "record_batch \<Rightarrow> (expr \<times> bool) list \<Rightarrow> sort_column list" where
  "sort_columns b [] = []"
| "sort_columns b ((E_Column _ name, asc) # ks) =
     (case column_by_name b name of
        Some c \<Rightarrow> \<lparr>sc_values = c, sc_descending = \<not> asc, sc_nulls_first = False\<rparr> # sort_columns b ks
      | None \<Rightarrow> sort_columns b ks)"
| "sort_columns b (_ # ks) = sort_columns b ks"

definition sort_batches :: "query_env \<Rightarrow> (expr \<times> bool) list \<Rightarrow> record_batch list \<Rightarrow> record_batch list outcome" where
  "sort_batches Q keys batches =
     (case batches of
        [] \<Rightarrow> Inr []
      | first # _ \<Rightarrow>
          and_then (arrow_result (ar_concat (q_arrow Q) (rb_schema first) batches)) (\<lambda>cat.
            let cols = sort_columns cat keys in
            if cols = [] then Inr [cat]
            else and_then (arrow_result (ar_lexsort (q_arrow Q) cols)) (\<lambda>indices.
              and_then (arrow_result (ar_take (q_arrow Q) cat indices)) (\<lambda>sorted. Inr [sorted]))))"

section \<open>Operators\<close>

datatype operator =
    OScan schema "record_batch list" nat
  | OFilter operator expr
  | OLimit operator u64 u64
  | OSort "operator option" "(expr \<times> bool) list" "record_batch list option"
  | OAggregate "operator option" "expr list" "agg_expr list" schema "record_batch option"

fun op_schema :: "operator \<Rightarrow> schema" where
  "op_schema (OScan sch _ _) = sch"
| "op_schema (OFilter c _) = op_schema c"
| "op_schema (OLimit c _ _) = op_schema c"
| "op_schema (OSort (Some c) _ _) = op_schema c"
| "op_schema (OSort None _ res) = (case res of Some (b # _) \<Rightarrow> rb_schema b | _ \<Rightarrow> [])"
| "op_schema (OAggregate _ _ _ sch _) = sch"

definition limit_batch :: "query_env \<Rightarrow> record_batch \<Rightarrow> u64 \<Rightarrow> u64 \<Rightarrow> record_batch \<times> u64" where
  "limit_batch Q batch remaining skip =
     (let batch = (if skip > 0 then ar_slice (q_arrow Q) batch (unat skip) (num_rows batch - unat skip) else batch);
          take_n = min (word_of_nat (num_rows batch)) remaining in
      (ar_slice (q_arrow Q) batch 0 (unat take_n), remaining - take_n))"

text \<open>The next batch of an operator that holds its result.\<close>

definition scan_next :: "schema \<Rightarrow> record_batch list \<Rightarrow> nat \<Rightarrow> record_batch option \<times> operator" where
  "scan_next sch batches sz =
     (case batches of [] \<Rightarrow> (None, OScan sch [] sz) | b # bs \<Rightarrow> (Some b, OScan sch bs sz))"

definition sort_next :: "(expr \<times> bool) list \<Rightarrow> record_batch list option \<Rightarrow> record_batch option \<times> operator" where
  "sort_next keys res =
     (case res of Some (b # bs) \<Rightarrow> (Some b, OSort None keys (Some bs)) | _ \<Rightarrow> (None, OSort None keys res))"

definition aggregate_next ::
  "expr list \<Rightarrow> agg_expr list \<Rightarrow> schema \<Rightarrow> record_batch option \<Rightarrow> record_batch option \<times> operator" where
  "aggregate_next keys aggs sch res = (res, OAggregate None keys aggs sch None)"

text \<open>The loop around a child: poll until it returns no batch.\<close>

fun pull_all ::
  "(nat \<Rightarrow> 's \<Rightarrow> ('b option \<times> 's) outcome option) \<Rightarrow> nat \<Rightarrow> 's \<Rightarrow> 'b list outcome option" where
  "pull_all poll 0 s = None"
| "pull_all poll (Suc n) s =
     (case poll n s of
        None \<Rightarrow> None
      | Some (Inl f) \<Rightarrow> Some (Inl f)
      | Some (Inr (None, _)) \<Rightarrow> Some (Inr [])
      | Some (Inr (Some b, s')) \<Rightarrow>
          (case pull_all poll n s' of
             None \<Rightarrow> None
           | Some r \<Rightarrow> Some (and_then r (\<lambda>bs. Inr (b # bs)))))"

lemma pull_all_cong [fundef_cong]:
  assumes "n = n'" "s = s'" "\<And>m t. m < n' \<Longrightarrow> p m t = q m t"
  shows "pull_all p n s = pull_all q n' s'"
proof -
  have "k \<le> n' \<Longrightarrow> pull_all p k t = pull_all q k t" for k t
  proof (induction k arbitrary: t)
    case (Suc k)
    then have "p k t = q k t" using assms(3) by simp
    moreover have "pull_all p k u = pull_all q k u" for u using Suc by simp
    ultimately show ?case by (simp split: option.split sum.split prod.split)
  qed simp
  then show ?thesis using assms(1,2) by simp
qed

function poll_next :: "query_env \<Rightarrow> nat \<Rightarrow> operator \<Rightarrow> (record_batch option \<times> operator) outcome option" where
  "poll_next Q n op =
     (case n of
        0 \<Rightarrow> None
      | Suc n \<Rightarrow>
          (case op of
             OScan sch batches sz \<Rightarrow> Some (Inr (scan_next sch batches sz))
           | OFilter child predicate \<Rightarrow>
               (case poll_next Q n child of
                  None \<Rightarrow> None
                | Some (Inl f) \<Rightarrow> Some (Inl f)
                | Some (Inr (None, child')) \<Rightarrow> Some (Inr (None, OFilter child' predicate))
                | Some (Inr (Some batch, child')) \<Rightarrow>
                    (case apply_predicate Q batch predicate of
                       Inl f \<Rightarrow> Some (Inl f)
                     | Inr out \<Rightarrow>
                         if num_rows out > 0 then Some (Inr (Some out, OFilter child' predicate))
                         else poll_next Q n (OFilter child' predicate)))
           | OLimit child remaining skip \<Rightarrow>
               if remaining = 0 then Some (Inr (None, OLimit child remaining skip))
               else
                 (case poll_next Q n child of
                    None \<Rightarrow> None
                  | Some (Inl f) \<Rightarrow> Some (Inl f)
                  | Some (Inr (None, child')) \<Rightarrow> Some (Inr (None, OLimit child' remaining skip))
                  | Some (Inr (Some batch, child')) \<Rightarrow>
                      let nrows = word_of_nat (num_rows batch) in
                      if skip \<ge> nrows then poll_next Q n (OLimit child' remaining (skip - nrows))
                      else case limit_batch Q batch remaining skip of
                        (out, remaining') \<Rightarrow> Some (Inr (Some out, OLimit child' remaining' 0)))
           | OSort (Some child) keys res \<Rightarrow>
               (case pull_all (poll_next Q) n child of
                  None \<Rightarrow> None
                | Some r \<Rightarrow>
                    Some (and_then r (\<lambda>batches. and_then (sort_batches Q keys batches) (\<lambda>res'.
                      Inr (sort_next keys (Some res'))))))
           | OSort None keys res \<Rightarrow> Some (Inr (sort_next keys res))
           | OAggregate (Some child) keys aggs sch res \<Rightarrow>
               (case pull_all (poll_next Q) n child of
                  None \<Rightarrow> None
                | Some r \<Rightarrow>
                    Some (and_then r (\<lambda>batches. and_then (aggregate_batches Q keys aggs batches) (\<lambda>out.
                      Inr (aggregate_next keys aggs sch (Some out))))))
           | OAggregate None keys aggs sch res \<Rightarrow> Some (Inr (aggregate_next keys aggs sch res))))"
  by pat_completeness auto
termination
  by (relation "measure (\<lambda>(Q, n, op). n)") auto

declare poll_next.simps [simp del]

text \<open>A bound on the polls an operator can still make, its own and those of its children.\<close>

fun poll_bound :: "operator \<Rightarrow> nat" where
  "poll_bound (OScan _ bs _) = length bs + 1"
| "poll_bound (OFilter c _) = poll_bound c + 1"
| "poll_bound (OLimit c _ _) = poll_bound c + 1"
| "poll_bound (OSort (Some c) _ _) = poll_bound c + 3"
| "poll_bound (OSort None _ res) = (case res of Some bs \<Rightarrow> length bs + 1 | None \<Rightarrow> 1)"
| "poll_bound (OAggregate (Some c) _ _ _ _) = poll_bound c + 3"
| "poll_bound (OAggregate None _ _ _ res) = (case res of Some _ \<Rightarrow> 2 | None \<Rightarrow> 1)"

section \<open>Building the tree\<close>

fun build_logical ::
  "query_env \<Rightarrow> 'w storage_env \<Rightarrow> logical_plan \<Rightarrow> nat \<Rightarrow> fs \<Rightarrow> 'c storage_engine \<Rightarrow> operator outcome" where
  "build_logical Q E (LScan scan) batch_size fs e =
     and_then (infralens_storage_schema_for (so_table scan)) (\<lambda>sch.
       and_then (load_batches Q E scan batch_size fs e) (\<lambda>batches. Inr (OScan sch batches batch_size)))"
| "build_logical Q E (LFilter predicate input) batch_size fs e =
     and_then (build_logical Q E input batch_size fs e) (\<lambda>child. Inr (OFilter child predicate))"
| "build_logical Q E (LAggregate keys aggs input) batch_size fs e =
     and_then (build_logical Q E input batch_size fs e) (\<lambda>child.
       Inr (OAggregate (Some child) keys aggs (agg_schema keys aggs) None))"
| "build_logical Q E (LSort keys input) batch_size fs e =
     and_then (build_logical Q E input batch_size fs e) (\<lambda>child. Inr (OSort (Some child) keys None))"
| "build_logical Q E (LLimit n skip input) batch_size fs e =
     and_then (build_logical Q E input batch_size fs e) (\<lambda>child. Inr (OLimit child n skip))"
| "build_logical Q E (LProject _ input) batch_size fs e = build_logical Q E input batch_size fs e"
| "build_logical Q E (LJoin _ _ _ _) batch_size fs e = exec_fail JoinUnsupported"

definition build ::
  "query_env \<Rightarrow> 'w storage_env \<Rightarrow> physical_plan \<Rightarrow> fs \<Rightarrow> 'c storage_engine \<Rightarrow> operator outcome" where
  "build Q E plan fs e = build_logical Q E (pp_logical plan) (pp_batch_size plan) fs e"

end
