(* ===== verification/Eval_Rows.thy ===== *)
theory Eval_Rows
  imports Eval
begin

text \<open>
  A row-at-a-time semantics of expressions, and the proof that the vectorised evaluator computes
  it: the array of an expression over a batch holds, row by row, the value of the expression on
  that row. It covers the expressions whose value on a row depends on that row only.
\<close>

section \<open>Values of a row\<close>

fun literal_cell :: "literal \<Rightarrow> cell" where
  "literal_cell (L_Int n) = CInt64 n"
| "literal_cell (L_Float f) = CFloat64 f"
| "literal_cell (L_Str s) = CUtf8 s"
| "literal_cell (L_Bool b) = CBoolean b"
| "literal_cell L_Null = CNull"
| "literal_cell (L_IntervalNs n) = CInt64 n"

definition cell_bool2 :: "(bool \<Rightarrow> bool \<Rightarrow> bool) \<Rightarrow> cell \<Rightarrow> cell \<Rightarrow> cell" where
  "cell_bool2 f x y = (case (x, y) of (CBoolean a, CBoolean b) \<Rightarrow> CBoolean (f a b) | _ \<Rightarrow> CNull)"

definition cell_not :: "cell \<Rightarrow> cell" where
  "cell_not x = (case x of CBoolean a \<Rightarrow> CBoolean (\<not> a) | _ \<Rightarrow> CNull)"

definition cell_cmp :: "binop \<Rightarrow> cell \<Rightarrow> cell \<Rightarrow> cell" where
  "cell_cmp op x y =
     (case (x, y) of
        (CUInt64 a, CUInt64 b) \<Rightarrow> CBoolean (ord_holds op (a < b) (a = b))
      | (CInt64 a, CInt64 b) \<Rightarrow> CBoolean (ord_holds op (a < b) (a = b))
      | (CFloat64 a, CFloat64 b) \<Rightarrow> CBoolean (ord_holds op (total_key a < total_key b) (a = b))
      | (CUtf8 a, CUtf8 b) \<Rightarrow> CBoolean (ord_holds op (text_less a b) (a = b))
      | _ \<Rightarrow> CNull)"

definition exact_int :: "binop \<Rightarrow> i64 \<Rightarrow> i64 \<Rightarrow> i64 option" where
  "exact_int op a b = (if op = Op_Mod then checked_rem a b else int_arith op a b)"

definition cell_arith :: "fp_ops \<Rightarrow> binop \<Rightarrow> cell \<Rightarrow> cell \<Rightarrow> cell" where
  "cell_arith F op x y =
     (case (x, y) of
        (CInt64 a, CInt64 b) \<Rightarrow> opt_cell CInt64 (exact_int op a b)
      | (CFloat64 a, CFloat64 b) \<Rightarrow> CFloat64 (float_arith F op a b)
      | _ \<Rightarrow> CNull)"

definition cell_neg :: "fp_ops \<Rightarrow> cell \<Rightarrow> cell" where
  "cell_neg F x =
     (case x of CInt64 n \<Rightarrow> CInt64 (wrap_i64 (- n)) | CFloat64 f \<Rightarrow> CFloat64 (fp_neg F f) | _ \<Rightarrow> CNull)"

definition cell_like :: "string \<Rightarrow> bool \<Rightarrow> cell \<Rightarrow> cell" where
  "cell_like pattern negated x =
     (let m = simple_like_match (case x of CUtf8 s \<Rightarrow> s | _ \<Rightarrow> []) (glob_to_regex pattern) in
      CBoolean (if negated then \<not> m else m))"

definition cell_binop :: "fp_ops \<Rightarrow> binop \<Rightarrow> cell \<Rightarrow> cell \<Rightarrow> cell" where
  "cell_binop F op x y =
     (if op = Op_And then cell_bool2 (\<and>) x y
      else if op = Op_Or then cell_bool2 (\<or>) x y
      else if is_cmp op then cell_cmp op x y
      else cell_arith F op x y)"

definition row_lookup :: "schema \<Rightarrow> cell list \<Rightarrow> string \<Rightarrow> cell" where
  "row_lookup sch row name = (case schema_index name sch of None \<Rightarrow> CNull | Some i \<Rightarrow> row ! i)"

fun row_eval :: "fp_ops \<Rightarrow> clock \<Rightarrow> schema \<Rightarrow> cell list \<Rightarrow> expr \<Rightarrow> cell"
and row_in :: "fp_ops \<Rightarrow> clock \<Rightarrow> schema \<Rightarrow> cell list \<Rightarrow> cell \<Rightarrow> cell \<Rightarrow> expr list \<Rightarrow> cell" where
  "row_eval F c sch row (E_Literal l) = literal_cell l"
| "row_eval F c sch row (E_Column _ name) = row_lookup sch row name"
| "row_eval F c sch row (E_BinOp op l r) =
     cell_binop F op (row_eval F (sub_clock 0 c) sch row l) (row_eval F (sub_clock 1 c) sch row r)"
| "row_eval F c sch row (E_UnaryOp op e) =
     (case op of
        Op_Neg \<Rightarrow> cell_neg F (row_eval F (sub_clock 0 c) sch row e)
      | Op_Not \<Rightarrow> cell_not (row_eval F (sub_clock 0 c) sch row e))"
| "row_eval F c sch row (E_IsNull e) = CBoolean (row_eval F (sub_clock 0 c) sch row e = CNull)"
| "row_eval F c sch row (E_IsNotNull e) = CBoolean (row_eval F (sub_clock 0 c) sch row e \<noteq> CNull)"
| "row_eval F c sch row (E_Between e low high) =
     (let v = row_eval F (sub_clock 0 c) sch row e in
      cell_bool2 (\<and>) (cell_cmp Op_GtEq v (row_eval F (sub_clock 1 c) sch row low))
        (cell_cmp Op_LtEq v (row_eval F (sub_clock 2 c) sch row high)))"
| "row_eval F c sch row (E_In e items) =
     row_in F (sub_clock 1 c) sch row (row_eval F (sub_clock 0 c) sch row e) (CBoolean False) items"
| "row_eval F c sch row (E_Like e pattern negated) = cell_like pattern negated (row_eval F (sub_clock 0 c) sch row e)"
| "row_eval F c sch row (E_Function name args) = (if name = ''now'' then CInt64 (c []) else CNull)"
| "row_eval F c sch row E_Now = CInt64 (c [])"
| "row_eval F c sch row (E_Interval ns) = CInt64 ns"
| "row_eval F c sch row _ = CNull"
| "row_in F c sch row v acc [] = acc"
| "row_in F c sch row v acc (item # items) =
     row_in F (sub_clock 1 c) sch row v
       (cell_bool2 (\<or>) acc (cell_cmp Op_Eq v (row_eval F (sub_clock 0 c) sch row item))) items"

fun numeric_literal :: "expr \<Rightarrow> bool" where
  "numeric_literal (E_Literal (L_Int _)) = True"
| "numeric_literal (E_Literal (L_Float _)) = True"
| "numeric_literal _ = False"

text \<open>The expressions evaluated row by row. A sign is taken in front of a literal only.\<close>

fun rowwise :: "expr \<Rightarrow> bool" where
  "rowwise (E_BinOp _ l r) = (rowwise l \<and> rowwise r)"
| "rowwise (E_UnaryOp op e) = (if op = Op_Neg then numeric_literal e else rowwise e)"
| "rowwise (E_IsNull e) = rowwise e"
| "rowwise (E_IsNotNull e) = rowwise e"
| "rowwise (E_Between e low high) = (rowwise e \<and> rowwise low \<and> rowwise high)"
| "rowwise (E_In e items) = (rowwise e \<and> (\<forall>i \<in> set items. rowwise i))"
| "rowwise (E_Like e _ _) = rowwise e"
| "rowwise (E_Function name _) = (name = ''now'')"
| "rowwise (E_TimeBucket _ _) = False"
| "rowwise (E_Rate _ _) = False"
| "rowwise (E_Delta _ _) = False"
| "rowwise (E_HistogramQuantile _ _ _) = False"
| "rowwise _ = True"

section \<open>Kernels, cell by cell\<close>

lemma map2_opt_cells:
  assumes "\<And>x y. opt_cell h (lift2 g x y) = k (opt_cell c x) (opt_cell d y)"
  shows "map (opt_cell h) (map2 (lift2 g) xs ys) = map2 k (map (opt_cell c) xs) (map (opt_cell d) ys)"
  using assms by (simp add: zip_map1 zip_map2 o_def case_prod_unfold)

lemma bool2_cells:
  "map (opt_cell CBoolean) (map2 (lift2 f) xs ys)
     = map2 (cell_bool2 f) (map (opt_cell CBoolean) xs) (map (opt_cell CBoolean) ys)"
  by (rule map2_opt_cells) (auto simp: lift2_def cell_bool2_def opt_cell_def split: option.split)

lemma not_cells: "map (opt_cell CBoolean) (map (map_option Not) xs) = map cell_not (map (opt_cell CBoolean) xs)"
  by (auto simp: cell_not_def opt_cell_def split: option.split)

lemma cell_cmp_cells:
  "opt_cell CBoolean (lift2 (\<lambda>a b. ord_holds op (a < b) (a = b)) x y) = cell_cmp op (opt_cell CUInt64 x) (opt_cell CUInt64 y)"
  "opt_cell CBoolean (lift2 (\<lambda>a b. ord_holds op (a < b) (a = b)) x' y') = cell_cmp op (opt_cell CInt64 x') (opt_cell CInt64 y')"
  "opt_cell CBoolean (lift2 (\<lambda>a b. ord_holds op (total_key a < total_key b) (a = b)) u v)
     = cell_cmp op (opt_cell CFloat64 u) (opt_cell CFloat64 v)"
  "opt_cell CBoolean (lift2 (\<lambda>a b. ord_holds op (text_less a b) (a = b)) s t) = cell_cmp op (opt_cell CUtf8 s) (opt_cell CUtf8 t)"
  by (auto simp: cell_cmp_def lift2_def opt_cell_def split: option.split)

lemma cmp_cells:
  assumes "comparable x y"
  shows "map (opt_cell CBoolean) (cmp_values op x y) = map2 (cell_cmp op) (array_cells x) (array_cells y)"
proof -
  consider a b where "x = UInt64Array a" "y = UInt64Array b" | a b where "x = Int64Array a" "y = Int64Array b"
    | a b where "x = Float64Array a" "y = Float64Array b" | a b where "x = StringArray a" "y = StringArray b"
    using assms by (cases x; cases y) (auto simp: comparable_def)
  then show ?thesis
    by cases (simp_all only: cmp_values_def prod.case arrow_array.case array_cells.simps
        map2_opt_cells [OF cell_cmp_cells(1)] map2_opt_cells [OF cell_cmp_cells(2)]
        map2_opt_cells [OF cell_cmp_cells(3)] map2_opt_cells [OF cell_cmp_cells(4)])
qed

lemma int_arith_cells:
  assumes "op \<noteq> Op_Mod"
  shows "map (opt_cell CInt64) (map (\<lambda>r. Option.bind r id) (int_results op xs ys))
     = map2 (cell_arith F op) (map (opt_cell CInt64) xs) (map (opt_cell CInt64) ys)"
proof -
  have "opt_cell CInt64 (Option.bind (lift2 (int_arith op) x y) id)
      = cell_arith F op (opt_cell CInt64 x) (opt_cell CInt64 y)" for x y
    using assms by (cases x; cases y) (simp_all add: lift2_def cell_arith_def exact_int_def)
  then show ?thesis by (simp add: int_results_def zip_map1 zip_map2 o_def case_prod_unfold)
qed

lemma float_arith_cells:
  "map (opt_cell CFloat64) (map2 (lift2 (float_arith F op)) xs ys)
     = map2 (cell_arith F op) (map (opt_cell CFloat64) xs) (map (opt_cell CFloat64) ys)"
  by (rule map2_opt_cells) (auto simp: lift2_def cell_arith_def opt_cell_def split: option.split)

section \<open>Evaluation, cell by cell\<close>

lemma as_boolean_Inr [result_simps]: "as_boolean e a = Inr v \<longleftrightarrow> a = BooleanArray v"
  by (cases a) (auto simp: as_boolean_def)

lemma compare_arrays_cells:
  assumes "arrow_spec F (q_arrow Q)" "compare_arrays Q op l r = Inr v"
  shows "map (opt_cell CBoolean) v = map2 (cell_cmp op) (array_cells l) (array_cells r)"
proof -
  have c: "is_cmp op" "comparable l r" "ar_cmp (q_arrow Q) op l r = Inr v"
    using assms(2) by (auto simp: compare_arrays_def result_simps split: if_splits)
  have "cmp_kernel_spec (q_arrow Q)" using assms(1) by (simp add: arrow_spec_def)
  then have "if array_len l = array_len r then ar_cmp (q_arrow Q) op l r = Inr (cmp_values op l r)
      else \<exists>e. ar_cmp (q_arrow Q) op l r = Inl e"
    using c(1,2) unfolding cmp_kernel_spec_def comparable_def by blast
  then have "v = cmp_values op l r" using c(3) by (auto split: if_splits)
  then show ?thesis using cmp_cells [OF c(2)] by simp
qed

lemma bool_kernel_cells:
  assumes "bool_kernel_spec k f" "k xs ys = Inr v"
  shows "map (opt_cell CBoolean) v = map2 (cell_bool2 f) (map (opt_cell CBoolean) xs) (map (opt_cell CBoolean) ys)"
proof -
  have "if length xs = length ys then k xs ys = Inr (map2 (lift2 f) xs ys) else \<exists>e. k xs ys = Inl e"
    using assms(1) unfolding bool_kernel_spec_def by blast
  then have "v = map2 (lift2 f) xs ys" using assms(2) by (auto split: if_splits)
  then show ?thesis by (simp only: bool2_cells)
qed

lemma arithmetic_arrays_cells:
  assumes "arrow_spec F (q_arrow Q)" "arithmetic_arrays Q op l r = Inr v"
  shows "array_cells v = map2 (cell_arith F op) (array_cells l) (array_cells r)"
proof -
  have op: "op \<in> {Op_Add, Op_Sub, Op_Mul, Op_Div}" "op \<noteq> Op_Mod" and ar: "ar_arith (q_arrow Q) op l r = Inr v"
    and ty: "array_data_type l = array_data_type r" "array_data_type l \<in> {DT_Int64, DT_Float64}"
    using assms(2) by (auto simp: arithmetic_arrays_def result_simps split: if_splits)
  have "arith_kernel_spec F (q_arrow Q)" using assms(1) by (simp add: arrow_spec_def)
  then have sp: "(\<forall>xs ys. if length xs = length ys \<and> Some None \<notin> set (int_results op xs ys)
         then ar_arith (q_arrow Q) op (Int64Array xs) (Int64Array ys)
                = Inr (Int64Array (map (\<lambda>r. Option.bind r id) (int_results op xs ys)))
         else \<exists>e. ar_arith (q_arrow Q) op (Int64Array xs) (Int64Array ys) = Inl e)"
    "(\<forall>xs ys. if length xs = length ys
         then ar_arith (q_arrow Q) op (Float64Array xs) (Float64Array ys)
                = Inr (Float64Array (map2 (lift2 (float_arith F op)) xs ys))
         else \<exists>e. ar_arith (q_arrow Q) op (Float64Array xs) (Float64Array ys) = Inl e)"
    using op(1) unfolding arith_kernel_spec_def by blast+
  consider xs ys where "l = Int64Array xs" "r = Int64Array ys" | xs ys where "l = Float64Array xs" "r = Float64Array ys"
    using ty by (cases l; cases r) auto
  then show ?thesis
  proof cases
    case 1
    then have "v = Int64Array (map (\<lambda>r. Option.bind r id) (int_results op xs ys))"
      using sp(1) [THEN spec, THEN spec, of xs ys] ar by (auto split: if_splits)
    then show ?thesis using 1 int_arith_cells [OF op(2), of xs ys F] by simp
  next
    case 2
    then have "v = Float64Array (map2 (lift2 (float_arith F op)) xs ys)"
      using sp(2) [THEN spec, THEN spec, of xs ys] ar by (auto split: if_splits)
    then show ?thesis using 2 float_arith_cells [of F op xs ys] by simp
  qed
qed

lemma apply_binop_cells:
  assumes "arrow_spec F (q_arrow Q)" "apply_binop Q op l r = Inr v"
  shows "array_cells v = map2 (cell_binop F op) (array_cells l) (array_cells r)"
proof -
  have k: "bool_kernel_spec (ar_and (q_arrow Q)) (\<and>)" "bool_kernel_spec (ar_or (q_arrow Q)) (\<or>)"
    using assms(1) by (simp_all add: arrow_spec_def)
  consider "op = Op_And" | "op = Op_Or" | "op \<in> {Op_Add, Op_Sub, Op_Mul, Op_Div, Op_Mod}" | "is_cmp op"
    by (cases op) (auto simp: is_cmp_def)
  then show ?thesis
  proof cases
    case 1
    then obtain a b c where "l = BooleanArray a" "r = BooleanArray b" "v = BooleanArray c"
      "ar_and (q_arrow Q) a b = Inr c"
      using assms(2) by (auto simp: apply_binop_def result_simps)
    then show ?thesis using bool_kernel_cells [OF k(1), of a b c] 1 by (simp add: cell_binop_def [abs_def])
  next
    case 2
    then obtain a b c where "l = BooleanArray a" "r = BooleanArray b" "v = BooleanArray c"
      "ar_or (q_arrow Q) a b = Inr c"
      using assms(2) by (auto simp: apply_binop_def result_simps)
    then show ?thesis using bool_kernel_cells [OF k(2), of a b c] 2 by (simp add: cell_binop_def [abs_def])
  next
    case 3
    then have "cell_binop F op = cell_arith F op" by (auto simp: cell_binop_def is_cmp_def fun_eq_iff)
    moreover have "arithmetic_arrays Q op l r = Inr v"
      using 3 assms(2) by (auto simp: apply_binop_def)
    ultimately show ?thesis using arithmetic_arrays_cells [OF assms(1)] by simp
  next
    case 4
    then have "cell_binop F op = cell_cmp op" by (auto simp: cell_binop_def is_cmp_def fun_eq_iff)
    moreover obtain c where "v = BooleanArray c" "compare_arrays Q op l r = Inr c"
      using 4 assms(2) by (auto simp: apply_binop_def is_cmp_def result_simps)
    ultimately show ?thesis using compare_arrays_cells [OF assms(1), of op l r c] by simp
  qed
qed

lemma negate_cells:
  assumes "numeric_literal e" "eval_expr Q b c e = Inr arr" "negate_numeric (q_fp Q) arr = Inr v"
  shows "array_cells v = map (cell_neg (q_fp Q)) (array_cells arr)"
  using assms by (cases e rule: numeric_literal.cases)
    (auto simp: eval_literal_def negate_numeric_def cell_neg_def slot_def opt_cell_def)

lemma column_cells:
  assumes "batch_valid b" "eval_column b name = Inr c"
  shows "array_cells c = map (\<lambda>row. row_lookup (rb_schema b) row name) (batch_rows b)"
proof -
  obtain i where i: "schema_index name (rb_schema b) = Some i" "i < length (rb_columns b)" "c = rb_columns b ! i"
    using assms(2) by (auto simp: eval_column_def column_by_name_def split: option.splits if_splits)
  have "array_len c = num_rows b"
    using i batch_valid_lens [OF assms(1)] by simp
  then show ?thesis
    using i by (intro nth_equalityI) (simp_all add: array_len_def row_lookup_def batch_rows_def batch_row_def)
qed

lemma like_cells: "eval_like pattern negated arr = Inr v \<Longrightarrow> array_cells v = map (cell_like pattern negated) (array_cells arr)"
  by (cases arr) (auto simp: eval_like_def cell_like_def Let_def slot_def opt_cell_def split: option.split)

lemma map2_same: "map2 h (map f xs) (map g xs) = map (\<lambda>x. h (f x) (g x)) xs"
  by (induction xs) auto

text \<open>Every element of an \<open>IN\<close> list is compared with the value and joined to the mask.\<close>

lemma eval_in_cells:
  assumes "arrow_spec F (q_arrow Q)" "array_cells val = map v rows"
    and "\<And>i arr c. i \<in> set items \<Longrightarrow> eval_expr Q b c i = Inr arr \<Longrightarrow> array_cells arr = map (\<lambda>row. row_eval F c sch row i) rows"
    and "map (opt_cell CBoolean) msk = map m rows" "eval_in Q b c val msk items = Inr out"
  shows "map (opt_cell CBoolean) out = map (\<lambda>row. row_in F c sch row (v row) (m row) items) rows"
  using assms(3,4,5)
proof (induction items arbitrary: msk m c)
  case (Cons i items)
  obtain arr eq msk' where s: "eval_expr Q b (sub_clock 0 c) i = Inr arr" "compare_arrays Q Op_Eq val arr = Inr eq"
    "ar_or (q_arrow Q) msk eq = Inr msk'" "eval_in Q b (sub_clock 1 c) val msk' items = Inr out"
    using Cons.prems(3) by (auto simp: result_simps)
  have "bool_kernel_spec (ar_or (q_arrow Q)) (\<or>)" using assms(1) by (simp add: arrow_spec_def)
  then have "map (opt_cell CBoolean) msk'
      = map (\<lambda>row. cell_bool2 (\<or>) (m row) (cell_cmp Op_Eq (v row) (row_eval F (sub_clock 0 c) sch row i))) rows"
    using bool_kernel_cells [of "ar_or (q_arrow Q)" "(\<or>)" msk eq msk'] s(3)
      compare_arrays_cells [OF assms(1) s(2)] Cons.prems(1) [OF _ s(1)]
      Cons.prems(2) assms(2) by (simp add: map2_same)
  then show ?case using Cons.IH [OF Cons.prems(1) _ s(4)] by simp
qed simp

lemma eval_expr_cells:
  assumes "arrow_spec (q_fp Q) (q_arrow Q)" "batch_valid b" "rowwise e" "eval_expr Q b c e = Inr arr"
  shows "array_cells arr = map (\<lambda>row. row_eval (q_fp Q) c (rb_schema b) row e) (batch_rows b)"
  using assms(3,4)
proof (induction e arbitrary: arr c)
  case (E_Literal l)
  then show ?case
    by (cases l) (auto simp: eval_literal_def map_replicate_const)
next
  case (E_Column t n)
  then show ?case using column_cells [OF assms(2)] by simp
next
  case (E_BinOp op l r)
  then obtain x y where "eval_expr Q b (sub_clock 0 c) l = Inr x" "eval_expr Q b (sub_clock 1 c) r = Inr y" "apply_binop Q op x y = Inr arr"
    by (auto simp: result_simps)
  then show ?case
    using E_BinOp apply_binop_cells [OF assms(1), of op x y arr] by (simp add: map2_same)
next
  case (E_UnaryOp op e)
  obtain x where x: "eval_expr Q b (sub_clock 0 c) e = Inr x" using E_UnaryOp.prems(2) by (auto simp: result_simps)
  show ?case
  proof (cases op)
    case Op_Neg
    then have "numeric_literal e" "negate_numeric (q_fp Q) x = Inr arr"
      using E_UnaryOp.prems x by simp_all
    moreover from \<open>numeric_literal e\<close> have "rowwise e" by (cases e rule: numeric_literal.cases) auto
    ultimately show ?thesis
      using negate_cells [OF _ x] E_UnaryOp.IH [OF _ x] Op_Neg by (simp add: o_def)
  next
    case Op_Not
    then obtain v w where v: "x = BooleanArray v" "ar_not (q_arrow Q) v = Inr w" "arr = BooleanArray w"
      using E_UnaryOp.prems(2) x by (auto simp: result_simps)
    moreover have "not_kernel_spec (ar_not (q_arrow Q))" using assms(1) by (simp add: arrow_spec_def)
    ultimately have "w = map (map_option Not) v" by (simp add: not_kernel_spec_def)
    then have "array_cells arr = map cell_not (array_cells x)"
      unfolding v(1,3) array_cells.simps by (simp only: not_cells)
    then show ?thesis using E_UnaryOp.IH [OF _ x] E_UnaryOp.prems(1) Op_Not by (simp add: o_def)
  qed
next
  case (E_IsNull e)
  then show ?case by (auto simp: result_simps o_def)
next
  case (E_IsNotNull e)
  then show ?case by (auto simp: result_simps o_def)
next
  case (E_Between e low high)
  then obtain x l h ge le v where s: "eval_expr Q b (sub_clock 0 c) e = Inr x" "eval_expr Q b (sub_clock 1 c) low = Inr l"
    "eval_expr Q b (sub_clock 2 c) high = Inr h"
    "compare_arrays Q Op_GtEq x l = Inr ge" "compare_arrays Q Op_LtEq x h = Inr le"
    "ar_and (q_arrow Q) ge le = Inr v" "arr = BooleanArray v"
    by (auto simp: result_simps)
  have "bool_kernel_spec (ar_and (q_arrow Q)) (\<and>)" using assms(1) by (simp add: arrow_spec_def)
  then show ?case
    using bool_kernel_cells [of "ar_and (q_arrow Q)" "(\<and>)" ge le v] s(6) compare_arrays_cells [OF assms(1) s(4)] compare_arrays_cells [OF assms(1) s(5)]
      E_Between.IH(1) [OF _ s(1)] E_Between.IH(2) [OF _ s(2)] E_Between.IH(3) [OF _ s(3)] E_Between.prems(1) s(7)
    by (simp add: map2_same Let_def)
next
  case (E_In e items)
  then obtain x v where s: "eval_expr Q b (sub_clock 0 c) e = Inr x"
    "eval_in Q b (sub_clock 1 c) x (replicate (array_len x) (Some False)) items = Inr v" "arr = BooleanArray v"
    by (auto simp: result_simps)
  have x: "array_cells x = map (\<lambda>row. row_eval (q_fp Q) (sub_clock 0 c) (rb_schema b) row e) (batch_rows b)"
    using E_In.IH(1) [OF _ s(1)] E_In.prems(1) by simp
  then have init: "map (opt_cell CBoolean) (replicate (array_len x) (Some False))
      = map (\<lambda>_. CBoolean False) (batch_rows b)"
    by (simp add: array_len_def map_replicate_const)
  have item: "array_cells y = map (\<lambda>row. row_eval (q_fp Q) d (rb_schema b) row i) (batch_rows b)"
    if "i \<in> set items" "eval_expr Q b d i = Inr y" for i y d
    using E_In.IH(2) [OF that(1) _ that(2)] E_In.prems(1) that(1) by simp
  have "map (opt_cell CBoolean) v = map (\<lambda>row. row_eval (q_fp Q) c (rb_schema b) row (E_In e items)) (batch_rows b)"
    unfolding row_eval.simps by (rule eval_in_cells [OF assms(1) x _ init s(2)]) (rule item)
  then show ?case using s(3) by simp
next
  case (E_Like e p n)
  then show ?case using like_cells by (auto simp: result_simps o_def)
qed (auto simp: eval_literal_def map_replicate_const)

end
