(* ===== verification/Executor_Correct.thy ===== *)
theory Executor_Correct
  imports Executor Eval_Rows
begin

text \<open>
  What an operator delivers: a stream, the batches it yields and the failure that ends it, if
  any. The contract of the operator interface (\<open>PhysicalOperator\<close> in
  \<open>executor/mod.rs\<close>) is the locale \<open>physical_operator\<close>: polling returns the next batch
  of the stream, with less work left. The operators of the executor implement it, with a stream
  computed from the tree; the loops of the code therefore end.
\<close>

section \<open>The operator contract\<close>

type_synonym 'b batch_stream = "'b list \<times> failure option"

definition stream_result :: "'b batch_stream \<Rightarrow> 'b list outcome" where
  "stream_result st = (case snd st of None \<Rightarrow> Inr (fst st) | Some f \<Rightarrow> Inl f)"

definition poll_ok ::
  "(nat \<Rightarrow> 's \<Rightarrow> ('b option \<times> 's) outcome option) \<Rightarrow> ('s \<Rightarrow> 'b batch_stream) \<Rightarrow> ('s \<Rightarrow> nat) \<Rightarrow> nat \<Rightarrow> 's \<Rightarrow> bool" where
  "poll_ok poll stream need n s \<longleftrightarrow>
     (case stream s of
        ([], None) \<Rightarrow> (\<exists>s'. poll n s = Some (Inr (None, s')))
      | ([], Some f) \<Rightarrow> poll n s = Some (Inl f)
      | (b # bs, e) \<Rightarrow> (\<exists>s'. poll n s = Some (Inr (Some b, s')) \<and> stream s' = (bs, e) \<and> need s' < need s))"

lemma poll_okE:
  assumes "poll_ok poll stream need n s"
  obtains (ended) s' where "stream s = ([], None)" "poll n s = Some (Inr (None, s'))"
    | (failed) f where "stream s = ([], Some f)" "poll n s = Some (Inl f)"
    | (more) b bs e s' where "stream s = (b # bs, e)" "poll n s = Some (Inr (Some b, s'))"
        "stream s' = (bs, e)" "need s' < need s"
  using assms unfolding poll_ok_def by (auto split: prod.splits list.splits option.splits)

lemma poll_ok_transfer:
  assumes "poll m s = poll n t" "stream s = stream t" "need t \<le> need s" "poll_ok poll stream need n t"
  shows "poll_ok poll stream need m s"
  using assms(4)
proof (cases rule: poll_okE)
  case (more b bs e t')
  then have "need t' < need s" using assms(3) by simp
  then show ?thesis using more assms(1,2) by (auto simp: poll_ok_def)
qed (use assms(1,2) in \<open>simp_all add: poll_ok_def\<close>)

lemma pull_all_stream:
  assumes "\<And>m t. m < n \<Longrightarrow> need t \<le> m \<Longrightarrow> poll_ok poll stream need m t" "need s < n"
  shows "pull_all poll n s = Some (stream_result (stream s))"
  using assms
proof (induction n arbitrary: s)
  case (Suc n)
  have "poll_ok poll stream need n s" using Suc.prems by simp
  then show ?case
  proof (cases rule: poll_okE)
    case (more b bs e s')
    have "pull_all poll n s' = Some (stream_result (bs, e))"
      using Suc.IH [of s'] Suc.prems more(3,4) by simp
    then show ?thesis using more(1,2) by (simp add: stream_result_def split: option.split)
  qed (simp_all add: stream_result_def)
qed simp

locale physical_operator =
  fixes poll :: "nat \<Rightarrow> 's \<Rightarrow> ('b option \<times> 's) outcome option"
    and stream :: "'s \<Rightarrow> 'b batch_stream"
    and need :: "'s \<Rightarrow> nat"
  assumes polls: "need s \<le> n \<Longrightarrow> poll_ok poll stream need n s"
begin

lemma pulls_everything: "need s < n \<Longrightarrow> pull_all poll n s = Some (stream_result (stream s))"
  by (rule pull_all_stream) (rule polls)

lemma polls_in_order:
  assumes "need s \<le> n" "stream s = (b # bs, e)"
  shows "\<exists>s'. poll n s = Some (Inr (Some b, s')) \<and> stream s' = (bs, e)"
  using polls [OF assms(1)] assms(2) by (auto simp: poll_ok_def)

end

section \<open>Streams of the operators\<close>

fun filter_stream :: "query_env \<Rightarrow> expr \<Rightarrow> record_batch list \<Rightarrow> failure option \<Rightarrow> record_batch batch_stream" where
  "filter_stream Q p [] e = ([], e)"
| "filter_stream Q p (b # bs) e =
     (case apply_predicate Q b p of
        Inl f \<Rightarrow> ([], Some f)
      | Inr out \<Rightarrow>
          (case filter_stream Q p bs e of
             (cs, e') \<Rightarrow> (if num_rows out > 0 then out # cs else cs, e')))"

fun limit_stream :: "query_env \<Rightarrow> u64 \<Rightarrow> u64 \<Rightarrow> record_batch list \<Rightarrow> failure option \<Rightarrow> record_batch batch_stream" where
  "limit_stream Q remaining skip [] e = ([], if remaining = 0 then None else e)"
| "limit_stream Q remaining skip (b # bs) e =
     (if remaining = 0 then ([], None)
      else if skip \<ge> word_of_nat (num_rows b)
      then limit_stream Q remaining (skip - word_of_nat (num_rows b)) bs e
      else case limit_batch Q b remaining skip of
        (out, remaining') \<Rightarrow>
          (case limit_stream Q remaining' 0 bs e of (cs, e') \<Rightarrow> (out # cs, e')))"

definition collect_stream :: "(record_batch list \<Rightarrow> record_batch list outcome) \<Rightarrow> record_batch batch_stream \<Rightarrow> record_batch batch_stream" where
  "collect_stream f st =
     (case and_then (stream_result st) f of Inl e \<Rightarrow> ([], Some e) | Inr bs \<Rightarrow> (bs, None))"

fun op_stream :: "query_env \<Rightarrow> operator \<Rightarrow> record_batch batch_stream" where
  "op_stream Q (OScan sch bs sz) = (bs, None)"
| "op_stream Q (OFilter c p) = (case op_stream Q c of (bs, e) \<Rightarrow> filter_stream Q p bs e)"
| "op_stream Q (OLimit c remaining skip) = (case op_stream Q c of (bs, e) \<Rightarrow> limit_stream Q remaining skip bs e)"
| "op_stream Q (OSort (Some c) keys res) = collect_stream (sort_batches Q keys) (op_stream Q c)"
| "op_stream Q (OSort None keys res) = (case res of Some bs \<Rightarrow> (bs, None) | None \<Rightarrow> ([], None))"
| "op_stream Q (OAggregate (Some c) keys aggs sch res) =
     collect_stream (\<lambda>bs. and_then (aggregate_batches Q keys aggs bs) (\<lambda>b. Inr [b])) (op_stream Q c)"
| "op_stream Q (OAggregate None keys aggs sch res) = (case res of Some b \<Rightarrow> ([b], None) | None \<Rightarrow> ([], None))"

lemmas next_defs = scan_next_def sort_next_def aggregate_next_def

lemma sort_batches_length: "sort_batches Q keys bs = Inr res \<Longrightarrow> length res \<le> 1"
  by (auto simp: sort_batches_def result_simps Let_def split: list.splits if_splits)

lemma filter_step:
  assumes child: "\<And>c. poll_bound c \<le> n \<Longrightarrow> poll_ok (poll_next Q) (op_stream Q) poll_bound n c"
    and self: "\<And>c. poll_bound c < n \<Longrightarrow> poll_ok (poll_next Q) (op_stream Q) poll_bound n (OFilter c p)"
    and "poll_bound c \<le> n"
  shows "poll_ok (poll_next Q) (op_stream Q) poll_bound (Suc n) (OFilter c p)"
  using child [OF assms(3)]
proof (cases rule: poll_okE)
  case (more b bs e c')
  show ?thesis
  proof (cases "apply_predicate Q b p")
    case (Inl f)
    then show ?thesis using more by (simp add: poll_ok_def poll_next.simps [of Q "Suc n"])
  next
    case (Inr out)
    show ?thesis
    proof (cases "num_rows out > 0")
      case True
      then show ?thesis
        using more Inr by (simp add: poll_ok_def poll_next.simps [of Q "Suc n"] split: prod.split)
    next
      case False
      have "poll_next Q (Suc n) (OFilter c p) = poll_next Q n (OFilter c' p)"
        using more Inr False by (simp add: poll_next.simps [of Q "Suc n"])
      moreover have "op_stream Q (OFilter c p) = op_stream Q (OFilter c' p)"
        using more Inr False by (simp split: prod.split)
      moreover have "poll_bound (OFilter c' p) \<le> poll_bound (OFilter c p)" using more(4) by simp
      moreover have "poll_ok (poll_next Q) (op_stream Q) poll_bound n (OFilter c' p)"
        using self more(4) assms(3) by simp
      ultimately show ?thesis by (rule poll_ok_transfer)
    qed
  qed
qed (simp_all add: poll_ok_def poll_next.simps [of Q "Suc n"])

lemma limit_step:
  assumes child: "\<And>c. poll_bound c \<le> n \<Longrightarrow> poll_ok (poll_next Q) (op_stream Q) poll_bound n c"
    and self: "\<And>c k. poll_bound c < n \<Longrightarrow> poll_ok (poll_next Q) (op_stream Q) poll_bound n (OLimit c r k)"
    and "poll_bound c \<le> n"
  shows "poll_ok (poll_next Q) (op_stream Q) poll_bound (Suc n) (OLimit c r k)"
proof (cases "r = 0")
  case True
  then have "op_stream Q (OLimit c r k) = ([], None)"
    by (cases "op_stream Q c"; cases "fst (op_stream Q c)") auto
  then show ?thesis using True by (simp add: poll_ok_def poll_next.simps [of Q "Suc n"])
next
  case r: False
  show ?thesis using child [OF assms(3)]
  proof (cases rule: poll_okE)
    case (more b bs e c')
    show ?thesis
    proof (cases "word_of_nat (num_rows b) \<le> k")
      case False
      obtain out r' where "limit_batch Q b r k = (out, r')" by force
      then show ?thesis
        using more False r by (simp add: poll_ok_def poll_next.simps [of Q "Suc n"] Let_def split: prod.split)
    next
      case True
      let ?k = "k - word_of_nat (num_rows b)"
      have "poll_next Q (Suc n) (OLimit c r k) = poll_next Q n (OLimit c' r ?k)"
        using more True r by (simp add: poll_next.simps [of Q "Suc n"] Let_def)
      moreover have "op_stream Q (OLimit c r k) = op_stream Q (OLimit c' r ?k)"
        using more True r by simp
      moreover have "poll_bound (OLimit c' r ?k) \<le> poll_bound (OLimit c r k)" using more(4) by simp
      moreover have "poll_ok (poll_next Q) (op_stream Q) poll_bound n (OLimit c' r ?k)"
        using self more(4) assms(3) by simp
      ultimately show ?thesis by (rule poll_ok_transfer)
    qed
  qed (use r in \<open>simp_all add: poll_ok_def poll_next.simps [of Q "Suc n"]\<close>)
qed

lemma sort_step:
  assumes "pull_all (poll_next Q) n c = Some (stream_result (op_stream Q c))"
  shows "poll_ok (poll_next Q) (op_stream Q) poll_bound (Suc n) (OSort (Some c) keys res)"
proof (cases "and_then (stream_result (op_stream Q c)) (sort_batches Q keys)")
  case (Inl f)
  then consider "stream_result (op_stream Q c) = Inl f"
    | bs where "stream_result (op_stream Q c) = Inr bs" "sort_batches Q keys bs = Inl f"
    by (auto simp: and_then_Inl_iff)
  then show ?thesis
    using assms Inl by cases (simp_all add: poll_ok_def next_defs poll_next.simps [of Q "Suc n"] collect_stream_def)
next
  case (Inr out)
  then obtain bs where bs: "stream_result (op_stream Q c) = Inr bs" "sort_batches Q keys bs = Inr out"
    by (auto simp: result_simps)
  have "length out \<le> 1" using sort_batches_length [OF bs(2)] .
  then show ?thesis
    using assms bs by (cases out) (auto simp: poll_ok_def next_defs poll_next.simps [of Q "Suc n"] collect_stream_def)
qed

lemma aggregate_step:
  assumes "pull_all (poll_next Q) n c = Some (stream_result (op_stream Q c))"
  shows "poll_ok (poll_next Q) (op_stream Q) poll_bound (Suc n) (OAggregate (Some c) keys aggs sch res)"
proof (cases "stream_result (op_stream Q c)")
  case (Inl f)
  then show ?thesis
    using assms by (simp add: poll_ok_def next_defs poll_next.simps [of Q "Suc n"] collect_stream_def)
next
  case (Inr bs)
  then show ?thesis
    using assms by (cases "aggregate_batches Q keys aggs bs")
      (simp_all add: poll_ok_def next_defs poll_next.simps [of Q "Suc n"] collect_stream_def)
qed

lemma op_poll_step: "poll_bound op \<le> n \<Longrightarrow> poll_ok (poll_next Q) (op_stream Q) poll_bound n op"
proof (induction n arbitrary: op rule: less_induct)
  case (less n)
  obtain m where n: "n = Suc m"
    using less.prems by (cases n; cases op rule: poll_bound.cases) (auto split: option.splits)
  have IH: "poll_bound c \<le> k \<Longrightarrow> k < n \<Longrightarrow> poll_ok (poll_next Q) (op_stream Q) poll_bound k c" for c k
    using less.IH by blast
  have pull: "pull_all (poll_next Q) m c = Some (stream_result (op_stream Q c))" if "poll_bound c < m" for c
    using that n by (intro pull_all_stream [where need = poll_bound] IH) auto
  show ?case
  proof (cases op rule: poll_bound.cases)
    case (1 sch bs sz)
    then show ?thesis using n by (cases bs) (simp_all add: poll_ok_def next_defs poll_next.simps [of Q "Suc m"])
  next
    case (2 c p)
    then show ?thesis unfolding n 2 using less.prems n 2 by (intro filter_step IH) auto
  next
    case (3 c r k)
    then show ?thesis unfolding n 3 using less.prems n 3 by (intro limit_step IH) auto
  next
    case (4 c keys res)
    then show ?thesis unfolding n 4 using less.prems n 4 by (intro sort_step pull) auto
  next
    case (5 keys res)
    then show ?thesis
      using n by (cases res; cases "the res") (simp_all add: poll_ok_def next_defs poll_next.simps [of Q "Suc m"])
  next
    case (6 c keys aggs sch res)
    then show ?thesis unfolding n 6 using less.prems n 6 by (intro aggregate_step pull) auto
  next
    case (7 keys aggs sch res)
    then show ?thesis using n by (cases res) (simp_all add: poll_ok_def next_defs poll_next.simps [of Q "Suc m"])
  qed
qed

interpretation po: physical_operator "poll_next Q" "op_stream Q" poll_bound for Q
  by unfold_locales (rule op_poll_step)

end
