(* ===== verification/Streams.thy ===== *)
theory Streams
  imports Executor_Correct
begin

text \<open>
  The rows the operators deliver. A batch well formed for a schema is filtered, limited and
  sorted row by row as the relational operator prescribes, however its rows are cut into batches.
\<close>

section \<open>Well-formed batches\<close>

definition batches_of :: "schema \<Rightarrow> record_batch list \<Rightarrow> bool" where
  "batches_of sch bs \<longleftrightarrow> (\<forall>b \<in> set bs. batch_valid b \<and> rb_schema b = sch)"

lemma batches_of_simps [simp]:
  "batches_of sch []" "batches_of sch (b # bs) \<longleftrightarrow> batch_valid b \<and> rb_schema b = sch \<and> batches_of sch bs"
  "batches_of sch (bs @ cs) \<longleftrightarrow> batches_of sch bs \<and> batches_of sch cs"
  by (auto simp: batches_of_def)

text \<open>What it takes of the environment: the kernels keep their promises. The clock may read
  anything.\<close>

definition query_env_ok :: "query_env \<Rightarrow> bool" where
  "query_env_ok Q \<longleftrightarrow> arrow_spec (q_fp Q) (q_arrow Q) \<and> arrow_try_new_spec (q_try_new Q)"

definition row_holds :: "query_env \<Rightarrow> clock \<Rightarrow> schema \<Rightarrow> expr \<Rightarrow> cell list \<Rightarrow> bool" where
  "row_holds Q c sch p row \<longleftrightarrow> row_eval (q_fp Q) c sch row p = CBoolean True"

section \<open>Filter\<close>

lemma kept_filter: "kept rows (map f rows) = filter (\<lambda>r. f r = Some True) rows"
  by (induction rows) (auto simp: kept_def)

lemma opt_cell_true: "opt_cell CBoolean x = CBoolean True \<longleftrightarrow> x = Some True"
  by (cases x) auto

lemma apply_predicate_rows:
  assumes "query_env_ok Q" "batch_valid b" "rowwise p" "apply_predicate Q b p = Inr out"
  shows "batch_valid out \<and> rb_schema out = rb_schema b
    \<and> batch_rows out = filter (row_holds Q (q_now Q b) (rb_schema b) p) (batch_rows b)"
proof -
  obtain m where m: "eval_expr Q b (q_now Q b) p = Inr (BooleanArray m)" "ar_filter (q_arrow Q) b m = Inr out"
    using assms(4) by (auto simp: apply_predicate_def eval_filter_def result_simps)
  have "map (opt_cell CBoolean) m = map (\<lambda>row. row_eval (q_fp Q) (q_now Q b) (rb_schema b) row p) (batch_rows b)"
    using eval_expr_cells [OF _ assms(2,3) m(1)] assms(1) by (simp add: query_env_ok_def)
  then have len: "length m = num_rows b"
    and cells: "\<And>i. i < num_rows b \<Longrightarrow> opt_cell CBoolean (m ! i) = row_eval (q_fp Q) (q_now Q b) (rb_schema b) (batch_rows b ! i) p"
    by (auto simp: list_eq_iff_nth_eq)
  have "filter_kernel_spec (q_arrow Q)" using assms(1) by (simp add: query_env_ok_def arrow_spec_def)
  then have out: "rb_schema out = rb_schema b" "batch_valid out" "batch_rows out = kept (batch_rows b) m"
    using assms(2) len m(2) unfolding filter_kernel_spec_def by fastforce+
  have "kept (batch_rows b) m = map ((!) (batch_rows b)) (filter (\<lambda>i. m ! i = Some True) [0..<num_rows b])"
    using kept_conv_index [of m "batch_rows b"] len by simp
  also have "filter (\<lambda>i. m ! i = Some True) [0..<num_rows b]
      = filter (\<lambda>i. row_holds Q (q_now Q b) (rb_schema b) p (batch_rows b ! i)) [0..<num_rows b]"
    using cells by (intro filter_cong) (auto simp: row_holds_def simp flip: opt_cell_true)
  also have "map ((!) (batch_rows b)) \<dots> = filter (row_holds Q (q_now Q b) (rb_schema b) p) (map ((!) (batch_rows b)) [0..<num_rows b])"
    by (simp add: filter_map o_def)
  also have "map ((!) (batch_rows b)) [0..<num_rows b] = batch_rows b"
    using map_nth [of "batch_rows b"] by simp
  finally show ?thesis using out by simp
qed

lemma unat_row_count: "n < 2 ^ 64 \<Longrightarrow> unat (word_of_nat n :: u64) = n"
  by (simp add: unat_of_nat)

lemma rows_nonempty: "num_rows b = 0 \<longleftrightarrow> batch_rows b = []"
  by (metis length_0_conv length_batch_rows)

text \<open>A predicate whose value on a row does not depend on when the batch is evaluated.\<close>

definition stable :: "query_env \<Rightarrow> clock \<Rightarrow> schema \<Rightarrow> expr \<Rightarrow> bool" where
  "stable Q c sch p \<longleftrightarrow> (\<forall>b row. row_holds Q (q_now Q b) sch p row = row_holds Q c sch p row)"

lemma filter_stream_rows:
  assumes "query_env_ok Q" "rowwise p" "stable Q c sch p" "batches_of sch bs" "filter_stream Q p bs None = (cs, None)"
  shows "batches_of sch cs \<and> batches_rows cs = filter (row_holds Q c sch p) (batches_rows bs)"
  using assms(4,5)
proof (induction bs arbitrary: cs)
  case (Cons b bs)
  obtain out ds where o: "apply_predicate Q b p = Inr out" "filter_stream Q p bs None = (ds, None)"
    "cs = (if num_rows out > 0 then out # ds else ds)"
    using Cons.prems(2) by (auto split: sum.splits prod.splits)
  have "batch_valid out" "rb_schema out = sch" "batch_rows out = filter (row_holds Q (q_now Q b) sch p) (batch_rows b)"
    using apply_predicate_rows [OF assms(1) _ assms(2) o(1)] Cons.prems(1) by auto
  moreover have "row_holds Q (q_now Q b) sch p = row_holds Q c sch p"
    using assms(3) by (simp add: stable_def fun_eq_iff)
  ultimately show ?case
    using Cons.IH [OF _ o(2)] Cons.prems(1) o(3) rows_nonempty [of out] by auto
qed auto

section \<open>Limit\<close>

lemma slice_rows:
  assumes "query_env_ok Q" "batch_valid b" "off + len \<le> num_rows b"
  shows "batch_valid (ar_slice (q_arrow Q) b off len)" "rb_schema (ar_slice (q_arrow Q) b off len) = rb_schema b"
    "batch_rows (ar_slice (q_arrow Q) b off len) = take len (drop off (batch_rows b))"
  using assms unfolding query_env_ok_def arrow_spec_def slice_kernel_spec_def by blast+

lemma limit_batch_rows:
  assumes "query_env_ok Q" "batch_valid b" "num_rows b < 2 ^ 64" "k < word_of_nat (num_rows b)"
    and "limit_batch Q b r k = (out, r')"
  shows "batch_valid out \<and> rb_schema out = rb_schema b
    \<and> batch_rows out = take (unat r) (drop (unat k) (batch_rows b))
    \<and> unat r' = unat r - (num_rows b - unat k)"
proof -
  have n: "unat (word_of_nat (num_rows b) :: u64) = num_rows b"
    using assms(3) by (simp add: unat_row_count)
  have k: "unat k < num_rows b" using assms(4) n by (simp add: word_less_nat_alt)
  define c where "c = (if k > 0 then ar_slice (q_arrow Q) b (unat k) (num_rows b - unat k) else b)"
  have c: "batch_valid c" "rb_schema c = rb_schema b" "batch_rows c = drop (unat k) (batch_rows b)"
    using slice_rows [OF assms(1,2), of "unat k" "num_rows b - unat k"] k assms(2)
    by (auto simp: c_def word_gt_0)
  have nc: "num_rows c = num_rows b - unat k"
    using c(3) by (metis length_batch_rows length_drop)
  then have unc: "unat (word_of_nat (num_rows c) :: u64) = num_rows c"
    using assms(3) by (simp add: unat_row_count)
  define t where "t = min (word_of_nat (num_rows c)) r"
  have t: "unat t = min (num_rows c) (unat r)"
    using unc by (auto simp: t_def min_def word_le_nat_alt)
  have o: "out = ar_slice (q_arrow Q) c 0 (unat t)" "r' = r - t"
    using assms(5) by (simp_all add: limit_batch_def c_def t_def Let_def split: if_splits)
  have "batch_rows out = take (unat t) (batch_rows c)" "batch_valid out" "rb_schema out = rb_schema c"
    using slice_rows [OF assms(1) c(1), of 0 "unat t"] t o(1) by auto
  moreover have "take (unat t) (batch_rows c) = take (unat r) (batch_rows c)"
    using t by (auto simp: min_def)
  moreover have "unat r' = unat r - unat t"
    using o(2) by (simp add: t_def unat_sub)
  ultimately show ?thesis using c t nc by (auto simp: min_def)
qed

lemma limit_stream_rows:
  assumes "query_env_ok Q" "batches_of sch bs" "\<forall>b \<in> set bs. num_rows b < 2 ^ 64"
  shows "\<exists>cs. limit_stream Q r k bs None = (cs, None) \<and> batches_of sch cs
    \<and> batches_rows cs = take (unat r) (drop (unat k) (batches_rows bs))"
  using assms(2,3)
proof (induction bs arbitrary: r k)
  case (Cons b bs)
  have n: "unat (word_of_nat (num_rows b) :: u64) = num_rows b"
    using Cons.prems(2) by (simp add: unat_row_count)
  consider "r = 0" | "r \<noteq> 0" "word_of_nat (num_rows b) \<le> k" | "r \<noteq> 0" "k < word_of_nat (num_rows b)"
    by (metis not_le)
  then show ?case
  proof cases
    case 2
    then have "unat (k - word_of_nat (num_rows b)) = unat k - num_rows b" "num_rows b \<le> unat k"
      using n by (simp_all add: unat_sub word_le_nat_alt)
    then show ?thesis
      using Cons.IH [of r "k - word_of_nat (num_rows b)"] Cons.prems 2 by auto
  next
    case 3
    obtain out r' where lb: "limit_batch Q b r k = (out, r')" by force
    have o: "batch_valid out" "rb_schema out = sch" "batch_rows out = take (unat r) (drop (unat k) (batch_rows b))"
      "unat r' = unat r - (num_rows b - unat k)"
      using limit_batch_rows [OF assms(1) _ _ 3(2) lb] Cons.prems by auto
    obtain cs where "limit_stream Q r' 0 bs None = (cs, None)" "batches_of sch cs"
      "batches_rows cs = take (unat r') (batches_rows bs)"
      using Cons.IH [of r' 0] Cons.prems by auto
    moreover have "unat k \<le> num_rows b" using 3(2) n by (simp add: word_less_nat_alt)
    ultimately show ?thesis using 3 lb o by auto
  qed simp
qed simp

lemma retain_limit_rows:
  "take (n - t) (batches_rows (retain_limit t n bs)) = take (n - t) (batches_rows bs)"
proof (induction bs arbitrary: t)
  case (Cons b bs)
  show ?case
  proof (cases "n \<le> t")
    case False
    have "take (n - t - num_rows b) (batches_rows (retain_limit (t + num_rows b) n bs))
        = take (n - t - num_rows b) (batches_rows bs)"
      using Cons.IH [of "t + num_rows b"] by simp
    then show ?thesis using False by simp
  qed simp
qed simp

lemma retain_limit_subset: "set (retain_limit t n bs) \<subseteq> set bs"
  by (induction bs arbitrary: t) auto

section \<open>Sort\<close>

text \<open>The sort keys that name a column, by position.\<close>

fun resolved_keys :: "schema \<Rightarrow> (expr \<times> bool) list \<Rightarrow> (nat \<times> bool) list" where
  "resolved_keys sch [] = []"
| "resolved_keys sch ((E_Column _ name, asc) # ks) =
     (case schema_index name sch of Some i \<Rightarrow> (i, asc) # resolved_keys sch ks | None \<Rightarrow> resolved_keys sch ks)"
| "resolved_keys sch (_ # ks) = resolved_keys sch ks"

definition row_before :: "schema \<Rightarrow> (expr \<times> bool) list \<Rightarrow> cell list \<Rightarrow> cell list \<Rightarrow> bool" where
  "row_before sch keys r s =
     keys_before (map (\<lambda>(i, asc). (\<not> asc, False)) (resolved_keys sch keys))
       (map (\<lambda>(i, asc). r ! i) (resolved_keys sch keys)) (map (\<lambda>(i, asc). s ! i) (resolved_keys sch keys))"

lemma column_by_name_valid:
  assumes "batch_valid b"
  shows "column_by_name b n = map_option ((!) (rb_columns b)) (schema_index n (rb_schema b))"
  using schema_index_less [of n "rb_schema b"] batch_validD(2) [OF assms]
  by (auto simp: column_by_name_def split: option.split)

lemma sort_columns_resolved:
  assumes "batch_valid b"
  shows "sort_columns b keys
    = map (\<lambda>(i, asc). \<lparr>sc_values = rb_columns b ! i, sc_descending = \<not> asc, sc_nulls_first = False\<rparr>)
        (resolved_keys (rb_schema b) keys)"
  by (induction "rb_schema b" keys rule: resolved_keys.induct)
    (auto simp: column_by_name_valid [OF assms] split: option.split)

lemma resolved_keys_less: "(i, asc) \<in> set (resolved_keys sch keys) \<Longrightarrow> i < length sch"
  by (induction sch keys rule: resolved_keys.induct) (auto split: option.splits dest: schema_index_less)

lemma sorted_wrt_map_index:
  assumes "sorted_wrt (\<lambda>i j. P (f i) (f j)) idx"
  shows "sorted_wrt P (map f idx)"
  using assms by (simp add: sorted_wrt_map)

lemma sort_batches_rows:
  assumes "query_env_ok Q" "batches_of sch bs" "bs \<noteq> []" "sort_batches Q keys bs = Inr res"
  shows "\<exists>b. res = [b] \<and> batch_valid b \<and> rb_schema b = sch \<and> mset (batch_rows b) = mset (batches_rows bs)
    \<and> sorted_wrt (\<lambda>r s. \<not> row_before sch keys s r) (batch_rows b)"
proof -
  have spec: "concat_kernel_spec (q_arrow Q)" "take_kernel_spec (q_arrow Q)" "lexsort_kernel_spec (q_arrow Q)"
    using assms(1) by (simp_all add: query_env_ok_def arrow_spec_def)
  obtain cat where cat: "ar_concat (q_arrow Q) sch bs = Inr cat" "rb_schema cat = sch" "batch_valid cat"
    "batch_rows cat = batches_rows bs"
    using spec(1) assms(2,3) unfolding concat_kernel_spec_def batches_of_def by blast
  have first: "rb_schema (hd bs) = sch" using assms(2,3) by (cases bs) auto
  let ?ks = "resolved_keys sch keys" and ?cols = "sort_columns cat keys"
  have cols: "?cols = map (\<lambda>(i, asc). \<lparr>sc_values = rb_columns cat ! i, sc_descending = \<not> asc, sc_nulls_first = False\<rparr>) ?ks"
    using sort_columns_resolved [OF cat(3), of keys] cat(2) by simp
  show ?thesis
  proof (cases "?cols = []")
    case True
    then have "?ks = []" by (simp add: cols)
    then have "sorted_wrt (\<lambda>r s. \<not> row_before sch keys s r) (batch_rows cat)"
      by (simp add: row_before_def sorted_wrt_iff_nth_less)
    then show ?thesis
      using assms(3,4) first cat True by (cases bs) (auto simp: sort_batches_def)
  next
    case False
    then obtain idx out where r: "ar_lexsort (q_arrow Q) ?cols = Inr idx" "ar_take (q_arrow Q) cat idx = Inr out" "res = [out]"
      using assms(3,4) first cat(1) by (cases bs) (auto simp: sort_batches_def Let_def result_simps)
    have hd: "array_len (sc_values (hd ?cols)) = num_rows cat"
    proof -
      obtain i asc ks where ks: "?ks = (i, asc) # ks" using False by (cases ?ks) (auto simp: cols)
      then have "i < length (rb_columns cat)"
        using resolved_keys_less [of i asc sch keys] batch_validD(2) [OF cat(3)] cat(2) by simp
      then show ?thesis using ks cols batch_valid_lens [OF cat(3)] by simp
    qed
    then have idx: "mset idx = mset [0..<num_rows cat]"
      and srt: "sorted_wrt (\<lambda>i j. \<not> keys_before (sort_options ?cols) (key_cells ?cols j) (key_cells ?cols i)) idx"
      using spec(3) r(1) False unfolding lexsort_kernel_spec_def by metis+
    have lt: "\<forall>i \<in> set idx. i < num_rows cat"
      using mset_eq_setD [OF idx] by simp
    then have out: "rb_schema out = sch" "batch_valid out" "batch_rows out = map ((!) (batch_rows cat)) idx"
      using spec(2) r(2) cat(2,3) unfolding take_kernel_spec_def by fastforce+
    have "key_cells ?cols i = map (\<lambda>(k, asc). batch_rows cat ! i ! k) ?ks" if "i < num_rows cat" for i
      using that resolved_keys_less [of _ _ sch keys] batch_validD(2) [OF cat(3)] cat(2)
      by (auto simp: cols key_cells_def batch_rows_def batch_row_def)
    moreover have "sort_options ?cols = map (\<lambda>(i, asc). (\<not> asc, False)) ?ks"
      by (auto simp: cols sort_options_def)
    ultimately have "sorted_wrt (\<lambda>i j. \<not> row_before sch keys (batch_rows cat ! j) (batch_rows cat ! i)) idx"
      using srt lt by (auto simp: row_before_def elim!: sorted_wrt_mono_rel [rotated])
    then have "sorted_wrt (\<lambda>r s. \<not> row_before sch keys s r) (batch_rows out)"
      unfolding out(3) by (rule sorted_wrt_map_index)
    moreover have "mset (batch_rows out) = mset (batches_rows bs)"
      using idx map_nth [of "batch_rows cat"] cat(4) unfolding out(3) by (metis length_batch_rows mset_map)
    ultimately show ?thesis using r(3) out by blast
  qed
qed

end
