(* ===== verification/Rewrites.thy ===== *)
theory Rewrites
  imports Streams
begin

text \<open>
  The rewrites of the optimizer keep the results of a plan. \<open>run_plan\<close> builds the operator
  tree of a plan and pulls it until it ends; a rewrite is correct when the rewritten plan returns
  the same batches whenever the original returns.
\<close>

section \<open>Running a plan\<close>

definition run_plan ::
  "query_env \<Rightarrow> 'w storage_env \<Rightarrow> logical_plan \<Rightarrow> nat \<Rightarrow> fs \<Rightarrow> 'c storage_engine \<Rightarrow> record_batch list outcome option" where
  "run_plan Q E plan batch_size fs e =
     (case build_logical Q E plan batch_size fs e of
        Inl f \<Rightarrow> Some (Inl f)
      | Inr op \<Rightarrow> pull_all (poll_next Q) (Suc (poll_bound op)) op)"

lemma run_plan_stream:
  "run_plan Q E plan sz fs e = Some (and_then (build_logical Q E plan sz fs e) (\<lambda>op. stream_result (op_stream Q op)))"
  by (simp add: run_plan_def po.pulls_everything del: pull_all.simps split: sum.split)

lemma run_plan_Inr_iff:
  "run_plan Q E plan sz fs e = Some (Inr bs) \<longleftrightarrow>
     (\<exists>op. build_logical Q E plan sz fs e = Inr op \<and> op_stream Q op = (bs, None))"
  by (auto simp: run_plan_stream result_simps stream_result_def prod_eq_iff split: option.splits)

section \<open>Equations of the rewrites\<close>

lemma transform_plan_simps [simp]:
  "transform_plan f (LFilter p i) = LFilter (f p) (transform_plan f i)"
  "transform_plan f (LScan s) = LScan (s\<lparr>so_predicate := map_option f (so_predicate s)\<rparr>)"
  "transform_plan f (LProject c i) = LProject c (transform_plan f i)"
  "transform_plan f (LAggregate k a i) = LAggregate k a (transform_plan f i)"
  "transform_plan f (LSort o' i) = LSort o' (transform_plan f i)"
  "transform_plan f (LLimit n m i) = LLimit n m (transform_plan f i)"
  "transform_plan f (LJoin jk l r d) = LJoin jk (transform_plan f l) (transform_plan f r) d"
  by (simp_all add: transform_plan.simps)

lemma predicate_pushdown_simps [simp]:
  "predicate_pushdown (LFilter p i) =
     (case predicate_pushdown i of LScan s \<Rightarrow> LScan (s\<lparr>so_predicate := Some p\<rparr>) | j \<Rightarrow> LFilter p j)"
  "predicate_pushdown (LScan s) = LScan s"
  "predicate_pushdown (LProject c i) = LProject c (predicate_pushdown i)"
  "predicate_pushdown (LAggregate k a i) = LAggregate k a (predicate_pushdown i)"
  "predicate_pushdown (LSort o' i) = LSort o' (predicate_pushdown i)"
  "predicate_pushdown (LLimit n m i) = LLimit n m (predicate_pushdown i)"
  "predicate_pushdown (LJoin jk l r d) = LJoin jk (predicate_pushdown l) (predicate_pushdown r) d"
  by (simp_all add: predicate_pushdown.simps split: logical_plan.split)

lemma projection_pushdown_simps [simp]:
  "projection_pushdown (LProject c i) =
     (case projection_pushdown i of
        LScan s \<Rightarrow> LProject c (LScan (if so_projection s = None then s\<lparr>so_projection := Some c\<rparr> else s))
      | j \<Rightarrow> LProject c j)"
  "projection_pushdown (LScan s) = LScan s"
  "projection_pushdown (LFilter p i) = LFilter p (projection_pushdown i)"
  "projection_pushdown (LAggregate k a i) = LAggregate k a (projection_pushdown i)"
  "projection_pushdown (LSort o' i) = LSort o' (projection_pushdown i)"
  "projection_pushdown (LLimit n m i) = LLimit n m (projection_pushdown i)"
  "projection_pushdown (LJoin jk l r d) = LJoin jk (projection_pushdown l) (projection_pushdown r) d"
  by (simp_all add: projection_pushdown.simps split: logical_plan.split)

lemma partition_prune_simps [simp]:
  "partition_prune cat (LScan s) =
     (case so_predicate s of
        None \<Rightarrow> LScan s
      | Some p \<Rightarrow>
          (case extract_time_range p of
             None \<Rightarrow> LScan s
           | Some (lo, hi) \<Rightarrow> LScan (s\<lparr>so_partition_filter := overlapping_partitions (so_table s) lo hi cat\<rparr>)))"
  "partition_prune cat (LFilter p i) = LFilter p (partition_prune cat i)"
  "partition_prune cat (LProject c i) = LProject c (partition_prune cat i)"
  "partition_prune cat (LAggregate k a i) = LAggregate k a (partition_prune cat i)"
  "partition_prune cat (LSort o' i) = LSort o' (partition_prune cat i)"
  "partition_prune cat (LLimit n m i) = LLimit n m (partition_prune cat i)"
  "partition_prune cat (LJoin jk l r d) = LJoin jk (partition_prune cat l) (partition_prune cat r) d"
  by (simp_all add: partition_prune.simps split: option.split)

section \<open>Constant folding\<close>

lemma fold_binop_arith:
  "op \<in> {Op_Add, Op_Sub, Op_Mul, Op_Div} \<Longrightarrow> fold_binop op a b = int_arith op a b"
  by (auto simp: fold_binop_def int_arith_def checked_add_def checked_sub_def checked_mul_def checked_div_def
      checked_def in_i64_def i64_min_def i64_max_def Let_def)

lemma fold_binop_exact: "fold_binop op a b = Some v \<Longrightarrow> exact_int op a b = Some v \<and> \<not> is_cmp op \<and> op \<notin> {Op_And, Op_Or}"
proof (cases "op \<in> {Op_Add, Op_Sub, Op_Mul, Op_Div}")
  case True
  then show "fold_binop op a b = Some v \<Longrightarrow> ?thesis"
    using fold_binop_arith [OF True] by (auto simp: exact_int_def is_cmp_def)
next
  case False
  then show "fold_binop op a b = Some v \<Longrightarrow> ?thesis"
    by (cases op) (auto simp: fold_binop_def exact_int_def is_cmp_def split: if_splits)
qed

lemma int_literal_Some: "int_literal e = Some n \<longleftrightarrow> e = E_Literal (L_Int n)"
  by (cases e rule: int_literal.cases) auto

lemma fold_expr_BinOp_cases:
  obtains (folded) a b v where "fold_expr (sub_clock 0 c) l = E_Literal (L_Int a)" "fold_expr (sub_clock 1 c) r = E_Literal (L_Int b)"
      "fold_binop op a b = Some v" "fold_expr c (E_BinOp op l r) = E_Literal (L_Int v)"
    | (kept) "fold_expr c (E_BinOp op l r) = E_BinOp op (fold_expr (sub_clock 0 c) l) (fold_expr (sub_clock 1 c) r)"
proof (cases "\<exists>a b v. fold_expr (sub_clock 0 c) l = E_Literal (L_Int a) \<and> fold_expr (sub_clock 1 c) r = E_Literal (L_Int b)
    \<and> fold_binop op a b = Some v")
  case True
  then show ?thesis by (auto simp: Let_def intro: folded)
next
  case False
  then have "fold_expr c (E_BinOp op l r) = E_BinOp op (fold_expr (sub_clock 0 c) l) (fold_expr (sub_clock 1 c) r)"
    by (auto simp: Let_def int_literal_Some split: option.splits)
  then show ?thesis by (rule kept)
qed

text \<open>Folding keeps the value of an expression on a row.\<close>

lemma fold_expr_row: "row_eval F c sch row (fold_expr c e) = row_eval F c sch row e"
proof (induction e arbitrary: c)
  case (E_BinOp op l r)
  show ?case
  proof (cases rule: fold_expr_BinOp_cases [of c l r op])
    case (folded a b v)
    then have "row_eval F (sub_clock 0 c) sch row l = CInt64 a" "row_eval F (sub_clock 1 c) sch row r = CInt64 b"
      using E_BinOp [of "sub_clock 0 c"] E_BinOp [of "sub_clock 1 c"] by auto
    then show ?thesis
      using folded(4) fold_binop_exact [OF folded(3)] by (simp add: cell_binop_def cell_arith_def)
  next
    case kept
    then show ?thesis using E_BinOp by simp
  qed
qed auto

lemma fold_expr_rowwise: "rowwise e \<Longrightarrow> rowwise (fold_expr c e)"
proof (induction e arbitrary: c)
  case (E_BinOp op l r)
  then show ?case by (cases rule: fold_expr_BinOp_cases [of c l r op]) auto
qed auto

text \<open>
  The calls of \<open>now()\<close> folding replaces are the operands of binary operators and the predicate
  itself. \<open>read_clock\<close> replaces them by their readings and folds nothing; \<open>same_readings\<close>
  says that two clocks agree on them; \<open>settled\<close> that there are no others.
\<close>

fun read_clock :: "clock \<Rightarrow> expr \<Rightarrow> expr" where
  "read_clock c (E_Function name args) =
     (if name = ''now'' \<and> args = [] then E_Literal (L_Int (c [])) else E_Function name args)"
| "read_clock c (E_BinOp op l r) = E_BinOp op (read_clock (sub_clock 0 c) l) (read_clock (sub_clock 1 c) r)"
| "read_clock c e = e"

fun same_readings :: "clock \<Rightarrow> clock \<Rightarrow> expr \<Rightarrow> bool" where
  "same_readings c d (E_Function name args) = (name = ''now'' \<and> args = [] \<longrightarrow> c [] = d [])"
| "same_readings c d (E_BinOp op l r) =
     (same_readings (sub_clock 0 c) (sub_clock 0 d) l \<and> same_readings (sub_clock 1 c) (sub_clock 1 d) r)"
| "same_readings c d e = True"

fun clock_free :: "expr \<Rightarrow> bool" where
  "clock_free E_Now = False"
| "clock_free (E_Function name args) = (name \<noteq> ''now'' \<and> (\<forall>a \<in> set args. clock_free a))"
| "clock_free (E_BinOp _ l r) = (clock_free l \<and> clock_free r)"
| "clock_free (E_UnaryOp _ e) = clock_free e"
| "clock_free (E_IsNull e) = clock_free e"
| "clock_free (E_IsNotNull e) = clock_free e"
| "clock_free (E_Between e low high) = (clock_free e \<and> clock_free low \<and> clock_free high)"
| "clock_free (E_In e items) = (clock_free e \<and> (\<forall>i \<in> set items. clock_free i))"
| "clock_free (E_Like e _ _) = clock_free e"
| "clock_free (E_TimeBucket _ e) = clock_free e"
| "clock_free (E_Rate e _) = clock_free e"
| "clock_free (E_Delta e _) = clock_free e"
| "clock_free (E_HistogramQuantile _ e _) = clock_free e"
| "clock_free _ = True"

fun settled :: "expr \<Rightarrow> bool" where
  "settled (E_Function name args) = (name = ''now'' \<and> args = [] \<or> clock_free (E_Function name args))"
| "settled (E_BinOp _ l r) = (settled l \<and> settled r)"
| "settled e = clock_free e"

lemma same_readings_refl [simp]: "same_readings c c e"
  by (induction c c e rule: same_readings.induct) auto

lemma read_clock_done [simp]: "same_readings d d' (read_clock c e)"
  by (induction c e arbitrary: d d' rule: read_clock.induct) auto

lemma fold_read_clock: "fold_expr d (read_clock c e) = fold_expr c e"
  by (induction c e arbitrary: d rule: read_clock.induct) simp_all

lemma clock_free_row: "clock_free e \<Longrightarrow> row_eval F c sch row e = row_eval F d sch row e"
proof (induction e arbitrary: c d)
  case (E_In e items)
  have item: "row_eval F c sch row i = row_eval F d sch row i" if "i \<in> set items" for i c d
    using E_In.IH(2) [OF that] E_In.prems that by simp
  have "row_in F c sch row v acc items = row_in F d sch row v acc items" for v acc c d
    using item
  proof (induction items arbitrary: acc c d)
    case (Cons i rest)
    have "row_in F (sub_clock 1 c) sch row v a rest = row_in F (sub_clock 1 d) sch row v a rest" for a
      by (rule Cons.IH) (rule Cons.prems, simp)
    moreover have "row_eval F (sub_clock 0 c) sch row i = row_eval F (sub_clock 0 d) sch row i"
      by (rule Cons.prems) simp
    ultimately show ?case by simp
  qed simp
  moreover have "row_eval F (sub_clock 0 c) sch row e = row_eval F (sub_clock 0 d) sch row e"
    using E_In.IH(1) E_In.prems by simp
  ultimately show ?case by simp
next
  case (E_BinOp op l r)
  show ?case
    using E_BinOp.IH(1) [of "sub_clock 0 c" "sub_clock 0 d"] E_BinOp.IH(2) [of "sub_clock 1 c" "sub_clock 1 d"] E_BinOp.prems by simp
next
  case (E_UnaryOp op e)
  show ?case using E_UnaryOp.IH [of "sub_clock 0 c" "sub_clock 0 d"] E_UnaryOp.prems by (cases op) simp_all
next
  case (E_IsNull e)
  show ?case using E_IsNull.IH [of "sub_clock 0 c" "sub_clock 0 d"] E_IsNull.prems by simp
next
  case (E_IsNotNull e)
  show ?case using E_IsNotNull.IH [of "sub_clock 0 c" "sub_clock 0 d"] E_IsNotNull.prems by simp
next
  case (E_Between e low high)
  show ?case
    using E_Between.IH(1) [of "sub_clock 0 c" "sub_clock 0 d"] E_Between.IH(2) [of "sub_clock 1 c" "sub_clock 1 d"]
      E_Between.IH(3) [of "sub_clock 2 c" "sub_clock 2 d"] E_Between.prems by simp
next
  case (E_Like e p n)
  show ?case using E_Like.IH [of "sub_clock 0 c" "sub_clock 0 d"] E_Like.prems by simp
qed auto

lemma settled_fold: "settled e \<Longrightarrow> clock_free (fold_expr c e)"
proof (induction e arbitrary: c)
  case (E_BinOp op l r)
  then show ?case by (cases rule: fold_expr_BinOp_cases [of c l r op]) auto
qed auto

text \<open>After planning, a settled predicate is independent of the instants of evaluation.\<close>

lemma settled_stable: "settled p \<or> (\<forall>b. q_now Q b = c) \<Longrightarrow> stable Q c sch (fold_expr c p)"
proof -
  assume "settled p \<or> (\<forall>b. q_now Q b = c)"
  then have "row_eval (q_fp Q) (q_now Q b) sch row (fold_expr c p) = row_eval (q_fp Q) c sch row (fold_expr c p)" for b row
    by (metis clock_free_row settled_fold)
  then show ?thesis by (simp add: stable_def row_holds_def)
qed

text \<open>Where the expression evaluates, its folding evaluates to the same array.\<close>

lemma map2_replicate: "map2 f (replicate n x) (replicate n y) = replicate n (f x y)"
  by (induction n) auto

lemma arith_literals:
  assumes "arrow_spec F (q_arrow Q)" "fold_binop op a b = Some v"
    and "apply_binop Q op (Int64Array (replicate n (Some a))) (Int64Array (replicate n (Some b))) = Inr arr"
  shows "arr = Int64Array (replicate n (Some v))"
proof -
  have op: "\<not> is_cmp op" "op \<notin> {Op_And, Op_Or}" using fold_binop_exact [OF assms(2)] by auto
  then have ar: "op \<in> {Op_Add, Op_Sub, Op_Mul, Op_Div}"
    "ar_arith (q_arrow Q) op (Int64Array (replicate n (Some a))) (Int64Array (replicate n (Some b))) = Inr arr"
    using assms(3) by (cases op; auto simp: apply_binop_def arithmetic_arrays_def result_simps is_cmp_def)+
  have "int_arith op a b = Some v" using fold_binop_arith [OF ar(1)] assms(2) by simp
  then have res: "int_results op (replicate n (Some a)) (replicate n (Some b)) = replicate n (Some (Some v))"
    by (simp add: int_results_def map2_replicate lift2_def)
  have "arith_kernel_spec F (q_arrow Q)" using assms(1) by (simp add: arrow_spec_def)
  then have "\<forall>xs ys. if length xs = length ys \<and> Some None \<notin> set (int_results op xs ys)
         then ar_arith (q_arrow Q) op (Int64Array xs) (Int64Array ys)
                = Inr (Int64Array (map (\<lambda>r. Option.bind r id) (int_results op xs ys)))
         else \<exists>e. ar_arith (q_arrow Q) op (Int64Array xs) (Int64Array ys) = Inl e"
    using ar(1) unfolding arith_kernel_spec_def by blast
  from this [THEN spec, THEN spec, of "replicate n (Some a)" "replicate n (Some b)"] ar(2) res show ?thesis
    by simp
qed

lemma fold_expr_eval:
  assumes "query_env_ok Q" "same_readings c d e" "eval_expr Q b d e = Inr arr"
  shows "eval_expr Q b d (fold_expr c e) = Inr arr"
  using assms(2,3)
proof (induction e arbitrary: arr c d)
  case (E_BinOp op l r)
  obtain x y where xy: "eval_expr Q b (sub_clock 0 d) l = Inr x" "eval_expr Q b (sub_clock 1 d) r = Inr y" "apply_binop Q op x y = Inr arr"
    using E_BinOp.prems(2) by (auto simp: result_simps)
  have IH: "eval_expr Q b (sub_clock 0 d) (fold_expr (sub_clock 0 c) l) = Inr x"
    "eval_expr Q b (sub_clock 1 d) (fold_expr (sub_clock 1 c) r) = Inr y"
    using E_BinOp.IH(1) [OF _ xy(1)] E_BinOp.IH(2) [OF _ xy(2)] E_BinOp.prems(1) by simp_all
  show ?case
  proof (cases rule: fold_expr_BinOp_cases [of c l r op])
    case (folded i j v)
    then have "x = Int64Array (replicate (num_rows b) (Some i))" "y = Int64Array (replicate (num_rows b) (Some j))"
      using IH by (simp_all add: eval_literal_def)
    then have "arr = Int64Array (replicate (num_rows b) (Some v))"
      using arith_literals [OF _ folded(3), of "q_fp Q" Q "num_rows b" arr] xy(3) assms(1)
      by (simp add: query_env_ok_def)
    then show ?thesis unfolding folded(4) by (simp add: eval_literal_def)
  next
    case kept
    then show ?thesis using IH xy(3) by simp
  qed
next
  case (E_Function n args)
  then show ?case by (auto simp: eval_literal_def)
qed auto

text \<open>A stream refines another when it agrees with it up to the point where that one fails.\<close>

definition refines :: "'b batch_stream \<Rightarrow> 'b batch_stream \<Rightarrow> bool" where
  "refines st st' \<longleftrightarrow> (if snd st = None then st' = st else \<exists>cs. fst st' = fst st @ cs)"

lemma refines_refl [simp]: "refines st st"
  by (simp add: refines_def)

lemma refines_Nil: "refines ([], Some f) st"
  by (simp add: refines_def)

lemma refines_Cons: "refines (bs, e) (bs', e') \<Longrightarrow> refines (b # bs, e) (b # bs', e')"
  by (auto simp: refines_def split: if_splits)

lemma refinesE:
  assumes "refines (bs, e) (bs', e')"
  obtains "e = None" "bs' = bs" "e' = None" | f cs where "e = Some f" "bs' = bs @ cs"
  using assms by (cases e) (auto simp: refines_def)

lemma refines_filter:
  assumes "refines (bs, e) (bs', e')" "\<And>b out. apply_predicate Q b p = Inr out \<Longrightarrow> apply_predicate Q b p' = Inr out"
  shows "refines (filter_stream Q p bs e) (filter_stream Q p' bs' e')"
proof -
  have step: "refines (filter_stream Q p (b # bs) e) (filter_stream Q p' (b # bs') e')"
    if "refines (filter_stream Q p bs e) (filter_stream Q p' bs' e')" for b bs bs'
  proof (cases "apply_predicate Q b p")
    case (Inl f)
    then show ?thesis by (simp add: refines_Nil)
  next
    case (Inr out)
    obtain cs f cs' f' where "filter_stream Q p bs e = (cs, f)" "filter_stream Q p' bs' e' = (cs', f')"
      by fastforce
    then show ?thesis using that Inr assms(2) [OF Inr] refines_Cons [of cs f cs' f' out] by simp
  qed
  show ?thesis
    using assms(1)
  proof (cases rule: refinesE)
    case 1
    show ?thesis unfolding 1(2) using step by (induction bs) (simp_all add: 1(1,3))
  next
    case (2 f cs)
    show ?thesis unfolding 2(2) using step by (induction bs) (simp_all add: 2(1) refines_Nil)
  qed
qed

lemma refines_limit:
  assumes "refines (bs, e) (bs', e')"
  shows "refines (limit_stream Q r k bs e) (limit_stream Q r k bs' e')"
  using assms
proof (cases rule: refinesE)
  case (2 f cs)
  have "refines (limit_stream Q r k bs (Some f)) (limit_stream Q r k (bs @ cs) e')"
  proof (induction bs arbitrary: r k)
    case Nil
    show ?case by (cases "r = 0"; cases cs) (simp_all add: refines_Nil)
  next
    case (Cons b bs)
    consider "r = 0" | "r \<noteq> 0" "word_of_nat (num_rows b) \<le> k" | "r \<noteq> 0" "\<not> word_of_nat (num_rows b) \<le> k" by blast
    then show ?case
    proof cases
      case 3
      obtain out r' where "limit_batch Q b r k = (out, r')" by force
      moreover obtain ds g ds' g' where "limit_stream Q r' 0 bs (Some f) = (ds, g)" "limit_stream Q r' 0 (bs @ cs) e' = (ds', g')"
        by fastforce
      ultimately show ?thesis using 3 Cons [of r' 0] refines_Cons [of ds g ds' g' out] by simp
    qed (use Cons in simp_all)
  qed
  then show ?thesis by (simp add: 2)
qed simp

lemma refines_collect:
  assumes "refines st st'"
  shows "refines (collect_stream f st) (collect_stream f st')"
proof (cases "snd st")
  case None
  then show ?thesis using assms by (simp add: refines_def)
next
  case (Some e)
  then have "collect_stream f st = ([], Some e)" by (simp add: collect_stream_def stream_result_def)
  then show ?thesis by (simp add: refines_Nil)
qed

lemma fold_apply_predicate:
  assumes "query_env_ok Q" "same_readings c (q_now Q b) p" "apply_predicate Q b p = Inr out"
  shows "apply_predicate Q b (fold_expr c p) = Inr out"
  using assms(3) fold_expr_eval [OF assms(1,2)] by (auto simp: apply_predicate_def eval_filter_def result_simps)

lemma load_items_mono:
  assumes "\<And>b out. apply_predicate Q b p = Inr out \<Longrightarrow> apply_predicate Q b p' = Inr out"
  shows "load_items Q (Some p) items = Inr bs \<Longrightarrow> load_items Q (Some p') items = Inr bs"
  by (induction items arbitrary: bs) (auto simp: result_simps assms)

lemma load_paths_mono:
  assumes "\<And>items bs. load_items Q p items = Inr bs \<Longrightarrow> load_items Q p' items = Inr bs"
  shows "load_paths Q E p sz fs ps = Inr bs \<Longrightarrow> load_paths Q E p' sz fs ps = Inr bs"
  by (induction ps arbitrary: bs) (auto simp: result_simps dest: assms)

text \<open>The predicates of a plan, and the rewrites of them that keep what they select.\<close>

fun plan_predicates :: "logical_plan \<Rightarrow> expr set" where
  "plan_predicates (LScan s) = set_option (so_predicate s)"
| "plan_predicates (LFilter p i) = insert p (plan_predicates i)"
| "plan_predicates (LProject _ i) = plan_predicates i"
| "plan_predicates (LAggregate _ _ i) = plan_predicates i"
| "plan_predicates (LSort _ i) = plan_predicates i"
| "plan_predicates (LLimit _ _ i) = plan_predicates i"
| "plan_predicates (LJoin _ l r _) = plan_predicates l \<union> plan_predicates r"

lemma plan_predicates_transform: "plan_predicates (transform_plan f plan) = f ` plan_predicates plan"
  by (induction plan) (auto simp: option.set_map)

lemma transform_plan_comp: "transform_plan g (transform_plan f plan) = transform_plan (\<lambda>p. g (f p)) plan"
  by (induction plan) (auto simp: option.map_comp o_def)

definition keeps_selection :: "query_env \<Rightarrow> (expr \<Rightarrow> expr) \<Rightarrow> expr \<Rightarrow> bool" where
  "keeps_selection Q f p \<longleftrightarrow> (\<forall>b out. apply_predicate Q b p = Inr out \<longrightarrow> apply_predicate Q b (f p) = Inr out)"

lemma load_batches_transform:
  assumes "\<forall>p \<in> set_option (so_predicate scan). keeps_selection Q f p" "load_batches Q E scan sz fs e = Inr bs"
  shows "load_batches Q E (scan\<lparr>so_predicate := map_option f (so_predicate scan)\<rparr>) sz fs e = Inr bs"
proof (cases "so_predicate scan")
  case None
  then have "scan\<lparr>so_predicate := map_option f (so_predicate scan)\<rparr> = scan" by (cases scan) simp
  then show ?thesis using assms(2) by simp
next
  case (Some p)
  have "load_paths Q E (Some p) sz fs ps = Inr cs \<Longrightarrow> load_paths Q E (Some (f p)) sz fs ps = Inr cs" for ps cs
    using assms(1) Some
    by (intro load_paths_mono [of Q "Some p" "Some (f p)"] load_items_mono [of Q p "f p"]) (auto simp: keeps_selection_def)
  then show ?thesis
    using assms(2) Some by (auto simp: load_batches_def result_simps)
qed

lemma build_transform:
  assumes "\<forall>p \<in> plan_predicates plan. keeps_selection Q f p" "build_logical Q E plan sz fs e = Inr op"
  shows "\<exists>op'. build_logical Q E (transform_plan f plan) sz fs e = Inr op' \<and> refines (op_stream Q op) (op_stream Q op')"
  using assms
proof (induction plan arbitrary: op)
  case (LScan scan)
  then show ?case
    using load_batches_transform [of scan Q f E sz fs e] by (force simp: result_simps)
next
  case (LFilter p i)
  obtain c where c: "build_logical Q E i sz fs e = Inr c" "op = OFilter c p"
    using LFilter.prems(2) by (auto simp: result_simps)
  obtain c' where c': "build_logical Q E (transform_plan f i) sz fs e = Inr c'"
    "refines (op_stream Q c) (op_stream Q c')"
    using LFilter.IH [OF _ c(1)] LFilter.prems(1) by auto
  obtain bs g bs' g' where st: "op_stream Q c = (bs, g)" "op_stream Q c' = (bs', g')" by fastforce
  have "refines (filter_stream Q p bs g) (filter_stream Q (f p) bs' g')"
    using LFilter.prems(1) by (intro refines_filter [OF c'(2) [unfolded st]]) (simp add: keeps_selection_def)
  then show ?case using c(2) c'(1) by (simp add: st)
next
  case (LAggregate keys aggs i)
  obtain c where c: "build_logical Q E i sz fs e = Inr c" "op = OAggregate (Some c) keys aggs (agg_schema keys aggs) None"
    using LAggregate.prems(2) by (auto simp: result_simps)
  then show ?case using LAggregate.IH [OF _ c(1)] LAggregate.prems(1) by (auto intro: refines_collect)
next
  case (LSort keys i)
  obtain c where c: "build_logical Q E i sz fs e = Inr c" "op = OSort (Some c) keys None"
    using LSort.prems(2) by (auto simp: result_simps)
  then show ?case using LSort.IH [OF _ c(1)] LSort.prems(1) by (auto intro: refines_collect)
next
  case (LLimit n k i)
  obtain c where c: "build_logical Q E i sz fs e = Inr c" "op = OLimit c n k"
    using LLimit.prems(2) by (auto simp: result_simps)
  obtain c' where c': "build_logical Q E (transform_plan f i) sz fs e = Inr c'"
    "refines (op_stream Q c) (op_stream Q c')"
    using LLimit.IH [OF _ c(1)] LLimit.prems(1) by auto
  obtain bs g bs' g' where st: "op_stream Q c = (bs, g)" "op_stream Q c' = (bs', g')" by fastforce
  have "refines (limit_stream Q n k bs g) (limit_stream Q n k bs' g')"
    by (rule refines_limit [OF c'(2) [unfolded st]])
  then show ?case using c(2) c'(1) by (simp add: st)
next
  case (LProject cols i)
  then show ?case by simp
qed simp

lemma run_transform:
  assumes "\<forall>p \<in> plan_predicates plan. keeps_selection Q f p" "run_plan Q E plan sz fs e = Some (Inr bs)"
  shows "run_plan Q E (transform_plan f plan) sz fs e = Some (Inr bs)"
proof -
  obtain op where op: "build_logical Q E plan sz fs e = Inr op" "op_stream Q op = (bs, None)"
    using assms(2) by (auto simp: run_plan_Inr_iff)
  obtain op' where "build_logical Q E (transform_plan f plan) sz fs e = Inr op'" "refines (bs, None) (op_stream Q op')"
    using build_transform [OF assms(1) op(1)] op(2) by auto
  then show ?thesis by (auto simp: run_plan_Inr_iff refines_def)
qed

lemma run_fold:
  assumes "query_env_ok Q" "\<forall>p \<in> plan_predicates plan. \<forall>b. same_readings (clk p) (q_now Q b) p"
    and "run_plan Q E plan sz fs e = Some (Inr bs)"
  shows "run_plan Q E (fold_constants clk plan) sz fs e = Some (Inr bs)"
  unfolding fold_constants_def
proof (rule run_transform [OF _ assms(3)])
  show "\<forall>p \<in> plan_predicates plan. keeps_selection Q (\<lambda>p. fold_expr (clk p) p) p"
    using assms(2) fold_apply_predicate [OF assms(1)] by (simp add: keeps_selection_def)
qed

lemma fold_constants_read:
  "fold_constants clk plan = fold_constants (\<lambda>_ _. 0) (transform_plan (\<lambda>p. read_clock (clk p) p) plan)"
  by (simp add: fold_constants_def transform_plan_comp fold_read_clock)

section \<open>Predicate pushdown\<close>

text \<open>No limit anywhere: a limit in the scan counts the rows after the pushed predicate.\<close>

fun limit_free :: "logical_plan \<Rightarrow> bool" where
  "limit_free (LScan s) = (so_limit s = None)"
| "limit_free (LFilter _ i) = limit_free i"
| "limit_free (LProject _ i) = limit_free i"
| "limit_free (LAggregate _ _ i) = limit_free i"
| "limit_free (LSort _ i) = limit_free i"
| "limit_free (LLimit _ _ _) = False"
| "limit_free (LJoin _ l r _) = (limit_free l \<and> limit_free r)"

text \<open>No filter is pushed onto a scan that already has a predicate: pushing replaces it.\<close>

fun pushable :: "logical_plan \<Rightarrow> bool" where
  "pushable (LScan s) = True"
| "pushable (LFilter _ i) =
     (pushable i \<and> (case predicate_pushdown i of LScan s \<Rightarrow> so_predicate s = None | _ \<Rightarrow> True))"
| "pushable (LProject _ i) = pushable i"
| "pushable (LAggregate _ _ i) = pushable i"
| "pushable (LSort _ i) = pushable i"
| "pushable (LLimit _ _ i) = pushable i"
| "pushable (LJoin _ l r _) = (pushable l \<and> pushable r)"

lemma filter_stream_Cons_None:
  assumes "filter_stream Q p (b # bs) e = (cs, None)"
  obtains out ds where "apply_predicate Q b p = Inr out" "filter_stream Q p bs e = (ds, None)"
    "cs = (if num_rows out > 0 then out # ds else ds)"
  using assms by (auto split: sum.splits prod.splits)

lemma filter_stream_None: "filter_stream Q p bs e = (cs, None) \<Longrightarrow> e = None"
  by (induction bs arbitrary: cs) (auto split: sum.splits prod.splits)

lemma filter_stream_append:
  assumes "filter_stream Q p (bs @ cs) e = (ds, None)"
  shows "\<exists>xs ys. filter_stream Q p bs None = (xs, None) \<and> filter_stream Q p cs e = (ys, None) \<and> ds = xs @ ys"
  using assms
proof (induction bs arbitrary: ds)
  case (Cons b bs)
  obtain out ds' where o: "apply_predicate Q b p = Inr out" "filter_stream Q p (bs @ cs) e = (ds', None)"
    "ds = (if num_rows out > 0 then out # ds' else ds')"
    using Cons.prems unfolding append_Cons by (rule filter_stream_Cons_None)
  obtain xs ys where "filter_stream Q p bs None = (xs, None)" "filter_stream Q p cs e = (ys, None)" "ds' = xs @ ys"
    using Cons.IH [OF o(2)] by blast
  then show ?case using o by simp
qed simp

lemma load_items_push:
  "load_items Q None items = Inr bs \<Longrightarrow> filter_stream Q p bs None = (cs, None) \<Longrightarrow> load_items Q (Some p) items = Inr cs"
proof (induction items arbitrary: bs cs)
  case (Cons item items)
  obtain b bs' where b: "item = Inr b" "load_items Q None items = Inr bs'" "bs = b # bs'"
    using Cons.prems(1) by (auto simp: result_simps)
  obtain out ds where o: "apply_predicate Q b p = Inr out" "filter_stream Q p bs' None = (ds, None)"
    "cs = (if num_rows out > 0 then out # ds else ds)"
    using Cons.prems(2) unfolding b(3) by (rule filter_stream_Cons_None)
  then show ?case using Cons.IH [OF b(2) o(2)] b(1) by simp
qed simp

lemma load_paths_push:
  "load_paths Q E None sz fs ps = Inr bs \<Longrightarrow> filter_stream Q p bs None = (cs, None) \<Longrightarrow>
   load_paths Q E (Some p) sz fs ps = Inr cs"
proof (induction ps arbitrary: bs cs)
  case (Cons q ps)
  obtain items xs ys where l: "read_parquet E q sz fs = Inr items" "load_items Q None items = Inr xs"
    "load_paths Q E None sz fs ps = Inr ys" "bs = xs @ ys"
    using Cons.prems(1) by (auto simp: result_simps)
  obtain xs' ys' where f: "filter_stream Q p xs None = (xs', None)" "filter_stream Q p ys None = (ys', None)" "cs = xs' @ ys'"
    using filter_stream_append [of Q p xs ys None cs] Cons.prems(2) l(4) by blast
  show ?case using l f load_items_push [OF l(2) f(1)] Cons.IH [OF l(3) f(2)] by simp
qed simp

lemma pushdown_limit_free: "limit_free plan \<Longrightarrow> limit_free (predicate_pushdown plan)"
  by (induction plan) (auto split: logical_plan.splits)

lemma collect_stream_None: "collect_stream f st = (bs, None) \<Longrightarrow> \<exists>cs. st = (cs, None) \<and> f cs = Inr bs"
  by (cases "snd st"; cases "f (fst st)")
    (auto simp: collect_stream_def stream_result_def prod_eq_iff)

lemma build_scan_push:
  assumes "build_logical Q E (LScan s) sz fs e = Inr op" "op_stream Q op = (bs, None)"
    and "so_limit s = None" "so_predicate s = None" "filter_stream Q p bs None = (cs, None)"
  shows "\<exists>op'. build_logical Q E (LScan (s\<lparr>so_predicate := Some p\<rparr>)) sz fs e = Inr op' \<and> op_stream Q op' = (cs, None)"
proof -
  obtain sch sig where l: "infralens_storage_schema_for (so_table s) = Inr sch" "signal_for_table (so_table s) = Inr sig"
    "load_paths Q E None sz fs (sstable_paths_for_signal sig (so_partition_filter s) e) = Inr bs"
    using assms(1-4) by (auto simp: result_simps load_batches_def)
  then show ?thesis
    using load_paths_push [OF l(3) assms(5)] assms(3) by (simp add: load_batches_def)
qed

lemma build_filter_push:
  assumes "build_logical Q E i sz fs e = Inr c" "op_stream Q c = (bs, None)" "limit_free i"
    and "case i of LScan s \<Rightarrow> so_predicate s = None | _ \<Rightarrow> True" "filter_stream Q p bs None = (cs, None)"
  shows "\<exists>op. build_logical Q E (case i of LScan s \<Rightarrow> LScan (s\<lparr>so_predicate := Some p\<rparr>) | j \<Rightarrow> LFilter p j) sz fs e = Inr op
    \<and> op_stream Q op = (cs, None)"
proof (cases "\<exists>s. i = LScan s")
  case True
  then show ?thesis using build_scan_push [of Q E _ sz fs e c bs p cs] assms by auto
next
  case False
  then have "(case i of LScan s \<Rightarrow> LScan (s\<lparr>so_predicate := Some p\<rparr>) | j \<Rightarrow> LFilter p j) = LFilter p i"
    by (simp split: logical_plan.split)
  then show ?thesis using assms by simp
qed

lemma build_push:
  assumes "limit_free plan" "pushable plan" "build_logical Q E plan sz fs e = Inr op" "op_stream Q op = (bs, None)"
  shows "\<exists>op'. build_logical Q E (predicate_pushdown plan) sz fs e = Inr op' \<and> op_stream Q op' = (bs, None)"
  using assms
proof (induction plan arbitrary: op bs)
  case (LFilter p i)
  obtain c where c: "build_logical Q E i sz fs e = Inr c" "op = OFilter c p"
    using LFilter.prems(3) by (auto simp: result_simps)
  obtain cs where cs: "op_stream Q c = (cs, None)" "filter_stream Q p cs None = (bs, None)"
    using LFilter.prems(4) c(2) filter_stream_None by (cases "op_stream Q c") fastforce
  obtain c' where "build_logical Q E (predicate_pushdown i) sz fs e = Inr c'" "op_stream Q c' = (cs, None)"
    using LFilter.IH [OF _ _ c(1) cs(1)] LFilter.prems(1,2) by auto
  then show ?case
    using build_filter_push [of Q E "predicate_pushdown i"] pushdown_limit_free LFilter.prems(1,2) cs(2) by simp
next
  case (LAggregate keys aggs i)
  obtain c where c: "build_logical Q E i sz fs e = Inr c" "op = OAggregate (Some c) keys aggs (agg_schema keys aggs) None"
    using LAggregate.prems(3) by (auto simp: result_simps)
  obtain cs where cs: "op_stream Q c = (cs, None)"
    using LAggregate.prems(4) c(2) collect_stream_None by fastforce
  obtain c' where "build_logical Q E (predicate_pushdown i) sz fs e = Inr c'" "op_stream Q c' = (cs, None)"
    using LAggregate.IH [OF _ _ c(1) cs] LAggregate.prems(1,2) by auto
  then show ?case using LAggregate.prems(4) c(2) cs by simp
next
  case (LSort keys i)
  obtain c where c: "build_logical Q E i sz fs e = Inr c" "op = OSort (Some c) keys None"
    using LSort.prems(3) by (auto simp: result_simps)
  obtain cs where cs: "op_stream Q c = (cs, None)"
    using LSort.prems(4) c(2) collect_stream_None by fastforce
  obtain c' where "build_logical Q E (predicate_pushdown i) sz fs e = Inr c'" "op_stream Q c' = (cs, None)"
    using LSort.IH [OF _ _ c(1) cs] LSort.prems(1,2) by auto
  then show ?case using LSort.prems(4) c(2) cs by simp
qed auto

section \<open>Projection pushdown\<close>

text \<open>The scan reads every column and no operator projects: a projection changes no result.\<close>

lemma load_batches_projection [simp]:
  "load_batches Q E (s\<lparr>so_projection := cols\<rparr>) sz fs e = load_batches Q E s sz fs e"
  by (simp add: load_batches_def)

lemma build_projection: "build_logical Q E (projection_pushdown plan) sz fs e = build_logical Q E plan sz fs e"
proof (induction plan)
  case (LProject cols i)
  then show ?case by (auto split: logical_plan.splits)
qed auto

section \<open>Partition pruning\<close>

text \<open>What a time condition means for a row's timestamp; other conditions do not restrict it.\<close>

fun admits :: "u64 \<Rightarrow> expr \<Rightarrow> bool" where
  "admits t (E_BinOp op l r) =
     (if op = Op_And then admits t l \<and> admits t r
      else if op = Op_GtEq \<and> is_ts l then (case int_literal r of Some n \<Rightarrow> n \<le> uint t | None \<Rightarrow> True)
      else if op = Op_LtEq \<and> is_ts l then (case int_literal r of Some n \<Rightarrow> uint t \<le> n | None \<Rightarrow> True)
      else True)"
| "admits t (E_Between e low high) =
     (is_ts e \<longrightarrow> (case int_literal low of Some n \<Rightarrow> n \<le> uint t | None \<Rightarrow> True)
              \<and> (case int_literal high of Some n \<Rightarrow> uint t \<le> n | None \<Rightarrow> True))"
| "admits t _ = True"

text \<open>The bounds are instants: the cast to \<open>u64\<close> keeps their value.\<close>

fun bounds_in_range :: "expr \<Rightarrow> bool" where
  "bounds_in_range (E_BinOp op l r) =
     (if op = Op_And then bounds_in_range l \<and> bounds_in_range r
      else (case int_literal r of Some n \<Rightarrow> 0 \<le> n \<and> n \<le> i64_max | None \<Rightarrow> True))"
| "bounds_in_range (E_Between e low high) =
     ((case int_literal low of Some n \<Rightarrow> 0 \<le> n \<and> n \<le> i64_max | None \<Rightarrow> True)
    \<and> (case int_literal high of Some n \<Rightarrow> 0 \<le> n \<and> n \<le> i64_max | None \<Rightarrow> True))"
| "bounds_in_range _ = True"

lemma as_u64_literal: "as_u64 e = map_option word_of_int (int_literal e)"
  by (cases e rule: int_literal.cases) auto

lemma uint_instant: "0 \<le> n \<Longrightarrow> n \<le> i64_max \<Longrightarrow> uint (word_of_int n :: u64) = n"
  by (simp add: uint_word_of_int i64_max_def)

lemma extract_time_range_sound:
  "extract_time_range p = Some (lo, hi) \<Longrightarrow> admits t p \<Longrightarrow> bounds_in_range p \<Longrightarrow> lo \<le> t \<and> t \<le> hi"
proof (induction p arbitrary: lo hi rule: extract_time_range.induct)
  case (1 op l r)
  have top: "uint t \<le> uint (- 1 :: u64)" by (simp flip: word_le_def)
  show ?case
  proof (cases "op = Op_And")
    case True
    then show ?thesis
      using 1 by (cases "extract_time_range l"; cases "extract_time_range r") fastforce+
  next
    case False
    then show ?thesis
      using 1(3-) top by (auto simp: as_u64_literal word_le_def uint_instant split: if_splits option.splits)
  qed
next
  case (2 e low high)
  then show ?case
    by (auto simp: as_u64_literal word_le_def uint_instant split: if_splits option.splits)
qed auto

end
