(* ===== verification/Parser.thy ===== *)
theory Parser
  imports Ast
begin

text \<open>
  The recursive-descent parser (\<open>infralens-query/src/parser.rs\<close>). The parser's state, a
  token vector and a position, is the list of the tokens from the position on; \<open>advance\<close>
  stays on the last token, so the list is never empty. A parser returns \<open>None\<close> when its
  fuel runs out, and otherwise a parse error or a value with the remaining tokens. Fuel is needed
  because on a vector that does not end with the end-of-input token the source may recurse
  forever; the theory shows that for vectors the lexer returns a fuel of one more than the number
  of tokens always suffices. \<open>parse_expr\<close> is the only knot of the recursion: the other
  parsers take the parser for nested expressions as an argument.
\<close>

section \<open>Parsers\<close>

type_synonym 'a parser = "token list \<Rightarrow> (parse_error + 'a \<times> token list) option"

definition preturn :: "'a \<Rightarrow> 'a parser" where
  "preturn a ts = Some (Inr (a, ts))"

definition pfail :: "parse_error \<Rightarrow> 'a parser" where
  "pfail e ts = Some (Inl e)"

definition pbind :: "'a parser \<Rightarrow> ('a \<Rightarrow> 'b parser) \<Rightarrow> 'b parser" where
  "pbind p f ts =
     (case p ts of
        None \<Rightarrow> None
      | Some (Inl e) \<Rightarrow> Some (Inl e)
      | Some (Inr (a, ts')) \<Rightarrow> f a ts')"

definition adv :: "token list \<Rightarrow> token list" where
  "adv ts = (if 1 < length ts then drop 1 ts else ts)"

definition advance :: "token parser" where
  "advance ts = Some (Inr (hd ts, adv ts))"

definition eat_optional :: "token \<Rightarrow> bool parser" where
  "eat_optional tok ts = (if hd ts = tok then Some (Inr (True, adv ts)) else Some (Inr (False, ts)))"

definition expect :: "token \<Rightarrow> unit parser" where
  "expect tok ts = (if hd ts = tok then Some (Inr ((), adv ts)) else Some (Inl (Expected tok (hd ts))))"

definition expect_ident :: "string parser" where
  "expect_ident = pbind advance (\<lambda>t. case t of T_Ident s \<Rightarrow> preturn s | other \<Rightarrow> pfail (ExpectedIdent other))"

definition expect_int :: "i64 parser" where
  "expect_int = pbind advance (\<lambda>t. case t of T_IntLit n \<Rightarrow> preturn n | other \<Rightarrow> pfail (ExpectedInt other))"

definition expect_string :: "string parser" where
  "expect_string = pbind advance (\<lambda>t. case t of T_StrLit s \<Rightarrow> preturn s | other \<Rightarrow> pfail (ExpectedString other))"

fun comma_loop :: "nat \<Rightarrow> 'a parser \<Rightarrow> 'a list \<Rightarrow> 'a list parser" where
  "comma_loop 0 p items ts = None"
| "comma_loop (Suc n) p items ts =
     (if hd ts = T_Comma then pbind p (\<lambda>x. comma_loop n p (items @ [x])) (adv ts)
      else Some (Inr (items, ts)))"

definition parse_comma_separated :: "nat \<Rightarrow> 'a parser \<Rightarrow> 'a list parser" where
  "parse_comma_separated n p = pbind p (\<lambda>x. comma_loop n p [x])"

section \<open>Intervals\<close>

definition ns_per_unit :: "string \<Rightarrow> i64 option" where
  "ns_per_unit u =
     (if u \<in> set [''us'', ''microsecond'', ''microseconds''] then Some 1000
      else if u \<in> set [''ms'', ''millisecond'', ''milliseconds'', ''millisec''] then Some 1000000
      else if u \<in> set [''s'', ''sec'', ''second'', ''seconds''] then Some 1000000000
      else if u \<in> set [''m'', ''min'', ''minute'', ''minutes''] then Some (60 * 1000000000)
      else if u \<in> set [''h'', ''hr'', ''hour'', ''hours''] then Some (3600 * 1000000000)
      else if u \<in> set [''d'', ''day'', ''days''] then Some (86400 * 1000000000)
      else None)"

definition parse_interval :: "string \<Rightarrow> parse_error + i64" where
  "parse_interval text =
     (let s = trim text;
          num_str = trim (takeWhile (\<lambda>c. \<not> is_alphabetic c) s);
          unit = to_ascii_lowercase (trim (dropWhile (\<lambda>c. \<not> is_alphabetic c) s)) in
      case parse_i64 num_str of
        None \<Rightarrow> Inl (InvalidIntervalNumber s)
      | Some num \<Rightarrow>
          (case ns_per_unit unit of
             None \<Rightarrow> Inl (UnknownIntervalUnit unit)
           | Some k \<Rightarrow> Inr (wrap_i64 (num * k))))"

section \<open>Expressions\<close>

definition parse_args :: "nat \<Rightarrow> expr parser \<Rightarrow> expr list parser" where
  "parse_args n pe ts = (if hd ts = T_RParen then Some (Inr ([], ts)) else parse_comma_separated n pe ts)"

definition parse_primary :: "nat \<Rightarrow> expr parser \<Rightarrow> expr parser" where
  "parse_primary n pe ts =
     (case hd ts of
        T_IntLit i \<Rightarrow> preturn (E_Literal (L_Int i)) (adv ts)
      | T_FloatLit f \<Rightarrow> preturn (E_Literal (L_Float f)) (adv ts)
      | T_StrLit s \<Rightarrow> preturn (E_Literal (L_Str s)) (adv ts)
      | T_True \<Rightarrow> preturn (E_Literal (L_Bool True)) (adv ts)
      | T_False \<Rightarrow> preturn (E_Literal (L_Bool False)) (adv ts)
      | T_Null \<Rightarrow> preturn (E_Literal L_Null) (adv ts)
      | T_Star \<Rightarrow> preturn E_Star (adv ts)
      | T_LParen \<Rightarrow> pbind pe (\<lambda>e. pbind (expect T_RParen) (\<lambda>_. preturn e)) (adv ts)
      | T_Interval \<Rightarrow>
          pbind expect_string (\<lambda>s. case parse_interval s of
             Inl e \<Rightarrow> pfail e | Inr ns \<Rightarrow> preturn (E_Interval ns)) (adv ts)
      | T_Ident name \<Rightarrow>
          (let ts1 = adv ts in
           if hd ts1 = T_Dot then pbind expect_ident (\<lambda>col. preturn (E_Column (Some name) col)) (adv ts1)
           else if hd ts1 = T_LParen then
             pbind (parse_args n pe) (\<lambda>args.
               pbind (expect T_RParen) (\<lambda>_. preturn (E_Function (to_ascii_lowercase name) args))) (adv ts1)
           else preturn (E_Column None name) ts1)
      | other \<Rightarrow> pfail (UnexpectedToken other) ts)"

fun parse_unary :: "nat \<Rightarrow> nat \<Rightarrow> expr parser \<Rightarrow> expr parser" where
  "parse_unary 0 n pe ts = None"
| "parse_unary (Suc k) n pe ts =
     (if hd ts = T_Minus then pbind (parse_unary k n pe) (\<lambda>e. preturn (E_UnaryOp Op_Neg e)) (adv ts)
      else parse_primary n pe ts)"

text \<open>The loops for left-associative operators: \<open>op\<close> says which operator a token is.\<close>

fun binop_loop :: "nat \<Rightarrow> (token \<Rightarrow> binop option) \<Rightarrow> expr parser \<Rightarrow> expr \<Rightarrow> expr parser" where
  "binop_loop 0 op p left ts = None"
| "binop_loop (Suc k) op p left ts =
     (case op (hd ts) of
        None \<Rightarrow> Some (Inr (left, ts))
      | Some b \<Rightarrow> pbind p (\<lambda>right. binop_loop k op p (E_BinOp b left right)) (adv ts))"

definition mul_op :: "token \<Rightarrow> binop option" where
  "mul_op t = (case t of T_Star \<Rightarrow> Some Op_Mul | T_Slash \<Rightarrow> Some Op_Div | T_Percent \<Rightarrow> Some Op_Mod | _ \<Rightarrow> None)"

definition add_op :: "token \<Rightarrow> binop option" where
  "add_op t = (case t of T_Plus \<Rightarrow> Some Op_Add | T_Minus \<Rightarrow> Some Op_Sub | _ \<Rightarrow> None)"

definition and_op :: "token \<Rightarrow> binop option" where
  "and_op t = (if t = T_And then Some Op_And else None)"

definition or_op :: "token \<Rightarrow> binop option" where
  "or_op t = (if t = T_Or then Some Op_Or else None)"

definition cmp_op :: "token \<Rightarrow> binop option" where
  "cmp_op t =
     (case t of T_Eq \<Rightarrow> Some Op_Eq | T_NotEq \<Rightarrow> Some Op_NotEq | T_Lt \<Rightarrow> Some Op_Lt | T_LtEq \<Rightarrow> Some Op_LtEq
      | T_Gt \<Rightarrow> Some Op_Gt | T_GtEq \<Rightarrow> Some Op_GtEq | _ \<Rightarrow> None)"

definition parse_multiplication :: "nat \<Rightarrow> expr parser \<Rightarrow> expr parser" where
  "parse_multiplication n pe = pbind (parse_unary n n pe) (binop_loop n mul_op (parse_unary n n pe))"

definition parse_addition :: "nat \<Rightarrow> expr parser \<Rightarrow> expr parser" where
  "parse_addition n pe = pbind (parse_multiplication n pe) (binop_loop n add_op (parse_multiplication n pe))"

definition parse_in_list :: "nat \<Rightarrow> expr parser \<Rightarrow> expr list parser" where
  "parse_in_list n pe =
     pbind (expect T_LParen) (\<lambda>_. pbind (parse_comma_separated n pe) (\<lambda>list.
       pbind (expect T_RParen) (\<lambda>_. preturn list)))"

definition parse_is :: "expr \<Rightarrow> expr parser" where
  "parse_is left =
     pbind (eat_optional T_Not) (\<lambda>negated. pbind (expect T_Null) (\<lambda>_.
       preturn (if negated then E_IsNotNull left else E_IsNull left)))"

definition parse_between :: "nat \<Rightarrow> expr parser \<Rightarrow> expr \<Rightarrow> expr parser" where
  "parse_between n pe left =
     pbind (parse_addition n pe) (\<lambda>low. pbind (expect T_And) (\<lambda>_.
       pbind (parse_addition n pe) (\<lambda>high. preturn (E_Between left low high))))"

definition parse_not_suffix :: "nat \<Rightarrow> expr parser \<Rightarrow> expr \<Rightarrow> expr parser" where
  "parse_not_suffix n pe left ts =
     (if hd ts = T_In then
        pbind (parse_in_list n pe) (\<lambda>list. preturn (E_UnaryOp Op_Not (E_In left list))) (adv ts)
      else if hd ts = T_Like then
        pbind expect_string (\<lambda>pat. preturn (E_Like left pat True)) (adv ts)
      else pfail ExpectedAfterNot ts)"

definition comparison_rest :: "nat \<Rightarrow> expr parser \<Rightarrow> expr \<Rightarrow> expr parser" where
  "comparison_rest n pe left ts =
     (case cmp_op (hd ts) of
        Some op \<Rightarrow> pbind (parse_addition n pe) (\<lambda>right. preturn (E_BinOp op left right)) (adv ts)
      | None \<Rightarrow>
          if hd ts = T_Is then parse_is left (adv ts)
          else if hd ts = T_Between then parse_between n pe left (adv ts)
          else if hd ts = T_Not then parse_not_suffix n pe left (adv ts)
          else if hd ts = T_In then pbind (parse_in_list n pe) (\<lambda>list. preturn (E_In left list)) (adv ts)
          else if hd ts = T_Like then pbind expect_string (\<lambda>pat. preturn (E_Like left pat False)) (adv ts)
          else preturn left ts)"

definition parse_comparison :: "nat \<Rightarrow> expr parser \<Rightarrow> expr parser" where
  "parse_comparison n pe = pbind (parse_addition n pe) (comparison_rest n pe)"

fun parse_not :: "nat \<Rightarrow> nat \<Rightarrow> expr parser \<Rightarrow> expr parser" where
  "parse_not 0 n pe ts = None"
| "parse_not (Suc k) n pe ts =
     (if hd ts = T_Not then pbind (parse_not k n pe) (\<lambda>e. preturn (E_UnaryOp Op_Not e)) (adv ts)
      else parse_comparison n pe ts)"

definition parse_and :: "nat \<Rightarrow> expr parser \<Rightarrow> expr parser" where
  "parse_and n pe = pbind (parse_not n n pe) (binop_loop n and_op (parse_not n n pe))"

definition parse_or :: "nat \<Rightarrow> expr parser \<Rightarrow> expr parser" where
  "parse_or n pe = pbind (parse_and n pe) (binop_loop n or_op (parse_and n pe))"

fun parse_expr :: "nat \<Rightarrow> expr parser" where
  "parse_expr 0 ts = None"
| "parse_expr (Suc n) ts = parse_or (Suc n) (parse_expr n) ts"

section \<open>Statements\<close>

definition parse_alias :: "string option parser" where
  "parse_alias ts =
     (case hd ts of
        T_As \<Rightarrow> pbind expect_ident (\<lambda>a. preturn (Some a)) (adv ts)
      | T_Ident _ \<Rightarrow> pbind expect_ident (\<lambda>a. preturn (Some a)) ts
      | _ \<Rightarrow> preturn None ts)"

definition parse_projection :: "nat \<Rightarrow> projection parser" where
  "parse_projection n ts =
     (if hd ts = T_Star then preturn P_Star (adv ts)
      else pbind (parse_expr n) (\<lambda>e. pbind parse_alias (\<lambda>a. preturn (P_Expr e a))) ts)"

definition parse_projections :: "nat \<Rightarrow> projection list parser" where
  "parse_projections n = parse_comma_separated n (parse_projection n)"

definition parse_table_ref :: "table_ref parser" where
  "parse_table_ref =
     pbind expect_ident (\<lambda>name. pbind parse_alias (\<lambda>a. preturn \<lparr>tr_name = name, tr_alias = a\<rparr>))"

definition parse_join_kind :: "join_kind option parser" where
  "parse_join_kind ts =
     (case hd ts of
        T_Join \<Rightarrow> preturn (Some J_Inner) (adv ts)
      | T_Inner \<Rightarrow> pbind (expect T_Join) (\<lambda>_. preturn (Some J_Inner)) (adv ts)
      | T_Left \<Rightarrow> pbind (eat_optional T_Inner) (\<lambda>_. pbind (expect T_Join) (\<lambda>_. preturn (Some J_Left))) (adv ts)
      | T_Right \<Rightarrow> pbind (eat_optional T_Inner) (\<lambda>_. pbind (expect T_Join) (\<lambda>_. preturn (Some J_Right))) (adv ts)
      | _ \<Rightarrow> preturn None ts)"

definition parse_join :: "nat \<Rightarrow> join_kind \<Rightarrow> join_clause parser" where
  "parse_join n kind =
     pbind parse_table_ref (\<lambda>table. pbind (expect T_On) (\<lambda>_. pbind (parse_expr n) (\<lambda>cond.
       preturn \<lparr>jc_kind = kind, jc_table = table, jc_condition = cond\<rparr>)))"

fun parse_joins :: "nat \<Rightarrow> nat \<Rightarrow> join_clause list \<Rightarrow> join_clause list parser" where
  "parse_joins 0 n joins ts = None"
| "parse_joins (Suc k) n joins ts =
     pbind parse_join_kind (\<lambda>kind. case kind of
         None \<Rightarrow> preturn joins
       | Some j \<Rightarrow> pbind (parse_join n j) (\<lambda>join. parse_joins k n (joins @ [join]))) ts"

definition parse_order_by_item :: "nat \<Rightarrow> order_by_item parser" where
  "parse_order_by_item n =
     pbind (parse_expr n) (\<lambda>e ts.
       case hd ts of
         T_Asc \<Rightarrow> preturn \<lparr>ob_expr = e, ob_asc = True\<rparr> (adv ts)
       | T_Desc \<Rightarrow> preturn \<lparr>ob_expr = e, ob_asc = False\<rparr> (adv ts)
       | _ \<Rightarrow> preturn \<lparr>ob_expr = e, ob_asc = True\<rparr> ts)"

text \<open>A clause that starts with a keyword and is absent otherwise.\<close>

definition opt_clause :: "token \<Rightarrow> 'a \<Rightarrow> 'a parser \<Rightarrow> 'a parser" where
  "opt_clause kw absent p ts = (if hd ts = kw then p (adv ts) else preturn absent ts)"

definition parse_select :: "nat \<Rightarrow> select_statement parser" where
  "parse_select n =
     pbind (expect T_Select) (\<lambda>_. pbind (eat_optional T_Distinct) (\<lambda>_.
     pbind (parse_projections n) (\<lambda>projections. pbind (expect T_From) (\<lambda>_.
     pbind parse_table_ref (\<lambda>from. pbind (parse_joins n n []) (\<lambda>joins.
     pbind (opt_clause T_Where None (pbind (parse_expr n) (\<lambda>e. preturn (Some e)))) (\<lambda>flt.
     pbind (opt_clause T_Group [] (pbind (expect T_By) (\<lambda>_. parse_comma_separated n (parse_expr n)))) (\<lambda>group_by.
     pbind (opt_clause T_Having None (pbind (parse_expr n) (\<lambda>e. preturn (Some e)))) (\<lambda>having.
     pbind (opt_clause T_Order [] (pbind (expect T_By) (\<lambda>_. parse_comma_separated n (parse_order_by_item n)))) (\<lambda>order_by.
     pbind (opt_clause T_Limit None (pbind expect_int (\<lambda>i. preturn (Some (word_of_int i))))) (\<lambda>limit.
     pbind (opt_clause T_Offset None (pbind expect_int (\<lambda>i. preturn (Some (word_of_int i))))) (\<lambda>offset.
       preturn \<lparr>sel_projections = projections, sel_from = from, sel_joins = joins, sel_filter = flt,
                sel_group_by = group_by, sel_having = having, sel_order_by = order_by,
                sel_limit = limit, sel_offset = offset\<rparr>))))))))))))"

definition parse_statement :: "nat \<Rightarrow> statement parser" where
  "parse_statement n ts =
     (if hd ts = T_Select then
        pbind (parse_select n) (\<lambda>s. pbind (eat_optional T_Semicolon) (\<lambda>_.
          pbind (expect T_Eof) (\<lambda>_. preturn (Select s)))) ts
      else pfail (ExpectedSelect (hd ts)) ts)"

text \<open>The whole parser, with the fuel its input needs; no token is an index out of bounds.\<close>

definition parse_tokens :: "token list \<Rightarrow> (parse_error + statement) option" where
  "parse_tokens ts =
     (if ts = [] then None
      else map_option (\<lambda>r. case r of Inl e \<Rightarrow> Inl e | Inr (s, _) \<Rightarrow> Inr s)
             (parse_statement (Suc (length ts)) ts))"

end
