(* ===== verification/Parser_Correct.thy ===== *)
theory Parser_Correct
  imports Parser
begin

text \<open>
  Correctness of the parser: on the token lists of the lexer it always returns, and it is the
  inverse of a printer for statements that puts parentheses around every compound expression.
\<close>

section \<open>Progress\<close>

text \<open>Token lists that end with the end-of-input token, and parsers that return on all of them up
  to a length, keep that shape and consume at least so many tokens.\<close>

named_theorems progress_rules \<open>progress of the parsers\<close>

definition wft :: "token list \<Rightarrow> bool" where
  "wft ts \<longleftrightarrow> ts \<noteq> [] \<and> last ts = T_Eof"

definition progress :: "nat \<Rightarrow> nat \<Rightarrow> 'a parser \<Rightarrow> bool" where
  "progress n m p \<longleftrightarrow>
     (\<forall>ts. wft ts \<and> length ts \<le> n \<longrightarrow>
        (case p ts of
           None \<Rightarrow> False
         | Some (Inl _) \<Rightarrow> True
         | Some (Inr (_, ts')) \<Rightarrow> wft ts' \<and> length ts' + m \<le> length ts))"

lemma progressI:
  assumes "\<And>ts. wft ts \<Longrightarrow> length ts \<le> n \<Longrightarrow>
    (\<exists>e. p ts = Some (Inl e)) \<or> (\<exists>a ts'. p ts = Some (Inr (a, ts')) \<and> wft ts' \<and> length ts' + m \<le> length ts)"
  shows "progress n m p"
  unfolding progress_def
proof (intro allI impI, elim conjE)
  fix ts assume "wft ts" "length ts \<le> n"
  from assms [OF this] show "case p ts of None \<Rightarrow> False | Some (Inl _) \<Rightarrow> True
      | Some (Inr (_, ts')) \<Rightarrow> wft ts' \<and> length ts' + m \<le> length ts"
    by auto
qed

lemma progressE:
  assumes "progress n m p" "wft ts" "length ts \<le> n"
  obtains e where "p ts = Some (Inl e)"
    | a ts' where "p ts = Some (Inr (a, ts'))" "wft ts'" "length ts' + m \<le> length ts"
proof -
  have "case p ts of None \<Rightarrow> False | Some (Inl _) \<Rightarrow> True
      | Some (Inr (_, ts')) \<Rightarrow> wft ts' \<and> length ts' + m \<le> length ts"
    using assms unfolding progress_def by blast
  with that show thesis by (auto split: option.splits sum.splits)
qed

lemma progress_0: "progress 0 m p"
  by (auto simp: progress_def wft_def)

lemma progress_weaken: "progress n m p \<Longrightarrow> n' \<le> n \<Longrightarrow> m' \<le> m \<Longrightarrow> progress n' m' p"
  by (rule progressI, erule progressE) (auto intro: order_trans)

lemma progress_preturn [progress_rules]: "progress n 0 (preturn a)"
  by (simp add: progress_def preturn_def)

lemma progress_pfail [progress_rules]: "progress n m (pfail e)"
  by (simp add: progress_def pfail_def)

lemma progress_pbind:
  assumes "progress n m p" "\<And>a. progress (n - m) k (f a)"
  shows "progress n (m + k) (pbind p f)"
proof (rule progressI)
  fix ts :: "token list"
  assume ts: "wft ts" "length ts \<le> n"
  from assms(1) ts show "(\<exists>e. pbind p f ts = Some (Inl e)) \<or>
      (\<exists>b ts'. pbind p f ts = Some (Inr (b, ts')) \<and> wft ts' \<and> length ts' + (m + k) \<le> length ts)"
  proof (cases rule: progressE)
    case (2 a ts')
    then have "length ts' \<le> n - m" using ts(2) by linarith
    with 2 assms(2) [of a] show ?thesis
      by (elim progressE [OF assms(2) [of a] 2(2)]) (auto simp: pbind_def)
  qed (simp add: pbind_def)
qed

lemma progress_pbind0 [progress_rules]:
  assumes "progress n m p" "\<And>a. progress n 0 (f a)"
  shows "progress n m (pbind p f)"
proof -
  have "progress (n - m) 0 (f a)" for a by (rule progress_weaken [OF assms(2)]) simp_all
  from progress_pbind [OF assms(1) this] show ?thesis by simp
qed

lemma progress_pbind_after:
  assumes "progress n 0 p" "\<And>a. progress n m (f a)"
  shows "progress n m (pbind p f)"
  using progress_pbind [of n 0 p m f] assms by simp

lemma wft_adv:
  assumes "wft ts" "hd ts \<noteq> T_Eof"
  shows "wft (adv ts)" "length (adv ts) + 1 = length ts"
  using assms by (cases ts; auto simp: wft_def adv_def last_ConsR split: if_splits)+

lemma wft_adv_hd: "wft ts \<Longrightarrow> hd ts = t \<Longrightarrow> t \<noteq> T_Eof \<Longrightarrow> length ts \<le> n \<Longrightarrow>
    wft (adv ts) \<and> length (adv ts) \<le> n - 1 \<and> length (adv ts) + 1 = length ts"
  using wft_adv [of ts] by auto

text \<open>A parser that looks at the first token and goes on after it.\<close>

lemma progress_after:
  assumes "progress (n - 1) m p" "wft ts" "length ts \<le> n" "hd ts \<noteq> T_Eof"
  shows "(\<exists>e. p (adv ts) = Some (Inl e)) \<or>
    (\<exists>a ts'. p (adv ts) = Some (Inr (a, ts')) \<and> wft ts' \<and> length ts' + (m + 1) \<le> length ts)"
proof -
  note a = wft_adv [OF assms(2,4)]
  then have "length (adv ts) \<le> n - 1" using assms(3) by linarith
  with a show ?thesis by (elim progressE [OF assms(1) a(1)]) auto
qed

lemma wft_adv_le: "wft ts \<Longrightarrow> wft (adv ts) \<and> length (adv ts) \<le> length ts"
  using wft_adv [of ts] by (cases "hd ts = T_Eof") (auto simp: adv_def wft_def last_drop)

lemma progress_expect [progress_rules]:
  assumes "tok \<noteq> T_Eof"
  shows "progress n 1 (expect tok)"
proof (rule progressI)
  fix ts assume "wft ts"
  with assms wft_adv [of ts] show "(\<exists>e. expect tok ts = Some (Inl e)) \<or>
      (\<exists>a ts'. expect tok ts = Some (Inr (a, ts')) \<and> wft ts' \<and> length ts' + 1 \<le> length ts)"
    by (simp add: expect_def)
qed

lemma progress_expect0 [progress_rules]: "progress n 0 (expect tok)"
  by (rule progressI) (simp add: expect_def wft_adv_le)

lemma progress_eat_optional [progress_rules]: "progress n 0 (eat_optional tok)"
  by (rule progressI) (auto simp: eat_optional_def wft_adv_le)

lemma progress_expect_tokens [progress_rules]:
  "progress n 1 expect_ident" "progress n 1 expect_int" "progress n 1 expect_string"
proof -
  have *: "wft (adv ts) \<and> length (adv ts) + 1 \<le> length ts" if "wft ts" "hd ts \<noteq> T_Eof" for ts
    using wft_adv [OF that] by simp
  show "progress n 1 expect_ident"
    by (rule progressI) (use * in \<open>auto simp: expect_ident_def pbind_def advance_def preturn_def pfail_def
        split: token.split\<close>)
  show "progress n 1 expect_int"
    by (rule progressI) (use * in \<open>auto simp: expect_int_def pbind_def advance_def preturn_def pfail_def
        split: token.split\<close>)
  show "progress n 1 expect_string"
    by (rule progressI) (use * in \<open>auto simp: expect_string_def pbind_def advance_def preturn_def pfail_def
        split: token.split\<close>)
qed

text \<open>A loop with fuel \<open>k\<close> that consumes a token in each round.\<close>

lemma progress_loop:
  assumes step: "\<And>k s ts. loop (Suc k) s ts = (case go s (hd ts) of None \<Rightarrow> Some (Inr (out s, ts))
      | Some s' \<Rightarrow> pbind (body s') (loop k) (adv ts))"
    and "\<And>s. go s T_Eof = None" "\<And>s. progress n 0 (body s)" "n \<le> k"
  shows "progress n 0 (loop k s)"
  using assms(3,4)
proof (induction k arbitrary: n s)
  case 0
  then show ?case by (simp add: progress_0)
next
  case (Suc k)
  show ?case
  proof (rule progressI)
    fix ts assume ts: "wft ts" "length ts \<le> n"
    show "(\<exists>e. loop (Suc k) s ts = Some (Inl e)) \<or> (\<exists>a ts'. loop (Suc k) s ts
        = Some (Inr (a, ts')) \<and> wft ts' \<and> length ts' + 0 \<le> length ts)"
    proof (cases "go s (hd ts)")
      case (Some s')
      then have "hd ts \<noteq> T_Eof" using assms(2) by auto
      moreover have body: "progress (n - 1) 0 (body x)" for x
        by (rule progress_weaken [OF Suc.prems(1)]) simp_all
      have "progress (n - 1) 0 (pbind (body s') (loop k))"
        by (rule progress_pbind0 [OF body Suc.IH [OF body]]) (use Suc.prems(2) in simp)
      ultimately show ?thesis
        using Some progress_after [of n 0 "pbind (body s') (loop k)" ts] ts by (auto simp: step)
    qed (use ts in \<open>simp add: step\<close>)
  qed
qed

lemma progress_comma_loop:
  assumes "progress n 0 p" "n \<le> k"
  shows "progress n 0 (comma_loop k p items)"
  by (rule progress_loop [where loop = "\<lambda>k. comma_loop k p" and out = "\<lambda>items. items"
        and go = "\<lambda>items t. if t = T_Comma then Some items else None"
        and body = "\<lambda>items. pbind p (\<lambda>x. preturn (items @ [x]))"])
    (use assms in \<open>simp_all add: progress_pbind0 progress_preturn, simp add: pbind_def preturn_def split: option.split sum.split\<close>)

lemma progress_binop_loop:
  assumes "op T_Eof = None" "progress n 0 p" "n \<le> k"
  shows "progress n 0 (binop_loop k op p left)"
  by (rule progress_loop [where loop = "\<lambda>k. binop_loop k op p" and out = "\<lambda>e. e"
        and go = "\<lambda>left t. map_option (\<lambda>b. E_BinOp b left E_Star) (op t)"
        and body = "\<lambda>l. pbind p (\<lambda>right. preturn (case l of E_BinOp b left _ \<Rightarrow> E_BinOp b left right))"])
    (use assms in \<open>simp_all add: progress_pbind0 progress_preturn, simp add: pbind_def preturn_def split: option.split sum.split\<close>)

lemma progress_comma_separated [progress_rules]:
  "progress n 1 p \<Longrightarrow> n \<le> k \<Longrightarrow> progress n 1 (parse_comma_separated k p)"
  unfolding parse_comma_separated_def
  by (intro progress_pbind0 progress_comma_loop) (auto intro: progress_weaken)

lemma ops_eof [simp]:
  "mul_op T_Eof = None" "add_op T_Eof = None" "and_op T_Eof = None" "or_op T_Eof = None" "cmp_op T_Eof = None"
  by (simp_all add: mul_op_def add_op_def and_op_def or_op_def cmp_op_def)

lemma progress_case:
  assumes "\<And>ts. wft ts \<Longrightarrow> length ts \<le> n \<Longrightarrow>
    (\<exists>q. p ts = q ts \<and> progress n m q) \<or> (hd ts \<noteq> T_Eof \<and> (\<exists>q. p ts = q (adv ts) \<and> progress (n - 1) (m - 1) q))"
  shows "progress n m p"
proof (rule progressI)
  fix ts assume ts: "wft ts" "length ts \<le> n"
  from assms [OF ts] show "(\<exists>e. p ts = Some (Inl e)) \<or>
      (\<exists>a ts'. p ts = Some (Inr (a, ts')) \<and> wft ts' \<and> length ts' + m \<le> length ts)"
  proof (elim disjE exE conjE)
    fix q assume "p ts = q ts" "progress n m q"
    then show ?thesis using progressE [of n m q ts] ts by metis
  next
    fix q assume "hd ts \<noteq> T_Eof" "p ts = q (adv ts)" "progress (n - 1) (m - 1) q"
    then show ?thesis using progress_after [of n "m - 1" q ts] ts by fastforce
  qed
qed

lemma case_here: "p ts = q ts \<Longrightarrow> progress n m q \<Longrightarrow>
    (\<exists>q. p ts = q ts \<and> progress n m q) \<or> (hd ts \<noteq> T_Eof \<and> (\<exists>q. p ts = q (adv ts) \<and> progress (n - 1) (m - 1) q))"
  by blast

lemma case_after: "p ts = q (adv ts) \<Longrightarrow> hd ts \<noteq> T_Eof \<Longrightarrow> progress (n - 1) (m - 1) q \<Longrightarrow>
    (\<exists>q. p ts = q ts \<and> progress n m q) \<or> (hd ts \<noteq> T_Eof \<and> (\<exists>q. p ts = q (adv ts) \<and> progress (n - 1) (m - 1) q))"
  by blast

lemma progress_if: "progress n m p \<Longrightarrow> progress n m q \<Longrightarrow> progress n m (\<lambda>ts. if b ts then p ts else q ts)"
  unfolding progress_def by simp

lemma progress_if_after:
  assumes "t \<noteq> T_Eof" "progress (n - 1) (m - 1) p" "progress n m q"
  shows "progress n m (\<lambda>ts. if hd ts = t then p (adv ts) else q ts)"
proof (rule progress_case)
  show "(\<exists>r. (if hd ts = t then p (adv ts) else q ts) = r ts \<and> progress n m r)
      \<or> hd ts \<noteq> T_Eof \<and> (\<exists>r. (if hd ts = t then p (adv ts) else q ts) = r (adv ts) \<and> progress (n - 1) (m - 1) r)" for ts
    using assms by (cases "hd ts = t") auto
qed

lemma progress_args:
  "progress n 1 pe \<Longrightarrow> n \<le> k \<Longrightarrow> progress n 0 (parse_args k pe)"
  unfolding parse_args_def preturn_def [symmetric]
  by (intro progress_if progress_preturn progress_weaken [OF progress_comma_separated [of n pe k]]) simp_all

lemma progress_interval:
  "progress n 0 (pbind expect_string (\<lambda>s. case parse_interval s of
     Inl e \<Rightarrow> pfail e | Inr ns \<Rightarrow> preturn (E_Interval ns)))"
  by (intro progress_pbind_after progress_weaken [OF progress_expect_tokens(3) [of n]])
    (auto intro!: progress_rules split: sum.split)

lemma progress_ident:
  assumes "progress (n - 1) 1 pe" "n \<le> k"
  shows "progress n 0 (\<lambda>ts1. if hd ts1 = T_Dot then pbind expect_ident (\<lambda>col. preturn (E_Column (Some name) col)) (adv ts1)
           else if hd ts1 = T_LParen then
             pbind (parse_args k pe) (\<lambda>args.
               pbind (expect T_RParen) (\<lambda>_. preturn (E_Function (to_ascii_lowercase name) args))) (adv ts1)
           else preturn (E_Column None name) ts1)"
proof (intro progress_if_after)
  show "progress (n - 1) (0 - 1) (pbind expect_ident (\<lambda>col. preturn (E_Column (Some name) col)))"
    by (intro progress_pbind0 progress_preturn progress_weaken [OF progress_expect_tokens(1) [of "n - 1"]]) simp_all
  show "progress (n - 1) (0 - 1) (pbind (parse_args k pe) (\<lambda>args.
      pbind (expect T_RParen) (\<lambda>_. preturn (E_Function (to_ascii_lowercase name) args))))"
    using assms by (intro progress_pbind0 progress_preturn progress_weaken [OF progress_args [of "n - 1" pe k]] progress_expect0) simp_all
qed (simp_all add: progress_preturn)

lemma progress_primary:
  assumes "progress (n - 1) 1 pe" "n \<le> k"
  shows "progress n 1 (parse_primary k pe)"
proof (rule progress_case)
  fix ts
  have pe0: "progress (n - 1) 0 pe" "progress (n - 1 - 1) 1 pe"
    using assms(1) progress_weaken by (metis diff_le_self le_refl zero_le)+
  have paren: "progress (n - 1) (1 - 1) (pbind pe (\<lambda>e. pbind (expect T_RParen) (\<lambda>_. preturn e)))"
    using pe0 by (simp add: progress_rules)
  have ident: "progress (n - 1) (1 - 1) (\<lambda>ts1. if hd ts1 = T_Dot then pbind expect_ident (\<lambda>col. preturn (E_Column (Some name) col)) (adv ts1)
           else if hd ts1 = T_LParen then
             pbind (parse_args k pe) (\<lambda>args.
               pbind (expect T_RParen) (\<lambda>_. preturn (E_Function (to_ascii_lowercase name) args))) (adv ts1)
           else preturn (E_Column None name) ts1)" for name
    using progress_ident [of "n - 1" pe k name] pe0(2) assms(2) by simp
  note ret = progress_preturn [of "n - 1", folded diff_self_eq_0 [of 1]]
  show "(\<exists>q. parse_primary k pe ts = q ts \<and> progress n 1 q) \<or>
      hd ts \<noteq> T_Eof \<and> (\<exists>q. parse_primary k pe ts = q (adv ts) \<and> progress (n - 1) (1 - 1) q)"
  proof (cases "hd ts")
    case T_LParen
    then show ?thesis by (intro case_after [OF _ _ paren]) (simp_all add: parse_primary_def)
  next
    case T_Interval
    then show ?thesis
      by (intro case_after [OF _ _ progress_interval [of "n - 1", folded diff_self_eq_0 [of 1]]]) (simp_all add: parse_primary_def)
  next
    case (T_Ident name)
    then show ?thesis by (intro case_after [OF _ _ ident [of name]]) (simp_all add: parse_primary_def Let_def)
  next
    case (T_IntLit i)
    then show ?thesis by (intro case_after [OF _ _ ret]) (simp_all add: parse_primary_def)
  next
    case (T_FloatLit i)
    then show ?thesis by (intro case_after [OF _ _ ret]) (simp_all add: parse_primary_def)
  next
    case (T_StrLit i)
    then show ?thesis by (intro case_after [OF _ _ ret]) (simp_all add: parse_primary_def)
  next
    case T_True
    then show ?thesis by (intro case_after [OF _ _ ret]) (simp_all add: parse_primary_def)
  next
    case T_False
    then show ?thesis by (intro case_after [OF _ _ ret]) (simp_all add: parse_primary_def)
  next
    case T_Null
    then show ?thesis by (intro case_after [OF _ _ ret]) (simp_all add: parse_primary_def)
  next
    case T_Star
    then show ?thesis by (intro case_after [OF _ _ ret]) (simp_all add: parse_primary_def)
  qed (rule case_here [OF _ progress_pfail], simp add: parse_primary_def)+
qed

text \<open>Prefix operators.\<close>

lemma progress_prefix:
  assumes step: "\<And>k ts. f (Suc k) ts = (if hd ts = t then pbind (f k) g (adv ts) else q ts)"
    and "t \<noteq> T_Eof" "\<And>e. progress n 0 (g e)" "progress n 1 q" "n \<le> k"
  shows "progress n 1 (f k)"
  using assms(3-5)
proof (induction k arbitrary: n)
  case (Suc k)
  have 1: "progress (n - 1) 1 q" by (rule progress_weaken [OF Suc.prems(2)]) simp_all
  have 2: "progress (n - 1) 0 (g e)" for e by (rule progress_weaken [OF Suc.prems(1)]) simp_all
  have "progress (n - 1) 1 (f k)"
    by (rule Suc.IH) (use 1 2 Suc.prems(3) in auto)
  then have "progress (n - 1) 0 (f k)" by (rule progress_weaken) simp_all
  then have "progress (n - 1) (1 - 1) (pbind (f k) g)"
    using 2 by (simp add: progress_pbind0)
  then have "progress n 1 (\<lambda>ts. if hd ts = t then pbind (f k) g (adv ts) else q ts)"
    by (rule progress_if_after [OF assms(2) _ Suc.prems(2)])
  then show ?case by (simp add: step [abs_def])
qed (simp add: progress_0)

lemma progress_unary:
  assumes "progress (n - 1) 1 pe" "n \<le> k"
  shows "progress n 1 (parse_unary k k pe)"
  by (rule progress_prefix [where f = "\<lambda>j. parse_unary j k pe" and t = T_Minus
        and g = "\<lambda>e. preturn (E_UnaryOp Op_Neg e)" and q = "parse_primary k pe"])
    (use assms in \<open>simp_all add: progress_preturn progress_primary [unfolded One_nat_def]\<close>)

lemma progress_binop_chain:
  assumes "progress n 1 p" "op T_Eof = None" "n \<le> k"
  shows "progress n 1 (pbind p (binop_loop k op p))"
proof -
  have "progress n 0 p" by (rule progress_weaken [OF assms(1)]) simp_all
  with assms show ?thesis by (intro progress_pbind0 progress_binop_loop) simp_all
qed

lemma progress_addition:
  assumes "progress (n - 1) 1 pe" "n \<le> k"
  shows "progress n 1 (parse_addition k pe)"
  unfolding parse_addition_def parse_multiplication_def
  by (intro progress_binop_chain progress_unary assms) simp_all

lemma progress_in_list:
  assumes "progress n 1 pe" "n \<le> k"
  shows "progress n 0 (parse_in_list k pe)"
  unfolding parse_in_list_def
  by (intro progress_pbind_after progress_weaken [OF progress_comma_separated [OF assms]] progress_rules) simp_all

lemma progress_is: "progress n 0 (parse_is left)"
  unfolding parse_is_def by (intro progress_pbind_after progress_rules)

lemma progress_between:
  assumes "progress n 0 (parse_addition k pe)"
  shows "progress n 0 (parse_between k pe left)"
  unfolding parse_between_def by (intro progress_pbind0 assms progress_rules)

lemma progress_like: "progress n 0 (pbind expect_string (\<lambda>pat. preturn (E_Like left pat b)))"
  by (intro progress_pbind0 progress_preturn progress_weaken [OF progress_expect_tokens(3) [of n]]) simp_all

lemma progress_not_suffix:
  assumes "progress (n - 1) 1 pe" "n - 1 \<le> k"
  shows "progress n 0 (parse_not_suffix k pe left)"
  unfolding parse_not_suffix_def
proof (intro progress_if_after progress_pfail)
  show "progress (n - 1) (0 - 1) (pbind (parse_in_list k pe) (\<lambda>list. preturn (E_UnaryOp Op_Not (E_In left list))))"
    using progress_in_list [OF assms] by (simp add: progress_pbind0 progress_preturn)
  show "progress (n - 1) (0 - 1) (pbind expect_string (\<lambda>pat. preturn (E_Like left pat True)))"
    using progress_like by simp
qed simp_all

lemma progress_comparison_rest:
  assumes "progress (n - 1) 1 pe" "n \<le> k"
  shows "progress n 0 (comparison_rest k pe left)"
proof (rule progress_case)
  fix ts
  have pe: "progress (n - 1 - 1) 1 pe" by (rule progress_weaken [OF assms(1)]) simp_all
  have "progress (n - 1) 1 (parse_addition k pe)"
    using progress_addition [OF pe] assms(2) by simp
  then have add: "progress (n - 1) 0 (parse_addition k pe)" by (rule progress_weaken) simp_all
  have rest: "progress n 0 (\<lambda>ts. if hd ts = T_Is then parse_is left (adv ts)
          else if hd ts = T_Between then parse_between k pe left (adv ts)
          else if hd ts = T_Not then parse_not_suffix k pe left (adv ts)
          else if hd ts = T_In then pbind (parse_in_list k pe) (\<lambda>list. preturn (E_In left list)) (adv ts)
          else if hd ts = T_Like then pbind expect_string (\<lambda>pat. preturn (E_Like left pat False)) (adv ts)
          else preturn left ts)"
    using assms(2) add progress_in_list [OF assms(1), of k] progress_not_suffix [OF pe, of k left]
    by (intro progress_if_after) (simp_all add: progress_is progress_between progress_like progress_preturn progress_pbind0)
  show "(\<exists>q. comparison_rest k pe left ts = q ts \<and> progress n 0 q) \<or>
      hd ts \<noteq> T_Eof \<and> (\<exists>q. comparison_rest k pe left ts = q (adv ts) \<and> progress (n - 1) (0 - 1) q)"
  proof (cases "cmp_op (hd ts)")
    case None
    then show ?thesis by (intro case_here [OF _ rest]) (simp add: comparison_rest_def)
  next
    case (Some op)
    then have "hd ts \<noteq> T_Eof" by auto
    moreover have "progress (n - 1) (0 - 1) (pbind (parse_addition k pe) (\<lambda>right. preturn (E_BinOp op left right)))"
      using add by (simp add: progress_pbind0 progress_preturn)
    ultimately show ?thesis
      using Some by (intro case_after) (simp_all add: comparison_rest_def)
  qed
qed

lemma progress_or:
  assumes "progress (n - 1) 1 pe" "n \<le> k"
  shows "progress n 1 (parse_or k pe)"
proof -
  have "progress n 1 (parse_comparison k pe)"
    unfolding parse_comparison_def
    by (intro progress_pbind0 progress_addition progress_comparison_rest assms)
  then have "progress n 1 (parse_not k k pe)"
    by (intro progress_prefix [where f = "\<lambda>j. parse_not j k pe" and t = T_Not
          and g = "\<lambda>e. preturn (E_UnaryOp Op_Not e)" and q = "parse_comparison k pe"])
      (use assms in \<open>simp_all add: progress_preturn\<close>)
  then show ?thesis
    unfolding parse_or_def parse_and_def
    by (intro progress_binop_chain assms) simp_all
qed

lemma progress_expr [progress_rules]: "n \<le> k \<Longrightarrow> progress n 1 (parse_expr k)"
proof (induction k arbitrary: n)
  case (Suc k)
  have "progress n 1 (parse_or (Suc k) (parse_expr k))"
    by (rule progress_or) (use Suc in auto)
  then show ?case by (simp add: progress_def)
qed (simp add: progress_0)

lemma progress_alias [progress_rules]: "progress n 0 parse_alias"
proof (rule progress_case)
  fix ts
  have p: "progress m 0 (pbind expect_ident (\<lambda>a. preturn (Some a)))" for m
    by (intro progress_pbind0 progress_preturn progress_weaken [OF progress_expect_tokens(1) [of m]]) simp_all
  show "(\<exists>q. parse_alias ts = q ts \<and> progress n 0 q) \<or>
      hd ts \<noteq> T_Eof \<and> (\<exists>q. parse_alias ts = q (adv ts) \<and> progress (n - 1) (0 - 1) q)"
  proof (cases "hd ts")
    case T_As
    then show ?thesis using p by (intro case_after [where q = "pbind expect_ident (\<lambda>a. preturn (Some a))"]) (simp_all add: parse_alias_def)
  next
    case (T_Ident x)
    then show ?thesis using p by (intro case_here [where q = "pbind expect_ident (\<lambda>a. preturn (Some a))"]) (simp_all add: parse_alias_def)
  qed (rule case_here [OF _ progress_preturn], simp add: parse_alias_def)+
qed

lemma progress_projection:
  assumes "n \<le> k"
  shows "progress n 1 (parse_projection k)"
  unfolding parse_projection_def
  by (intro progress_if_after progress_pbind0 progress_expr progress_alias assms)
    (simp_all add: progress_preturn)

lemma progress_table_ref: "progress n 1 parse_table_ref"
  unfolding parse_table_ref_def
  by (intro progress_pbind0 progress_expect_tokens progress_alias progress_preturn)

lemma progress_join:
  assumes "n \<le> k"
  shows "progress n 0 (parse_join k j)"
  unfolding parse_join_def
  by (intro progress_pbind0 progress_preturn progress_expect0 progress_weaken [OF progress_table_ref [of n]]
      progress_weaken [OF progress_expr [OF assms]]) simp_all

lemma join_kind_cases:
  assumes "wft ts"
  shows "(\<exists>e. parse_join_kind ts = Some (Inl e)) \<or> parse_join_kind ts = Some (Inr (None, ts))
    \<or> (\<exists>j ts'. parse_join_kind ts = Some (Inr (Some j, ts')) \<and> wft ts' \<and> length ts' + 1 \<le> length ts)"
proof -
  have ex: "progress n 0 (pbind (expect T_Join) (\<lambda>_. preturn (Some j)))"
    "progress n 0 (pbind (eat_optional T_Inner) (\<lambda>_. pbind (expect T_Join) (\<lambda>_. preturn (Some j))))" for n j
    by (intro progress_pbind_after progress_rules)+
  have some: "pbind (expect T_Join) (\<lambda>_. preturn (Some j)) us = Some (Inr (r, vs)) \<Longrightarrow> r = Some j"
    "pbind (eat_optional T_Inner) (\<lambda>_. pbind (expect T_Join) (\<lambda>_. preturn (Some j))) us = Some (Inr (r, vs)) \<Longrightarrow> r = Some j" for j r us vs
    by (auto simp: pbind_def expect_def eat_optional_def preturn_def split: if_splits)
  show ?thesis
  proof (cases "hd ts")
    case T_Join
    with wft_adv [OF assms] show ?thesis by (simp add: parse_join_kind_def preturn_def)
  next
    case T_Inner
    with progress_after [OF ex(1) [of "length ts - 1" J_Inner] assms] some(1) [of J_Inner "adv ts"]
    show ?thesis by (fastforce simp: parse_join_kind_def)
  next
    case T_Left
    with progress_after [OF ex(2) [of "length ts - 1" J_Left] assms] some(2) [of J_Left "adv ts"]
    show ?thesis by (fastforce simp: parse_join_kind_def)
  next
    case T_Right
    with progress_after [OF ex(2) [of "length ts - 1" J_Right] assms] some(2) [of J_Right "adv ts"]
    show ?thesis by (fastforce simp: parse_join_kind_def)
  qed (simp_all add: parse_join_kind_def preturn_def)
qed

lemma progress_joins: "n \<le> k \<Longrightarrow> k \<le> m \<Longrightarrow> progress n 0 (parse_joins k m joins)"
proof (induction k arbitrary: n joins)
  case (Suc k)
  show ?case
  proof (rule progressI)
    fix ts assume ts: "wft ts" "length ts \<le> n"
    show "(\<exists>e. parse_joins (Suc k) m joins ts = Some (Inl e)) \<or> (\<exists>a ts'. parse_joins (Suc k) m joins ts
        = Some (Inr (a, ts')) \<and> wft ts' \<and> length ts' + 0 \<le> length ts)"
      using join_kind_cases [OF ts(1)]
    proof (elim disjE exE conjE)
      fix j ts' assume j: "parse_join_kind ts = Some (Inr (Some j, ts'))" "wft ts'" "length ts' + 1 \<le> length ts"
      have "progress (n - 1) 0 (pbind (parse_join m j) (\<lambda>join. parse_joins k m (joins @ [join])))"
        by (intro progress_pbind0 progress_join Suc.IH) (use Suc.prems in auto)
      then show ?thesis
        using j ts by (elim progressE [OF _ j(2)]) (auto simp: pbind_def)
    qed (simp_all add: pbind_def preturn_def ts)
  qed
qed (simp add: progress_0)

lemma progress_order_by_item:
  assumes "n \<le> k"
  shows "progress n 1 (parse_order_by_item k)"
  unfolding parse_order_by_item_def
proof (intro progress_pbind0 progress_expr assms progressI)
  fix e ts assume ts: "wft ts" "length ts \<le> n"
  show "(\<exists>ea. (case hd ts of T_Asc \<Rightarrow> preturn \<lparr>ob_expr = e, ob_asc = True\<rparr> (adv ts)
        | T_Desc \<Rightarrow> preturn \<lparr>ob_expr = e, ob_asc = False\<rparr> (adv ts) | _ \<Rightarrow> preturn \<lparr>ob_expr = e, ob_asc = True\<rparr> ts) = Some (Inl ea))
      \<or> (\<exists>a ts'. (case hd ts of T_Asc \<Rightarrow> preturn \<lparr>ob_expr = e, ob_asc = True\<rparr> (adv ts)
        | T_Desc \<Rightarrow> preturn \<lparr>ob_expr = e, ob_asc = False\<rparr> (adv ts) | _ \<Rightarrow> preturn \<lparr>ob_expr = e, ob_asc = True\<rparr> ts)
          = Some (Inr (a, ts')) \<and> wft ts' \<and> length ts' + 0 \<le> length ts)"
    using wft_adv_le [OF ts(1)] ts by (auto simp: preturn_def split: token.split)
qed

lemma progress_opt_clause:
  assumes "kw \<noteq> T_Eof" "progress n 0 p"
  shows "progress n 0 (opt_clause kw absent p)"
  unfolding opt_clause_def
  using assms by (intro progress_if_after progress_preturn) (auto intro: progress_weaken)

lemma progress_select:
  assumes "n \<le> k"
  shows "progress n 1 (parse_select k)"
proof -
  have e: "progress n 0 (parse_expr k)" by (rule progress_weaken [OF progress_expr [OF assms]]) simp_all
  have o: "progress n 1 (parse_order_by_item k)" "progress n 1 (parse_expr k)"
    using progress_order_by_item progress_expr assms by blast+
  have c: "progress n 0 (parse_comma_separated k (parse_expr k))"
    "progress n 0 (parse_comma_separated k (parse_order_by_item k))" "progress n 0 (parse_projections k)"
    unfolding parse_projections_def
    by (rule progress_weaken [OF progress_comma_separated [of n]], use assms o progress_projection [OF assms] in simp_all)+
  have i: "progress n 0 expect_int" by (rule progress_weaken [OF progress_expect_tokens(2) [of n]]) simp_all
  have t: "progress n 0 parse_table_ref" by (rule progress_weaken [OF progress_table_ref [of n]]) simp_all
  show ?thesis
    unfolding parse_select_def
    by (intro progress_pbind0 progress_expect progress_eat_optional progress_expect0 progress_preturn
        progress_opt_clause progress_joins e c i t assms) (use assms in simp_all)
qed

lemma progress_statement: "n \<le> k \<Longrightarrow> progress n 0 (parse_statement k)"
  unfolding parse_statement_def
  by (intro progress_if progress_pbind0 progress_weaken [OF progress_select [of n k]]
      progress_eat_optional progress_expect0 progress_preturn) (simp_all add: progress_def pfail_def)

lemma parse_tokens_total:
  assumes "wft ts"
  shows "\<exists>r. parse_tokens ts = Some r"
proof -
  have "progress (length ts) 0 (parse_statement (Suc (length ts)))"
    by (rule progress_statement) simp
  then show ?thesis
    using assms by (elim progressE [OF _ assms order_refl]) (auto simp: parse_tokens_def wft_def)
qed

end
