(* ===== verification/Parser_Roundtrip.thy ===== *)
theory Parser_Roundtrip
  imports Parser_Correct
begin

text \<open>
  A printer for statements, with parentheses around every compound expression, and the proof that
  the parser inverts it.
\<close>

section \<open>Printing expressions\<close>

fun literal_token :: "literal \<Rightarrow> token" where
  "literal_token (L_Int n) = T_IntLit n"
| "literal_token (L_Float f) = T_FloatLit f"
| "literal_token (L_Str s) = T_StrLit s"
| "literal_token (L_Bool b) = (if b then T_True else T_False)"
| "literal_token L_Null = T_Null"
| "literal_token (L_IntervalNs n) = T_IntLit n"

fun binop_token :: "binop \<Rightarrow> token" where
  "binop_token Op_Add = T_Plus" | "binop_token Op_Sub = T_Minus" | "binop_token Op_Mul = T_Star"
| "binop_token Op_Div = T_Slash" | "binop_token Op_Mod = T_Percent" | "binop_token Op_Eq = T_Eq"
| "binop_token Op_NotEq = T_NotEq" | "binop_token Op_Lt = T_Lt" | "binop_token Op_LtEq = T_LtEq"
| "binop_token Op_Gt = T_Gt" | "binop_token Op_GtEq = T_GtEq" | "binop_token Op_And = T_And"
| "binop_token Op_Or = T_Or"

fun commas :: "token list list \<Rightarrow> token list" where
  "commas [] = []"
| "commas [x] = x"
| "commas (x # y # ys) = x @ T_Comma # commas (y # ys)"

fun unparse :: "expr \<Rightarrow> token list" where
  "unparse (E_Column None n) = [T_Ident n]"
| "unparse (E_Column (Some t) n) = [T_Ident t, T_Dot, T_Ident n]"
| "unparse (E_Literal l) = [literal_token l]"
| "unparse E_Star = [T_Star]"
| "unparse (E_BinOp op l r) = T_LParen # unparse l @ binop_token op # unparse r @ [T_RParen]"
| "unparse (E_UnaryOp op e) = T_LParen # (case op of Op_Neg \<Rightarrow> T_Minus | Op_Not \<Rightarrow> T_Not) # unparse e @ [T_RParen]"
| "unparse (E_IsNull e) = T_LParen # unparse e @ [T_Is, T_Null, T_RParen]"
| "unparse (E_IsNotNull e) = T_LParen # unparse e @ [T_Is, T_Not, T_Null, T_RParen]"
| "unparse (E_Between e lo hi) =
     T_LParen # unparse e @ T_Between # unparse lo @ T_And # unparse hi @ [T_RParen]"
| "unparse (E_In e es) = T_LParen # unparse e @ T_In # T_LParen # commas (map unparse es) @ [T_RParen, T_RParen]"
| "unparse (E_Like e p neg) = T_LParen # unparse e @ (if neg then [T_Not] else []) @ [T_Like, T_StrLit p, T_RParen]"
| "unparse (E_Function f args) = T_Ident f # T_LParen # commas (map unparse args) @ [T_RParen]"
| "unparse (E_Interval ns) = [T_Interval, T_StrLit (dec_string (nat (ns div 1000)) @ ''us'')]"
| "unparse _ = []"

text \<open>The expressions the parser can produce: no node that only the binder introduces, function
  names in lower case, non-empty lists, intervals of whole microseconds.\<close>

fun surface :: "expr \<Rightarrow> bool" where
  "surface (E_Column t n) = True"
| "surface (E_Literal l) = (case l of L_IntervalNs _ \<Rightarrow> False | _ \<Rightarrow> True)"
| "surface E_Star = True"
| "surface (E_BinOp op l r) = (surface l \<and> surface r)"
| "surface (E_UnaryOp op e) = surface e"
| "surface (E_IsNull e) = surface e"
| "surface (E_IsNotNull e) = surface e"
| "surface (E_Between e lo hi) = (surface e \<and> surface lo \<and> surface hi)"
| "surface (E_In e es) = (surface e \<and> es \<noteq> [] \<and> list_all surface es)"
| "surface (E_Like e p neg) = surface e"
| "surface (E_Function f args) = (to_ascii_lowercase f = f \<and> list_all surface args)"
| "surface (E_Interval ns) = (0 \<le> ns \<and> ns \<le> i64_max \<and> 1000 dvd ns)"
| "surface _ = False"

section \<open>Reading back\<close>

lemma adv_Cons [simp]: "us \<noteq> [] \<Longrightarrow> adv (t # us) = us"
  by (simp add: adv_def)

lemma pbind_step: "p ts = Some (Inr (a, us)) \<Longrightarrow> pbind p f ts = f a us"
  by (simp add: pbind_def)

lemma preturn_eq [simp]: "preturn a ts = Some (Inr (a, ts))"
  by (simp add: preturn_def)

lemma expect_Cons [simp]: "us \<noteq> [] \<Longrightarrow> expect t (t # us) = Some (Inr ((), us))"
  by (simp add: expect_def)

lemma expect_string_Cons [simp]: "us \<noteq> [] \<Longrightarrow> expect_string (T_StrLit s # us) = Some (Inr (s, us))"
  by (simp add: expect_string_def pbind_def advance_def)

lemma expect_ident_Cons [simp]: "us \<noteq> [] \<Longrightarrow> expect_ident (T_Ident s # us) = Some (Inr (s, us))"
  by (simp add: expect_ident_def pbind_def advance_def)

lemma expect_int_Cons [simp]: "us \<noteq> [] \<Longrightarrow> expect_int (T_IntLit n # us) = Some (Inr (n, us))"
  by (simp add: expect_int_def pbind_def advance_def)

lemma unparse_not_Nil: "surface e \<Longrightarrow> unparse e \<noteq> []"
  by (cases e rule: unparse.cases) auto

lemma unparse_hd: "surface e \<Longrightarrow> hd (unparse e @ rest) \<notin> {T_Minus, T_Not, T_RParen, T_Eof}"
  by (cases e rule: unparse.cases) (auto split: literal.splits if_splits)

text \<open>What may follow an expression.\<close>

definition after_primary :: "token list \<Rightarrow> bool" where
  "after_primary rest \<longleftrightarrow> rest \<noteq> [] \<and> hd rest \<notin> {T_Dot, T_LParen}"

definition after_addition :: "token list \<Rightarrow> bool" where
  "after_addition rest \<longleftrightarrow> after_primary rest \<and> mul_op (hd rest) = None \<and> add_op (hd rest) = None"

definition after_comparison :: "token list \<Rightarrow> bool" where
  "after_comparison rest \<longleftrightarrow> after_addition rest \<and> cmp_op (hd rest) = None
     \<and> hd rest \<notin> {T_Is, T_Between, T_Not, T_In, T_Like}"

definition after_expr :: "token list \<Rightarrow> bool" where
  "after_expr rest \<longleftrightarrow> after_comparison rest \<and> and_op (hd rest) = None \<and> or_op (hd rest) = None"

lemmas after_defs = after_primary_def after_addition_def after_comparison_def after_expr_def

lemma binop_loop_stop: "op (hd rest) = None \<Longrightarrow> 0 < k \<Longrightarrow> binop_loop k op p left rest = Some (Inr (left, rest))"
  by (cases k) simp_all

lemma binop_loop_step:
  assumes "op t = Some b" "1 < k" "us \<noteq> []" "p us = Some (Inr (right, rest))" "op (hd rest) = None"
  shows "binop_loop k op p left (t # us) = Some (Inr (E_BinOp b left right, rest))"
proof -
  obtain j where "k = Suc (Suc j)" using less_imp_Suc_add [OF assms(2)] by auto
  with assms show ?thesis by (simp add: pbind_step)
qed

text \<open>Reading an expression at each level of precedence, given that it is read as a primary.\<close>

definition reads :: "nat \<Rightarrow> expr parser \<Rightarrow> expr \<Rightarrow> bool" where
  "reads k pe e \<longleftrightarrow> surface e \<and> 0 < k \<and>
     (\<forall>rest. after_primary rest \<longrightarrow> parse_primary k pe (unparse e @ rest) = Some (Inr (e, rest)))"

lemma reads_unary:
  assumes "reads k pe e" "after_primary rest"
  shows "parse_unary k k pe (unparse e @ rest) = Some (Inr (e, rest))"
proof -
  obtain j where "k = Suc j" using assms(1) by (auto simp: reads_def gr0_conv_Suc)
  then show ?thesis using assms unparse_hd [of e rest] by (auto simp: reads_def)
qed

lemma reads_multiplication:
  assumes "reads k pe e" "after_primary rest" "mul_op (hd rest) = None"
  shows "parse_multiplication k pe (unparse e @ rest) = Some (Inr (e, rest))"
  using reads_unary [OF assms(1,2)] binop_loop_stop [of mul_op rest k] assms
  by (simp add: parse_multiplication_def pbind_def reads_def)

lemma reads_addition:
  assumes "reads k pe e" "after_addition rest"
  shows "parse_addition k pe (unparse e @ rest) = Some (Inr (e, rest))"
  using reads_multiplication [OF assms(1), of rest] binop_loop_stop [of add_op rest k] assms
  by (simp add: parse_addition_def pbind_def reads_def after_addition_def)

lemma comparison_rest_stop: "after_comparison rest \<Longrightarrow> comparison_rest k pe e rest = Some (Inr (e, rest))"
  by (simp add: comparison_rest_def after_comparison_def)

lemma reads_comparison:
  assumes "reads k pe e" "after_comparison rest"
  shows "parse_comparison k pe (unparse e @ rest) = Some (Inr (e, rest))"
  using reads_addition [OF assms(1), of rest] comparison_rest_stop [OF assms(2)] assms(2)
  by (simp add: parse_comparison_def pbind_def after_comparison_def)

lemma reads_not:
  assumes "reads k pe e" "after_comparison rest"
  shows "parse_not k k pe (unparse e @ rest) = Some (Inr (e, rest))"
proof -
  obtain j where "k = Suc j" using assms(1) by (auto simp: reads_def gr0_conv_Suc)
  then show ?thesis
    using reads_comparison [OF assms] unparse_hd [of e rest] assms(1) by (auto simp: reads_def)
qed

lemma reads_and:
  assumes "reads k pe e" "after_comparison rest" "and_op (hd rest) = None"
  shows "parse_and k pe (unparse e @ rest) = Some (Inr (e, rest))"
  using reads_not [OF assms(1,2)] binop_loop_stop [of and_op rest k] assms
  by (simp add: parse_and_def pbind_def reads_def)

lemma reads_or:
  assumes "reads k pe e" "after_expr rest"
  shows "parse_or k pe (unparse e @ rest) = Some (Inr (e, rest))"
  using reads_and [OF assms(1), of rest] binop_loop_stop [of or_op rest k] assms
  by (simp add: parse_or_def pbind_def reads_def after_expr_def)

text \<open>From a level of precedence to the next.\<close>

lemma lift_addition:
  assumes "parse_multiplication k pe ts = Some (Inr (e, us))" "add_op (hd us) = None" "0 < k"
  shows "parse_addition k pe ts = Some (Inr (e, us))"
  using assms binop_loop_stop [of add_op us k] by (simp add: parse_addition_def pbind_def)

lemma lift_comparison:
  assumes "parse_addition k pe ts = Some (Inr (e, us))" "after_comparison us"
  shows "parse_comparison k pe ts = Some (Inr (e, us))"
  using assms comparison_rest_stop by (simp add: parse_comparison_def pbind_def)

lemma lift_not:
  assumes "parse_comparison k pe ts = Some (Inr (e, us))" "hd ts \<noteq> T_Not" "0 < k"
  shows "parse_not k k pe ts = Some (Inr (e, us))"
  using assms by (cases k) simp_all

lemma lift_and:
  assumes "parse_not k k pe ts = Some (Inr (e, us))" "and_op (hd us) = None" "0 < k"
  shows "parse_and k pe ts = Some (Inr (e, us))"
  using assms binop_loop_stop [of and_op us k] by (simp add: parse_and_def pbind_def)

lemma lift_or:
  assumes "parse_and k pe ts = Some (Inr (e, us))" "or_op (hd us) = None" "0 < k"
  shows "parse_or k pe ts = Some (Inr (e, us))"
  using assms binop_loop_stop [of or_op us k] by (simp add: parse_or_def pbind_def)

lemma after_paren [simp]: "after_expr (T_RParen # rest)"
  by (simp add: after_defs mul_op_def add_op_def cmp_op_def and_op_def or_op_def)

lemma after_exprD:
  "after_expr us \<Longrightarrow> after_comparison us \<and> after_addition us \<and> after_primary us \<and> mul_op (hd us) = None
     \<and> add_op (hd us) = None \<and> and_op (hd us) = None \<and> or_op (hd us) = None"
  by (simp add: after_defs)

lemma comparison_or:
  assumes "parse_comparison k pe ts = Some (Inr (e, us))" "hd ts \<noteq> T_Not" "after_expr us" "0 < k"
  shows "parse_or k pe ts = Some (Inr (e, us))"
  using lift_or [OF lift_and [OF lift_not [OF assms(1,2)]]] assms(3,4) by (simp add: after_exprD)

lemma binop_token_op:
  "mul_op (binop_token b) = (if b \<in> {Op_Mul, Op_Div, Op_Mod} then Some b else None)"
  "add_op (binop_token b) = (if b \<in> {Op_Add, Op_Sub} then Some b else None)"
  "cmp_op (binop_token b) = (if b \<in> {Op_Eq, Op_NotEq, Op_Lt, Op_LtEq, Op_Gt, Op_GtEq} then Some b else None)"
  "and_op (binop_token b) = (if b = Op_And then Some b else None)"
  "or_op (binop_token b) = (if b = Op_Or then Some b else None)"
  "binop_token b \<notin> {T_Dot, T_LParen, T_Is, T_Between, T_Not, T_In, T_Like}"
  by (cases b; simp add: mul_op_def add_op_def cmp_op_def and_op_def or_op_def)+

lemma reads_binop:
  assumes l: "reads k pe l" and r: "reads k pe r" and "1 < k" and us: "after_expr us"
  shows "parse_or k pe (unparse l @ binop_token b # unparse r @ us) = Some (Inr (E_BinOp b l r, us))"
    (is "parse_or k pe ?ts = _")
proof -
  note a = after_exprD [OF us]
  have hd: "hd ?ts \<noteq> T_Not" and ne: "unparse r @ us \<noteq> []"
    using unparse_hd [of l] unparse_not_Nil [of r] l r by (auto simp: reads_def)
  have ap: "after_primary (binop_token b # unparse r @ us)"
    using binop_token_op(6) [of b] by (simp add: after_primary_def)
  note bt = binop_token_op [of b]
  consider (mul) "b \<in> {Op_Mul, Op_Div, Op_Mod}" | (add) "b \<in> {Op_Add, Op_Sub}"
    | (cmp) "b \<in> {Op_Eq, Op_NotEq, Op_Lt, Op_LtEq, Op_Gt, Op_GtEq}" | (conj) "b = Op_And" | (disj) "b = Op_Or"
    by (cases b) auto
  then show ?thesis
  proof cases
    case mul
    have "parse_multiplication k pe ?ts = Some (Inr (E_BinOp b l r, us))"
      using reads_unary [OF l ap] binop_loop_step [of mul_op "binop_token b" b k "unparse r @ us" "parse_unary k k pe" r us l]
        reads_unary [OF r] mul a ne \<open>1 < k\<close> bt(1) by (simp add: parse_multiplication_def pbind_def)
    then show ?thesis
      using a us hd \<open>1 < k\<close> by (intro comparison_or lift_comparison lift_addition) auto
  next
    case add
    have "parse_addition k pe ?ts = Some (Inr (E_BinOp b l r, us))"
      using reads_multiplication [OF l ap] binop_loop_step [of add_op "binop_token b" b k "unparse r @ us" "parse_multiplication k pe" r us l]
        reads_multiplication [OF r] add a ne \<open>1 < k\<close> bt(1,2) by (auto simp: parse_addition_def pbind_def)
    then show ?thesis
      using a us hd \<open>1 < k\<close> by (intro comparison_or lift_comparison) auto
  next
    case cmp
    then have "after_addition (binop_token b # unparse r @ us)"
      using ap bt(1,2) by (auto simp: after_addition_def)
    then have "parse_comparison k pe ?ts = Some (Inr (E_BinOp b l r, us))"
      using reads_addition [OF l] reads_addition [OF r] cmp a ne bt(3)
      by (auto simp: parse_comparison_def pbind_def comparison_rest_def)
    then show ?thesis
      using us hd \<open>1 < k\<close> by (intro comparison_or) auto
  next
    case conj
    then have "after_comparison (binop_token b # unparse r @ us)"
      using ap bt by (simp add: after_addition_def after_comparison_def)
    then have "parse_and k pe ?ts = Some (Inr (E_BinOp b l r, us))"
      using reads_not [OF l] binop_loop_step [of and_op "binop_token b" b k "unparse r @ us" "parse_not k k pe" r us l]
        reads_not [OF r] conj a ne \<open>1 < k\<close> bt(4) by (simp add: parse_and_def pbind_def)
    then show ?thesis
      using a \<open>1 < k\<close> by (intro lift_or) auto
  next
    case disj
    then have "after_comparison (binop_token b # unparse r @ us)"
      using ap bt by (simp add: after_addition_def after_comparison_def)
    then show ?thesis
      using reads_and [OF l] binop_loop_step [of or_op "binop_token b" b k "unparse r @ us" "parse_and k pe" r us l]
        reads_and [OF r] disj a ne \<open>1 < k\<close> bt(4,5) by (simp add: parse_or_def pbind_def)
  qed
qed

text \<open>Lists of items between commas.\<close>

lemma commas_Cons: "commas (x # xs) = x @ (if xs = [] then [] else T_Comma # commas xs)"
  by (cases xs) simp_all

lemma comma_loop_reads:
  assumes "\<forall>x \<in> set xs. \<forall>rest. stop rest \<longrightarrow> p (u x @ rest) = Some (Inr (x, rest)) \<and> u x \<noteq> []"
    and "stop us" "hd us \<noteq> T_Comma" "us \<noteq> []" "\<And>ts. stop (T_Comma # ts)" "length xs < k"
  shows "comma_loop k p items ((if xs = [] then [] else T_Comma # commas (map u xs)) @ us) = Some (Inr (items @ xs, us))"
  using assms(1,6)
proof (induction xs arbitrary: items k)
  case Nil
  then obtain j where "k = Suc j" by (cases k) auto
  with assms(3) show ?case by simp
next
  case (Cons x xs)
  then obtain j where k: "k = Suc j" by (cases k) auto
  let ?rest = "(if xs = [] then [] else T_Comma # commas (map u xs)) @ us"
  have "stop ?rest" using assms(2,5) by simp
  then have "p (u x @ ?rest) = Some (Inr (x, ?rest))" "u x \<noteq> []" using Cons.prems(1) by auto
  moreover have "comma_loop j p (items @ [x]) ?rest = Some (Inr ((items @ [x]) @ xs, us))"
    using Cons by (simp add: k)
  ultimately show ?case
    by (simp add: k commas_Cons pbind_def)
qed

lemma comma_separated_reads:
  assumes "\<forall>x \<in> set xs. \<forall>rest. stop rest \<longrightarrow> p (u x @ rest) = Some (Inr (x, rest)) \<and> u x \<noteq> []" "xs \<noteq> []"
    and "stop us" "hd us \<noteq> T_Comma" "us \<noteq> []" "\<And>ts. stop (T_Comma # ts)" "length xs \<le> k"
  shows "parse_comma_separated k p (commas (map u xs) @ us) = Some (Inr (xs, us))"
proof -
  obtain x ys where xs: "xs = x # ys" using assms(2) by (cases xs) auto
  let ?rest = "(if ys = [] then [] else T_Comma # commas (map u ys)) @ us"
  have "stop ?rest" using assms(3,6) by simp
  then have "p (u x @ ?rest) = Some (Inr (x, ?rest))" using assms(1) xs by auto
  moreover have "comma_loop k p [x] ?rest = Some (Inr ([x] @ ys, us))"
    by (rule comma_loop_reads [where stop = stop]) (use assms xs in auto)
  ultimately show ?thesis
    by (simp add: parse_comma_separated_def pbind_def commas_Cons xs)
qed

text \<open>Compound expressions inside parentheses.\<close>

lemma reads_prefix:
  assumes e: "reads k pe e" and "1 < k" and us: "after_expr us"
  shows "parse_or k pe (T_Minus # unparse e @ us) = Some (Inr (E_UnaryOp Op_Neg e, us))"
    "parse_or k pe (T_Not # unparse e @ us) = Some (Inr (E_UnaryOp Op_Not e, us))"
proof -
  note a = after_exprD [OF us]
  obtain j where k: "k = Suc (Suc j)" using less_imp_Suc_add [OF \<open>1 < k\<close>] by auto
  have ne: "unparse e @ us \<noteq> []" using unparse_not_Nil e by (auto simp: reads_def)
  have hd: "hd (unparse e @ us) \<notin> {T_Minus, T_Not}" using unparse_hd [of e us] e by (auto simp: reads_def)
  have "parse_primary k pe (unparse e @ us) = Some (Inr (e, us))" using e a by (simp add: reads_def)
  then have "parse_unary k k pe (T_Minus # unparse e @ us) = Some (Inr (E_UnaryOp Op_Neg e, us))"
    using ne hd by (simp add: k pbind_def)
  then have "parse_multiplication k pe (T_Minus # unparse e @ us) = Some (Inr (E_UnaryOp Op_Neg e, us))"
    using a binop_loop_stop [of mul_op us k] \<open>1 < k\<close> by (simp add: parse_multiplication_def pbind_def)
  then show "parse_or k pe (T_Minus # unparse e @ us) = Some (Inr (E_UnaryOp Op_Neg e, us))"
    using a us \<open>1 < k\<close> by (intro comparison_or lift_comparison lift_addition) auto
  have "parse_not k k pe (T_Not # unparse e @ us) = Some (Inr (E_UnaryOp Op_Not e, us))"
    using reads_comparison [OF e, of us] a ne hd by (simp add: k pbind_def)
  then show "parse_or k pe (T_Not # unparse e @ us) = Some (Inr (E_UnaryOp Op_Not e, us))"
    using a \<open>1 < k\<close> by (intro lift_or lift_and) auto
qed

lemma reads_suffix:
  assumes e: "reads k pe e" and us: "after_expr us" and t: "t \<in> {T_Is, T_Between, T_Not, T_In, T_Like}"
    and "comparison_rest k pe e (t # vs) = Some (Inr (e', us))"
  shows "parse_or k pe (unparse e @ t # vs) = Some (Inr (e', us))"
proof -
  have "after_addition (t # vs)"
    using t by (auto simp: after_addition_def after_primary_def mul_op_def add_op_def)
  then have "parse_comparison k pe (unparse e @ t # vs) = Some (Inr (e', us))"
    using reads_addition [OF e] assms(4) by (simp add: parse_comparison_def pbind_def)
  moreover have "hd (unparse e @ t # vs) \<noteq> T_Not" "0 < k"
    using unparse_hd [of e] e by (auto simp: reads_def)
  ultimately show ?thesis using us by (intro comparison_or)
qed

lemma reads_is_null:
  assumes "reads k pe e" "after_expr us" "us \<noteq> []"
  shows "parse_or k pe (unparse e @ T_Is # T_Null # us) = Some (Inr (E_IsNull e, us))"
    "parse_or k pe (unparse e @ T_Is # T_Not # T_Null # us) = Some (Inr (E_IsNotNull e, us))"
  using assms(3)
  by (intro reads_suffix [OF assms(1,2)]; simp add: comparison_rest_def cmp_op_def parse_is_def pbind_def eat_optional_def)+

lemma reads_like:
  assumes "reads k pe e" "after_expr us" "us \<noteq> []"
  shows "parse_or k pe (unparse e @ (if neg then [T_Not] else []) @ T_Like # T_StrLit p # us) = Some (Inr (E_Like e p neg, us))"
proof (cases neg)
  case True
  with assms(3) show ?thesis
    by (auto intro!: reads_suffix [OF assms(1,2)] simp: comparison_rest_def cmp_op_def parse_not_suffix_def pbind_def)
next
  case False
  with assms(3) show ?thesis
    by (auto intro!: reads_suffix [OF assms(1,2)] simp: comparison_rest_def cmp_op_def pbind_def)
qed

lemma reads_between:
  assumes "reads k pe e" "reads k pe lo" "reads k pe hi" "after_expr us"
  shows "parse_or k pe (unparse e @ T_Between # unparse lo @ T_And # unparse hi @ us) = Some (Inr (E_Between e lo hi, us))"
proof (rule reads_suffix [OF assms(1,4)])
  have "after_addition (T_And # unparse hi @ us)"
    by (simp add: after_addition_def after_primary_def mul_op_def add_op_def)
  moreover have "unparse lo \<noteq> []" "unparse hi \<noteq> []" using assms(2,3) unparse_not_Nil by (auto simp: reads_def)
  ultimately show "comparison_rest k pe e (T_Between # unparse lo @ T_And # unparse hi @ us) = Some (Inr (E_Between e lo hi, us))"
    using reads_addition [OF assms(2)] reads_addition [OF assms(3)] after_exprD [OF assms(4)]
    by (simp add: comparison_rest_def cmp_op_def parse_between_def pbind_def)
qed simp

lemma parse_interval_us:
  assumes "0 \<le> ns" "ns \<le> i64_max" "1000 dvd ns"
  shows "parse_interval (dec_string (nat (ns div 1000)) @ ''us'') = Inr ns"
proof -
  let ?d = "dec_string (nat (ns div 1000))"
  have d: "\<forall>c \<in> set ?d. is_digit c" using dec_string_digits by blast
  then have na: "\<forall>c \<in> set ?d. is_ascii c \<and> \<not> is_alphabetic c \<and> \<not> is_space c" using is_digit_ascii by blast
  have al: "is_alphabetic (CHR ''u'')" by (simp add: is_alphabetic_def is_lower_def char_code_def)
  have sp: "\<not> is_space (CHR ''u'')" "\<not> is_space (CHR ''s'')" "is_ascii (CHR ''u'')" "is_ascii (CHR ''s'')"
    by (simp_all add: is_space_def is_ascii_def char_code_def)
  have "trim (?d @ ''us'') = ?d @ ''us''"
    using na sp by (intro trim_id) (auto simp: hd_append)
  moreover have "trim ?d = ?d" using na by (intro trim_id) auto
  moreover have "trim ''us'' = ''us''" using sp by (intro trim_id) auto
  moreover have "takeWhile (\<lambda>c. \<not> is_alphabetic c) (?d @ ''us'') = ?d"
    "dropWhile (\<lambda>c. \<not> is_alphabetic c) (?d @ ''us'') = ''us''"
    using na al by (simp_all add: takeWhile_append2 dropWhile_append2)
  moreover have "to_ascii_lowercase ''us'' = ''us''"
    by (simp add: to_ascii_lowercase_def to_lower_def is_upper_def char_code_def)
  moreover have "parse_i64 ?d = Some (ns div 1000)"
  proof -
    have "\<not> (case ?d of [] \<Rightarrow> False | c # _ \<Rightarrow> c = CHR ''-'')"
      using d by (auto simp: is_digit_def split: list.splits)
    moreover have "ns div 1000 \<le> i64_max" using assms by (simp add: i64_max_def)
    ultimately show ?thesis
      using assms strip_plus_digits [OF d] by (simp add: parse_i64_def Let_def i64_min_def pos_imp_zdiv_nonneg_iff)
  qed
  moreover have "wrap_i64 (ns div 1000 * 1000) = ns"
    using assms by (simp add: wrap_i64_def i64_max_def signed_take_bit_int_eq_self)
  ultimately show ?thesis by (simp add: parse_interval_def Let_def ns_per_unit_def)
qed

lemma reads_paren:
  assumes "surface e" "unparse e = T_LParen # inner @ [T_RParen]" "inner \<noteq> []"
    and "\<And>us. after_expr us \<Longrightarrow> us \<noteq> [] \<Longrightarrow> parse_or (Suc m) (parse_expr m) (inner @ us) = Some (Inr (e, us))"
  shows "reads (Suc (Suc m)) (parse_expr (Suc m)) e"
proof -
  have "parse_primary k (parse_expr (Suc m)) (unparse e @ rest) = Some (Inr (e, rest))"
    if "after_primary rest" for k rest
    using that assms(3,4) by (simp add: assms(2) parse_primary_def pbind_def after_primary_def)
  with assms(1) show ?thesis by (simp add: reads_def)
qed

lemma reads_parse_expr:
  "reads (Suc m) (parse_expr m) e \<Longrightarrow> after_expr us \<Longrightarrow> parse_expr (Suc m) (unparse e @ us) = Some (Inr (e, us))"
  using reads_or by simp

lemma length_commas: "length xs \<le> Suc (length (commas xs))" "x \<in> set xs \<Longrightarrow> length x \<le> length (commas xs)"
  by (induction xs rule: commas.induct) auto

lemma after_expr_comma [simp]: "after_expr (T_Comma # ts)"
  by (simp add: after_defs mul_op_def add_op_def cmp_op_def and_op_def or_op_def)

lemma reads_list:
  assumes "\<forall>e \<in> set es. reads (Suc m) (parse_expr m) e" "es \<noteq> []" "length es \<le> k" "after_expr us" "hd us \<noteq> T_Comma"
  shows "parse_comma_separated k (parse_expr (Suc m)) (commas (map unparse es) @ us) = Some (Inr (es, us))"
proof (rule comma_separated_reads [where stop = after_expr])
  show "\<forall>x \<in> set es. \<forall>rest. after_expr rest \<longrightarrow> parse_expr (Suc m) (unparse x @ rest) = Some (Inr (x, rest)) \<and> unparse x \<noteq> []"
    using assms(1) reads_parse_expr unparse_not_Nil unfolding reads_def by blast
qed (use assms after_exprD [OF assms(4)] in \<open>simp_all add: after_primary_def\<close>)

lemma surface_reads:
  "surface e \<Longrightarrow> length (unparse e) \<le> Suc m \<Longrightarrow> reads (Suc m) (parse_expr m) e"
proof (induction e arbitrary: m)
  case (E_Column t n)
  then show ?case
    by (cases t) (auto simp: reads_def parse_primary_def after_primary_def Let_def pbind_def)
next
  case (E_Literal l)
  then show ?case by (cases l) (auto simp: reads_def parse_primary_def after_primary_def)
next
  case E_Star
  then show ?case by (auto simp: reads_def parse_primary_def after_primary_def)
next
  case (E_BinOp b l r)
  have ne: "unparse l \<noteq> []" "unparse r \<noteq> []" using E_BinOp.prems(1) unparse_not_Nil by auto
  then have len: "0 < length (unparse l)" "0 < length (unparse r)" by auto
  obtain m' where m: "m = Suc m'" using E_BinOp.prems(2) by (cases m) auto
  have "reads (Suc m') (parse_expr m') l" "reads (Suc m') (parse_expr m') r" "1 < Suc m'"
    using E_BinOp len m by auto
  with ne show ?case
    unfolding m by (intro reads_paren [where inner = "unparse l @ binop_token b # unparse r"])
      (use E_BinOp.prems reads_binop in auto)
next
  case (E_UnaryOp op e)
  have "unparse e \<noteq> []" using E_UnaryOp.prems(1) unparse_not_Nil by auto
  then have len: "0 < length (unparse e)" by auto
  obtain m' where m: "m = Suc m'" using E_UnaryOp.prems(2) by (cases m) auto
  have r: "reads (Suc m') (parse_expr m') e" "1 < Suc m'"
    using E_UnaryOp len m by auto
  then show ?case
    unfolding m by (intro reads_paren [where inner = "(case op of Op_Neg \<Rightarrow> T_Minus | Op_Not \<Rightarrow> T_Not) # unparse e"])
      (use E_UnaryOp.prems reads_prefix [OF r] in \<open>auto split: unaryop.splits\<close>)
next
  case (E_IsNull e)
  obtain m' where m: "m = Suc m'" using E_IsNull.prems(2) by (cases m) auto
  have r: "reads (Suc m') (parse_expr m') e" using E_IsNull m by auto
  then show ?case
    unfolding m by (intro reads_paren [where inner = "unparse e @ [T_Is, T_Null]"])
      (use E_IsNull.prems reads_is_null [OF r] in auto)
next
  case (E_IsNotNull e)
  obtain m' where m: "m = Suc m'" using E_IsNotNull.prems(2) by (cases m) auto
  have r: "reads (Suc m') (parse_expr m') e" using E_IsNotNull m by auto
  then show ?case
    unfolding m by (intro reads_paren [where inner = "unparse e @ [T_Is, T_Not, T_Null]"])
      (use E_IsNotNull.prems reads_is_null [OF r] in auto)
next
  case (E_Between e lo hi)
  obtain m' where m: "m = Suc m'" using E_Between.prems(2) by (cases m) auto
  have "reads (Suc m') (parse_expr m') e" "reads (Suc m') (parse_expr m') lo" "reads (Suc m') (parse_expr m') hi"
    using E_Between m by auto
  note r = reads_between [OF this]
  show ?case
    unfolding m by (intro reads_paren [where inner = "unparse e @ T_Between # unparse lo @ T_And # unparse hi"])
      (use E_Between.prems r in auto)
next
  case (E_In e es)
  obtain m' where m: "m = Suc (Suc m')" using E_In.prems(2) by (cases m; cases "m - 1") auto
  have e: "reads (Suc (Suc m')) (parse_expr (Suc m')) e" using E_In m by auto
  have "\<forall>x \<in> set es. reads (Suc m') (parse_expr m') x"
    using E_In.IH(2) E_In.prems m length_commas(2) [of _ "map unparse es"] by (fastforce simp: list_all_iff)
  moreover have "length es \<le> Suc (Suc m')"
    using length_commas(1) [of "map unparse es"] E_In.prems(2) m by simp
  ultimately have l: "parse_comma_separated (Suc (Suc m')) (parse_expr (Suc m')) (commas (map unparse es) @ T_RParen # us)
      = Some (Inr (es, T_RParen # us))" for us
    using E_In.prems(1) by (intro reads_list) simp_all
  have ne: "commas (map unparse es) @ T_RParen # us \<noteq> []" for us by simp
  have "comparison_rest (Suc (Suc m')) (parse_expr (Suc m')) e (T_In # T_LParen # commas (map unparse es) @ T_RParen # us)
      = Some (Inr (E_In e es, us))" if "us \<noteq> []" for us
    using l [of us] that ne [of us] by (simp add: comparison_rest_def cmp_op_def parse_in_list_def pbind_def)
  then have "parse_or (Suc (Suc m')) (parse_expr (Suc m')) (unparse e @ T_In # T_LParen # commas (map unparse es) @ T_RParen # us)
      = Some (Inr (E_In e es, us))" if "after_expr us" "us \<noteq> []" for us
    using that by (intro reads_suffix [OF e]) auto
  then show ?case
    unfolding m by (intro reads_paren [where inner = "unparse e @ T_In # T_LParen # commas (map unparse es) @ [T_RParen]"])
      (use E_In.prems in auto)
next
  case (E_Like e p neg)
  obtain m' where m: "m = Suc m'" using E_Like.prems(2) by (cases m) auto
  have r: "reads (Suc m') (parse_expr m') e" using E_Like m by auto
  then show ?case
    unfolding m by (intro reads_paren [where inner = "unparse e @ (if neg then [T_Not] else []) @ [T_Like, T_StrLit p]"])
      (use E_Like.prems reads_like [OF r, of _ neg p] in \<open>auto split: if_splits\<close>)
next
  case (E_Function f args)
  obtain m' where m: "m = Suc m'" using E_Function.prems(2) by (cases m) auto
  have r: "\<forall>x \<in> set args. reads (Suc m') (parse_expr m') x"
    using E_Function.IH E_Function.prems m length_commas(2) [of _ "map unparse args"] by (fastforce simp: list_all_iff)
  have "length args \<le> Suc (Suc m')"
    using length_commas(1) [of "map unparse args"] E_Function.prems(2) m by simp
  then have "parse_args (Suc (Suc m')) (parse_expr (Suc m')) (commas (map unparse args) @ T_RParen # us)
      = Some (Inr (args, T_RParen # us))" for us
  proof (cases args)
    case (Cons a as)
    have "hd (commas (map unparse args) @ T_RParen # us) \<noteq> T_RParen"
      using unparse_hd [of a "if as = [] then T_RParen # us else T_Comma # commas (map unparse as) @ T_RParen # us"] E_Function.prems(1) Cons
      by (simp add: commas_Cons split: if_splits)
    with Cons r \<open>length args \<le> Suc (Suc m')\<close> show ?thesis
      using reads_list [of args m' "Suc (Suc m')" "T_RParen # us"] by (simp add: parse_args_def)
  qed (simp add: parse_args_def)
  then show ?case
    using E_Function.prems
    by (auto simp: m reads_def parse_primary_def after_primary_def Let_def pbind_def simp del: parse_expr.simps)
next
  case (E_Interval ns)
  then show ?case
    using parse_interval_us [of ns] by (auto simp: reads_def parse_primary_def after_primary_def pbind_def)
qed simp_all

lemma parse_unparse_expr:
  assumes "surface e" "length (unparse e) \<le> k" "after_expr us"
  shows "parse_expr k (unparse e @ us) = Some (Inr (e, us))"
proof -
  obtain m where "k = Suc m" using assms(2) unparse_not_Nil [OF assms(1)] by (cases k) auto
  with surface_reads [OF assms(1)] assms(2,3) reads_parse_expr show ?thesis by simp
qed

section \<open>Printing statements\<close>

definition unparse_alias :: "string option \<Rightarrow> token list" where
  "unparse_alias a = (case a of None \<Rightarrow> [] | Some s \<Rightarrow> [T_As, T_Ident s])"

fun unparse_projection :: "projection \<Rightarrow> token list" where
  "unparse_projection P_Star = [T_Star]"
| "unparse_projection (P_Expr e a) = unparse e @ unparse_alias a"

definition unparse_table :: "table_ref \<Rightarrow> token list" where
  "unparse_table t = T_Ident (tr_name t) # unparse_alias (tr_alias t)"

definition unparse_join :: "join_clause \<Rightarrow> token list" where
  "unparse_join j =
     (case jc_kind j of J_Inner \<Rightarrow> [T_Join] | J_Left \<Rightarrow> [T_Left, T_Join] | J_Right \<Rightarrow> [T_Right, T_Join])
     @ unparse_table (jc_table j) @ T_On # unparse (jc_condition j)"

definition unparse_order :: "order_by_item \<Rightarrow> token list" where
  "unparse_order it = unparse (ob_expr it) @ [if ob_asc it then T_Asc else T_Desc]"

text \<open>The clauses of a statement, each with everything that follows it.\<close>

definition offset_part :: "select_statement \<Rightarrow> token list" where
  "offset_part s = (case sel_offset s of None \<Rightarrow> [] | Some n \<Rightarrow> [T_Offset, T_IntLit (sint n)]) @ [T_Eof]"

definition limit_part :: "select_statement \<Rightarrow> token list" where
  "limit_part s = (case sel_limit s of None \<Rightarrow> [] | Some n \<Rightarrow> [T_Limit, T_IntLit (sint n)]) @ offset_part s"

definition order_part :: "select_statement \<Rightarrow> token list" where
  "order_part s =
     (if sel_order_by s = [] then [] else T_Order # T_By # commas (map unparse_order (sel_order_by s))) @ limit_part s"

definition having_part :: "select_statement \<Rightarrow> token list" where
  "having_part s = (case sel_having s of None \<Rightarrow> [] | Some e \<Rightarrow> T_Having # unparse e) @ order_part s"

definition group_part :: "select_statement \<Rightarrow> token list" where
  "group_part s =
     (if sel_group_by s = [] then [] else T_Group # T_By # commas (map unparse (sel_group_by s))) @ having_part s"

definition filter_part :: "select_statement \<Rightarrow> token list" where
  "filter_part s = (case sel_filter s of None \<Rightarrow> [] | Some e \<Rightarrow> T_Where # unparse e) @ group_part s"

definition unparse_statement :: "statement \<Rightarrow> token list" where
  "unparse_statement st = (case st of Select s \<Rightarrow>
     T_Select # commas (map unparse_projection (sel_projections s)) @ T_From # unparse_table (sel_from s)
       @ concat (map unparse_join (sel_joins s)) @ filter_part s)"

definition surface_statement :: "statement \<Rightarrow> bool" where
  "surface_statement st = (case st of Select s \<Rightarrow>
     sel_projections s \<noteq> []
   \<and> list_all (\<lambda>p. case p of P_Star \<Rightarrow> True | P_Expr e _ \<Rightarrow> surface e \<and> e \<noteq> E_Star) (sel_projections s)
   \<and> list_all (\<lambda>j. surface (jc_condition j)) (sel_joins s)
   \<and> pred_option surface (sel_filter s) \<and> list_all surface (sel_group_by s)
   \<and> pred_option surface (sel_having s) \<and> list_all (\<lambda>it. surface (ob_expr it)) (sel_order_by s))"

section \<open>Reading statements back\<close>

text \<open>The tokens that may follow an expression in a statement.\<close>

definition ends :: "token list \<Rightarrow> bool" where
  "ends us \<longleftrightarrow> us \<noteq> [] \<and> hd us \<in> {T_Comma, T_From, T_On, T_Join, T_Left, T_Right, T_Where, T_Group, T_Having,
     T_Order, T_Limit, T_Offset, T_Eof, T_Asc, T_Desc, T_As}"

lemma ends_after_expr: "ends us \<Longrightarrow> after_expr us"
  by (auto simp: ends_def after_defs mul_op_def add_op_def cmp_op_def and_op_def or_op_def)

lemma ends_Cons [simp]:
  "ends (T_Comma # us)" "ends (T_From # us)" "ends (T_On # us)" "ends (T_Asc # us)" "ends (T_Desc # us)" "ends (T_As # us)"
  by (simp_all add: ends_def)

lemma reads_alias:
  "ends us \<Longrightarrow> hd us \<noteq> T_As \<Longrightarrow> parse_alias (unparse_alias a @ us) = Some (Inr (a, us))"
  by (cases a) (auto simp: parse_alias_def unparse_alias_def ends_def pbind_def)

lemma reads_projection:
  assumes "case p of P_Star \<Rightarrow> True | P_Expr e _ \<Rightarrow> surface e \<and> e \<noteq> E_Star" "length (unparse_projection p) \<le> k"
    and "ends us" "hd us \<noteq> T_As"
  shows "parse_projection k (unparse_projection p @ us) = Some (Inr (p, us))"
proof (cases p)
  case P_Star
  with assms(3) show ?thesis by (simp add: parse_projection_def ends_def)
next
  case (P_Expr e a)
  have "hd (unparse e @ unparse_alias a @ us) \<noteq> T_Star"
    using assms(1) P_Expr by (cases e rule: unparse.cases) (auto split: literal.splits if_splits)
  moreover have "ends (unparse_alias a @ us)"
    using assms(3) by (cases a) (simp_all add: unparse_alias_def)
  then have "parse_expr k (unparse e @ unparse_alias a @ us) = Some (Inr (e, unparse_alias a @ us))"
    using assms(1,2) P_Expr by (intro parse_unparse_expr ends_after_expr) simp_all
  ultimately show ?thesis
    using reads_alias [OF assms(3,4), of a] P_Expr by (simp add: parse_projection_def pbind_def)
qed

lemma reads_table:
  "ends us \<Longrightarrow> hd us \<noteq> T_As \<Longrightarrow> parse_table_ref (unparse_table t @ us) = Some (Inr (t, us))"
  using reads_alias [of us "tr_alias t"]
  by (cases "tr_alias t") (auto simp: parse_table_ref_def unparse_table_def unparse_alias_def pbind_def ends_def)

lemma reads_join:
  assumes "surface (jc_condition j)" "length (unparse (jc_condition j)) \<le> k" "ends us"
  shows "pbind parse_join_kind (\<lambda>kind. case kind of None \<Rightarrow> preturn joins
       | Some j \<Rightarrow> pbind (parse_join k j) f) (unparse_join j @ us) = f j us"
proof -
  let ?r = "unparse_table (jc_table j) @ T_On # unparse (jc_condition j) @ us"
  have ne: "?r \<noteq> []" "unparse (jc_condition j) @ us \<noteq> []"
    using unparse_not_Nil [OF assms(1)] by (simp_all add: unparse_table_def)
  then have "parse_join_kind (unparse_join j @ us) = Some (Inr (Some (jc_kind j), ?r))"
    by (cases "jc_kind j") (simp_all add: unparse_join_def parse_join_kind_def eat_optional_def pbind_def)
  moreover have "parse_join k (jc_kind j) ?r = Some (Inr (j, us))"
    using reads_table [of "T_On # unparse (jc_condition j) @ us" "jc_table j"] ne(2)
      parse_unparse_expr [OF assms(1,2) ends_after_expr [OF assms(3)]]
    by (simp add: parse_join_def pbind_def)
  ultimately show ?thesis by (simp add: pbind_def)
qed

lemma reads_joins:
  assumes "\<forall>j \<in> set js. surface (jc_condition j) \<and> length (unparse (jc_condition j)) \<le> n" "length js < k"
    and "ends us" "hd us \<in> {T_Where, T_Group, T_Having, T_Order, T_Limit, T_Offset, T_Eof}"
  shows "parse_joins k n joins (concat (map unparse_join js) @ us) = Some (Inr (joins @ js, us))"
  using assms(1,2)
proof (induction js arbitrary: k joins)
  case Nil
  then obtain i where "k = Suc i" by (cases k) auto
  with assms(4) show ?case by (auto simp: parse_join_kind_def pbind_def)
next
  case (Cons j js)
  then obtain i where k: "k = Suc i" by (cases k) auto
  have "ends (concat (map unparse_join js) @ us)"
    using assms(3) by (cases js) (auto simp: unparse_join_def ends_def split: join_kind.splits)
  then show ?case
    using reads_join [of j n "concat (map unparse_join js) @ us" joins "\<lambda>join. parse_joins i n (joins @ [join])"] Cons
    by (simp add: k)
qed

lemma reads_order:
  assumes "surface (ob_expr it)" "length (unparse_order it) \<le> k" "us \<noteq> []"
  shows "parse_order_by_item k (unparse_order it @ us) = Some (Inr (it, us))"
proof -
  have "parse_expr k (unparse (ob_expr it) @ (if ob_asc it then T_Asc else T_Desc) # us)
      = Some (Inr (ob_expr it, (if ob_asc it then T_Asc else T_Desc) # us))"
    using assms by (intro parse_unparse_expr ends_after_expr) (simp_all add: unparse_order_def)
  with assms(3) show ?thesis
    by (cases "ob_asc it") (simp_all add: parse_order_by_item_def unparse_order_def pbind_def)
qed

lemma opt_clause_simps:
  "us \<noteq> [] \<Longrightarrow> opt_clause kw a p (kw # us) = p us"
  "hd us \<noteq> kw \<Longrightarrow> opt_clause kw a p us = Some (Inr (a, us))"
  by (simp_all add: opt_clause_def)

text \<open>The first token of each part.\<close>

lemma part_hds:
  "ends (offset_part s) \<and> hd (offset_part s) \<in> {T_Offset, T_Eof}"
  "ends (limit_part s) \<and> hd (limit_part s) \<in> {T_Limit, T_Offset, T_Eof}"
  "ends (order_part s) \<and> hd (order_part s) \<in> {T_Order, T_Limit, T_Offset, T_Eof}"
  "ends (having_part s) \<and> hd (having_part s) \<in> {T_Having, T_Order, T_Limit, T_Offset, T_Eof}"
  "ends (group_part s) \<and> hd (group_part s) \<in> {T_Group, T_Having, T_Order, T_Limit, T_Offset, T_Eof}"
  "ends (filter_part s) \<and> hd (filter_part s) \<in> {T_Where, T_Group, T_Having, T_Order, T_Limit, T_Offset, T_Eof}"
proof -
  show o: "ends (offset_part s) \<and> hd (offset_part s) \<in> {T_Offset, T_Eof}"
    by (simp add: offset_part_def ends_def split: option.split)
  show l: "ends (limit_part s) \<and> hd (limit_part s) \<in> {T_Limit, T_Offset, T_Eof}"
    using o by (auto simp: limit_part_def ends_def split: option.split)
  show d: "ends (order_part s) \<and> hd (order_part s) \<in> {T_Order, T_Limit, T_Offset, T_Eof}"
    using l by (auto simp: order_part_def ends_def)
  show h: "ends (having_part s) \<and> hd (having_part s) \<in> {T_Having, T_Order, T_Limit, T_Offset, T_Eof}"
    using d by (auto simp: having_part_def ends_def split: option.split)
  show g: "ends (group_part s) \<and> hd (group_part s) \<in> {T_Group, T_Having, T_Order, T_Limit, T_Offset, T_Eof}"
    using h by (auto simp: group_part_def ends_def)
  show "ends (filter_part s) \<and> hd (filter_part s) \<in> {T_Where, T_Group, T_Having, T_Order, T_Limit, T_Offset, T_Eof}"
    using g by (auto simp: filter_part_def ends_def split: option.split)
qed

lemma reads_int_clause:
  fixes v :: "u64 option"
  assumes "us \<noteq> []" "hd us \<noteq> kw"
  shows "opt_clause kw None (pbind expect_int (\<lambda>i. preturn (Some (word_of_int i))))
    ((case v of None \<Rightarrow> [] | Some n \<Rightarrow> [kw, T_IntLit (sint n)]) @ us) = Some (Inr (v, us))"
  using assms by (cases v) (simp_all add: opt_clause_simps pbind_def)

lemma reads_expr_clause:
  assumes "pred_option surface v" "length ((case v of None \<Rightarrow> [] | Some e \<Rightarrow> kw # unparse e) @ us) \<le> k"
    and "ends us" "hd us \<noteq> kw"
  shows "opt_clause kw None (pbind (parse_expr k) (\<lambda>e. preturn (Some e)))
    ((case v of None \<Rightarrow> [] | Some e \<Rightarrow> kw # unparse e) @ us) = Some (Inr (v, us))"
proof (cases v)
  case (Some e)
  with assms have "parse_expr k (unparse e @ us) = Some (Inr (e, us))" "unparse e @ us \<noteq> []"
    using unparse_not_Nil [of e] by (auto intro: parse_unparse_expr ends_after_expr)
  with Some show ?thesis by (simp add: opt_clause_simps pbind_def)
qed (use assms in \<open>simp add: opt_clause_simps\<close>)

lemma reads_list_clause:
  assumes "\<forall>x \<in> set xs. \<forall>rest. ends rest \<longrightarrow> p (u x @ rest) = Some (Inr (x, rest)) \<and> u x \<noteq> []"
    and "length xs \<le> k" "ends us" "hd us \<notin> {kw, T_Comma}"
  shows "opt_clause kw [] (pbind (expect T_By) (\<lambda>_. parse_comma_separated k p))
    ((if xs = [] then [] else kw # T_By # commas (map u xs)) @ us) = Some (Inr (xs, us))"
proof (cases xs)
  case (Cons y ys)
  have "parse_comma_separated k p (commas (map u xs) @ us) = Some (Inr (xs, us))"
    by (rule comma_separated_reads [where stop = ends]) (use assms Cons in \<open>auto simp: ends_def\<close>)
  moreover have "commas (map u xs) @ us \<noteq> []" using assms(3) by (simp add: ends_def)
  ultimately show ?thesis
    using Cons by (simp add: opt_clause_simps pbind_def)
qed (use assms in \<open>simp add: opt_clause_simps\<close>)

lemma reads_clauses:
  assumes "surface_statement (Select s)" "length (filter_part s) \<le> k"
  shows "opt_clause T_Where None (pbind (parse_expr k) (\<lambda>e. preturn (Some e))) (filter_part s) = Some (Inr (sel_filter s, group_part s))"
    "opt_clause T_Group [] (pbind (expect T_By) (\<lambda>_. parse_comma_separated k (parse_expr k))) (group_part s)
      = Some (Inr (sel_group_by s, having_part s))"
    "opt_clause T_Having None (pbind (parse_expr k) (\<lambda>e. preturn (Some e))) (having_part s) = Some (Inr (sel_having s, order_part s))"
    "opt_clause T_Order [] (pbind (expect T_By) (\<lambda>_. parse_comma_separated k (parse_order_by_item k))) (order_part s)
      = Some (Inr (sel_order_by s, limit_part s))"
    "opt_clause T_Limit None (pbind expect_int (\<lambda>i. preturn (Some (word_of_int i)))) (limit_part s) = Some (Inr (sel_limit s, offset_part s))"
    "opt_clause T_Offset None (pbind expect_int (\<lambda>i. preturn (Some (word_of_int i)))) (offset_part s) = Some (Inr (sel_offset s, [T_Eof]))"
proof -
  note h = part_hds [of s]
  have g: "length (group_part s) \<le> k" using assms(2) by (simp add: filter_part_def)
  then have hv: "length (having_part s) \<le> k" by (simp add: group_part_def)
  then have o: "length (order_part s) \<le> k" by (simp add: having_part_def)
  show "opt_clause T_Where None (pbind (parse_expr k) (\<lambda>e. preturn (Some e))) (filter_part s) = Some (Inr (sel_filter s, group_part s))"
    unfolding filter_part_def
    by (rule reads_expr_clause) (use assms h(5) in \<open>auto simp: filter_part_def surface_statement_def\<close>)
  show "opt_clause T_Having None (pbind (parse_expr k) (\<lambda>e. preturn (Some e))) (having_part s) = Some (Inr (sel_having s, order_part s))"
    unfolding having_part_def
    by (rule reads_expr_clause) (use assms h(3) hv in \<open>auto simp: having_part_def surface_statement_def\<close>)
  have gl: "sel_group_by s \<noteq> [] \<Longrightarrow> length (commas (map unparse (sel_group_by s))) \<le> k - 1"
    using g by (simp add: group_part_def)
  show "opt_clause T_Group [] (pbind (expect T_By) (\<lambda>_. parse_comma_separated k (parse_expr k))) (group_part s)
      = Some (Inr (sel_group_by s, having_part s))"
    unfolding group_part_def
  proof (rule reads_list_clause)
    show "\<forall>x \<in> set (sel_group_by s). \<forall>rest. ends rest \<longrightarrow> parse_expr k (unparse x @ rest) = Some (Inr (x, rest)) \<and> unparse x \<noteq> []"
      using assms(1) gl length_commas(2) [of _ "map unparse (sel_group_by s)"] unparse_not_Nil
      by (fastforce simp: surface_statement_def list_all_iff intro!: parse_unparse_expr ends_after_expr)
    show "length (sel_group_by s) \<le> k"
      using g length_commas(1) [of "map unparse (sel_group_by s)"] by (simp add: group_part_def split: if_splits)
  qed (use h(4) in auto)
  show "opt_clause T_Order [] (pbind (expect T_By) (\<lambda>_. parse_comma_separated k (parse_order_by_item k))) (order_part s)
      = Some (Inr (sel_order_by s, limit_part s))"
    unfolding order_part_def
  proof (rule reads_list_clause)
    have "sel_order_by s \<noteq> [] \<Longrightarrow> length (commas (map unparse_order (sel_order_by s))) \<le> k"
      using o by (simp add: order_part_def)
    then show "\<forall>x \<in> set (sel_order_by s). \<forall>rest. ends rest \<longrightarrow> parse_order_by_item k (unparse_order x @ rest) = Some (Inr (x, rest)) \<and> unparse_order x \<noteq> []"
      using assms(1) length_commas(2) [of _ "map unparse_order (sel_order_by s)"]
      by (fastforce simp: surface_statement_def list_all_iff ends_def unparse_order_def intro!: reads_order)
    show "length (sel_order_by s) \<le> k"
      using o length_commas(1) [of "map unparse_order (sel_order_by s)"] by (simp add: order_part_def split: if_splits)
  qed (use h(2) in auto)
  show "opt_clause T_Limit None (pbind expect_int (\<lambda>i. preturn (Some (word_of_int i)))) (limit_part s) = Some (Inr (sel_limit s, offset_part s))"
    unfolding limit_part_def by (rule reads_int_clause) (use h(1) in \<open>auto simp: ends_def\<close>)
  show "opt_clause T_Offset None (pbind expect_int (\<lambda>i. preturn (Some (word_of_int i)))) (offset_part s) = Some (Inr (sel_offset s, [T_Eof]))"
    unfolding offset_part_def by (rule reads_int_clause) simp_all
qed

lemma parse_unparse_select:
  assumes "surface_statement (Select s)" "length (unparse_statement (Select s)) \<le> k"
  shows "parse_select k (unparse_statement (Select s)) = Some (Inr (s, [T_Eof]))"
proof -
  let ?j = "concat (map unparse_join (sel_joins s)) @ filter_part s"
  let ?f = "unparse_table (sel_from s) @ ?j"
  let ?p = "commas (map unparse_projection (sel_projections s))"
  have len: "length ?p \<le> k" "length (filter_part s) \<le> k" "length (concat (map unparse_join (sel_joins s))) < k"
    using assms(2) by (simp_all add: unparse_statement_def)
  note h = part_hds(6) [of s]
  have proj: "parse_projections k (?p @ T_From # ?f) = Some (Inr (sel_projections s, T_From # ?f))"
    unfolding parse_projections_def
  proof (rule comma_separated_reads [where stop = "\<lambda>us. ends us \<and> hd us \<noteq> T_As"])
    show "\<forall>x \<in> set (sel_projections s). \<forall>rest. ends rest \<and> hd rest \<noteq> T_As \<longrightarrow>
        parse_projection k (unparse_projection x @ rest) = Some (Inr (x, rest)) \<and> unparse_projection x \<noteq> []"
    proof (intro ballI allI impI)
      fix x rest assume x: "x \<in> set (sel_projections s)" "ends rest \<and> hd rest \<noteq> T_As"
      have sx: "case x of P_Star \<Rightarrow> True | P_Expr e _ \<Rightarrow> surface e \<and> e \<noteq> E_Star"
        using assms(1) x(1) by (auto simp: surface_statement_def list_all_iff)
      moreover have "length (unparse_projection x) \<le> k"
        using length_commas(2) [of "unparse_projection x" "map unparse_projection (sel_projections s)"] x(1) len(1) by simp
      moreover have "unparse_projection x \<noteq> []"
        using sx unparse_not_Nil by (cases x) auto
      ultimately show "parse_projection k (unparse_projection x @ rest) = Some (Inr (x, rest)) \<and> unparse_projection x \<noteq> []"
        using reads_projection x(2) by blast
    qed
    show "length (sel_projections s) \<le> k"
      using length_commas(1) [of "map unparse_projection (sel_projections s)"] assms(2) by (simp add: unparse_statement_def)
  qed (use assms(1) in \<open>simp_all add: surface_statement_def\<close>)
  have hd_p: "hd (?p @ T_From # ?f) \<noteq> T_Distinct"
  proof -
    obtain p ps where "sel_projections s = p # ps"
      using assms(1) by (cases "sel_projections s") (auto simp: surface_statement_def)
    moreover have "hd (unparse_projection p @ us) \<noteq> T_Distinct" for us
      using assms(1) calculation
      by (cases p; cases "case p of P_Expr e _ \<Rightarrow> e | P_Star \<Rightarrow> E_Star" rule: unparse.cases)
        (auto simp: surface_statement_def split: literal.splits if_splits)
    ultimately show ?thesis by (simp add: commas_Cons)
  qed
  have ends_j: "ends ?j" "hd ?j \<noteq> T_As"
    using h by (cases "sel_joins s"; auto simp: unparse_join_def ends_def split: join_kind.splits)+
  have joins: "parse_joins k k [] ?j = Some (Inr ([] @ sel_joins s, filter_part s))"
  proof (rule reads_joins)
    have "j \<in> set js \<Longrightarrow> length (unparse (jc_condition j)) \<le> length (concat (map unparse_join js))" for j js
      by (induction js) (auto simp: unparse_join_def)
    then show "\<forall>j \<in> set (sel_joins s). surface (jc_condition j) \<and> length (unparse (jc_condition j)) \<le> k"
      using assms(1) len(3) by (fastforce simp: surface_statement_def list_all_iff)
    have "length js \<le> length (concat (map unparse_join js))" for js
      by (induction js) (auto simp: unparse_join_def)
    then show "length (sel_joins s) < k" using len(3) le_less_trans by blast
  qed (use h in auto)
  have ne: "?p @ T_From # ?f \<noteq> []" "?f \<noteq> []" by (simp_all add: unparse_table_def)
  show ?thesis
    unfolding parse_select_def unparse_statement_def
    using proj hd_p joins ne reads_table [OF ends_j] reads_clauses [OF assms(1) len(2)]
    by (simp add: pbind_def eat_optional_def)
qed

lemma parse_unparse_statement:
  assumes "surface_statement st"
  shows "parse_tokens (unparse_statement st) = Some (Inr st)"
proof -
  obtain s where st: "st = Select s" by (cases st)
  let ?u = "unparse_statement st"
  have u: "?u \<noteq> []" "hd ?u = T_Select" by (simp_all add: st unparse_statement_def)
  have "parse_select (Suc (length ?u)) ?u = Some (Inr (s, [T_Eof]))"
    unfolding st by (rule parse_unparse_select) (use assms st in simp_all)
  then have "parse_statement (Suc (length ?u)) ?u = Some (Inr (st, [T_Eof]))"
    using u(2) by (simp add: parse_statement_def pbind_def eat_optional_def expect_def adv_def st)
  with u(1) show ?thesis by (simp add: parse_tokens_def)
qed

lemma unparse_statement_Eof: "unparse_statement st = butlast (unparse_statement st) @ [T_Eof]"
proof -
  have "last (unparse_statement st) = T_Eof"
    by (cases st) (simp add: unparse_statement_def filter_part_def group_part_def having_part_def order_part_def
        limit_part_def offset_part_def)
  moreover have "unparse_statement st \<noteq> []" by (cases st) (simp add: unparse_statement_def)
  ultimately show ?thesis by (metis append_butlast_last_id)
qed

section \<open>Properties\<close>

text \<open>
  The parser returns on every token list the lexer returns: it neither recurses forever nor
  indexes out of bounds, whatever the text.
\<close>

lemma parser_total:
  assumes "tokenise F text = Inr ts"
  shows "\<exists>r. parse_tokens ts = Some r"
  using tokenise_shape [OF assms] by (intro parse_tokens_total) (auto simp: wft_def)

text \<open>
  C5. Parsing inverts printing, from the text to the statement. Printing a statement with
  parentheses around its compound expressions, lexing the text and parsing the tokens gives the
  statement back, for every statement the grammar can produce whose identifiers and strings are
  ASCII, whose literals are not floating-point numbers and whose intervals are whole microseconds.
\<close>

theorem parse_print_roundtrip:
  assumes "surface_statement st" "\<forall>t \<in> set (butlast (unparse_statement st)). printable t"
  shows "\<exists>ts. tokenise F (print_tokens (butlast (unparse_statement st))) = Inr ts \<and> parse_tokens ts = Some (Inr st)"
  using tokenise_print [OF assms(2), of F] parse_unparse_statement [OF assms(1)] unparse_statement_Eof [of st] by simp

definition sample_select :: select_statement where
  "sample_select =
     \<lparr>sel_projections = [P_Star, P_Expr (E_Function ''count'' [E_Star]) (Some ''n'')],
      sel_from = \<lparr>tr_name = ''logs'', tr_alias = Some ''l''\<rparr>, sel_joins = [],
      sel_filter = Some (E_BinOp Op_And (E_Between (E_Column None ''ts'') (E_Literal (L_Int 1)) (E_Literal (L_Int 9)))
        (E_Like (E_Column (Some ''l'') ''body'') ''a%'' True)),
      sel_group_by = [E_Column None ''a''], sel_having = None,
      sel_order_by = [\<lparr>ob_expr = E_Column None ''a'', ob_asc = False\<rparr>],
      sel_limit = Some 10, sel_offset = None\<rparr>"

theorem parse_print_roundtrip_witness:
  "\<exists>ts. tokenise sample_fp (print_tokens (butlast (unparse_statement (Select sample_select)))) = Inr ts
    \<and> parse_tokens ts = Some (Inr (Select sample_select))"
proof (rule parse_print_roundtrip)
  show "surface_statement (Select sample_select)"
    by (simp add: surface_statement_def sample_select_def to_ascii_lowercase_def to_lower_def is_upper_def char_code_def)
  have "list_all printable (butlast (unparse_statement (Select sample_select)))" by code_simp
  then show "\<forall>t \<in> set (butlast (unparse_statement (Select sample_select))). printable t"
    by (simp add: list_all_iff)
qed

end
