(* ===== verification/Query.thy ===== *)
theory Query
  imports Rewrites Parser_Roundtrip Engine_Properties
begin

text \<open>
  Query execution from the text to the batches (\<open>infralens-query/src/lib.rs\<close>), and the
  properties of the query crate. The clock readings of the optimizer are an argument. The loop
  over the root operator runs with the operator's own bound as fuel.
\<close>

section \<open>End-to-end execution\<close>

definition execute ::
  "query_env \<Rightarrow> 'w storage_env \<Rightarrow> string \<Rightarrow> catalog \<Rightarrow> (expr \<Rightarrow> clock) \<Rightarrow> fs \<Rightarrow> 'c storage_engine \<Rightarrow> record_batch list outcome option" where
  "execute Q E sql cat clk fs e =
     (case tokenise (q_fp Q) sql of
        Inl err \<Rightarrow> Some (Inl (Err (QLex err)))
      | Inr tokens \<Rightarrow>
          (case parse_tokens tokens of
             None \<Rightarrow> None
           | Some (Inl err) \<Rightarrow> Some (Inl (Err (QParse err)))
           | Some (Inr ast) \<Rightarrow>
               (case and_then (plan_statement ast) (\<lambda>logical.
                       and_then (optimize cat clk logical) (\<lambda>logical. to_physical cat logical)) of
                  Inl err \<Rightarrow> Some (Inl (Err err))
                | Inr physical \<Rightarrow>
                    (case build Q E physical fs e of
                       Inl f \<Rightarrow> Some (Inl f)
                     | Inr op \<Rightarrow> pull_all (poll_next Q) (Suc (poll_bound op)) op))))"

lemma execute_run_plan:
  assumes "tokenise (q_fp Q) sql = Inr tokens" "parse_tokens tokens = Some (Inr (Select sel))"
    and "optimize cat clk (plan_select sel) = Inr plan"
  shows "execute Q E sql cat clk fs e = run_plan Q E plan 8192 fs e"
  using assms by (simp add: execute_def run_plan_def build_def to_physical_def del: pull_all.simps)

section \<open>Sample environment\<close>

definition sample_query :: query_env where
  "sample_query = \<lparr>q_fp = sample_fp, q_arrow = ref_arrow sample_fp, q_try_new = sample_try_new,
                   q_now = (\<lambda>_ _. 0), q_iter = id\<rparr>"

lemma sample_query_fp [simp]: "q_fp sample_query = sample_fp"
  by (simp add: sample_query_def)

lemma sample_query_ok [simp]: "query_env_ok sample_query"
  by (simp add: query_env_ok_def sample_query_def ref_arrow_spec sample_try_new_spec)

text \<open>One table with three rows of a single column, in a partition of the logs.\<close>

definition nums :: record_batch where
  "nums = \<lparr>rb_schema = [field_new ''n'' DT_Int64 False], rb_columns = [Int64Array [Some 3, Some 1, Some 2]]\<rparr>"

definition nums_table :: sstable_meta where
  "nums_table = \<lparr>sst_seq = 1, sst_signal = Log, sst_dir = [''d''], sst_zone_map = observe_timestamp 7 zone_map_new\<rparr>"

definition nums_partition :: partition where
  "nums_partition =
     (let empty = \<lparr>sp_dir = [''d''], sstables = [], next_seq = 1\<rparr> in
      \<lparr>p_key = PartitionKey 0, p_dir = [''d''], p_logs = empty\<lparr>sstables := [nums_table]\<rparr>,
       p_metrics = empty, p_spans = empty\<rparr>)"

definition nums_engine :: "flush_request chan storage_engine" where
  "nums_engine = demo_engine\<lparr>e_partitions := [(0, nums_partition)]\<rparr>"

definition nums_fs :: fs where
  "nums_fs = [(meta_parquet_path nums_table, [])]"

definition nums_env :: "record_batch list storage_env" where
  "nums_env = sample_env [[nums]] (sample_bincode [] [] [] [])"

definition nums_scan :: "expr option \<Rightarrow> u64 option \<Rightarrow> scan_op" where
  "nums_scan p n = \<lparr>so_table = ''logs'', so_predicate = p, so_projection = None, so_partition_filter = [], so_limit = n\<rparr>"

lemma nums_valid [simp]: "batch_valid nums" "rb_schema nums = [field_new ''n'' DT_Int64 False]" "num_rows nums = 3"
    "batch_rows nums = [[CInt64 3], [CInt64 1], [CInt64 2]]"
  by (simp_all add: nums_def batch_valid_def columns_valid_def field_new_def array_null_free_def num_rows_def
      batch_rows_def batch_row_def upt_conv_Cons)

lemma nums_paths: "sstable_paths_for_signal 0 [] nums_engine = [meta_parquet_path nums_table]"
  by (simp add: sstable_paths_for_signal_def signal_try_from_def nums_engine_def dm_get_def nums_partition_def
      Let_def meta_parquet_path_def parquet_path_def)

lemma nums_read: "read_parquet nums_env (meta_parquet_path nums_table) n nums_fs = Inr [Inr nums]"
  by (simp add: read_parquet_def fs_read_def nums_fs_def fs_get_def nums_env_def no_faults_def sample_parquet_def)

lemma nums_scan_plan:
  "run_plan sample_query nums_env (LScan (nums_scan None None)) 8192 nums_fs nums_engine = Some (Inr [nums])"
  by (simp add: run_plan_Inr_iff nums_scan_def infralens_storage_schema_for_def load_batches_def signal_for_table_def
      nums_paths nums_read)

lemma nums_build:
  "build_logical sample_query nums_env (LScan (nums_scan None None)) 8192 nums_fs nums_engine = Inr (OScan log_schema [nums] 8192)"
  by (simp add: nums_scan_def infralens_storage_schema_for_def load_batches_def signal_for_table_def nums_paths nums_read)

text \<open>The condition \<open>n = 1 + 1\<close> and the row it keeps.\<close>

definition nums_condition :: expr where
  "nums_condition = E_BinOp Op_Eq (E_Column None ''n'') (E_BinOp Op_Add (E_Literal (L_Int 1)) (E_Literal (L_Int 1)))"

definition two :: record_batch where
  "two = nums\<lparr>rb_columns := [Int64Array [Some 2]]\<rparr>"

lemma nums_filter: "apply_predicate sample_query nums nums_condition = Inr two"
  by (simp add: apply_predicate_def eval_filter_def nums_condition_def eval_column_def column_by_name_def
      sample_query_def ref_arrow_def apply_binop_def arithmetic_arrays_def compare_arrays_def comparable_def is_cmp_def
      as_boolean_def eval_literal_def ref_arith_def int_results_def lift2_def int_arith_def cmp_values_def ord_holds_def
      nums_def two_def field_new_def num_rows_def batch_pick_def numeral_3_eq_3 Let_def)

lemma nums_filter_plan:
  "run_plan sample_query nums_env (LFilter nums_condition (LScan (nums_scan None None))) 8192 nums_fs nums_engine
    = Some (Inr [two])"
  using nums_build nums_filter by (simp add: run_plan_Inr_iff two_def num_rows_def)

section \<open>Properties\<close>

text \<open>
  C16. Constant folding keeps results. The optimizer reads the clock at every call of \<open>now()\<close>
  it folds, the evaluator at every call it meets, batch by batch, so an unfolded plan and a folded
  one may see different instants. Whatever the clocks read: when the plan in which these calls are
  replaced by the readings of the optimizer returns, the folded plan returns the same batches. When
  a plan itself returns and its readings while it is evaluated are those of the optimizer, in
  particular when it folds no call of \<open>now()\<close>, the folded plan returns the same batches.
  Integer arithmetic on literals is checked both when folding and when evaluating, and an
  expression that overflows or divides by zero is left for evaluation.
\<close>

theorem fold_constants_preserves:
  assumes "query_env_ok Q"
  shows "(run_plan Q E (transform_plan (\<lambda>p. read_clock (clk p) p) plan) sz fs e = Some (Inr bs)
      \<longrightarrow> run_plan Q E (fold_constants clk plan) sz fs e = Some (Inr bs))
    \<and> (run_plan Q E plan sz fs e = Some (Inr bs)
        \<and> (\<forall>p \<in> plan_predicates plan. \<forall>b. same_readings (clk p) (q_now Q b) p)
      \<longrightarrow> run_plan Q E (fold_constants clk plan) sz fs e = Some (Inr bs))"
proof (intro conjI impI)
  assume "run_plan Q E (transform_plan (\<lambda>p. read_clock (clk p) p) plan) sz fs e = Some (Inr bs)"
  then show "run_plan Q E (fold_constants clk plan) sz fs e = Some (Inr bs)"
    unfolding fold_constants_read [of clk] by (intro run_fold [OF assms]) (auto simp: plan_predicates_transform)
next
  assume "run_plan Q E plan sz fs e = Some (Inr bs) \<and> (\<forall>p \<in> plan_predicates plan. \<forall>b. same_readings (clk p) (q_now Q b) p)"
  then show "run_plan Q E (fold_constants clk plan) sz fs e = Some (Inr bs)"
    by (intro run_fold [OF assms]) auto
qed

text \<open>The condition \<open>n = now() + 1\<close>, planned at instant 1 and evaluated at instant 0.\<close>

definition now_condition :: expr where
  "now_condition = E_BinOp Op_Eq (E_Column None ''n'') (E_BinOp Op_Add (E_Function ''now'' []) (E_Literal (L_Int 1)))"

theorem fold_constants_preserves_witness:
  "run_plan sample_query nums_env (fold_constants (\<lambda>_ _. 1) (LFilter now_condition (LScan (nums_scan None None)))) 8192 nums_fs nums_engine
      = Some (Inr [two])
    \<and> run_plan sample_query nums_env (fold_constants (\<lambda>_ _. 1) (LFilter nums_condition (LScan (nums_scan None None)))) 8192 nums_fs nums_engine
      = Some (Inr [two])
    \<and> fold_constants (\<lambda>_ _. 1) (LFilter now_condition (LScan (nums_scan None None)))
      = LFilter (E_BinOp Op_Eq (E_Column None ''n'') (E_Literal (L_Int 2))) (LScan (nums_scan None None))"
proof -
  have "transform_plan (\<lambda>p. read_clock (\<lambda>_. 1) p) (LFilter now_condition (LScan (nums_scan None None)))
      = LFilter nums_condition (LScan (nums_scan None None))"
    by (simp add: now_condition_def nums_condition_def nums_scan_def)
  moreover have "fold_constants (\<lambda>_ _. 1) (LFilter now_condition (LScan (nums_scan None None)))
      = LFilter (E_BinOp Op_Eq (E_Column None ''n'') (E_Literal (L_Int 2))) (LScan (nums_scan None None))"
    by (simp add: fold_constants_def now_condition_def nums_scan_def fold_binop_def checked_add_def checked_def
        in_i64_def i64_min_def i64_max_def Let_def)
  moreover have "\<forall>p \<in> plan_predicates (LFilter nums_condition (LScan (nums_scan None None))). \<forall>b. same_readings (\<lambda>_. 1) (q_now sample_query b) p"
    by (simp add: nums_condition_def nums_scan_def)
  ultimately show ?thesis
    using fold_constants_preserves [OF sample_query_ok, of nums_env "\<lambda>_ _. 1" "LFilter now_condition (LScan (nums_scan None None))"
        8192 nums_fs nums_engine "[two]"]
      fold_constants_preserves [OF sample_query_ok, of nums_env "\<lambda>_ _. 1" "LFilter nums_condition (LScan (nums_scan None None))"
        8192 nums_fs nums_engine "[two]"] nums_filter_plan by metis
qed

text \<open>
  C15. Partition pruning loses no row: after the statistics of a table were refreshed with the
  zone maps of its partitions, a scan whose predicate bounds the timestamp still offers every
  file of a partition whose zone map covers an admitted timestamp. The bounds are non-negative.
\<close>

theorem partition_prune_sound:
  assumes "map_of cat (so_table scan) = Some d" "(k, z) \<in> set zone_maps"
    and "min_timestamp_ns z \<le> t" "t \<le> max_timestamp_ns z"
    and "so_predicate scan = Some p" "bounds_in_range p" "admits t p" "so_partition_filter scan = []"
    and "dm_get (e_partitions e) k = Some part" "m \<in> set (sstables (get_signal_partition sig part))"
  shows "\<exists>scan'. partition_prune (update_stats (so_table scan) zone_maps cat) (LScan scan) = LScan scan'
    \<and> scan'\<lparr>so_partition_filter := []\<rparr> = scan
    \<and> meta_parquet_path m \<in> set (sstable_paths_for_signal (signal_as_u8 sig) (so_partition_filter scan') e)"
proof -
  let ?cat = "update_stats (so_table scan) zone_maps cat"
  have offered: "meta_parquet_path m \<in> set (sstable_paths_for_signal (signal_as_u8 sig) ks e)" if "ks = [] \<or> k \<in> set ks" for ks
  proof -
    have "(k, part) \<in> set (e_partitions e)" using assms(9) by (simp add: dm_get_def map_of_SomeD)
    then have "k \<in> set (if ks = [] then map fst (e_partitions e) else ks)" using that by force
    then show ?thesis
      using assms(9,10) by (force simp: sstable_paths_for_signal_def Let_def meta_parquet_path_def parquet_path_def)
  qed
  show ?thesis
  proof (cases "extract_time_range p")
    case None
    then show ?thesis using assms(5,8) offered [of "[]"] by (cases scan) simp
  next
    case (Some r)
    then obtain lo hi where r: "extract_time_range p = Some (lo, hi)" by (cases r) simp
    obtain s where s: "map_of ?cat (so_table scan) = Some (d\<lparr>td_stats := s\<rparr>)"
      "\<lparr>ts_partition_key = k, ts_min_timestamp_ns = min_timestamp_ns z,
        ts_max_timestamp_ns = max_timestamp_ns z, ts_row_count = row_count z\<rparr> \<in> set s"
      using assms(1,2) by (force simp: map_of_update_stats)
    have "k \<in> set (overlapping_partitions (so_table scan) lo hi ?cat)"
      using overlapping_partitions_sound [OF s(1), of _ t lo hi] s(2) assms(3,4)
        extract_time_range_sound [OF r assms(7,6)] by (force simp: st.covers_def)
    then show ?thesis using assms(5,8) r offered by (cases scan) simp
  qed
qed

theorem partition_prune_sound_witness:
  "\<exists>scan'. partition_prune (update_stats ''logs'' [(0, observe_timestamp 7 zone_map_new)] catalog_new)
      (LScan (nums_scan (Some (E_BinOp Op_LtEq (E_Column None ''timestamp_ns'') (E_Literal (L_Int 9)))) None)) = LScan scan'
    \<and> meta_parquet_path nums_table \<in> set (sstable_paths_for_signal (signal_as_u8 Log) (so_partition_filter scan') nums_engine)"
  using partition_prune_sound [of catalog_new
      "nums_scan (Some (E_BinOp Op_LtEq (E_Column None ''timestamp_ns'') (E_Literal (L_Int 9)))) None"
      "from_schema ''logs'' log_schema" 0 "observe_timestamp 7 zone_map_new" "[(0, observe_timestamp 7 zone_map_new)]" 7
      "E_BinOp Op_LtEq (E_Column None ''timestamp_ns'') (E_Literal (L_Int 9))" nums_engine nums_partition nums_table Log]
  by (auto simp: nums_scan_def catalog_new_def i64_max_def nums_engine_def dm_get_def nums_partition_def Let_def
      observe_timestamp_def zone_map_new_def)

text \<open>
  C17. Predicate pushdown keeps results: a plan without limits, in which no filter is pushed onto
  a scan that already filters, returns the same batches after the pushdown as before.
\<close>

theorem predicate_pushdown_preserves:
  assumes "limit_free plan" "pushable plan" "run_plan Q E plan sz fs e = Some (Inr bs)"
  shows "run_plan Q E (predicate_pushdown plan) sz fs e = Some (Inr bs)"
  using assms(3) build_push [OF assms(1,2)] by (auto simp: run_plan_Inr_iff)

theorem predicate_pushdown_preserves_witness:
  "run_plan sample_query nums_env (LScan (nums_scan (Some nums_condition) None)) 8192 nums_fs nums_engine = Some (Inr [two])"
  using predicate_pushdown_preserves [OF _ _ nums_filter_plan] by (simp add: nums_scan_def)

text \<open>
  C4. The vectorised evaluator computes the value of the expression row by row: the array it
  returns for a well-formed batch holds in position \<open>i\<close> the value on row \<open>i\<close>, with nulls
  propagated by comparisons, arithmetic and connectives. Each call of \<open>now()\<close> has the same
  reading on every row, and calls at different places may read different instants.
\<close>

theorem vectorised_rows:
  assumes "query_env_ok Q" "batch_valid b" "rowwise e" "eval_expr Q b c e = Inr arr"
  shows "array_cells arr = map (\<lambda>row. row_eval (q_fp Q) c (rb_schema b) row e) (batch_rows b)"
  using eval_expr_cells [OF _ assms(2-4)] assms(1) by (simp add: query_env_ok_def)

theorem vectorised_rows_witness:
  "eval_expr sample_query nums (\<lambda>_. 0) (E_BinOp Op_Lt (E_Column None ''n'') (E_Literal (L_Int 3)))
      = Inr (BooleanArray [Some False, Some True, Some True])
    \<and> row_eval sample_fp (\<lambda>_. 0) [field_new ''n'' DT_Int64 False] [CInt64 2] (E_BinOp Op_Lt (E_Column None ''n'') (E_Literal (L_Int 3)))
      = CBoolean True"
proof -
  have e: "eval_expr sample_query nums (\<lambda>_. 0) (E_BinOp Op_Lt (E_Column None ''n'') (E_Literal (L_Int 3)))
      = Inr (BooleanArray [Some False, Some True, Some True])"
    by (simp add: eval_column_def column_by_name_def sample_query_def ref_arrow_def apply_binop_def compare_arrays_def
        comparable_def is_cmp_def eval_literal_def lift2_def cmp_values_def ord_holds_def nums_def field_new_def
        num_rows_def numeral_3_eq_3)
  from vectorised_rows [OF sample_query_ok _ _ e] show ?thesis
    by (auto simp: e simp del: row_eval.simps eval_expr.simps)
qed

text \<open>
  C34. Executing a query returns on every text, whatever the tables hold: lexing, parsing,
  planning, and polling the operators until the stream ends all terminate.
\<close>

theorem execute_total: "\<exists>r. execute Q E sql cat clk fs e = Some r"
proof (cases "tokenise (q_fp Q) sql")
  case (Inl err)
  then show ?thesis by (simp add: execute_def)
next
  case (Inr ts)
  obtain us where "ts = us @ [T_Eof]" "\<forall>u \<in> set us. literal_ok u" using tokenise_shape [OF Inr] by blast
  then have "\<exists>r. parse_tokens ts = Some r" by (intro parse_tokens_total) (auto simp: wft_def)
  then obtain r where r: "parse_tokens ts = Some r" by blast
  show ?thesis
  proof (cases r)
    case (Inr ast)
    obtain sel where "ast = Select sel" by (cases ast)
    moreover obtain plan where "optimize cat clk (plan_select sel) = Inr plan" by (simp add: optimize_def Let_def)
    ultimately show ?thesis
      using execute_run_plan \<open>tokenise (q_fp Q) sql = Inr ts\<close> r Inr by (metis run_plan_stream)
  qed (use Inr r in \<open>simp add: execute_def\<close>)
qed

end
