(* ===== verification/Query_Results.thy ===== *)
theory Query_Results
  imports Query
begin

text \<open>
  What the operators above a scan return, in terms of the rows below them: LIMIT and OFFSET,
  ORDER BY, the aggregates over a whole table, and GROUP BY.
\<close>

section \<open>Limits in the scan\<close>

lemma scan_limit_plan:
  assumes "run_plan Q E (LScan s) sz fs e = Some (Inr bs)" "so_limit s = None"
  shows "run_plan Q E (LScan (s\<lparr>so_limit := Some n\<rparr>)) sz fs e = Some (Inr (retain_limit 0 (unat n) bs))"
  using assms by (auto simp: run_plan_Inr_iff result_simps load_batches_def)

lemma limit_plan_rows:
  assumes "query_env_ok Q" "run_plan Q E plan sz fs e = Some (Inr bs)"
    and "batches_of sch bs" "\<forall>b \<in> set bs. num_rows b < 2 ^ 64"
  shows "\<exists>cs. run_plan Q E (LLimit n k plan) sz fs e = Some (Inr cs) \<and> batches_of sch cs
    \<and> batches_rows cs = take (unat n) (drop (unat k) (batches_rows bs))"
proof -
  obtain op where op: "build_logical Q E plan sz fs e = Inr op" "op_stream Q op = (bs, None)"
    using assms(2) by (auto simp: run_plan_Inr_iff)
  obtain cs where "limit_stream Q n k bs None = (cs, None)" "batches_of sch cs"
    "batches_rows cs = take (unat n) (drop (unat k) (batches_rows bs))"
    using limit_stream_rows [OF assms(1,3,4)] by blast
  then show ?thesis using op by (auto simp: run_plan_Inr_iff)
qed

section \<open>Aggregates of rows\<close>

text \<open>The number a cell of a column of the given type contributes; a null slot counts as zero.\<close>

definition cell_number :: "fp_ops \<Rightarrow> data_type \<Rightarrow> cell \<Rightarrow> f64" where
  "cell_number F ty c =
     (case c of
        CFloat64 v \<Rightarrow> v
      | CInt64 n \<Rightarrow> fp_of_i64 F n
      | _ \<Rightarrow> if ty = DT_Int64 then fp_of_i64 F 0 else 0)"

definition column_numbers :: "fp_ops \<Rightarrow> schema \<Rightarrow> nat \<Rightarrow> cell list list \<Rightarrow> f64 list" where
  "column_numbers F sch i rows =
     (let ty = f_type (sch ! i) in
      if ty = DT_Float64 \<or> ty = DT_Int64 then map (\<lambda>r. cell_number F ty (r ! i)) rows else [])"

text \<open>The aggregates of a list of numbers, in row order. \<open>least\<close> and \<open>greatest\<close> start from the
  infinities, so that a number that compares with nothing never wins.\<close>

definition least :: "fp_ops \<Rightarrow> f64 list \<Rightarrow> f64" where
  "least F xs = foldl (\<lambda>m x. if fp_lt F x m then x else m) (fp_infinity F) xs"

definition greatest :: "fp_ops \<Rightarrow> f64 list \<Rightarrow> f64" where
  "greatest F xs = foldl (\<lambda>m x. if fp_lt F m x then x else m) (fp_neg_infinity F) xs"

definition scalar_agg :: "fp_ops \<Rightarrow> string \<Rightarrow> f64 list \<Rightarrow> f64" where
  "scalar_agg F func xs =
     (let s = foldl (fp_add F) (fp_lit F ''0.0'') xs in
      if func = ''sum'' then s
      else if func = ''avg'' then (if xs = [] then fp_lit F ''0.0'' else fp_div F s (fp_of_u64 F (word_of_nat (length xs))))
      else if func = ''min'' then least F xs
      else greatest F xs)"

lemma running_least:
  assumes "transp R" "irreflp R" "\<forall>y \<in> A. \<not> R y m"
  shows "(\<forall>y \<in> A \<union> set xs. \<not> R y (foldl (\<lambda>m x. if R x m then x else m) m xs))
    \<and> foldl (\<lambda>m x. if R x m then x else m) m xs \<in> insert m (set xs)"
  using assms(3)
proof (induction xs arbitrary: A m)
  case (Cons x xs)
  have "\<forall>y \<in> insert x A. \<not> R y (if R x m then x else m)"
    using Cons.prems assms(1,2) by (auto dest: transpD irreflpD)
  from Cons.IH [OF this] show ?case by (auto split: if_splits)
qed simp

lemma least_greatest_bounds:
  assumes "transp (fp_lt F)" "irreflp (fp_lt F)"
  shows "(\<forall>x \<in> set xs. \<not> fp_lt F x (least F xs)) \<and> least F xs \<in> insert (fp_infinity F) (set xs)"
    "(\<forall>x \<in> set xs. \<not> fp_lt F (greatest F xs) x) \<and> greatest F xs \<in> insert (fp_neg_infinity F) (set xs)"
  using running_least [OF assms, of "{}" "fp_infinity F" xs] running_least [of "\<lambda>x y. fp_lt F y x" "{}" "fp_neg_infinity F" xs] assms
  by (auto simp: least_def greatest_def transp_def irreflp_def)

definition row_agg :: "fp_ops \<Rightarrow> schema \<Rightarrow> cell list list \<Rightarrow> agg_expr \<Rightarrow> cell" where
  "row_agg F sch rows a =
     (if ag_func a = ''count'' then CInt64 (wrap_i64 (int (length rows)))
      else CFloat64
        (case ag_arg a of
           Some (E_Column _ name) \<Rightarrow> scalar_agg F (ag_func a) (column_numbers F sch (the (schema_index name sch)) rows)
         | _ \<Rightarrow> fp_lit F ''0.0''))"

text \<open>An aggregate of the planner over columns the table has.\<close>

definition agg_ok :: "schema \<Rightarrow> agg_expr \<Rightarrow> bool" where
  "agg_ok sch a \<longleftrightarrow>
     ag_func a \<in> set agg_fns
   \<and> (ag_func a \<noteq> ''count'' \<longrightarrow>
        (case ag_arg a of Some (E_Column _ name) \<Rightarrow> schema_index name sch \<noteq> None | _ \<Rightarrow> True))"

lemma agg_values_numbers:
  "agg_values F col =
     (if array_data_type col = DT_Float64 \<or> array_data_type col = DT_Int64
      then map (cell_number F (array_data_type col)) (array_cells col) else [])"
  by (cases col) (auto simp: agg_values_def cell_number_def opt_cell_def slot_def split: option.split)

lemma batch_column_cells:
  assumes "batch_valid b" "i < length (rb_schema b)"
  shows "map (\<lambda>r. r ! i) (batch_rows b) = array_cells (rb_columns b ! i)"
proof -
  note v = batch_validD [OF assms(1)]
  have "length (array_cells (rb_columns b ! i)) = num_rows b"
    using v(3) [OF assms(2)] by (simp add: array_len_def)
  then show ?thesis
    using assms(2) v(2) by (intro nth_equalityI) (auto simp: batch_rows_def batch_row_def)
qed

lemma agg_values_batch:
  assumes "batch_valid b" "i < length (rb_schema b)"
  shows "agg_values F (rb_columns b ! i) = column_numbers F (rb_schema b) i (batch_rows b)"
  using batch_validD(3) [OF assms] batch_column_cells [OF assms, symmetric]
  by (simp add: agg_values_numbers column_numbers_def Let_def)

lemma column_numbers_append:
  "column_numbers F sch i (rows @ rows') = column_numbers F sch i rows @ column_numbers F sch i rows'"
  by (simp add: column_numbers_def Let_def)

lemma column_numbers_Nil [simp]: "column_numbers F sch i [] = []"
  by (simp add: column_numbers_def Let_def)

lemma agg_batches_rows:
  assumes "batches_of sch bs" "schema_index name sch = Some i"
  shows "agg_batches F func name bs acc cnt =
    Inr (foldl (agg_step F func) acc (column_numbers F sch i (batches_rows bs)),
         cnt + length (column_numbers F sch i (batches_rows bs)))"
  using assms(1)
proof (induction bs arbitrary: acc cnt)
  case (Cons b bs)
  have b: "batch_valid b" "rb_schema b = sch" using Cons.prems by auto
  have "column_by_name b name = Some (rb_columns b ! i)"
    using column_by_name_valid [OF b(1)] assms(2) b(2) by simp
  moreover have "agg_values F (rb_columns b ! i) = column_numbers F sch i (batch_rows b)"
    using agg_values_batch [OF b(1)] schema_index_less [OF assms(2)] b(2) by simp
  ultimately show ?case
    using Cons by (simp add: column_numbers_append Let_def)
qed simp

lemma scalar_agg_steps:
  assumes "func \<in> {''sum'', ''avg'', ''min'', ''max''}"
  shows "scalar_agg F func xs =
    (let acc = foldl (agg_step F func) (agg_init F func) xs in
     if func = ''avg'' then (if length xs > 0 then fp_div F acc (fp_of_u64 F (word_of_nat (length xs))) else fp_lit F ''0.0'') else acc)"
proof -
  have "agg_step F ''sum'' = fp_add F" "agg_step F ''avg'' = fp_add F"
    "agg_step F ''min'' = (\<lambda>m x. if fp_lt F x m then x else m)" "agg_step F ''max'' = (\<lambda>m x. if fp_lt F m x then x else m)"
    by (auto simp: agg_step_def fun_eq_iff)
  then show ?thesis using assms by (auto simp: scalar_agg_def least_def greatest_def agg_init_def Let_def)
qed

lemma agg_column_rows:
  assumes "batches_of sch bs" "agg_ok sch a"
  shows "\<exists>c. agg_column F bs a = Inr c \<and> array_cells c = [row_agg F sch (batches_rows bs) a]
    \<and> array_data_type c = (if ag_func a = ''count'' then DT_Int64 else DT_Float64)"
proof (cases "ag_func a = ''count''")
  case True
  have "sum_list (map num_rows bs) = length (batches_rows bs)"
    by (induction bs) simp_all
  then show ?thesis using True by (simp add: agg_column_def row_agg_def opt_cell_def)
next
  case False
  then have f: "ag_func a \<in> {''sum'', ''avg'', ''min'', ''max''}"
    using assms(2) by (auto simp: agg_ok_def agg_fns_def)
  have "compute_scalar_agg F bs (ag_func a) (ag_arg a) = Inr
      (case ag_arg a of
         Some (E_Column _ name) \<Rightarrow> scalar_agg F (ag_func a) (column_numbers F sch (the (schema_index name sch)) (batches_rows bs))
       | _ \<Rightarrow> fp_lit F ''0.0'')"
    using assms(2) False
    by (auto simp: compute_scalar_agg_def scalar_agg_steps [OF f] agg_ok_def agg_batches_rows [OF assms(1)] Let_def
        split: option.splits expr.splits)
  then show ?thesis using False f by (auto simp: agg_column_def row_agg_def opt_cell_def)
qed

lemma batch_new_row:
  assumes "list_all2 (\<lambda>x c. array_cells c = [f x]) xs cols" "cols \<noteq> []"
  shows "batch_rows \<lparr>rb_schema = sch, rb_columns = cols\<rparr> = [map f xs]"
proof -
  have "map (\<lambda>c. array_cells c ! 0) cols = map f xs"
    using assms(1) by (induction rule: list_all2_induct) auto
  moreover have "length (array_cells (hd cols)) = 1"
    using assms by (auto simp: list_all2_Cons2 neq_Nil_conv)
  ultimately show ?thesis
    using assms(2) by (cases cols) (simp_all add: batch_rows_def batch_row_def num_rows_def array_len_def)
qed

lemma aggregate_batches_rows:
  assumes "arrow_try_new_spec (q_try_new Q)" "batches_of sch bs" "bs \<noteq> []" "aggs \<noteq> []" "\<forall>a \<in> set aggs. agg_ok sch a"
  shows "\<exists>b. aggregate_batches Q [] aggs bs = Inr b \<and> rb_schema b = agg_schema [] aggs
    \<and> batch_rows b = [map (row_agg (q_fp Q) sch (batches_rows bs)) aggs]"
proof -
  have "\<exists>cols. collect_r (agg_column (q_fp Q) bs) aggs = Inr cols
      \<and> list_all2 (\<lambda>a c. array_cells c = [row_agg (q_fp Q) sch (batches_rows bs) a]
          \<and> array_data_type c = (if ag_func a = ''count'' then DT_Int64 else DT_Float64)) aggs cols"
    using assms(5)
  proof (induction aggs)
    case (Cons a aggs)
    then show ?case using agg_column_rows [OF assms(2), of a "q_fp Q"] by fastforce
  qed simp
  then obtain cols where cols: "collect_r (agg_column (q_fp Q) bs) aggs = Inr cols"
    "list_all2 (\<lambda>a c. array_cells c = [row_agg (q_fp Q) sch (batches_rows bs) a]
          \<and> array_data_type c = (if ag_func a = ''count'' then DT_Int64 else DT_Float64)) aggs cols" by blast
  have ne: "cols \<noteq> []" using cols(2) assms(4) by auto
  have nonnull: "CNull \<noteq> row_agg (q_fp Q) sch rows a" for rows a
    by (simp add: row_agg_def)
  have one: "array_len c = 1" if "c \<in> set cols" for c
    using cols(2) that by (auto simp: array_len_def list_all2_conv_all_nth in_set_conv_nth)
  have len: "length cols = length aggs" using list_all2_lengthD [OF cols(2)] by simp
  have "columns_valid (agg_schema [] aggs) cols"
    using cols(2) ne one nonnull len
    by (auto simp: columns_valid_def agg_schema_def list_all2_conv_all_nth field_new_def array_null_free_def)
  then have "q_try_new Q (agg_schema [] aggs) cols = Inr \<lparr>rb_schema = agg_schema [] aggs, rb_columns = cols\<rparr>"
    using assms(1) by (simp add: arrow_try_new_spec_def split: if_splits)
  moreover have "batch_rows \<lparr>rb_schema = agg_schema [] aggs, rb_columns = cols\<rparr>
      = [map (row_agg (q_fp Q) sch (batches_rows bs)) aggs]"
    using cols(2) ne by (intro batch_new_row) (auto elim: list_all2_mono)
  ultimately show ?thesis
    using assms(3) cols(1) by (simp add: aggregate_batches_def)
qed

section \<open>Groups\<close>

lemma group_rows_Inr:
  assumes "\<forall>(b, i) \<in> set ps. rb_columns b \<noteq> []"
  shows "\<exists>gs'. group_rows F aggs ps gs = Inr gs'"
  using assms
proof (induction ps arbitrary: gs)
  case (Cons p ps)
  obtain b i where p: "p = (b, i)" by force
  then have "\<exists>k. extract_group_key b i = Inr k"
    using Cons.prems by (auto simp: extract_group_key_def split: list.split arrow_array.split)
  then show ?case using Cons p by (auto simp: group_row_def Let_def)
qed simp

lemma grouped_aggregate_fails:
  assumes "arrow_try_new_spec (q_try_new Q)" "batches_of sch bs" "bs \<noteq> []" "keys \<noteq> []"
  shows "\<exists>msg. aggregate_batches Q keys aggs bs = Inl (Err (QArrow msg))"
proof -
  have "\<forall>(b, i) \<in> set (batch_positions bs). rb_columns b \<noteq> []"
    using assms(2) batch_validD(1) by (auto simp: batch_positions_def batches_of_def)
  then obtain gs where gs: "group_rows (q_fp Q) aggs (batch_positions bs) [] = Inr gs"
    using group_rows_Inr by blast
  obtain k ks where "keys = k # ks" using assms(4) by (cases keys) auto
  then have "\<not> columns_valid (agg_schema keys aggs) (group_columns Q keys aggs gs)"
    by (simp add: columns_valid_def agg_schema_def group_columns_def Let_def field_new_def)
  then obtain msg where "q_try_new Q (agg_schema keys aggs) (group_columns Q keys aggs gs) = Inl msg"
    using assms(1) unfolding arrow_try_new_spec_def by metis
  then show ?thesis using assms(3,4) gs by (simp add: aggregate_batches_def arrow_result_def)
qed

lemma aggregate_plan:
  assumes "run_plan Q E plan sz fs e = Some (Inr bs)"
  shows "run_plan Q E (LAggregate keys aggs plan) sz fs e
    = Some (and_then (aggregate_batches Q keys aggs bs) (\<lambda>b. Inr [b]))"
proof -
  obtain op where "build_logical Q E plan sz fs e = Inr op" "op_stream Q op = (bs, None)"
    using assms by (auto simp: run_plan_Inr_iff)
  then show ?thesis
    by (cases "aggregate_batches Q keys aggs bs") (simp_all add: run_plan_stream collect_stream_def stream_result_def)
qed

section \<open>Samples\<close>

definition pair_env :: "record_batch list storage_env" where
  "pair_env = sample_env [[nums, nums]] (sample_bincode [] [] [] [])"

lemma pair_scan_plan:
  "run_plan sample_query pair_env (LScan (nums_scan None None)) 8192 nums_fs nums_engine = Some (Inr [nums, nums])"
  by (simp add: run_plan_Inr_iff nums_scan_def infralens_storage_schema_for_def load_batches_def signal_for_table_def
      nums_paths read_parquet_def fs_read_def nums_fs_def fs_get_def pair_env_def no_faults_def sample_parquet_def)

lemma nums_sorted:
  "sort_batches sample_query [(E_Column None ''n'', True)] [nums] = Inr [nums\<lparr>rb_columns := [Int64Array [Some 1, Some 2, Some 3]]\<rparr>]"
  by (simp add: sample_query_def ref_arrow_def sort_batches_def ref_lexsort_def column_by_name_def nums_def field_new_def
      key_cells_def sort_options_def cell_before_def value_less_def array_len_def opt_cell_def batch_pick_def
      numeral_2_eq_2 Let_def)

section \<open>Properties\<close>

text \<open>
  C19. LIMIT returns the first \<open>n\<close> rows after the first \<open>k\<close>, however the rows are cut into
  batches. The planner copies the limit into the scan, which then keeps the shortest run of
  batches with \<open>n\<close> rows: without an offset the result is the same, with an offset the rows
  after that run are missing.
\<close>

theorem limit_rows:
  assumes "query_env_ok Q" "run_plan Q E (LScan s) sz fs e = Some (Inr bs)" "so_limit s = None"
    and "batches_of sch bs" "\<forall>b \<in> set bs. num_rows b < 2 ^ 64"
  shows "\<exists>cs ds. run_plan Q E (LLimit n k (LScan s)) sz fs e = Some (Inr cs)
    \<and> batches_rows cs = take (unat n) (drop (unat k) (batches_rows bs))
    \<and> run_plan Q E (LLimit n k (LScan (s\<lparr>so_limit := Some n\<rparr>))) sz fs e = Some (Inr ds)
    \<and> batches_rows ds = take (unat n) (drop (unat k) (batches_rows (retain_limit 0 (unat n) bs)))
    \<and> (k = 0 \<longrightarrow> batches_rows ds = batches_rows cs)"
proof -
  have sub: "batches_of sch (retain_limit 0 (unat n) bs)" "\<forall>b \<in> set (retain_limit 0 (unat n) bs). num_rows b < 2 ^ 64"
    using assms(4,5) retain_limit_subset [of 0 "unat n" bs] by (auto simp: batches_of_def)
  show ?thesis
    using limit_plan_rows [OF assms(1,2,4,5), of n k]
      limit_plan_rows [OF assms(1) scan_limit_plan [OF assms(2,3)] sub, of n k]
      retain_limit_rows [of "unat n" 0 bs] by fastforce
qed

theorem limit_rows_witness:
  "\<exists>cs ds. run_plan sample_query pair_env (LLimit 1 3 (LScan (nums_scan None None))) 8192 nums_fs nums_engine = Some (Inr cs)
    \<and> batches_rows cs = [[CInt64 3]]
    \<and> run_plan sample_query pair_env (LLimit 1 3 (LScan (nums_scan None (Some 1)))) 8192 nums_fs nums_engine = Some (Inr ds)
    \<and> batches_rows ds = []"
  using limit_rows [OF sample_query_ok pair_scan_plan, of "[field_new ''n'' DT_Int64 False]" 1 3]
  by (simp add: nums_scan_def)

text \<open>
  C18. ORDER BY permutes: the sorted result holds the rows of its input with their
  multiplicities, and no row stands before one that precedes it in the order of the keys. Keys
  that name no column are ignored.
\<close>

theorem sort_rows:
  assumes "query_env_ok Q" "run_plan Q E plan sz fs e = Some (Inr bs)" "batches_of sch bs"
    and "run_plan Q E (LSort keys plan) sz fs e = Some (Inr cs)"
  shows "batches_of sch cs \<and> mset (batches_rows cs) = mset (batches_rows bs)
    \<and> sorted_wrt (\<lambda>r s. \<not> row_before sch keys s r) (batches_rows cs)"
proof -
  obtain op where op: "build_logical Q E plan sz fs e = Inr op" "op_stream Q op = (bs, None)"
    using assms(2) by (auto simp: run_plan_Inr_iff)
  have res: "sort_batches Q keys bs = Inr cs"
    using assms(4) op collect_stream_None by (fastforce simp: run_plan_Inr_iff)
  show ?thesis
  proof (cases "bs = []")
    case True
    then show ?thesis using res by (simp add: sort_batches_def)
  next
    case False
    then show ?thesis using sort_batches_rows [OF assms(1,3) False res] by auto
  qed
qed

theorem sort_rows_witness:
  "\<exists>cs. run_plan sample_query nums_env (LSort [(E_Column None ''n'', True)] (LScan (nums_scan None None))) 8192 nums_fs nums_engine
      = Some (Inr cs) \<and> mset (batches_rows cs) = {#[CInt64 1], [CInt64 2], [CInt64 3]#}
    \<and> sorted_wrt (\<lambda>r s. \<not> row_before [field_new ''n'' DT_Int64 False] [(E_Column None ''n'', True)] s r) (batches_rows cs)"
proof -
  obtain cs where cs: "run_plan sample_query nums_env (LSort [(E_Column None ''n'', True)] (LScan (nums_scan None None))) 8192 nums_fs
      nums_engine = Some (Inr cs)"
    using nums_build nums_sorted by (auto simp: run_plan_Inr_iff collect_stream_def stream_result_def)
  from sort_rows [OF sample_query_ok nums_scan_plan _ cs, of "[field_new ''n'' DT_Int64 False]"] cs show ?thesis
    by auto
qed



text \<open>
  C37. GROUP BY never returns groups: over a non-empty stream of batches every query with a
  group key fails with an Arrow error. The key column is built from strings while the declared
  output field is a 64-bit integer.
\<close>

theorem group_by_fails:
  assumes "query_env_ok Q" "run_plan Q E plan sz fs e = Some (Inr bs)" "batches_of sch bs" "bs \<noteq> []" "keys \<noteq> []"
  shows "\<exists>msg. run_plan Q E (LAggregate keys aggs plan) sz fs e = Some (Inl (Err (QArrow msg)))"
  using grouped_aggregate_fails [of Q sch bs keys aggs] assms(1,3-5) aggregate_plan [OF assms(2), of keys aggs]
  by (auto simp: query_env_ok_def)

theorem group_by_fails_witness:
  "\<exists>msg. run_plan sample_query nums_env (LAggregate [E_Column None ''n''] [] (LScan (nums_scan None None))) 8192 nums_fs nums_engine
    = Some (Inl (Err (QArrow msg)))"
  using group_by_fails [OF sample_query_ok nums_scan_plan, of "[field_new ''n'' DT_Int64 False]" "[E_Column None ''n'']"] by simp

end
