(* ===== verification/End_To_End.thy ===== *)
theory End_To_End
  imports Query_Results
begin

text \<open>
  From the writes to the answer of a query: a selection over a table returns the rows of the
  accepted records that satisfy its condition, once the MemTables are flushed. The storage engine
  contributes the contents of its tables, the parser and planner the plan, the optimizer its
  rewrites, and the executor the rows of the operators.
\<close>

section \<open>One entry per partition\<close>

lemma dm_put_distinct: "distinct (map fst m) \<Longrightarrow> distinct (map fst (dm_put k v m))"
  by (auto simp: dm_put_def distinct_map_filter)

definition one_entry :: "'c storage_engine \<Rightarrow> bool" where
  "one_entry e \<longleftrightarrow> distinct (map fst (e_partitions e))"

lemma one_entry_simps [simp]:
  "one_entry (e\<lparr>e_memtables := ms\<rparr>) = one_entry e" "one_entry (e\<lparr>e_wals := ws\<rparr>) = one_entry e"
  "one_entry (e\<lparr>e_flush_tx := c\<rparr>) = one_entry e" "one_entry (e\<lparr>e_closed := b\<rparr>) = one_entry e"
  by (simp_all add: one_entry_def)

lemma one_entry_put: "one_entry e \<Longrightarrow> one_entry (e\<lparr>e_partitions := dm_put k p (e_partitions e)\<rparr>)"
  by (simp add: one_entry_def dm_put_distinct)

lemma one_entry_get_or_create:
  "get_or_create_partition E key fs e = Some (p, e') \<Longrightarrow> one_entry e \<Longrightarrow> one_entry e'"
  by (auto simp: get_or_create_partition_def one_entry_put split: option.splits sum.splits)

lemma one_entry_memtable: "get_or_create_memtable key e = (m, e') \<Longrightarrow> one_entry e \<Longrightarrow> one_entry e'"
  by (auto simp: get_or_create_memtable_def split: option.splits)

lemma one_entry_wal: "get_or_create_wal E key fs e = Some (fs', w, e') \<Longrightarrow> one_entry e \<Longrightarrow> one_entry e'"
  by (auto simp: get_or_create_wal_def dest!: one_entry_get_or_create split: option.splits sum.splits)

lemma one_entry_freeze: "maybe_freeze E send key mem fs e = Some (e', evs) \<Longrightarrow> one_entry e \<Longrightarrow> one_entry e'"
  by (auto simp: maybe_freeze_def Let_def dest!: one_entry_get_or_create split: if_splits option.splits sum.splits)

lemma one_entry_write:
  assumes "write_record E send r fs e = Some (fs', e', evs, res)" "one_entry e"
  shows "one_entry e'"
  using assms unfolding write_record_one write_one_def
  by (auto simp: Let_def dest!: one_entry_memtable one_entry_wal one_entry_freeze
      split: option.splits sum.splits prod.splits)

lemma one_entry_flush_key: "flush_key E send k fs e = Ready e' \<Longrightarrow> one_entry e \<Longrightarrow> one_entry e'"
  by (auto simp: flush_key_def Let_def dest!: one_entry_get_or_create
      split: option.splits if_splits sum.splits send_error.splits)

lemma one_entry_workers:
  "flush_worker E recv fs e = Some (fs', e', evs) \<Longrightarrow> one_entry e \<Longrightarrow> one_entry e'"
  "compact_key E k fs e = (fs'', e'', evs') \<Longrightarrow> one_entry e \<Longrightarrow> one_entry e''"
  by (auto simp: flush_worker_def compact_key_def one_entry_def dm_put_distinct split: option.splits prod.splits)

lemma engine_run_one_entry:
  assumes "engine_run E send recv queued alive ops (fs, e) evs"
  shows "one_entry e"
  using assms
proof (induction ops "(fs, e)" evs arbitrary: fs e rule: engine_run.induct)
  case (run_open config c e fs)
  then show ?case by (auto simp: engine_open_def one_entry_def split: if_splits)
qed (auto intro: one_entry_write one_entry_flush_key one_entry_workers)

section \<open>The rows of the accepted records\<close>

definition accepted_rows :: "'w storage_env \<Rightarrow> engine_op list \<Rightarrow> signal_type \<Rightarrow> cell list multiset" where
  "accepted_rows E ops sig =
     (\<Sum>op \<leftarrow> ops. case op of
        OpWrite r (Inr _) \<Rightarrow> if telemetry_sig r = sig then {#telemetry_row E r#} else {#}
      | _ \<Rightarrow> {#})"

lemma accepted_by_sum:
  assumes "finite K" "bucket \<noteq> 0" "\<And>k. k \<notin> K \<Longrightarrow> accepted_by E bucket k sig op = {#}"
  shows "(\<Sum>k \<in> K. accepted_by E bucket k sig op) = accepted_rows E [op] sig"
proof (cases "\<exists>r u. op = OpWrite r (Inr u) \<and> telemetry_sig r = sig")
  case True
  then obtain r u where r: "op = OpWrite r (Inr u)" "telemetry_sig r = sig" by blast
  obtain k where k: "for_timestamp (telemetry_ts r) bucket = Some (PartitionKey k)"
    using assms(2) by (auto simp: for_timestamp_def)
  have by_k: "accepted_by E bucket j sig op = (if j = k then {#telemetry_row E r#} else {#})" for j
    using r k by (auto simp: accepted_by_def)
  then have "k \<in> K" using assms(3) [of k] by auto
  then have "(\<Sum>j \<in> K. accepted_by E bucket j sig op) = {#telemetry_row E r#}"
    using assms(1) by (simp add: by_k sum.delta)
  then show ?thesis using r by (simp add: accepted_rows_def)
next
  case False
  then have "accepted_by E bucket k sig op = {#}" for k
    by (auto simp: accepted_by_def split: engine_op.split sum.split)
  moreover have "accepted_rows E [op] sig = {#}"
    using False by (auto simp: accepted_rows_def split: engine_op.split sum.split)
  ultimately show ?thesis by simp
qed

lemma accepted_sum:
  assumes "finite K" "bucket \<noteq> 0" "\<And>k. k \<notin> K \<Longrightarrow> accepted E bucket ops k sig = {#}"
  shows "(\<Sum>k \<in> K. accepted E bucket ops k sig) = accepted_rows E ops sig"
  using assms(3)
proof (induction ops)
  case (Cons op ops)
  have op: "accepted_by E bucket k sig op = {#}" "accepted E bucket ops k sig = {#}" if "k \<notin> K" for k
    using Cons.prems [OF that] by (simp_all add: accepted_def)
  have "accepted E bucket (op # ops) k sig = accepted_by E bucket k sig op + accepted E bucket ops k sig" for k
    by (simp add: accepted_def)
  moreover have "accepted_rows E (op # ops) sig = accepted_rows E [op] sig + accepted_rows E ops sig"
    by (simp add: accepted_rows_def)
  ultimately show ?case
    using Cons.IH op accepted_by_sum [OF assms(1,2), of E sig op] by (simp add: sum.distrib)
qed (simp add: accepted_def accepted_rows_def)

section \<open>Reading the tables\<close>

text \<open>The tables of a signal, in the order a scan without partition filter reads them.\<close>

definition signal_tables :: "signal_type \<Rightarrow> 'c storage_engine \<Rightarrow> sstable_meta list" where
  "signal_tables sig e =
     concat (map (\<lambda>key. case dm_get (e_partitions e) key of
                          None \<Rightarrow> [] | Some p \<Rightarrow> sstables (get_signal_partition sig p)) (map fst (e_partitions e)))"

lemma signal_paths: "sstable_paths_for_signal (signal_as_u8 sig) [] e = map meta_parquet_path (signal_tables sig e)"
  by (simp add: sstable_paths_for_signal_def signal_tables_def map_concat o_def meta_parquet_path_def [abs_def] parquet_path_def
      option.case_distrib cong: option.case_cong)

lemma load_readable:
  assumes "\<forall>m \<in> set ms. \<exists>rows. holds_rows E fs (meta_parquet_path m) sch rows" "0 < sz"
  shows "\<exists>bs. load_paths Q E None sz fs (map meta_parquet_path ms) = Inr bs \<and> batches_of sch bs
    \<and> batches_rows bs = concat (map (table_rows E fs) ms)"
  using assms(1)
proof (induction ms)
  case (Cons m ms)
  then obtain rows where h: "holds_rows E fs (meta_parquet_path m) sch rows" by auto
  then obtain cs where cs: "read_parquet E (meta_parquet_path m) sz fs = Inr (map Inr cs)" "batches_rows cs = rows"
    "batches_of sch cs"
    using assms(2) unfolding holds_rows_def batches_of_def by metis
  have "load_items Q None (map Inr cs) = Inr cs" by (induction cs) simp_all
  moreover obtain bs where "load_paths Q E None sz fs (map meta_parquet_path ms) = Inr bs" "batches_of sch bs"
    "batches_rows bs = concat (map (table_rows E fs) ms)"
    using Cons by auto
  ultimately show ?case
    using cs holds_table_rows [OF h] by (simp add: batches_rows_def)
qed simp

lemma load_items_filtered:
  "load_items Q None items = Inr bs \<Longrightarrow> load_items Q (Some p) items = Inr cs \<Longrightarrow> filter_stream Q p bs None = (cs, None)"
  by (induction items arbitrary: bs cs) (auto simp: result_simps)

lemma filter_stream_join:
  "filter_stream Q p bs None = (xs, None) \<Longrightarrow> filter_stream Q p cs None = (ys, None)
    \<Longrightarrow> filter_stream Q p (bs @ cs) None = (xs @ ys, None)"
  by (induction bs arbitrary: xs) (auto split: sum.splits prod.splits if_splits)

lemma load_paths_filtered:
  "load_paths Q E None sz fs ps = Inr bs \<Longrightarrow> load_paths Q E (Some p) sz fs ps = Inr cs
    \<Longrightarrow> filter_stream Q p bs None = (cs, None)"
proof (induction ps arbitrary: bs cs)
  case (Cons q ps)
  obtain items xs ys where l: "read_parquet E q sz fs = Inr items" "load_items Q None items = Inr xs"
    "load_paths Q E None sz fs ps = Inr ys" "bs = xs @ ys"
    using Cons.prems(1) by (auto simp: result_simps)
  obtain xs' ys' where f: "load_items Q (Some p) items = Inr xs'" "load_paths Q E (Some p) sz fs ps = Inr ys'" "cs = xs' @ ys'"
    using Cons.prems(2) l(1) by (auto simp: result_simps)
  show ?case
    unfolding l(4) f(3) by (rule filter_stream_join [OF load_items_filtered [OF l(2) f(1)] Cons.IH [OF l(3) f(2)]])
qed simp

section \<open>The tables of a flushed engine\<close>

definition flushed :: "('c \<Rightarrow> flush_request list) \<Rightarrow> 'c storage_engine \<Rightarrow> bool" where
  "flushed queued e \<longleftrightarrow> queued (e_flush_tx e) = [] \<and> (\<forall>(k, m) \<in> set (e_memtables e). memtable_is_empty m)"

lemma flushed_content: "flushed queued e \<Longrightarrow> content E queued fs e k sig = table_content E fs e k sig"
proof -
  assume f: "flushed queued e"
  then have "memtable_is_empty m" if "dm_get (e_memtables e) k = Some m" for m
    using map_of_SomeD [of "e_memtables e" k m] that by (auto simp: flushed_def dm_get_def)
  then have "mem_content E e k sig = {#}"
    by (auto simp: mem_content_def mem_rows_empty split: option.split)
  then show ?thesis using f by (simp add: content_def flushed_def)
qed

lemma signal_tables_content:
  assumes "one_entry e"
  shows "mset (concat (map (table_rows E fs) (signal_tables sig e)))
    = (\<Sum>k \<in> set (map fst (e_partitions e)). table_content E fs e k sig)"
proof -
  have split: "mset (concat (map f (concat (map g ks)))) = (\<Sum>k \<leftarrow> ks. mset (concat (map f (g k))))"
    for f :: "sstable_meta \<Rightarrow> cell list list" and g :: "u64 \<Rightarrow> sstable_meta list" and ks
    by (induction ks) simp_all
  have "mset (concat (map (table_rows E fs) (case dm_get (e_partitions e) k of
      None \<Rightarrow> [] | Some p \<Rightarrow> sstables (get_signal_partition sig p)))) = table_content E fs e k sig" for k
    by (simp add: table_content_def sp_rows_def split: option.split)
  then have "mset (concat (map (table_rows E fs) (signal_tables sig e)))
      = (\<Sum>k \<leftarrow> map fst (e_partitions e). table_content E fs e k sig)"
    unfolding signal_tables_def split by simp
  then show ?thesis
    using sum_list_distinct_conv_sum_set [OF assms [unfolded one_entry_def], of "\<lambda>k. table_content E fs e k sig"] by simp
qed

lemma flushed_tables:
  assumes "flush_queue send recv queued cap alive" "env_ok E" "utc_hour_injective E"
    and "engine_run E send recv queued alive ops (fs, e) []"
    and "hours_ok (e_config e)" "3 * length ops + 4 < 2 ^ 64" "e_bucket_ns e \<noteq> 0" "flushed queued e"
  shows "(\<forall>m \<in> set (signal_tables sig e). \<exists>rows. holds_rows E fs (meta_parquet_path m) (sig_schema sig) rows)
    \<and> mset (concat (map (table_rows E fs) (signal_tables sig e))) = accepted_rows E ops sig"
proof
  have ok: "flush_queue.run_ok queued alive E ops fs e []"
    by (rule flush_queue.engine_run_ok [OF assms(1-6)])
  then have inv: "engine_inv E queued alive (length ops) fs e"
    and acc: "table_content E fs e k sig = accepted E (e_bucket_ns e) ops k sig" for k sig
    using flushed_content [OF assms(8)] unfolding flush_queue.run_ok_def [OF assms(1)] by metis+
  show "\<forall>m \<in> set (signal_tables sig e). \<exists>rows. holds_rows E fs (meta_parquet_path m) (sig_schema sig) rows"
  proof
    fix m assume "m \<in> set (signal_tables sig e)"
    then obtain k where "m \<in> set (case dm_get (e_partitions e) k of None \<Rightarrow> [] | Some p \<Rightarrow> sstables (get_signal_partition sig p))"
      unfolding signal_tables_def by auto
    then obtain p where "dm_get (e_partitions e) k = Some p" "m \<in> set (sstables (get_signal_partition sig p))"
      by (cases "dm_get (e_partitions e) k") auto
    then show "\<exists>rows. holds_rows E fs (meta_parquet_path m) (sig_schema sig) rows"
      using engine_invD(3) [OF inv] by (auto simp: part_inv_def sp_inv_def)
  qed
  let ?K = "set (map fst (e_partitions e))"
  have "accepted E (e_bucket_ns e) ops k sig = {#}" if "k \<notin> ?K" for k
  proof -
    have "dm_get (e_partitions e) k = None" using that by (simp add: dm_get_def map_of_eq_None_iff)
    then show ?thesis using acc [of k sig] by (simp add: table_content_def)
  qed
  then show "mset (concat (map (table_rows E fs) (signal_tables sig e))) = accepted_rows E ops sig"
    using signal_tables_content [OF engine_run_one_entry [OF assms(4)], of E fs sig]
      accepted_sum [of ?K "e_bucket_ns e" E ops sig] assms(7) by (simp add: acc)
qed

section \<open>Selections\<close>

fun table_of :: "signal_type \<Rightarrow> string" where
  "table_of Log = ''logs''"
| "table_of Metric = ''metrics''"
| "table_of Span = ''traces''"

definition plain_select :: "select_statement \<Rightarrow> bool" where
  "plain_select sel \<longleftrightarrow>
     sel_joins sel = [] \<and> sel_group_by sel = [] \<and> sel_having sel = None \<and> sel_order_by sel = []
   \<and> sel_limit sel = None \<and> fst (extract_aggregates (sel_projections sel)) = []"

definition filtered_scan :: "string \<Rightarrow> expr option \<Rightarrow> logical_plan" where
  "filtered_scan table p =
     LScan \<lparr>so_table = table, so_predicate = p, so_projection = None, so_partition_filter = [], so_limit = None\<rparr>"

lemma no_stats: "overlapping_partitions t lo hi catalog_new = []"
  by (rule overlapping_partitions_empty) (use catalog_new_tables in blast)

lemma build_project: "build_logical Q E (LProject c i) sz fs e = build_logical Q E i sz fs e"
  by simp

lemma plain_plan:
  assumes "plain_select sel"
  obtains plan where "optimize catalog_new clk (plan_select sel) = Inr plan"
    "run_plan Q E plan sz fs e
      = run_plan Q E (filtered_scan (tr_name (sel_from sel)) (map_option (\<lambda>p. fold_expr (clk p) p) (sel_filter sel))) sz fs e"
proof -
  let ?s = "\<lparr>so_table = tr_name (sel_from sel), so_predicate = map_option (\<lambda>p. fold_expr (clk p) p) (sel_filter sel),
    so_projection = None, so_partition_filter = [], so_limit = None\<rparr>"
  define cols where "cols = (let cs = List.map_filter projected_column (sel_projections sel) in
    if sel_projections sel \<noteq> [] \<and> cs \<noteq> [] then Some cs else None)"
  have plan: "plan_select sel =
      (let i = (case sel_filter sel of None \<Rightarrow> base_scan (tr_name (sel_from sel)) None
                | Some p \<Rightarrow> LFilter p (base_scan (tr_name (sel_from sel)) None)) in
       case cols of None \<Rightarrow> i | Some c \<Rightarrow> LProject c i)"
    using assms by (simp add: plain_select_def plan_select_def cols_def Let_def split: option.split)
  define pushed where "pushed = predicate_pushdown (fold_constants clk (plan_select sel))"
  have pushed: "pushed = (case cols of None \<Rightarrow> LScan ?s | Some c \<Rightarrow> LProject c (LScan ?s))"
    unfolding pushed_def plan by (auto simp: fold_constants_def base_scan_def Let_def split: option.split)
  then obtain cols' where "partition_prune catalog_new (projection_pushdown pushed)
      = (case cols of None \<Rightarrow> LScan (?s\<lparr>so_projection := cols'\<rparr>) | Some c \<Rightarrow> LProject c (LScan (?s\<lparr>so_projection := cols'\<rparr>)))"
    by (cases cols; cases "sel_filter sel") (fastforce simp: no_stats split: option.split prod.split)+
  moreover have "optimize catalog_new clk (plan_select sel) = Inr (partition_prune catalog_new (projection_pushdown pushed))"
    by (simp add: optimize_def pushed_def)
  moreover have "build_logical Q E (LScan (?s\<lparr>so_projection := cols'\<rparr>)) sz fs e = build_logical Q E (LScan ?s) sz fs e"
    by (simp add: load_batches_def)
  ultimately show ?thesis
    by (intro that) (auto simp: run_plan_def filtered_scan_def simp del: pull_all.simps split: option.split)
qed

lemma run_filtered_scan:
  "run_plan Q E (filtered_scan (table_of sig) p) sz fs e
    = Some (load_paths Q E p sz fs (map meta_parquet_path (signal_tables sig e)))"
proof -
  have t: "infralens_storage_schema_for (table_of sig) = Inr (sig_schema sig)"
    "signal_for_table (table_of sig) = Inr (signal_as_u8 sig)"
    by (cases sig; simp add: infralens_storage_schema_for_def signal_for_table_def signal_as_u8_def)+
  show ?thesis
    by (cases "load_paths Q E p sz fs (map meta_parquet_path (signal_tables sig e))")
      (simp_all add: run_plan_stream filtered_scan_def t load_batches_def signal_paths stream_result_def)
qed

section \<open>Conditions that evaluate\<close>

fun literal_type :: "literal \<Rightarrow> data_type option" where
  "literal_type (L_Int _) = Some DT_Int64"
| "literal_type (L_Float _) = Some DT_Float64"
| "literal_type (L_Str _) = Some DT_Utf8"
| "literal_type _ = None"

text \<open>Comparisons of a column with a literal of its type, and their combinations.\<close>

fun condition_ok :: "schema \<Rightarrow> expr \<Rightarrow> bool" where
  "condition_ok sch (E_BinOp op l r) =
     (if op = Op_And \<or> op = Op_Or then condition_ok sch l \<and> condition_ok sch r
      else is_cmp op
        \<and> (case (l, r) of
             (E_Column _ c, E_Literal v) \<Rightarrow>
               (case schema_index c sch of None \<Rightarrow> False | Some i \<Rightarrow> literal_type v = Some (f_type (sch ! i)))
           | _ \<Rightarrow> False))"
| "condition_ok sch (E_UnaryOp op e) = (op = Op_Not \<and> condition_ok sch e)"
| "condition_ok sch _ = False"

lemma condition_BinOp:
  "condition_ok sch (E_BinOp op l r) \<longleftrightarrow>
     (if op = Op_And \<or> op = Op_Or then condition_ok sch l \<and> condition_ok sch r
      else is_cmp op \<and> (\<exists>t c v i. l = E_Column t c \<and> r = E_Literal v \<and> schema_index c sch = Some i
        \<and> literal_type v = Some (f_type (sch ! i))))"
  by (cases l; cases r) (simp_all split: option.splits)

declare condition_ok.simps(1) [simp del]

lemma compare_literal:
  assumes "query_env_ok Q" "batch_valid b" "is_cmp op" "schema_index c (rb_schema b) = Some i"
    and "literal_type v = Some (f_type (rb_schema b ! i))"
  shows "\<exists>m. eval_expr Q b clk (E_BinOp op (E_Column t c) (E_Literal v)) = Inr (BooleanArray m) \<and> length m = num_rows b"
proof -
  define x where "x = rb_columns b ! i"
  define y where "y = eval_literal v (num_rows b)"
  have x: "column_by_name b c = Some x" "array_data_type x = f_type (rb_schema b ! i)" "array_len x = num_rows b"
    using column_by_name_valid [OF assms(2)] batch_validD(3) [OF assms(2) schema_index_less [OF assms(4)]] assms(4)
    by (simp_all add: x_def)
  have y: "array_data_type y = array_data_type x" "array_len y = num_rows b"
    "array_data_type x \<in> {DT_UInt64, DT_Int64, DT_Float64, DT_Utf8}"
    using assms(5) x(2) by (cases v; simp add: y_def eval_literal_def array_len_def)+
  have "cmp_kernel_spec (q_arrow Q)" using assms(1) by (simp add: query_env_ok_def arrow_spec_def)
  then have "ar_cmp (q_arrow Q) op x y = Inr (cmp_values op x y)"
    using assms(3) x(3) y unfolding cmp_kernel_spec_def by metis
  moreover have "length (cmp_values op x y) = num_rows b"
    using x(3) y by (cases x; cases y) (simp_all add: cmp_values_def array_len_def)
  moreover have "op \<notin> {Op_And, Op_Or, Op_Add, Op_Sub, Op_Mul, Op_Div, Op_Mod}"
    using assms(3) by (auto simp: is_cmp_def)
  ultimately show ?thesis
    using assms(3) x(1) y(1,3)
    by (cases op) (simp_all add: eval_column_def apply_binop_def compare_arrays_def comparable_def y_def [symmetric])
qed

lemma condition_evaluates:
  assumes "query_env_ok Q" "batch_valid b" "condition_ok (rb_schema b) p"
  shows "\<exists>m. eval_expr Q b c p = Inr (BooleanArray m) \<and> length m = num_rows b"
  using assms(3)
proof (induction "rb_schema b" p arbitrary: c rule: condition_ok.induct)
  case (1 op l r)
  have spec: "bool_kernel_spec (ar_and (q_arrow Q)) (\<and>)" "bool_kernel_spec (ar_or (q_arrow Q)) (\<or>)"
    using assms(1) by (simp_all add: query_env_ok_def arrow_spec_def)
  show ?case
  proof (cases "op = Op_And \<or> op = Op_Or")
    case True
    then obtain m m' where "eval_expr Q b (sub_clock 0 c) l = Inr (BooleanArray m)" "length m = num_rows b"
      "eval_expr Q b (sub_clock 1 c) r = Inr (BooleanArray m')" "length m' = num_rows b"
      using 1(1) [of "sub_clock 0 c"] 1(2) [of "sub_clock 1 c"] 1(3) by (auto simp: condition_BinOp)
    then show ?thesis
      using True spec by (auto simp: apply_binop_def as_boolean_def bool_kernel_spec_def)
  next
    case False
    then obtain t n v i where "l = E_Column t n" "r = E_Literal v" "is_cmp op" "schema_index n (rb_schema b) = Some i"
      "literal_type v = Some (f_type (rb_schema b ! i))"
      using 1(3) by (auto simp: condition_BinOp)
    then show ?thesis using compare_literal [OF assms(1,2)] by simp
  qed
next
  case (2 op e)
  have "not_kernel_spec (ar_not (q_arrow Q))" using assms(1) by (simp add: query_env_ok_def arrow_spec_def)
  then show ?case using 2(1) [of "sub_clock 0 c"] 2(2) by (auto simp: as_boolean_def not_kernel_spec_def)
qed auto

lemma condition_applies:
  assumes "query_env_ok Q" "batch_valid b" "condition_ok (rb_schema b) p"
  shows "\<exists>out. apply_predicate Q b p = Inr out"
proof -
  obtain m where m: "eval_expr Q b (q_now Q b) p = Inr (BooleanArray m)" "length m = num_rows b"
    using condition_evaluates [OF assms] by blast
  have "filter_kernel_spec (q_arrow Q)" using assms(1) by (simp add: query_env_ok_def arrow_spec_def)
  then obtain c where "ar_filter (q_arrow Q) b m = Inr c"
    using assms(2) m(2) unfolding filter_kernel_spec_def by blast
  then show ?thesis using m(1) by (simp add: apply_predicate_def eval_filter_def as_boolean_def)
qed

lemma condition_fold: "condition_ok sch p \<Longrightarrow> condition_ok sch (fold_expr c p)"
proof (induction sch p arbitrary: c rule: condition_ok.induct)
  case (1 sch op l r)
  show ?case
  proof (cases rule: fold_expr_BinOp_cases [of c l r op])
    case (folded i j v)
    show ?thesis
    proof (cases "op = Op_And \<or> op = Op_Or")
      case True
      then have "condition_ok sch (fold_expr (sub_clock 0 c) l)" using 1(1,3) by (simp add: condition_BinOp)
      then show ?thesis using folded(1) by simp
    next
      case False
      then show ?thesis using 1(3) folded(1) by (auto simp: condition_BinOp)
    qed
  next
    case kept
    then show ?thesis using 1 by (auto simp: condition_BinOp)
  qed
qed auto

lemma load_items_succeeds:
  assumes "query_env_ok Q" "condition_ok sch p" "load_items Q None items = Inr bs" "batches_of sch bs"
  shows "\<exists>cs. load_items Q (Some p) items = Inr cs"
  using assms(3,4)
proof (induction items arbitrary: bs)
  case (Cons item items)
  obtain b bs' where b: "item = Inr b" "load_items Q None items = Inr bs'" "bs = b # bs'"
    using Cons.prems(1) by (auto simp: result_simps)
  then have "\<exists>out. apply_predicate Q b p = Inr out"
    using condition_applies [OF assms(1), of b p] assms(2) Cons.prems(2) by auto
  then show ?case using Cons.IH [OF b(2)] Cons.prems(2) b by auto
qed simp

lemma load_paths_succeeds:
  assumes "query_env_ok Q" "condition_ok sch p" "load_paths Q E None sz fs ps = Inr bs" "batches_of sch bs"
  shows "\<exists>cs. load_paths Q E (Some p) sz fs ps = Inr cs"
  using assms(3,4)
proof (induction ps arbitrary: bs)
  case (Cons q ps)
  obtain items xs ys where l: "read_parquet E q sz fs = Inr items" "load_items Q None items = Inr xs"
    "load_paths Q E None sz fs ps = Inr ys" "bs = xs @ ys"
    using Cons.prems(1) by (auto simp: result_simps)
  then show ?case
    using load_items_succeeds [OF assms(1,2) l(2)] Cons.IH [OF l(3)] Cons.prems(2) by auto
qed simp

section \<open>Properties\<close>

text \<open>
  C1. A query answers from the accepted writes. On a run of the engine without warnings whose
  MemTables are flushed, a selection over one table without joins, aggregates, ordering and limit
  returns, when it succeeds, exactly the rows of the accepted records of that signal which satisfy
  the condition, with their multiplicities. The rows are whole: every result batch has the full
  schema of the table, whatever columns the SELECT list names, because the executor drops the
  projection. The query succeeds when it has no condition, or one that combines comparisons of a
  column with a literal of its type. A call of \<open>now()\<close> in the condition has the reading of the
  optimizer; calls the optimizer leaves to the evaluation are excluded, unless the evaluation
  reads the same instants. The query text goes through lexer, parser, planner and optimizer with
  the catalog the server starts with.
\<close>

theorem select_returns_accepted:
  assumes "flush_queue send recv queued cap alive" "env_ok E" "utc_hour_injective E"
    and "engine_run E send recv queued alive ops (fs, e) []"
    and "hours_ok (e_config e)" "3 * length ops + 4 < 2 ^ 64" "e_bucket_ns e \<noteq> 0" "flushed queued e"
    and "query_env_ok Q" "tokenise (q_fp Q) sql = Inr tokens" "parse_tokens tokens = Some (Inr (Select sel))"
    and "plain_select sel" "tr_name (sel_from sel) = table_of sig" "pred_option rowwise (sel_filter sel)"
    and "pred_option (\<lambda>p. settled p \<or> (\<forall>b. q_now Q b = clk p)) (sel_filter sel)"
  shows "\<exists>r. execute Q E sql catalog_new clk fs e = Some r
    \<and> (\<forall>bs. r = Inr bs \<longrightarrow> batches_of (sig_schema sig) bs \<and> mset (batches_rows bs) = filter_mset
          (\<lambda>row. case sel_filter sel of None \<Rightarrow> True | Some p \<Rightarrow> row_holds Q (clk p) (sig_schema sig) p row) (accepted_rows E ops sig))
    \<and> (pred_option (condition_ok (sig_schema sig)) (sel_filter sel) \<longrightarrow> (\<exists>bs. r = Inr bs))"
proof -
  let ?fold = "\<lambda>p. fold_expr (clk p) p"
  obtain plan where plan: "optimize catalog_new clk (plan_select sel) = Inr plan"
    "run_plan Q E plan 8192 fs e = run_plan Q E (filtered_scan (table_of sig) (map_option ?fold (sel_filter sel))) 8192 fs e"
    using plain_plan [OF assms(12), of clk Q E 8192 fs e] assms(13) by metis
  let ?load = "\<lambda>p. load_paths Q E p 8192 fs (map meta_parquet_path (signal_tables sig e))"
  have run: "execute Q E sql catalog_new clk fs e = Some (?load (map_option ?fold (sel_filter sel)))"
    using execute_run_plan [OF assms(10,11) plan(1), of E fs e] plan(2) by (simp add: run_filtered_scan)
  have tables: "\<forall>m \<in> set (signal_tables sig e). \<exists>rows. holds_rows E fs (meta_parquet_path m) (sig_schema sig) rows"
    "mset (concat (map (table_rows E fs) (signal_tables sig e))) = accepted_rows E ops sig"
    using flushed_tables [OF assms(1-8)] by blast+
  obtain bs where bs: "?load None = Inr bs" "batches_of (sig_schema sig) bs"
    "mset (batches_rows bs) = accepted_rows E ops sig"
    using load_readable [OF tables(1), of 8192 Q] tables(2) by auto
  show ?thesis
  proof (cases "sel_filter sel")
    case None
    then show ?thesis using run bs by simp
  next
    case (Some p)
    have "batches_of (sig_schema sig) cs
        \<and> mset (batches_rows cs) = filter_mset (row_holds Q (clk p) (sig_schema sig) p) (accepted_rows E ops sig)"
      if "?load (Some (?fold p)) = Inr cs" for cs
    proof -
      have p: "rowwise p" "stable Q (clk p) (sig_schema sig) (?fold p)"
        using assms(14,15) Some settled_stable by auto
      have "row_holds Q (clk p) (sig_schema sig) (?fold p) = row_holds Q (clk p) (sig_schema sig) p"
        by (simp add: row_holds_def fold_expr_row fun_eq_iff)
      then show ?thesis
        using filter_stream_rows [OF assms(9) fold_expr_rowwise [OF p(1)] p(2) bs(2) load_paths_filtered [OF bs(1) that]] bs(3)
        by (metis mset_filter)
    qed
    moreover have "\<exists>cs. ?load (Some (?fold p)) = Inr cs" if "condition_ok (sig_schema sig) p"
      using load_paths_succeeds [OF assms(9) condition_fold [OF that] bs(1,2)] .
    ultimately show ?thesis using run Some by simp
  qed
qed

text \<open>The text \<open>SELECT body FROM logs WHERE severity_text = 'INFO'\<close> and its statement.\<close>

definition info_sql :: string where
  "info_sql = ''SELECT body FROM logs WHERE severity_text = '' @ [CHR 0x27] @ ''INFO'' @ [CHR 0x27]"

definition info_select :: select_statement where
  "info_select = \<lparr>sel_projections = [P_Expr (E_Column None ''body'') None], sel_from = \<lparr>tr_name = ''logs'', tr_alias = None\<rparr>, sel_joins = [],
     sel_filter = Some (E_BinOp Op_Eq (E_Column None ''severity_text'') (E_Literal (L_Str ''INFO''))),
     sel_group_by = [], sel_having = None, sel_order_by = [], sel_limit = None, sel_offset = None\<rparr>"

lemma info_tokens:
  "tokenise sample_fp info_sql = Inr [T_Select, T_Ident ''body'', T_From, T_Ident ''logs'', T_Where, T_Ident ''severity_text'', T_Eq,
     T_StrLit ''INFO'', T_Eof]"
  unfolding info_sql_def by code_simp

lemma info_parse:
  "parse_tokens [T_Select, T_Ident ''body'', T_From, T_Ident ''logs'', T_Where, T_Ident ''severity_text'', T_Eq,
     T_StrLit ''INFO'', T_Eof] = Some (Inr (Select info_select))"
  unfolding info_select_def by code_simp

lemma info_plain: "plain_select info_select" "condition_ok log_schema (the (sel_filter info_select))"
  "rowwise (the (sel_filter info_select))" "settled (the (sel_filter info_select))"
  by code_simp+

theorem select_returns_accepted_witness:
  "\<exists>fs e bs. demo_run [OpWrite (RLog sample_log) (Inr ()), OpFlushWorker] (fs, e) []
    \<and> execute sample_query demo_env info_sql catalog_new (\<lambda>_ _. 0) fs e = Some (Inr bs)
    \<and> batches_of log_schema bs \<and> mset (batches_rows bs) = {#telemetry_row demo_env (RLog sample_log)#}"
proof -
  let ?ops = "[OpWrite (RLog sample_log) (Inr ()), OpFlushWorker]"
  obtain fs e where r: "demo_run ?ops (fs, e) []" "e_memtables e = [(0, fresh_memtable demo_engine)]"
    "ch_items (e_flush_tx e) = []" "e_config e = demo_config"
    using demo_run_flush by blast
  have "fq.run_ok demo_env ?ops fs e []"
    using r unfolding demo_run_def by (intro fq.engine_run_ok) simp_all
  then have b: "e_bucket_ns e \<noteq> 0"
    using engine_invD(1) [of demo_env ch_items ch_open "Suc (Suc 0)" fs e] r(4)
    by (simp add: fq.run_ok_def engine_bucket_ns_def demo_config_def)
  have f: "flushed ch_items e"
    using r(2,3) by (simp add: flushed_def fresh_memtable_def memtable_new_def memtable_is_empty_def)
  have acc: "accepted_rows demo_env ?ops Log = {#telemetry_row demo_env (RLog sample_log)#}"
    by (simp add: accepted_rows_def)
  have holds: "row_holds sample_query (\<lambda>_. 0) log_schema (E_BinOp Op_Eq (E_Column None ''severity_text'') (E_Literal (L_Str ''INFO'')))
      (telemetry_row demo_env (RLog sample_log))"
    by (simp add: row_holds_def row_lookup_def cell_binop_def cell_cmp_def is_cmp_def log_row_def named_row_def
        log_schema_def field_new_def sample_log_def ord_holds_def text_cell_def)
  obtain res where "execute sample_query demo_env info_sql catalog_new (\<lambda>_ _. 0) fs e = Some res"
    "\<forall>bs. res = Inr bs \<longrightarrow> batches_of log_schema bs \<and> mset (batches_rows bs) = {#telemetry_row demo_env (RLog sample_log)#}" "\<exists>bs. res = Inr bs"
    using select_returns_accepted [OF demo_run_content r(1) [unfolded demo_run_def] _ _ b f sample_query_ok _ info_parse info_plain(1), of info_sql Log "\<lambda>_ _. 0"]
      r(4) info_tokens info_plain(2-4) holds acc
    by (auto simp: info_select_def simp del: telemetry_row.simps)
  then show ?thesis using r(1) by auto
qed

end
