(* ===== verification/Gateway.thy ===== *)
theory Gateway
  imports Ascii
begin

text \<open>
  The API gateway (\<open>src/services/api-gateway/main.go\<close>): configuration from the environment, the
  authentication middleware, the query handler and the routes. JSON, the token library, the gRPC
  client and the HTTP server are parameters; a response is the status, the headers set by the code
  and the body. The timeouts, the logging and the shutdown of the server are left out.
\<close>

section \<open>Configuration\<close>

record gateway_config =
  gc_listen_addr :: string
  gc_query_backend :: string
  gc_jwt_secret :: string
  gc_api_key_header :: string
  gc_rate_limit :: int

text \<open>\<open>os.Getenv\<close> returns the empty string for a variable that is not set.\<close>

definition env_or :: "(string \<Rightarrow> string) \<Rightarrow> string \<Rightarrow> string \<Rightarrow> string" where
  "env_or getenv key dflt = (if getenv key \<noteq> '''' then getenv key else dflt)"

definition config_from_env :: "(string \<Rightarrow> string) \<Rightarrow> gateway_config" where
  "config_from_env getenv = \<lparr>
     gc_listen_addr = env_or getenv ''GATEWAY_ADDR'' '':8080'',
     gc_query_backend = env_or getenv ''QUERY_BACKEND'' ''localhost:5317'',
     gc_jwt_secret = env_or getenv ''JWT_SECRET'' '''',
     gc_api_key_header = env_or getenv ''API_KEY_HEADER'' ''X-API-Key'',
     gc_rate_limit = 0\<rparr>"

section \<open>Requests and responses\<close>

record gateway_request =
  gr_method :: string
  gr_path :: string
  gr_header :: "string \<Rightarrow> string"
  gr_body :: string

record gateway_response =
  gs_status :: nat
  gs_headers :: "(string \<times> string) list"
  gs_body :: string

record query_request =
  qr_query :: string
  qr_format :: string

datatype row_value = RV_String string | RV_Int int

type_synonym gateway_row = "(string \<times> row_value) list"

datatype jwt_method = HMAC | OtherMethod string

text \<open>
  The parameters: decoding a request body, encoding an error object and a row, creating the client
  of the backend, and \<open>jwt.Parse\<close> with the function that selects the key by the signing method.
\<close>

record gateway_env =
  ge_decode :: "string \<Rightarrow> string + query_request"
  ge_encode_error :: "string \<Rightarrow> string"
  ge_encode_row :: "gateway_row \<Rightarrow> string + string"
  ge_new_client :: "string \<Rightarrow> string + unit"
  ge_jwt_parse :: "string \<Rightarrow> (jwt_method \<Rightarrow> string + string) \<Rightarrow> string + unit"

definition write_error :: "gateway_env \<Rightarrow> nat \<Rightarrow> string \<Rightarrow> gateway_response" where
  "write_error G status msg = \<lparr>gs_status = status, gs_headers = [(''Content-Type'', ''application/json'')],
     gs_body = ge_encode_error G msg\<rparr>"

section \<open>The query handler\<close>

definition execute_query :: "gateway_config \<Rightarrow> string \<Rightarrow> string + gateway_row list" where
  "execute_query cfg sql =
     Inr [[(''status'', RV_String ''ok''), (''query'', RV_String sql), (''rows'', RV_Int 0),
           (''note'', RV_String ''query forwarded to backend'')]]"

text \<open>The rows are written until one fails to encode.\<close>

fun encode_rows :: "gateway_env \<Rightarrow> gateway_row list \<Rightarrow> string" where
  "encode_rows G [] = ''''"
| "encode_rows G (row # rows) = (case ge_encode_row G row of Inr s \<Rightarrow> s @ encode_rows G rows | Inl _ \<Rightarrow> '''')"

definition handle_query :: "gateway_env \<Rightarrow> gateway_config \<Rightarrow> gateway_request \<Rightarrow> gateway_response" where
  "handle_query G cfg r =
     (case ge_decode G (take (2 ^ 20) (gr_body r)) of
        Inl err \<Rightarrow> write_error G 400 (''invalid JSON: '' @ err)
      | Inr req \<Rightarrow>
          if trim (qr_query req) = '''' then write_error G 400 ''query is required''
          else case ge_new_client G (gc_query_backend cfg) of
            Inl err \<Rightarrow> write_error G 503 ''query backend unavailable''
          | Inr _ \<Rightarrow>
              (case execute_query cfg (qr_query req) of
                 Inl err \<Rightarrow> write_error G 500 err
               | Inr results \<Rightarrow>
                   \<lparr>gs_status = 200,
                    gs_headers = [(''Content-Type'', ''application/x-ndjson''), (''X-Content-Type-Options'', ''nosniff'')],
                    gs_body = encode_rows G results\<rparr>))"

section \<open>Authentication\<close>

definition key_func :: "gateway_config \<Rightarrow> jwt_method \<Rightarrow> string + string" where
  "key_func cfg method =
     (case method of
        HMAC \<Rightarrow> Inr (gc_jwt_secret cfg)
      | OtherMethod alg \<Rightarrow> Inl (''unexpected signing method: '' @ alg))"

definition bearer_ok :: "gateway_env \<Rightarrow> gateway_config \<Rightarrow> gateway_request \<Rightarrow> bool" where
  "bearer_ok G cfg r =
     (let auth_header = gr_header r ''Authorization'' in
      starts_with auth_header ''Bearer '' \<and> \<not> isl (ge_jwt_parse G (drop 7 auth_header) (key_func cfg)))"

definition auth_middleware ::
  "gateway_env \<Rightarrow> gateway_config \<Rightarrow> (gateway_request \<Rightarrow> gateway_response) \<Rightarrow> gateway_request \<Rightarrow> gateway_response" where
  "auth_middleware G cfg handler r =
     (if gc_jwt_secret cfg = '''' then handler r
      else if bearer_ok G cfg r then handler r
      else if gr_header r (gc_api_key_header cfg) \<noteq> '''' then handler r
      else write_error G 401 ''authentication required'')"

section \<open>Routes\<close>

definition health :: "gateway_request \<Rightarrow> gateway_response" where
  "health r = \<lparr>gs_status = 200, gs_headers = [], gs_body = ''ok''\<rparr>"

text \<open>Requests to other paths are answered by the framework.\<close>

definition gateway_serve :: "gateway_env \<Rightarrow> gateway_config \<Rightarrow> gateway_request \<Rightarrow> gateway_response option" where
  "gateway_serve G cfg r =
     (if gr_method r = ''GET'' \<and> (gr_path r = ''/healthz'' \<or> gr_path r = ''/readyz'') then Some (health r)
      else if gr_method r = ''POST'' \<and> gr_path r = ''/api/v1/query''
           then Some (auth_middleware G cfg (handle_query G cfg) r)
      else None)"

section \<open>Access\<close>

text \<open>
  What the token library promises: a token is accepted only with the key the function selects for
  its signing method, and only if it carries a valid signature for that key.
\<close>

definition jwt_sound :: "gateway_env \<Rightarrow> (string \<Rightarrow> jwt_method) \<Rightarrow> (string \<Rightarrow> string \<Rightarrow> bool) \<Rightarrow> bool" where
  "jwt_sound G method_of signed_with \<longleftrightarrow>
     (\<forall>token kf. \<not> isl (ge_jwt_parse G token kf) \<longrightarrow> (\<exists>key. kf (method_of token) = Inr key \<and> signed_with token key))"

definition answered_by_stub :: "gateway_env \<Rightarrow> gateway_config \<Rightarrow> gateway_request \<Rightarrow> gateway_response \<Rightarrow> bool" where
  "answered_by_stub G cfg r resp \<longleftrightarrow>
     (\<exists>req. ge_decode G (take (2 ^ 20) (gr_body r)) = Inr req
        \<and> gs_body resp = encode_rows G [[(''status'', RV_String ''ok''), (''query'', RV_String (qr_query req)), (''rows'', RV_Int 0),
             (''note'', RV_String ''query forwarded to backend'')]])"

lemma handle_query_status:
  "gs_status (handle_query G cfg r) \<in> {200, 400, 503} \<and>
   (gs_status (handle_query G cfg r) = 200 \<longrightarrow> answered_by_stub G cfg r (handle_query G cfg r))"
  by (auto simp: handle_query_def write_error_def execute_query_def answered_by_stub_def split: sum.splits)

lemma bearer_ok_signed:
  assumes "jwt_sound G method_of signed_with" "bearer_ok G cfg r"
  shows "\<exists>token. gr_header r ''Authorization'' = ''Bearer '' @ token \<and> method_of token = HMAC
    \<and> signed_with token (gc_jwt_secret cfg)"
proof -
  obtain token where token: "gr_header r ''Authorization'' = ''Bearer '' @ token"
    using assms(2) by (auto simp: bearer_ok_def Let_def starts_with_iff)
  then have "\<not> isl (ge_jwt_parse G token (key_func cfg))" using assms(2) by (simp add: bearer_ok_def Let_def)
  then obtain key where "key_func cfg (method_of token) = Inr key" "signed_with token key"
    using assms(1) unfolding jwt_sound_def by blast
  then show ?thesis using token by (auto simp: key_func_def split: jwt_method.splits)
qed

text \<open>
  C28. Access to the query API. With a secret configured, a request is answered 401 without reaching
  the handler unless it carries a bearer token signed with that secret under an HMAC method, or any
  non-empty value in the API key header. Without a secret every request reaches the handler. An
  answer 200 never depends on stored data: it is the one row the handler makes up from the query.
\<close>

theorem gateway_access:
  assumes "jwt_sound G method_of signed_with" "gr_method r = ''POST''" "gr_path r = ''/api/v1/query''"
  shows "\<exists>resp. gateway_serve G cfg r = Some resp
    \<and> (gc_jwt_secret cfg \<noteq> '''' \<and> gr_header r (gc_api_key_header cfg) = ''''
        \<and> \<not> (\<exists>token. gr_header r ''Authorization'' = ''Bearer '' @ token \<and> method_of token = HMAC \<and> signed_with token (gc_jwt_secret cfg))
       \<longrightarrow> resp = write_error G 401 ''authentication required'')
    \<and> (gc_jwt_secret cfg = '''' \<or> gr_header r (gc_api_key_header cfg) \<noteq> '''' \<longrightarrow> resp = handle_query G cfg r)
    \<and> gs_status resp \<in> {200, 400, 401, 503}
    \<and> (gs_status resp = 200 \<longrightarrow> answered_by_stub G cfg r resp)"
proof -
  let ?resp = "auth_middleware G cfg (handle_query G cfg) r"
  have serve: "gateway_serve G cfg r = Some ?resp" using assms(2,3) by (simp add: gateway_serve_def)
  have cases: "?resp = handle_query G cfg r \<or> ?resp = write_error G 401 ''authentication required''"
    by (simp add: auth_middleware_def)
  have "gs_status ?resp \<in> {200, 400, 401, 503}" "gs_status ?resp = 200 \<longrightarrow> answered_by_stub G cfg r ?resp"
    using cases handle_query_status [of G cfg r] by (auto simp: write_error_def)
  then show ?thesis using serve bearer_ok_signed [OF assms(1), of cfg r] by (auto simp: auth_middleware_def)
qed

definition sample_gateway :: gateway_env where
  "sample_gateway = \<lparr>ge_decode = (\<lambda>_. Inr \<lparr>qr_query = ''SELECT'', qr_format = ''''\<rparr>), ge_encode_error = id,
     ge_encode_row = (\<lambda>row. Inr ''row''), ge_new_client = (\<lambda>_. Inr ()),
     ge_jwt_parse = (\<lambda>token kf. case kf HMAC of Inr key \<Rightarrow> if token = key then Inr () else Inl ''bad'' | Inl e \<Rightarrow> Inl e)\<rparr>"

definition sample_gateway_request :: "string \<Rightarrow> string \<Rightarrow> gateway_request" where
  "sample_gateway_request auth key = \<lparr>gr_method = ''POST'', gr_path = ''/api/v1/query'',
     gr_header = (\<lambda>h. if h = ''Authorization'' then auth else if h = ''X-API-Key'' then key else ''''), gr_body = ''{}''\<rparr>"

theorem gateway_access_witness:
  "gateway_serve sample_gateway (config_from_env (\<lambda>k. if k = ''JWT_SECRET'' then ''s'' else '''')) (sample_gateway_request ''Bearer x'' '''')
     = Some (write_error sample_gateway 401 ''authentication required'') \<and>
   gateway_serve sample_gateway (config_from_env (\<lambda>k. if k = ''JWT_SECRET'' then ''s'' else '''')) (sample_gateway_request '''' ''anything'')
     = Some (handle_query sample_gateway (config_from_env (\<lambda>k. if k = ''JWT_SECRET'' then ''s'' else '''')) (sample_gateway_request '''' ''anything''))"
proof -
  let ?cfg = "config_from_env (\<lambda>k. if k = ''JWT_SECRET'' then ''s'' else '''')"
  have sound: "jwt_sound sample_gateway (\<lambda>_. HMAC) (=)"
    by (auto simp: jwt_sound_def sample_gateway_def split: sum.splits if_splits)
  have cfg: "gc_jwt_secret ?cfg = ''s''" "gc_api_key_header ?cfg = ''X-API-Key''" by (simp_all add: config_from_env_def env_or_def)
  have 1: "\<exists>resp. gateway_serve sample_gateway ?cfg (sample_gateway_request ''Bearer x'' '''') = Some resp
      \<and> resp = write_error sample_gateway 401 ''authentication required''"
    using gateway_access [OF sound, of "sample_gateway_request ''Bearer x'' ''''" ?cfg] by (auto simp: sample_gateway_request_def cfg)
  have 2: "\<exists>resp. gateway_serve sample_gateway ?cfg (sample_gateway_request '''' ''anything'') = Some resp
      \<and> resp = handle_query sample_gateway ?cfg (sample_gateway_request '''' ''anything'')"
    using gateway_access [OF sound, of "sample_gateway_request '''' ''anything''" ?cfg] by (auto simp: sample_gateway_request_def cfg)
  from 1 2 show ?thesis by simp
qed

end
