(* ===== verification/Copilot.thy ===== *)
theory Copilot
  imports Gateway Utf8 Otlp
begin

text \<open>
  The copilot service (\<open>src/services/llm-copilot\<close>): the settings (\<open>config.py\<close>), the grammar that
  constrains the model (\<open>grammar.py\<close>), the generation of queries (\<open>llm.py\<close>), the root-cause report
  (\<open>rca.py\<close>) and the request handlers with the feedback table (\<open>main.py\<close>). The language model, the
  HTTP client, JSON, numpy, scipy and the conversions of Python floats are parameters. The SQL
  statements are operations on the list of rows; the order that \<open>ORDER BY created_at\<close> leaves open
  between equal times is a parameter. Requests are handled one after the other.
\<close>

section \<open>Python strings\<close>

definition py_newline :: string where
  "py_newline = [CHR 0x0A]"

text \<open>\<open>str.strip\<close> also removes the four separators of information.\<close>

definition py_white_spaces :: "string list" where
  "py_white_spaces = white_spaces @ map (\<lambda>n. [char_of (n :: nat)]) [28, 29, 30, 31]"

definition py_strip :: "string \<Rightarrow> string" where
  "py_strip s = rev (trim_front (map rev py_white_spaces) (rev (trim_front py_white_spaces s)))"

definition line_breaks :: "string list" where
  "line_breaks = map (map char_of) [[13, 10], [10], [13], [11], [12], [28], [29], [30], [194, 133],
     [226, 128, 168], [226, 128, 169 :: nat]]"

text \<open>\<open>str.splitlines\<close>, with the characters of the current line.\<close>

function split_lines :: "string \<Rightarrow> string \<Rightarrow> string list" where
  "split_lines cur [] = (if cur = [] then [] else [cur])"
| "split_lines cur (c # cs) =
     (case find (starts_with (c # cs)) line_breaks of
        Some b \<Rightarrow> cur # split_lines [] (drop (length b - 1) cs)
      | None \<Rightarrow> split_lines (cur @ [c]) cs)"
  by pat_completeness auto
termination
  by (relation "measure (\<lambda>(_, s). length s)") auto

definition splitlines :: "string \<Rightarrow> string list" where
  "splitlines s = split_lines [] s"

fun py_join :: "string \<Rightarrow> string list \<Rightarrow> string" where
  "py_join sep [] = ''''"
| "py_join sep [s] = s"
| "py_join sep (s # ss) = s @ sep @ py_join sep ss"

text \<open>\<open>len\<close> counts characters: the bytes that do not continue one.\<close>

definition py_len :: "string \<Rightarrow> nat" where
  "py_len s = length (filter (\<lambda>c. \<not> (128 \<le> char_code c \<and> char_code c < 192)) s)"

section \<open>Settings and parameters\<close>

record copilot_settings =
  cs_model_path :: string
  cs_n_ctx :: int
  cs_n_gpu_layers :: int
  cs_temperature :: f64
  cs_max_tokens :: int
  cs_gateway_url :: string
  cs_gateway_token :: string
  cs_port :: int
  cs_feedback_db_path :: string

definition copilot_settings_default :: "fp_ops \<Rightarrow> copilot_settings" where
  "copilot_settings_default F = \<lparr>
     cs_model_path = ''/models/llama-3.2-3b-instruct.Q4_K_M.gguf'',
     cs_n_ctx = 4096, cs_n_gpu_layers = 0, cs_temperature = fp_lit F ''0.1'', cs_max_tokens = 512,
     cs_gateway_url = ''http://api-gateway:8080'', cs_gateway_token = '''', cs_port = 8081,
     cs_feedback_db_path = ''/data/feedback.db''\<rparr>"

text \<open>
  What \<open>json.loads\<close> returns for a line: a dict with values that stay abstract, a string or list of
  some length, or a value that cannot be iterated. \<open>float\<close> returns, raises one of the exceptions
  the code catches, or raises another one.
\<close>

datatype 'v py_value = Py_Dict "(string \<times> 'v) list" | Py_Sized nat | Py_Scalar

datatype float_result = Float_Value f64 | Float_Invalid | Float_Raises

record feedback_row =
  fb_id :: nat
  fb_created_at :: nat
  fb_nl_question :: string
  fb_iql_query :: string
  fb_accepted :: bool
  fb_rca_text :: string
  fb_latency_ms :: int

record 'v copilot_env =
  ce_fp :: fp_ops
  ce_load :: "string \<Rightarrow> int \<Rightarrow> int \<Rightarrow> bool"
  ce_llm :: "string \<Rightarrow> int \<Rightarrow> f64 \<Rightarrow> string option \<Rightarrow> string list \<Rightarrow> string + string"
  ce_post :: "string \<Rightarrow> string \<Rightarrow> string \<Rightarrow> string + (nat \<times> string)"
  ce_raise_for_status :: "nat \<Rightarrow> string option"
  ce_loads :: "string \<Rightarrow> string + 'v py_value"
  ce_float :: "'v \<Rightarrow> float_result"
  ce_numpy :: bool
  ce_scipy :: bool
  ce_mean :: "f64 list \<Rightarrow> f64"
  ce_std :: "f64 list \<Rightarrow> f64"
  ce_pearsonr :: "f64 list \<Rightarrow> f64 list \<Rightarrow> f64"
  ce_round :: "f64 \<Rightarrow> nat \<Rightarrow> f64"
  ce_repr :: "f64 \<Rightarrow> string"
  ce_order :: "feedback_row list \<Rightarrow> feedback_row list"

section \<open>The grammar\<close>

definition default_tables :: "(string \<times> string list) list" where
  "default_tables = [
     (''logs'', [''timestamp_ns'', ''severity_number'', ''severity_text'', ''body'',
        ''trace_id'', ''span_id'', ''service_name'', ''attributes'']),
     (''metrics'', [''timestamp_ns'', ''metric_name'', ''metric_type'', ''value'',
        ''labels'', ''service_name'']),
     (''traces'', [''timestamp_ns'', ''trace_id'', ''span_id'', ''parent_span_id'',
        ''name'', ''service_name'', ''duration_ns'', ''status_code'', ''attributes''])]"

definition temporal_functions :: "string list" where
  "temporal_functions = [''time_bucket'', ''rate'', ''delta'', ''histogram_quantile'', ''now'']"

definition aggregate_functions :: "string list" where
  "aggregate_functions = [''count'', ''sum'', ''avg'', ''min'', ''max'']"

definition all_functions :: "string list" where
  "all_functions = temporal_functions @ aggregate_functions"

text \<open>A literal of the grammar, and an alternation of literals.\<close>

definition gbnf :: "string \<Rightarrow> string" where
  "gbnf s = [CHR 0x22] @ s @ [CHR 0x22]"

definition quote_values :: "string list \<Rightarrow> string" where
  "quote_values values = py_join '' | '' (map gbnf values)"

text \<open>The keys of a dict that is filled in this order: each name at its first place.\<close>

fun dict_keys :: "string list \<Rightarrow> string list \<Rightarrow> string list" where
  "dict_keys seen [] = seen"
| "dict_keys seen (c # cs) = dict_keys (if c \<in> set seen then seen else seen @ [c]) cs"

definition grammar_columns :: "(string \<times> string list) list \<Rightarrow> string option \<Rightarrow> string list" where
  "grammar_columns catalog selected =
     (case Option.bind selected (\<lambda>t. if t = '''' then None else map_of catalog t) of
        Some cols \<Rightarrow> cols
      | None \<Rightarrow> dict_keys [] (concat (map snd catalog)))"

definition apos :: string where
  "apos = [CHR 0x27]"

definition grammar_lines :: "string list \<Rightarrow> string list \<Rightarrow> string list" where
  "grammar_lines table_names col_names = [
     ''root         ::= select-stmt'',
     ''ws           ::= '' @ gbnf '' '' @ ''+'',
     ''comma-ws     ::= '' @ gbnf '', '',
     '''',
     ''table-name   ::= '' @ quote_values table_names,
     '''',
     ''column-name  ::= '' @ quote_values col_names,
     '''',
     ''func-name    ::= '' @ quote_values all_functions,
     '''',
     ''integer      ::= [0-9]+'',
     ''float-lit    ::= [0-9]+ '' @ gbnf ''.'' @ '' [0-9]+'',
     ''string-lit   ::= '' @ gbnf apos @ '' [^'' @ apos @ '']* '' @ gbnf apos,
     ''literal      ::= integer | float-lit | string-lit | '' @ quote_values [''TRUE'', ''FALSE'', ''NULL''],
     '''',
     ''interval-unit ::= '' @ quote_values [''minutes'', ''hours'', ''seconds'', ''days'', ''m'', ''h'', ''s'', ''d''],
     ''interval-expr ::= '' @ gbnf (''interval '' @ apos) @ '' integer ws interval-unit '' @ gbnf apos,
     '''',
     ''binop        ::= '' @ quote_values ['' = '', '' != '', '' < '', '' <= '', '' > '', '' >= ''],
     '''',
     ''func-call    ::= func-name '' @ gbnf ''('' @ '' (expr-list)? '' @ gbnf '')'',
     ''primary-expr ::= column-name | literal | func-call | '' @ gbnf ''now()'' @ '' | interval-expr | '' @ gbnf ''('' @ '' expr '' @ gbnf '')'',
     ''mult-expr    ::= primary-expr (('' @ quote_values ['' * '', '' / ''] @ '') primary-expr)*'',
     ''add-expr     ::= mult-expr (('' @ quote_values ['' + '', '' - ''] @ '') mult-expr)*'',
     ''cmp-expr     ::= add-expr (binop add-expr)?'',
     ''and-expr     ::= cmp-expr ('' @ gbnf '' AND '' @ '' cmp-expr)*'',
     ''expr         ::= and-expr ('' @ gbnf '' OR '' @ '' and-expr)*'',
     ''expr-list    ::= expr (comma-ws expr)*'',
     '''',
     ''alias        ::= '' @ gbnf '' AS '' @ '' column-name'',
     ''projection   ::= expr (alias)?'',
     ''proj-star    ::= '' @ gbnf ''*'',
     ''projections  ::= proj-star | projection (comma-ws projection)*'',
     '''',
     ''order-dir    ::= '' @ quote_values ['' ASC'', '' DESC''],
     ''order-item   ::= expr (order-dir)?'',
     ''order-list   ::= order-item (comma-ws order-item)*'',
     '''',
     ''limit-clause  ::= '' @ gbnf '' LIMIT '' @ '' integer'',
     ''offset-clause ::= '' @ gbnf '' OFFSET '' @ '' integer'',
     '''',
     ''group-clause  ::= '' @ gbnf '' GROUP BY '' @ '' expr-list'',
     ''having-clause ::= '' @ gbnf '' HAVING '' @ '' expr'',
     '''',
     ''where-clause  ::= '' @ gbnf '' WHERE '' @ '' expr'',
     '''',
     ''select-stmt  ::= '' @ gbnf ''SELECT '' @ '' projections '' @ gbnf '' FROM '' @ '' table-name'',
     ''               (where-clause)?'',
     ''               (group-clause)?'',
     ''               (having-clause)?'',
     ''               ('' @ gbnf '' ORDER BY '' @ '' order-list)?'',
     ''               (limit-clause)?'',
     ''               (offset-clause)?'',
     ''               '' @ gbnf '';'']"

definition build_gbnf_grammar :: "(string \<times> string list) list \<Rightarrow> string option \<Rightarrow> string" where
  "build_gbnf_grammar tables selected =
     (let catalog = if tables = [] then default_tables else tables
      in py_join py_newline (grammar_lines (map fst catalog) (grammar_columns catalog selected)))"

section \<open>Generating queries\<close>

definition system_prompt :: "string \<Rightarrow> string" where
  "system_prompt few_shot_section = concat (map (\<lambda>l. l @ py_newline) [
     ''You are InfraLens Copilot, an expert in observability and infrastructure analysis.'',
     ''You translate natural-language questions into IQL (InfraLens Query Language) queries.'',
     ''IQL is SQL with temporal extensions: time_bucket(), rate(), delta(), histogram_quantile(), now(), interval().'',
     '''',
     ''Available tables: logs, metrics, traces.'',
     ''Always return ONLY the IQL query with no explanation. End the query with a semicolon.'',
     '''',
     few_shot_section])"

definition few_shot_example :: "string \<times> string \<Rightarrow> string" where
  "few_shot_example ex = ''Question: '' @ fst ex @ py_newline @ ''IQL: '' @ snd ex @ py_newline"

record llm_service =
  ls_settings :: copilot_settings
  ls_loaded :: bool

definition llm_new :: "copilot_settings \<Rightarrow> llm_service" where
  "llm_new settings = \<lparr>ls_settings = settings, ls_loaded = False\<rparr>"

definition llm_load :: "'v copilot_env \<Rightarrow> llm_service \<Rightarrow> llm_service" where
  "llm_load E svc = svc\<lparr>ls_loaded := ce_load E (cs_model_path (ls_settings svc)) (cs_n_ctx (ls_settings svc))
     (cs_n_gpu_layers (ls_settings svc))\<rparr>"

definition llm_unload :: "llm_service \<Rightarrow> llm_service" where
  "llm_unload svc = svc\<lparr>ls_loaded := False\<rparr>"

text \<open>
  The words it looks for are ASCII, and no character outside ASCII is lowered to one of their
  letters, so lowering the ASCII letters decides them.
\<close>

definition stub_iql :: "string \<Rightarrow> string" where
  "stub_iql question =
     (let q = to_ascii_lowercase question in
      if contains_str q ''error'' \<or> contains_str q ''log''
      then ''SELECT timestamp_ns, severity_text, body FROM logs '' @
           ''WHERE severity_number >= 13 '' @
           ''AND timestamp_ns >= now() - interval '' @ apos @ ''1h'' @ apos @
           '' ORDER BY timestamp_ns DESC LIMIT 100;''
      else if contains_str q ''metric'' \<or> contains_str q ''rate'' \<or> contains_str q ''latency''
      then ''SELECT time_bucket(interval '' @ apos @ ''1m'' @ apos @ '', timestamp_ns) AS minute, '' @
           ''metric_name, avg(value) AS avg_val FROM metrics '' @
           ''WHERE timestamp_ns >= now() - interval '' @ apos @ ''1h'' @ apos @
           '' GROUP BY minute, metric_name ORDER BY minute ASC;''
      else if contains_str q ''trace'' \<or> contains_str q ''span'' \<or> contains_str q ''slow''
      then ''SELECT service_name, avg(duration_ns) AS avg_ns, '' @
           ''count(*) AS span_count FROM traces '' @
           ''WHERE timestamp_ns >= now() - interval '' @ apos @ ''30m'' @ apos @
           '' GROUP BY service_name ORDER BY avg_ns DESC LIMIT 20;''
      else ''SELECT timestamp_ns, body FROM logs '' @
           ''WHERE timestamp_ns >= now() - interval '' @ apos @ ''1h'' @ apos @ '' LIMIT 50;'')"

definition iql_prompt :: "(string \<times> string) list \<Rightarrow> string \<Rightarrow> string" where
  "iql_prompt examples question =
     (let few_shot_section = py_join py_newline (map few_shot_example (take 10 examples)) in
      system_prompt (if few_shot_section = '''' then '''' else ''Examples:'' @ py_newline @ few_shot_section)
        @ py_newline @ ''Question: '' @ question @ py_newline @ ''IQL:'')"

text \<open>An exception of the model is the left value. Compiling the grammar is part of the call.\<close>

definition generate_iql ::
  "'v copilot_env \<Rightarrow> llm_service \<Rightarrow> string \<Rightarrow> string \<Rightarrow> (string \<times> string) list \<Rightarrow> string + string" where
  "generate_iql E svc question grammar examples =
     (if \<not> ls_loaded svc then Inr (stub_iql question)
      else and_then (ce_llm E (iql_prompt examples question) (cs_max_tokens (ls_settings svc))
             (cs_temperature (ls_settings svc)) (Some grammar) [py_newline @ py_newline, ''Question:''])
        (\<lambda>text. let iql = py_strip text in Inr (if ends_with iql '';'' then iql else iql @ '';'')))"

definition generate_narrative :: "'v copilot_env \<Rightarrow> llm_service \<Rightarrow> string \<Rightarrow> string + string" where
  "generate_narrative E svc ctx =
     (if \<not> ls_loaded svc then Inr ''Root cause analysis: model not available.''
      else and_then (ce_llm E
             (''You are an SRE expert. Given the following anomaly data, '' @
              ''provide a concise root-cause analysis in 2-3 sentences.'' @ py_newline @ py_newline @
              ctx @ py_newline @ py_newline @ ''Root cause:'')
             256 (fp_lit (ce_fp E) ''0.3'') None [py_newline @ py_newline])
        (\<lambda>text. Inr (py_strip text)))"

section \<open>Root-cause analysis\<close>

record anomaly_point =
  ap_row_index :: nat
  ap_column :: string
  ap_value :: f64
  ap_z_score :: f64

record correlation =
  co_col_a :: string
  co_col_b :: string
  co_pearson_r :: f64

record rca_report =
  rr_anomalies :: "anomaly_point list"
  rr_correlations :: "correlation list"
  rr_narrative :: string

text \<open>
  The values of a column: \<open>None\<close> when an exception escapes (a row that is no dict, or an exception of
  \<open>float\<close> that is not caught), \<open>Some None\<close> when a value is missing or not numeric.
\<close>

fun column_values :: "'v copilot_env \<Rightarrow> string \<Rightarrow> 'v py_value list \<Rightarrow> f64 list option option" where
  "column_values E col [] = Some (Some [])"
| "column_values E col (Py_Dict kvs # rows) =
     (case map_option (ce_float E) (map_of kvs col) of
        None \<Rightarrow> Some None
      | Some Float_Invalid \<Rightarrow> Some None
      | Some Float_Raises \<Rightarrow> None
      | Some (Float_Value v) \<Rightarrow> map_option (map_option ((#) v)) (column_values E col rows))"
| "column_values E col (_ # rows) = None"

fun collect_columns ::
  "'v copilot_env \<Rightarrow> 'v py_value list \<Rightarrow> string list \<Rightarrow> (string \<times> f64 list) list option" where
  "collect_columns E rows [] = Some []"
| "collect_columns E rows (col # cols) =
     Option.bind (column_values E col rows) (\<lambda>r.
       map_option (\<lambda>rest. case r of Some values \<Rightarrow> if values = [] then rest else (col, values) # rest | None \<Rightarrow> rest)
         (collect_columns E rows cols))"

definition extract_numeric_columns :: "'v copilot_env \<Rightarrow> 'v py_value list \<Rightarrow> (string \<times> f64 list) list option" where
  "extract_numeric_columns E rows =
     (case rows of
        [] \<Rightarrow> Some []
      | Py_Dict kvs # _ \<Rightarrow> collect_columns E rows (map fst kvs)
      | Py_Sized n # _ \<Rightarrow> if n = 0 then Some [] else None
      | Py_Scalar # _ \<Rightarrow> None)"

text \<open>The absolute value clears the sign bit; \<open>==\<close> is false on NaN.\<close>

definition py_abs :: "f64 \<Rightarrow> f64" where
  "py_abs v = take_bit 63 v"

definition py_eq :: "fp_ops \<Rightarrow> f64 \<Rightarrow> f64 \<Rightarrow> bool" where
  "py_eq F a b = (fp_le F a b \<and> fp_le F b a)"

definition z_score :: "fp_ops \<Rightarrow> f64 \<Rightarrow> f64 \<Rightarrow> f64 \<Rightarrow> f64" where
  "z_score F mean std v = fp_div F (py_abs (fp_sub F v mean)) std"

definition column_anomalies :: "'v copilot_env \<Rightarrow> f64 \<Rightarrow> string \<times> f64 list \<Rightarrow> anomaly_point list" where
  "column_anomalies E z_threshold c =
     (let F = ce_fp E; mean = ce_mean E (snd c); std = ce_std E (snd c) in
      if py_eq F std (fp_lit F ''0'') then []
      else map (\<lambda>(i, v). \<lparr>ap_row_index = i, ap_column = fst c, ap_value = v, ap_z_score = ce_round E (z_score F mean std v) 2\<rparr>)
        (filter (\<lambda>(i, v). fp_lt F z_threshold (z_score F mean std v)) (enumerate 0 (snd c))))"

definition detect_anomalies :: "'v copilot_env \<Rightarrow> (string \<times> f64 list) list \<Rightarrow> f64 \<Rightarrow> anomaly_point list" where
  "detect_anomalies E numeric_cols z_threshold =
     (if ce_numpy E then concat (map (column_anomalies E z_threshold) numeric_cols) else [])"

definition correlate :: "'v copilot_env \<Rightarrow> f64 \<Rightarrow> string \<times> f64 list \<Rightarrow> string \<times> f64 list \<Rightarrow> correlation list" where
  "correlate E min_r a b =
     (if length (snd a) < 3 then []
      else let r = ce_pearsonr E (snd a) (snd b) in
        if fp_le (ce_fp E) min_r (py_abs r)
        then [\<lparr>co_col_a = fst a, co_col_b = fst b, co_pearson_r = ce_round E r 3\<rparr>] else [])"

fun correlate_pairs :: "'v copilot_env \<Rightarrow> f64 \<Rightarrow> (string \<times> f64 list) list \<Rightarrow> correlation list" where
  "correlate_pairs E min_r [] = []"
| "correlate_pairs E min_r (a # cols) = concat (map (correlate E min_r a) cols) @ correlate_pairs E min_r cols"

definition compute_correlations ::
  "'v copilot_env \<Rightarrow> 'v py_value list \<Rightarrow> (string \<times> f64 list) list \<Rightarrow> f64 \<Rightarrow> correlation list" where
  "compute_correlations E rows numeric_cols min_r =
     (if length numeric_cols < 2 \<or> rows = [] then []
      else if \<not> (ce_numpy E \<and> ce_scipy E) then []
      else correlate_pairs E min_r numeric_cols)"

definition narrative_context ::
  "'v copilot_env \<Rightarrow> string \<Rightarrow> anomaly_point list \<Rightarrow> correlation list \<Rightarrow> string" where
  "narrative_context E question anomalies correlations =
     py_join (py_newline @ py_newline) (
       [''User question: '' @ question]
     @ [if anomalies \<noteq> []
        then ''Anomalies detected:'' @ py_newline @ py_join py_newline (map (\<lambda>a.
               ''  - Row '' @ dec_string (ap_row_index a) @ '': column '' @ apos @ ap_column a @ apos @ '' = '' @
               ce_repr E (ap_value a) @ '' (z='' @ ce_repr E (ap_z_score a) @ '')'') (take 10 anomalies))
        else ''No statistical anomalies detected.'']
     @ (if correlations \<noteq> []
        then [''Strong correlations:'' @ py_newline @ py_join py_newline (map (\<lambda>c.
               ''  - '' @ apos @ co_col_a c @ apos @ '' and '' @ apos @ co_col_b c @ apos @ '': r = '' @
               ce_repr E (co_pearson_r c)) (take 5 correlations))]
        else []))"

definition run_rca ::
  "'v copilot_env \<Rightarrow> 'v py_value list \<Rightarrow> llm_service \<Rightarrow> string \<Rightarrow> rca_report option" where
  "run_rca E rows svc question =
     (if rows = [] then Some \<lparr>rr_anomalies = [], rr_correlations = [], rr_narrative = ''No data returned by the query.''\<rparr>
      else Option.bind (extract_numeric_columns E rows) (\<lambda>numeric_cols.
        let anomalies = detect_anomalies E numeric_cols (fp_lit (ce_fp E) ''3.0'');
            correlations = compute_correlations E rows numeric_cols (fp_lit (ce_fp E) ''0.8'')
        in case generate_narrative E svc (narrative_context E question anomalies correlations) of
             Inl _ \<Rightarrow> None
           | Inr narrative \<Rightarrow>
               Some \<lparr>rr_anomalies = anomalies, rr_correlations = correlations, rr_narrative = narrative\<rparr>))"

section \<open>The feedback table\<close>

record copilot_state =
  cp_llm :: llm_service
  cp_rows :: "feedback_row list"
  cp_next_id :: nat

text \<open>
  What a request meets outside the service: whether reading and writing the database succeed, the
  time the database notes and the measured latency.
\<close>

record copilot_turn =
  tn_read_ok :: bool
  tn_write_ok :: bool
  tn_now :: nat
  tn_latency_ms :: int

text \<open>A negative limit is no limit, and a number outside 64 bits cannot be bound.\<close>

definition sql_limit :: "int \<Rightarrow> 'a list \<Rightarrow> 'a list" where
  "sql_limit n xs = (if n < 0 then xs else take (nat n) xs)"

definition load_few_shot_examples ::
  "'v copilot_env \<Rightarrow> copilot_turn \<Rightarrow> int \<Rightarrow> copilot_state \<Rightarrow> (string \<times> string) list" where
  "load_few_shot_examples E t n st =
     (if tn_read_ok t
      then map (\<lambda>r. (fb_nl_question r, fb_iql_query r)) (sql_limit n (ce_order E (filter fb_accepted (cp_rows st))))
      else [])"

definition insert_feedback :: "copilot_turn \<Rightarrow> string \<Rightarrow> string \<Rightarrow> string \<Rightarrow> copilot_state \<Rightarrow> copilot_state" where
  "insert_feedback t question iql narrative st = st\<lparr>
     cp_rows := cp_rows st @ [\<lparr>fb_id = cp_next_id st, fb_created_at = tn_now t, fb_nl_question = question,
       fb_iql_query = iql, fb_accepted = False, fb_rca_text = narrative, fb_latency_ms = tn_latency_ms t\<rparr>],
     cp_next_id := cp_next_id st + 1\<rparr>"

definition set_accepted :: "bool \<Rightarrow> string \<Rightarrow> string \<Rightarrow> copilot_state \<Rightarrow> copilot_state" where
  "set_accepted acc question iql st = st\<lparr>cp_rows := map (\<lambda>r.
     if fb_nl_question r = question \<and> fb_iql_query r = iql then r\<lparr>fb_accepted := acc\<rparr> else r) (cp_rows st)\<rparr>"

section \<open>Request handlers\<close>

datatype copilot_error = Unprocessable | InternalError | BadGateway string

record 'v copilot_response =
  cr_iql :: string
  cr_rows :: "'v py_value list"
  cr_rca :: rca_report
  cr_latency_ms :: int

text \<open>Starting: the table is created unless it exists, and the model is loaded.\<close>

definition lifespan :: "'v copilot_env \<Rightarrow> copilot_settings \<Rightarrow> feedback_row list \<Rightarrow> nat \<Rightarrow> copilot_state" where
  "lifespan E settings stored next_id =
     \<lparr>cp_llm = llm_load E (llm_new settings), cp_rows = stored, cp_next_id = next_id\<rparr>"

fun load_lines :: "'v copilot_env \<Rightarrow> string list \<Rightarrow> string + 'v py_value list" where
  "load_lines E [] = Inr []"
| "load_lines E (l # ls) =
     (if py_strip l = '''' then load_lines E ls
      else and_then (ce_loads E l) (\<lambda>row. and_then (load_lines E ls) (\<lambda>rows. Inr (row # rows))))"

definition execute_iql :: "'v copilot_env \<Rightarrow> copilot_settings \<Rightarrow> string \<Rightarrow> string + 'v py_value list" where
  "execute_iql E settings iql =
     and_then (ce_post E (cs_gateway_url settings @ ''/api/v1/query'') iql (''Bearer '' @ cs_gateway_token settings))
       (\<lambda>(status, text). case ce_raise_for_status E status of
          Some err \<Rightarrow> Inl err
        | None \<Rightarrow> load_lines E (splitlines (py_strip text)))"

fun is_dict :: "'v py_value \<Rightarrow> bool" where
  "is_dict (Py_Dict kvs) = True"
| "is_dict _ = False"

text \<open>The answer can only hold dicts; it is built after the row was stored.\<close>

definition copilot_query ::
  "'v copilot_env \<Rightarrow> copilot_turn \<Rightarrow> string \<Rightarrow> copilot_state \<Rightarrow> copilot_state \<times> (copilot_error + 'v copilot_response)" where
  "copilot_query E t question st =
     (if py_len question < 1 \<or> 2000 < py_len question then (st, Inl Unprocessable)
      else case generate_iql E (cp_llm st) question (build_gbnf_grammar default_tables None)
             (load_few_shot_examples E t 20 st) of
        Inl _ \<Rightarrow> (st, Inl InternalError)
      | Inr iql \<Rightarrow>
          (case execute_iql E (ls_settings (cp_llm st)) iql of
             Inl exc \<Rightarrow> (st, Inl (BadGateway (''Query execution failed: '' @ exc)))
           | Inr rows \<Rightarrow>
               (case run_rca E rows (cp_llm st) question of
                  None \<Rightarrow> (st, Inl InternalError)
                | Some rca \<Rightarrow>
                    if tn_write_ok t
                    then (insert_feedback t question iql (rr_narrative rca) st,
                      if list_all is_dict rows
                      then Inr \<lparr>cr_iql = iql, cr_rows = rows, cr_rca = rca, cr_latency_ms = tn_latency_ms t\<rparr>
                      else Inl InternalError)
                    else (st, Inl InternalError))))"

definition copilot_feedback ::
  "copilot_turn \<Rightarrow> string \<Rightarrow> string \<Rightarrow> bool \<Rightarrow> copilot_state \<Rightarrow> copilot_state \<times> (copilot_error + (string \<times> string) list)" where
  "copilot_feedback t question iql acc st =
     (if tn_write_ok t then (set_accepted acc question iql st, Inr [(''status'', ''recorded'')]) else (st, Inl InternalError))"

definition copilot_history ::
  "'v copilot_env \<Rightarrow> copilot_turn \<Rightarrow> int \<Rightarrow> copilot_state
     \<Rightarrow> copilot_error + (nat \<times> nat \<times> string \<times> string \<times> bool \<times> int) list" where
  "copilot_history E t limit st =
     (if tn_read_ok t \<and> i64_min \<le> limit \<and> limit \<le> i64_max
      then Inr (map (\<lambda>r. (fb_id r, fb_created_at r, fb_nl_question r, fb_iql_query r, fb_accepted r, fb_latency_ms r))
        (sql_limit limit (ce_order E (cp_rows st))))
      else Inl InternalError)"

definition copilot_health :: "(string \<times> string) list" where
  "copilot_health = [(''status'', ''ok'')]"

section \<open>Histories of requests\<close>

datatype copilot_op =
    Op_Ask copilot_turn string
  | Op_Rate copilot_turn string string bool

definition copilot_step :: "'v copilot_env \<Rightarrow> copilot_op \<Rightarrow> copilot_state \<Rightarrow> copilot_state" where
  "copilot_step E op st =
     (case op of
        Op_Ask t question \<Rightarrow> fst (copilot_query E t question st)
      | Op_Rate t question iql acc \<Rightarrow> fst (copilot_feedback t question iql acc st))"

definition copilot_run :: "'v copilot_env \<Rightarrow> copilot_op list \<Rightarrow> copilot_state \<Rightarrow> copilot_state" where
  "copilot_run E ops st = fold (copilot_step E) ops st"

definition holds_pair :: "copilot_state \<Rightarrow> string \<Rightarrow> string \<Rightarrow> bool" where
  "holds_pair st question iql \<longleftrightarrow> (\<exists>r \<in> set (cp_rows st). fb_nl_question r = question \<and> fb_iql_query r = iql)"

text \<open>
  A pair is confirmed when a user accepted it after the service had stored it, and no rejection of
  the pair was recorded later.
\<close>

definition confirmed :: "'v copilot_env \<Rightarrow> copilot_state \<Rightarrow> copilot_op list \<Rightarrow> string \<Rightarrow> string \<Rightarrow> bool" where
  "confirmed E st ops question iql \<longleftrightarrow>
     (\<exists>before t later. ops = before @ Op_Rate t question iql True # later
        \<and> tn_write_ok t \<and> holds_pair (copilot_run E before st) question iql
        \<and> (\<forall>t'. tn_write_ok t' \<longrightarrow> Op_Rate t' question iql False \<notin> set later))"

text \<open>What the database promises of \<open>ORDER BY created_at DESC\<close>.\<close>

definition order_spec :: "(feedback_row list \<Rightarrow> feedback_row list) \<Rightarrow> bool" where
  "order_spec order \<longleftrightarrow>
     (\<forall>rows. mset (order rows) = mset rows \<and> sorted_wrt (\<lambda>a b. fb_created_at b \<le> fb_created_at a) (order rows))"

lemma copilot_query_rows:
  "cp_rows (fst (copilot_query E t question st)) = cp_rows st
   \<or> (\<exists>r. cp_rows (fst (copilot_query E t question st)) = cp_rows st @ [r] \<and> \<not> fb_accepted r)"
  by (auto simp: copilot_query_def insert_feedback_def split: sum.split option.split)

lemma set_accepted_rows:
  assumes "r \<in> set (cp_rows (set_accepted acc question iql st))"
  shows "if fb_nl_question r = question \<and> fb_iql_query r = iql
    then holds_pair st question iql \<and> fb_accepted r = acc else r \<in> set (cp_rows st)"
proof -
  obtain r' where r': "r' \<in> set (cp_rows st)"
    "r = (if fb_nl_question r' = question \<and> fb_iql_query r' = iql then r'\<lparr>fb_accepted := acc\<rparr> else r')"
    using assms by (auto simp: set_accepted_def simp del: if_image_distrib)
  show ?thesis
  proof (cases "fb_nl_question r' = question \<and> fb_iql_query r' = iql")
    case True
    then show ?thesis using r' by (auto simp: holds_pair_def)
  next
    case False
    then show ?thesis using r' by (simp only: if_False)
  qed
qed

lemma copilot_run_snoc: "copilot_run E (ops @ [op]) st = copilot_step E op (copilot_run E ops st)"
  by (simp add: copilot_run_def)

lemma confirmed_snoc:
  assumes "confirmed E st ops question iql" "\<And>t. tn_write_ok t \<Longrightarrow> op \<noteq> Op_Rate t question iql False"
  shows "confirmed E st (ops @ [op]) question iql"
proof -
  obtain before t later where "ops = before @ Op_Rate t question iql True # later"
    "tn_write_ok t" "holds_pair (copilot_run E before st) question iql"
    "\<forall>t'. tn_write_ok t' \<longrightarrow> Op_Rate t' question iql False \<notin> set later"
    using assms(1) unfolding confirmed_def by blast
  then show ?thesis
    unfolding confirmed_def using assms(2)
    by (intro exI [of _ before] exI [of _ t] exI [of _ "later @ [op]"]) auto
qed

lemma accepted_rows_confirmed:
  assumes "cp_rows st = []" "r \<in> set (cp_rows (copilot_run E ops st))" "fb_accepted r"
  shows "confirmed E st ops (fb_nl_question r) (fb_iql_query r)"
  using assms(2,3)
proof (induction ops arbitrary: r rule: rev_induct)
  case Nil
  then show ?case using assms(1) by (simp add: copilot_run_def)
next
  case (snoc op ops)
  let ?st = "copilot_run E ops st"
  show ?case
  proof (cases op)
    case (Op_Ask t question)
    then have "r \<in> set (cp_rows (fst (copilot_query E t question ?st)))"
      using snoc.prems(1) by (simp add: copilot_run_snoc copilot_step_def)
    then have "r \<in> set (cp_rows ?st)"
      using snoc.prems(2) copilot_query_rows [of E t question ?st] by (metis Un_iff empty_iff insert_iff list.simps(15) set_append set_empty)
    from snoc.IH [OF this snoc.prems(2)] show ?thesis by (rule confirmed_snoc) (simp add: Op_Ask)
  next
    case (Op_Rate t question iql acc)
    show ?thesis
    proof (cases "tn_write_ok t \<and> fb_nl_question r = question \<and> fb_iql_query r = iql")
      case True
      then have "r \<in> set (cp_rows (set_accepted acc question iql ?st))"
        using snoc.prems(1) by (simp add: copilot_run_snoc copilot_step_def copilot_feedback_def Op_Rate)
      then have "holds_pair ?st question iql" and acc
        using True snoc.prems(2) set_accepted_rows [of r acc question iql ?st] by simp_all
      then show ?thesis
        unfolding confirmed_def using True Op_Rate \<open>acc\<close>
        by (intro exI [of _ ops] exI [of _ t] exI [of _ "[]"]) simp
    next
      case False
      then have "r \<in> set (cp_rows ?st)"
        using snoc.prems(1) set_accepted_rows [of r acc question iql ?st]
        by (simp add: copilot_run_snoc copilot_step_def copilot_feedback_def Op_Rate split: if_splits)
      from snoc.IH [OF this snoc.prems(2)] show ?thesis
        by (rule confirmed_snoc) (use False Op_Rate in auto)
    qed
  qed
qed

lemma load_few_shot_length: "0 \<le> n \<Longrightarrow> length (load_few_shot_examples E t n st) \<le> nat n"
  by (simp add: load_few_shot_examples_def sql_limit_def)

lemma load_few_shot_accepted:
  assumes "order_spec (ce_order E)" "(question, iql) \<in> set (load_few_shot_examples E t n st)"
  shows "\<exists>r \<in> set (cp_rows st). fb_accepted r \<and> fb_nl_question r = question \<and> fb_iql_query r = iql"
proof -
  let ?rows = "ce_order E (filter fb_accepted (cp_rows st))"
  have "mset ?rows = mset (filter fb_accepted (cp_rows st))" using assms(1) unfolding order_spec_def by blast
  then have "set ?rows = set (filter fb_accepted (cp_rows st))" by (rule mset_eq_setD)
  then show ?thesis
    using assms(2) by (auto simp: load_few_shot_examples_def sql_limit_def split: if_splits dest!: in_set_takeD)
qed

section \<open>Lines of an answer\<close>

definition printable_ascii :: "string \<Rightarrow> bool" where
  "printable_ascii s \<longleftrightarrow> (\<forall>c \<in> set s. 32 \<le> char_code c \<and> char_code c < 127)"

lemma char_code_of [simp]: "n < 256 \<Longrightarrow> char_code (char_of n) = n"
  by (simp add: char_code_def)

lemma no_line_break: "32 \<le> char_code c \<Longrightarrow> char_code c < 127 \<Longrightarrow> find (starts_with (c # cs)) line_breaks = None"
  by (auto simp: line_breaks_def find_None_iff)

lemma split_lines_printable:
  "printable_ascii s \<Longrightarrow> split_lines cur s = (if cur @ s = [] then [] else [cur @ s])"
  by (induction s arbitrary: cur) (auto simp: printable_ascii_def no_line_break)

lemma splitlines_printable: "printable_ascii s \<Longrightarrow> s \<noteq> [] \<Longrightarrow> splitlines s = [s]"
  by (simp add: splitlines_def split_lines_printable)

lemma py_white_space_ends:
  "w \<in> set py_white_spaces \<Longrightarrow> w \<noteq> [] \<and> (char_code (hd w) \<le> 32 \<or> 127 < char_code (hd w)) \<and> (char_code (last w) \<le> 32 \<or> 127 < char_code (last w))"
  by (auto simp: py_white_spaces_def white_spaces_def)

lemma trim_front_stop: "(\<And>w. w \<in> set ws \<Longrightarrow> \<not> starts_with s w \<or> w = []) \<Longrightarrow> trim_front ws s = s"
proof -
  assume "\<And>w. w \<in> set ws \<Longrightarrow> \<not> starts_with s w \<or> w = []"
  then have "find (\<lambda>w. w \<noteq> [] \<and> starts_with s w) ws = None" by (auto simp: find_None_iff)
  then show ?thesis by (subst trim_front.simps) simp
qed

lemma newline_char: "CHR 0x0A = char_of (n :: nat) \<longleftrightarrow> n mod 256 = 10"
  using char_of_eq_iff [of n "CHR 0x0A"] by (auto simp: take_bit_eq_mod eq_commute [of "CHR 0x0A"])

lemma py_strip_line:
  fixes a z :: char
  assumes "32 < char_code a" "char_code a < 127" "32 < char_code z" "char_code z < 127"
  shows "py_strip (a # s @ [z] @ py_newline) = a # s @ [z]" "py_strip (a # s @ [z]) = a # s @ [z]"
proof -
  have front: "trim_front py_white_spaces (a # u) = a # u" for u
  proof (rule trim_front_stop)
    fix w assume w: "w \<in> set py_white_spaces"
    have "w \<noteq> []" "hd w \<noteq> a" using py_white_space_ends [OF w] assms(1,2) by auto
    then show "\<not> starts_with (a # u) w \<or> w = []" by (metis list.collapse starts_with.simps(3))
  qed
  have rear: "trim_front (map rev py_white_spaces) (z # u) = z # u" for u
  proof (rule trim_front_stop)
    fix w assume "w \<in> set (map rev py_white_spaces)"
    then obtain v where v: "v \<in> set py_white_spaces" "w = rev v" by auto
    have "w \<noteq> []" "hd w \<noteq> z" using py_white_space_ends [OF v(1)] assms(3,4) by (auto simp: v(2) hd_rev)
    then show "\<not> starts_with (z # u) w \<or> w = []" by (metis list.collapse starts_with.simps(3))
  qed
  have ten: "char_of (10 :: nat) = CHR 0x0A" using newline_char [of 10] by simp
  have nl: "trim_front (map rev py_white_spaces) (CHR 0x0A # z # u) = z # u" for u
  proof -
    have "find (\<lambda>w. w \<noteq> [] \<and> starts_with (CHR 0x0A # z # u) w) (map rev py_white_spaces) = Some [CHR 0x0A]"
      by (simp add: py_white_spaces_def white_spaces_def newline_char ten)
    then show ?thesis by (subst trim_front.simps) (simp add: rear)
  qed
  show "py_strip (a # s @ [z] @ py_newline) = a # s @ [z]" "py_strip (a # s @ [z]) = a # s @ [z]"
    unfolding py_strip_def py_newline_def by (simp_all add: front rear nl)
qed

section \<open>Accepted pairs\<close>

definition accepted_pair :: "copilot_state \<Rightarrow> string \<Rightarrow> string \<Rightarrow> bool" where
  "accepted_pair st question iql \<longleftrightarrow>
     (\<exists>r \<in> set (cp_rows st). fb_accepted r \<and> fb_nl_question r = question \<and> fb_iql_query r = iql)"

lemma set_accepted_accepts: "holds_pair st question iql \<Longrightarrow> accepted_pair (set_accepted True question iql st) question iql"
  unfolding holds_pair_def accepted_pair_def set_accepted_def
  by (auto intro!: image_eqI bexI [of _ "r\<lparr>fb_accepted := True\<rparr>" for r])

lemma set_accepted_other:
  "accepted_pair st question iql \<Longrightarrow> acc \<or> (q', i') \<noteq> (question, iql) \<Longrightarrow> accepted_pair (set_accepted acc q' i' st) question iql"
  by (force simp: accepted_pair_def set_accepted_def)

lemma copilot_step_accepted:
  assumes "accepted_pair st question iql" "\<And>t. tn_write_ok t \<Longrightarrow> op \<noteq> Op_Rate t question iql False"
  shows "accepted_pair (copilot_step E op st) question iql"
proof (cases op)
  case (Op_Ask t q')
  then show ?thesis
    using assms(1) copilot_query_rows [of E t q' st] by (auto simp: accepted_pair_def copilot_step_def)
next
  case (Op_Rate t q' i' acc)
  then show ?thesis
    using assms set_accepted_other [OF assms(1), of acc q' i'] by (auto simp: copilot_step_def copilot_feedback_def)
qed

lemma copilot_run_accepted:
  assumes "accepted_pair st question iql" "\<forall>t. tn_write_ok t \<longrightarrow> Op_Rate t question iql False \<notin> set ops"
  shows "accepted_pair (copilot_run E ops st) question iql"
  using assms(2)
proof (induction ops rule: rev_induct)
  case (snoc op ops)
  then have "accepted_pair (copilot_run E ops st) question iql" by simp
  then show ?case unfolding copilot_run_snoc by (rule copilot_step_accepted) (use snoc.prems in auto)
qed (simp add: copilot_run_def assms(1))

lemma confirmed_accepted:
  assumes "confirmed E st ops question iql"
  shows "accepted_pair (copilot_run E ops st) question iql"
proof -
  obtain before t later where ops: "ops = before @ Op_Rate t question iql True # later" "tn_write_ok t"
    and pair: "holds_pair (copilot_run E before st) question iql"
    and rest: "\<forall>t'. tn_write_ok t' \<longrightarrow> Op_Rate t' question iql False \<notin> set later"
    using assms unfolding confirmed_def by blast
  have "copilot_run E ops st = copilot_run E later (set_accepted True question iql (copilot_run E before st))"
    by (simp add: ops copilot_run_def copilot_step_def copilot_feedback_def)
  then show ?thesis using copilot_run_accepted [OF set_accepted_accepts [OF pair] rest] by simp
qed

lemma accepted_pair_confirmed:
  "cp_rows st = [] \<Longrightarrow> accepted_pair (copilot_run E ops st) question iql \<longleftrightarrow> confirmed E st ops question iql"
  using accepted_rows_confirmed [of st] confirmed_accepted unfolding accepted_pair_def by blast

lemma load_few_shot_all:
  assumes "order_spec (ce_order E)" "tn_read_ok t" "length (filter fb_accepted (cp_rows st)) \<le> nat n"
    and "accepted_pair st question iql"
  shows "(question, iql) \<in> set (load_few_shot_examples E t n st)"
proof -
  let ?rows = "ce_order E (filter fb_accepted (cp_rows st))"
  have m: "mset ?rows = mset (filter fb_accepted (cp_rows st))" using assms(1) unfolding order_spec_def by blast
  have "set ?rows = set (filter fb_accepted (cp_rows st))" using m by (rule mset_eq_setD)
  moreover have "length ?rows \<le> nat n" using mset_eq_length [OF m] assms(3) by simp
  ultimately show ?thesis
    using assms(2,4) by (auto simp: load_few_shot_examples_def sql_limit_def accepted_pair_def image_iff)
qed

text \<open>
  C30. Only confirmed queries teach the model. Whatever questions and ratings the service has handled
  since it started with an empty table, the examples it loads are at most twenty, each a question
  and a query the service stored, that a user accepted afterwards and has not rejected since; and
  every such pair is among them as long as at most twenty stored rows are accepted. The query is the
  one the service generated, and acceptance a flag: the architecture document describes corrected
  queries with a rating of at least four, and five of them.
\<close>

theorem examples_confirmed:
  assumes "order_spec (ce_order E)" "cp_rows st = []"
  shows "length (load_few_shot_examples E t 20 (copilot_run E ops st)) \<le> 20
    \<and> ((question, iql) \<in> set (load_few_shot_examples E t 20 (copilot_run E ops st)) \<longrightarrow> confirmed E st ops question iql)
    \<and> (tn_read_ok t \<and> length (filter fb_accepted (cp_rows (copilot_run E ops st))) \<le> 20 \<and> confirmed E st ops question iql
        \<longrightarrow> (question, iql) \<in> set (load_few_shot_examples E t 20 (copilot_run E ops st)))"
proof -
  note pair = accepted_pair_confirmed [OF assms(2), of E ops question iql]
  show ?thesis
    using load_few_shot_length [of 20 E t "copilot_run E ops st"]
      load_few_shot_accepted [OF assms(1), of question iql t 20 "copilot_run E ops st"]
      load_few_shot_all [OF assms(1), of t "copilot_run E ops st" 20 question iql] pair
    unfolding accepted_pair_def by auto
qed

section \<open>Asking through the gateway\<close>

text \<open>The request the HTTP client sends, with the headers it adds itself.\<close>

definition copilot_http_request ::
  "(string \<Rightarrow> string) \<Rightarrow> (string \<Rightarrow> string) \<Rightarrow> copilot_settings \<Rightarrow> string \<Rightarrow> gateway_request" where
  "copilot_http_request dump headers settings iql = \<lparr>gr_method = ''POST'', gr_path = ''/api/v1/query'',
     gr_header = (\<lambda>h. if h = ''Authorization'' then ''Bearer '' @ cs_gateway_token settings else headers h),
     gr_body = dump iql\<rparr>"

definition reaches_gateway ::
  "'v copilot_env \<Rightarrow> (string \<Rightarrow> string) \<Rightarrow> (string \<Rightarrow> string) \<Rightarrow> gateway_env \<Rightarrow> gateway_config \<Rightarrow> copilot_settings \<Rightarrow> bool" where
  "reaches_gateway E dump headers G cfg settings \<longleftrightarrow>
     (\<forall>iql resp. gateway_serve G cfg (copilot_http_request dump headers settings iql) = Some resp \<longrightarrow>
        ce_post E (cs_gateway_url settings @ ''/api/v1/query'') iql (''Bearer '' @ cs_gateway_token settings)
          = Inr (gs_status resp, gs_body resp))"

definition raises_on_error :: "'v copilot_env \<Rightarrow> bool" where
  "raises_on_error E \<longleftrightarrow> ce_raise_for_status E 200 = None \<and> (\<forall>s. 400 \<le> s \<longrightarrow> ce_raise_for_status E s \<noteq> None)"

definition stub_row :: "string \<Rightarrow> gateway_row" where
  "stub_row sql = [(''status'', RV_String ''ok''), (''query'', RV_String sql), (''rows'', RV_Int 0),
     (''note'', RV_String ''query forwarded to backend'')]"

text \<open>The row as it travels: Go writes the keys of a map in sorted order.\<close>

definition wire_row :: "string \<Rightarrow> gateway_row" where
  "wire_row sql = [(''note'', RV_String ''query forwarded to backend''), (''query'', RV_String sql), (''rows'', RV_Int 0),
     (''status'', RV_String ''ok'')]"

lemma wire_row_content: "map_of (wire_row sql) = map_of (stub_row sql)"
  by (auto simp: wire_row_def stub_row_def)

text \<open>
  The two JSON libraries agree on a query: the gateway decodes the body the client encoded, writes
  the row as one line of ASCII with its keys sorted, and the service decodes the line as the row, in
  the order of the line.
\<close>

definition wire_ok ::
  "'v copilot_env \<Rightarrow> (string \<Rightarrow> string) \<Rightarrow> gateway_env \<Rightarrow> gateway_config \<Rightarrow> (row_value \<Rightarrow> 'v) \<Rightarrow> string \<Rightarrow> bool" where
  "wire_ok E dump G cfg conv sql \<longleftrightarrow>
     map_sum id qr_query (ge_decode G (take (2 ^ 20) (dump sql))) = Inr sql
   \<and> ge_new_client G (gc_query_backend cfg) = Inr ()
   \<and> (\<exists>body. printable_ascii body \<and> ge_encode_row G (stub_row sql) = Inr (''{'' @ body @ ''}'' @ py_newline)
        \<and> ce_loads E (''{'' @ body @ ''}'') = Inr (Py_Dict (map (map_prod id conv) (wire_row sql))))"

text \<open>
  Of the values of that row only the number is numeric, and the standard deviation of a single zero
  is zero.
\<close>

definition one_zero :: "'v copilot_env \<Rightarrow> (row_value \<Rightarrow> 'v) \<Rightarrow> string \<Rightarrow> bool" where
  "one_zero E conv sql \<longleftrightarrow>
     (\<forall>s \<in> {''ok'', sql, ''query forwarded to backend''}. ce_float E (conv (RV_String s)) = Float_Invalid)
   \<and> (\<exists>z. ce_float E (conv (RV_Int 0)) = Float_Value z \<and> py_eq (ce_fp E) (ce_std E [z]) (fp_lit (ce_fp E) ''0''))"

lemma stub_iql_ends: "\<exists>s. stub_iql question = ''SELECT'' @ s @ '';''"
proof -
  have "\<exists>s. x @ '';'' = s @ '';''" for x :: string by blast
  then show ?thesis by (simp add: stub_iql_def Let_def)
qed

lemma stub_iql_not_blank: "trim (stub_iql question) \<noteq> ''''"
proof -
  obtain s where s: "stub_iql question = ''SELECT'' @ s @ '';''" using stub_iql_ends by blast
  have "trim (stub_iql question) = stub_iql question"
    by (rule trim_id) (simp_all add: s is_ascii_def is_space_def char_code_def)
  then show ?thesis by (simp add: s)
qed

lemma copilot_rejected:
  assumes "reaches_gateway E dump headers G cfg settings" "raises_on_error E" "jwt_sound G method_of signed_with"
    and "gc_jwt_secret cfg \<noteq> ''''" "gc_api_key_header cfg \<noteq> ''Authorization''" "headers (gc_api_key_header cfg) = ''''"
    and "\<not> (method_of (cs_gateway_token settings) = HMAC \<and> signed_with (cs_gateway_token settings) (gc_jwt_secret cfg))"
  shows "\<exists>err. execute_iql E settings iql = Inl err"
proof -
  let ?r = "copilot_http_request dump headers settings iql"
  have "\<not> bearer_ok G cfg ?r"
    using bearer_ok_signed [OF assms(3), of cfg ?r] assms(7) by (auto simp: copilot_http_request_def)
  then have "gateway_serve G cfg ?r = Some (write_error G 401 ''authentication required'')"
    using assms(4-6) by (simp add: gateway_serve_def auth_middleware_def copilot_http_request_def)
  then have "ce_post E (cs_gateway_url settings @ ''/api/v1/query'') iql (''Bearer '' @ cs_gateway_token settings)
      = Inr (401, ge_encode_error G ''authentication required'')"
    using assms(1) unfolding reaches_gateway_def by (auto simp: write_error_def)
  moreover obtain err where "ce_raise_for_status E 401 = Some err"
    using assms(2) unfolding raises_on_error_def by (metis not_None_eq numeral_le_iff semiring_norm(68,69,71,72,73))
  ultimately show ?thesis by (simp add: execute_iql_def)
qed

lemma gateway_answers_stub:
  assumes "gc_jwt_secret cfg = ''''" "wire_ok E dump G cfg conv sql" "trim sql \<noteq> ''''"
  shows "\<exists>resp body. gateway_serve G cfg (copilot_http_request dump headers settings sql) = Some resp \<and> gs_status resp = 200
    \<and> gs_body resp = ''{'' @ body @ ''}'' @ py_newline \<and> printable_ascii body
    \<and> ce_loads E (''{'' @ body @ ''}'') = Inr (Py_Dict (map (map_prod id conv) (wire_row sql)))"
proof -
  obtain body where body: "printable_ascii body" "ge_encode_row G (stub_row sql) = Inr (''{'' @ body @ ''}'' @ py_newline)"
    "ce_loads E (''{'' @ body @ ''}'') = Inr (Py_Dict (map (map_prod id conv) (wire_row sql)))"
    using assms(2) unfolding wire_ok_def by blast
  obtain req where req: "ge_decode G (take (2 ^ 20) (dump sql)) = Inr req" "qr_query req = sql"
    using assms(2) unfolding wire_ok_def by (cases "ge_decode G (take (2 ^ 20) (dump sql))") auto
  have "ge_new_client G (gc_query_backend cfg) = Inr ()" using assms(2) unfolding wire_ok_def by blast
  then have "\<exists>resp. gateway_serve G cfg (copilot_http_request dump headers settings sql) = Some resp
      \<and> gs_status resp = 200 \<and> gs_body resp = ''{'' @ body @ ''}'' @ py_newline"
    using assms(1,3) req body(2)
    by (simp add: gateway_serve_def auth_middleware_def copilot_http_request_def handle_query_def execute_query_def stub_row_def
        del: power_numeral)
  then show ?thesis using body(1,3) by blast
qed

lemma load_line:
  assumes "printable_ascii body" "ce_loads E (''{'' @ body @ ''}'') = Inr row"
  shows "load_lines E (splitlines (py_strip (''{'' @ body @ ''}'' @ py_newline))) = Inr [row]"
proof -
  let ?line = "''{'' @ body @ ''}''"
  have strip: "py_strip (''{'' @ body @ ''}'' @ py_newline) = ?line"
    using py_strip_line(1) [of "CHR ''{''" "CHR ''}''" body] by (simp add: char_code_def)
  have "printable_ascii ?line" using assms(1) by (auto simp: printable_ascii_def char_code_def)
  then have "splitlines ?line = [?line]" by (intro splitlines_printable) auto
  moreover have "py_strip ?line \<noteq> ''''"
    using py_strip_line(2) [of "CHR ''{''" "CHR ''}''" body] by (simp add: char_code_def)
  ultimately show ?thesis unfolding strip using assms(2) by simp
qed

lemma wire_row_report:
  assumes "one_zero E conv sql" "\<not> ls_loaded svc"
  shows "run_rca E [Py_Dict (map (map_prod id conv) (wire_row sql))] svc question
    = Some \<lparr>rr_anomalies = [], rr_correlations = [], rr_narrative = ''Root cause analysis: model not available.''\<rparr>"
proof -
  obtain z where z: "ce_float E (conv (RV_Int 0)) = Float_Value z" "py_eq (ce_fp E) (ce_std E [z]) (fp_lit (ce_fp E) ''0'')"
    using assms(1) unfolding one_zero_def by blast
  have "extract_numeric_columns E [Py_Dict (map (map_prod id conv) (wire_row sql))] = Some [(''rows'', [z])]"
    using assms(1) z(1) by (simp add: extract_numeric_columns_def wire_row_def one_zero_def)
  then show ?thesis
    using z(2) assms(2)
    by (simp add: run_rca_def detect_anomalies_def column_anomalies_def compute_correlations_def generate_narrative_def Let_def)
qed

lemma copilot_answered:
  assumes "reaches_gateway E dump headers G cfg (ls_settings (cp_llm st))" "raises_on_error E"
    and "\<not> ls_loaded (cp_llm st)" "1 \<le> py_len question" "py_len question \<le> 2000"
    and "gc_jwt_secret cfg = []" "tn_write_ok t" "wire_ok E dump G cfg conv (stub_iql question)"
    and "one_zero E conv (stub_iql question)"
  shows "copilot_query E t question st
    = (insert_feedback t question (stub_iql question) ''Root cause analysis: model not available.'' st,
       Inr \<lparr>cr_iql = stub_iql question, cr_rows = [Py_Dict (map (map_prod id conv) (wire_row (stub_iql question)))],
            cr_rca = \<lparr>rr_anomalies = [], rr_correlations = [], rr_narrative = ''Root cause analysis: model not available.''\<rparr>,
            cr_latency_ms = tn_latency_ms t\<rparr>)"
proof -
  let ?S = "ls_settings (cp_llm st)" and ?sql = "stub_iql question"
  obtain resp body where resp: "gateway_serve G cfg (copilot_http_request dump headers ?S ?sql) = Some resp"
    "gs_status resp = 200" "gs_body resp = ''{'' @ body @ ''}'' @ py_newline" "printable_ascii body"
    "ce_loads E (''{'' @ body @ ''}'') = Inr (Py_Dict (map (map_prod id conv) (wire_row ?sql)))"
    using gateway_answers_stub [of cfg E dump G conv ?sql headers ?S] assms(6,8) stub_iql_not_blank by blast
  have "ce_post E (cs_gateway_url ?S @ ''/api/v1/query'') ?sql (''Bearer '' @ cs_gateway_token ?S) = Inr (200, gs_body resp)"
    using assms(1) resp(1,2) unfolding reaches_gateway_def by metis
  then have "execute_iql E ?S ?sql = Inr [Py_Dict (map (map_prod id conv) (wire_row ?sql))]"
    using load_line [OF resp(4,5)] assms(2) resp(3) by (simp add: execute_iql_def raises_on_error_def)
  then show ?thesis
    using assms(3-5,7) wire_row_report [OF assms(9,3)] by (simp add: copilot_query_def generate_iql_def)
qed


section \<open>A sample service\<close>

text \<open>The gateway writes the query of the row between braces, and the service puts the row together again.\<close>

definition echo_gateway :: gateway_env where
  "echo_gateway = sample_gateway\<lparr>ge_decode := \<lambda>b. Inr \<lparr>qr_query = b, qr_format = ''''\<rparr>,
     ge_encode_row := \<lambda>row. case map_of row ''query'' of
       Some (RV_String q) \<Rightarrow> Inr (''{'' @ q @ ''}'' @ py_newline) | _ \<Rightarrow> Inl ''no query''\<rparr>"

definition sample_copilot :: "gateway_config \<Rightarrow> row_value copilot_env" where
  "sample_copilot cfg = \<lparr>ce_fp = sample_fp, ce_load = (\<lambda>_ _ _. False), ce_llm = (\<lambda>_ _ _ _ _. Inl ''no model''),
     ce_post = (\<lambda>url iql auth.
       case gateway_serve echo_gateway cfg (copilot_http_request id (\<lambda>_. '''')
           ((copilot_settings_default sample_fp)\<lparr>cs_gateway_token := drop 7 auth\<rparr>) iql) of
         Some resp \<Rightarrow> Inr (gs_status resp, gs_body resp) | None \<Rightarrow> Inl ''no route''),
     ce_raise_for_status = (\<lambda>s. if s = 200 then None else Some ''HTTP error''),
     ce_loads = (\<lambda>l. Inr (Py_Dict (wire_row (butlast (tl l))))),
     ce_float = (\<lambda>v. case v of RV_Int _ \<Rightarrow> Float_Value 0 | RV_String _ \<Rightarrow> Float_Invalid),
     ce_numpy = True, ce_scipy = True, ce_mean = (\<lambda>_. 0), ce_std = (\<lambda>_. 0), ce_pearsonr = (\<lambda>_ _. 0),
     ce_round = (\<lambda>x _. x), ce_repr = (\<lambda>_. ''0.0''), ce_order = (\<lambda>rows. rev (sort_key fb_created_at rows))\<rparr>"

definition sample_start :: "gateway_config \<Rightarrow> copilot_state" where
  "sample_start cfg = lifespan (sample_copilot cfg)
     ((copilot_settings_default sample_fp)\<lparr>cs_gateway_token := ''token''\<rparr>) [] 1"

definition sample_turn :: "nat \<Rightarrow> copilot_turn" where
  "sample_turn now = \<lparr>tn_read_ok = True, tn_write_ok = True, tn_now = now, tn_latency_ms = 5\<rparr>"

definition open_gateway :: gateway_config where
  "open_gateway = config_from_env (\<lambda>_. '''')"

definition closed_gateway :: gateway_config where
  "closed_gateway = config_from_env (\<lambda>k. if k = ''JWT_SECRET'' then ''s'' else '''')"

lemma sample_start_simps [simp]:
  "cp_rows (sample_start cfg) = []" "\<not> ls_loaded (cp_llm (sample_start cfg))"
  "ls_settings (cp_llm (sample_start cfg)) = (copilot_settings_default sample_fp)\<lparr>cs_gateway_token := ''token''\<rparr>"
  by (simp_all add: sample_start_def lifespan_def llm_load_def llm_new_def sample_copilot_def)

lemma sample_order: "order_spec (ce_order (sample_copilot cfg))"
proof -
  have "sorted_wrt (\<lambda>a b. fb_created_at b \<le> fb_created_at a) (rev (sort_key fb_created_at rows))"
    for rows :: "feedback_row list"
    using sorted_sort_key [of fb_created_at rows] by (simp add: sorted_wrt_rev sorted_map)
  then show ?thesis by (simp add: order_spec_def sample_copilot_def)
qed

lemma sample_reaches:
  "reaches_gateway (sample_copilot cfg) id (\<lambda>_. '''') echo_gateway cfg (ls_settings (cp_llm (sample_start cfg)))"
  by (simp add: reaches_gateway_def sample_copilot_def copilot_settings_default_def)

lemma sample_laws:
  "raises_on_error (sample_copilot cfg)" "jwt_sound echo_gateway (\<lambda>_. HMAC) (=)"
  "one_zero (sample_copilot cfg) id sql"
  by (auto simp: raises_on_error_def sample_copilot_def jwt_sound_def echo_gateway_def sample_gateway_def one_zero_def py_eq_def sample_fp_def
      split: sum.splits if_splits)

lemma sample_wire: "printable_ascii sql \<Longrightarrow> length sql < 2 ^ 20 \<Longrightarrow> wire_ok (sample_copilot cfg) id echo_gateway cfg id sql"
  by (auto simp: wire_ok_def echo_gateway_def sample_gateway_def sample_copilot_def stub_row_def wire_row_def butlast_append)

lemma stub_iql_why:
  "stub_iql ''Why?'' = ''SELECT timestamp_ns, body FROM logs WHERE timestamp_ns >= now() - interval '' @ apos @ ''1h'' @ apos @ '' LIMIT 50;''"
  by (simp add: stub_iql_def Let_def contains_str_def to_ascii_lowercase_def to_lower_def is_upper_def char_code_def)

lemma stub_iql_why_wire: "wire_ok (sample_copilot cfg) id echo_gateway cfg id (stub_iql ''Why?'')"
  by (rule sample_wire) (simp_all add: stub_iql_why printable_ascii_def apos_def char_code_def)

lemma open_gateway_secret: "gc_jwt_secret open_gateway = ''''"
  by (simp add: open_gateway_def config_from_env_def env_or_def)

lemma why_len: "1 \<le> py_len ''Why?''" "py_len ''Why?'' \<le> 2000"
  by (simp_all add: py_len_def char_code_def)


text \<open>A question is asked, its answer accepted, and the question asked again.\<close>

definition sample_copilot_ops :: "copilot_op list" where
  "sample_copilot_ops = [Op_Ask (sample_turn 0) ''Why?'', Op_Rate (sample_turn 1) ''Why?'' (stub_iql ''Why?'') True]"

lemma sample_ask:
  "\<exists>rca. cp_rows (fst (copilot_query (sample_copilot open_gateway) (sample_turn 0) ''Why?'' (sample_start open_gateway)))
    = [\<lparr>fb_id = 1, fb_created_at = 0, fb_nl_question = ''Why?'', fb_iql_query = stub_iql ''Why?'', fb_accepted = False,
        fb_rca_text = rca, fb_latency_ms = 5\<rparr>]"
  using copilot_answered [OF sample_reaches sample_laws(1) sample_start_simps(2) why_len open_gateway_secret, of "sample_turn 0" id]
    stub_iql_why_wire [of open_gateway] sample_laws(3) [of open_gateway "stub_iql ''Why?''"]
  by (simp add: insert_feedback_def sample_turn_def sample_start_def lifespan_def)

lemma sample_turn_ok [simp]: "tn_read_ok (sample_turn n)" "tn_write_ok (sample_turn n)"
  by (simp_all add: sample_turn_def)

theorem examples_confirmed_witness:
  "(''Why?'', stub_iql ''Why?'') \<in> set (load_few_shot_examples (sample_copilot open_gateway) (sample_turn 2) 20
     (copilot_run (sample_copilot open_gateway) sample_copilot_ops (sample_start open_gateway)))"
proof -
  let ?E = "sample_copilot open_gateway" and ?st = "sample_start open_gateway"
  obtain rca where rows: "cp_rows (fst (copilot_query ?E (sample_turn 0) ''Why?'' ?st))
    = [\<lparr>fb_id = 1, fb_created_at = 0, fb_nl_question = ''Why?'', fb_iql_query = stub_iql ''Why?'', fb_accepted = False,
        fb_rca_text = rca, fb_latency_ms = 5\<rparr>]"
    using sample_ask by blast
  have before: "copilot_run ?E [Op_Ask (sample_turn 0) ''Why?''] ?st = fst (copilot_query ?E (sample_turn 0) ''Why?'' ?st)"
    by (simp add: copilot_run_def copilot_step_def)
  have "confirmed ?E ?st sample_copilot_ops ''Why?'' (stub_iql ''Why?'')"
    unfolding confirmed_def sample_copilot_ops_def
    by (intro exI [of _ "[Op_Ask (sample_turn 0) ''Why?'']"] exI [of _ "sample_turn 1"] exI [of _ "[]"])
      (simp add: before holds_pair_def rows)
  moreover have "length (filter fb_accepted (cp_rows (copilot_run ?E sample_copilot_ops ?st))) \<le> 20"
    using rows by (simp add: sample_copilot_ops_def copilot_run_def copilot_step_def copilot_feedback_def set_accepted_def)
  ultimately show ?thesis
    using examples_confirmed [OF sample_order sample_start_simps(1), of open_gateway "sample_turn 2" sample_copilot_ops open_gateway]
    by simp
qed

end
