(* ===== verification/Copilot_Queries.thy ===== *)
theory Copilot_Queries
  imports End_To_End Copilot
begin

text \<open>
  The default queries of the copilot against the query engine: they are lexed and parsed, and their
  conditions compare the time column with a difference of signed integers, which the evaluator
  refuses, so that none of them returns on a table with a row.
\<close>

section \<open>The scan of a query text\<close>

fun bottom_scan :: "logical_plan \<Rightarrow> scan_op option" where
  "bottom_scan (LScan s) = Some s"
| "bottom_scan (LFilter _ input) = bottom_scan input"
| "bottom_scan (LProject _ input) = bottom_scan input"
| "bottom_scan (LAggregate _ _ input) = bottom_scan input"
| "bottom_scan (LSort _ input) = bottom_scan input"
| "bottom_scan (LLimit _ _ input) = bottom_scan input"
| "bottom_scan (LJoin _ _ _ _) = None"

definition text_plan :: "fp_ops \<Rightarrow> (expr \<Rightarrow> clock) \<Rightarrow> string \<Rightarrow> logical_plan option" where
  "text_plan F clk sql =
     (case tokenise F sql of
        Inr tokens \<Rightarrow>
          (case parse_tokens tokens of
             Some (Inr (Select sel)) \<Rightarrow> (case optimize catalog_new clk (plan_select sel) of Inr plan \<Rightarrow> Some plan | _ \<Rightarrow> None)
           | _ \<Rightarrow> None)
      | _ \<Rightarrow> None)"

lemma text_plan_run: "text_plan (q_fp Q) clk sql = Some plan \<Longrightarrow> execute Q E sql catalog_new clk fs e = run_plan Q E plan 8192 fs e"
  by (auto simp: text_plan_def split: sum.splits option.splits statement.splits intro: execute_run_plan)

lemma bottom_scan_fails:
  assumes "bottom_scan plan = Some s" "load_batches Q E s sz fs e = Inl f"
  shows "\<exists>f'. build_logical Q E plan sz fs e = Inl f'"
  using assms(1)
proof (induction plan)
  case (LScan x)
  then show ?case using assms(2) by (cases "infralens_storage_schema_for (so_table s)") simp_all
qed (auto simp: and_then_def)

lemma run_plan_fails:
  "bottom_scan plan = Some s \<Longrightarrow> load_batches Q E s sz fs e = Inl f \<Longrightarrow> \<exists>f'. run_plan Q E plan sz fs e = Some (Inl f')"
  using bottom_scan_fails by (fastforce simp: run_plan_def)

section \<open>Conditions that cannot be evaluated\<close>

definition never_evaluates :: "query_env \<Rightarrow> schema \<Rightarrow> expr \<Rightarrow> bool" where
  "never_evaluates Q sch p \<longleftrightarrow> (\<forall>b. batch_valid b \<and> rb_schema b = sch \<longrightarrow> (\<forall>c. \<exists>f. eval_expr Q b c p = Inl f))"

lemma never_evaluates_load:
  assumes "never_evaluates Q sch p" "load_paths Q E None sz fs ps = Inr bs" "batches_of sch bs" "bs \<noteq> []"
  shows "\<exists>f. load_paths Q E (Some p) sz fs ps = Inl f"
proof (cases "load_paths Q E (Some p) sz fs ps")
  case (Inr cs)
  obtain b bs' where bs: "bs = b # bs'" using assms(4) by (cases bs) auto
  obtain f where "eval_expr Q b (q_now Q b) p = Inl f" using assms(1,3) unfolding never_evaluates_def bs by auto
  then have "apply_predicate Q b p = Inl f" by (simp add: apply_predicate_def eval_filter_def)
  then show ?thesis using load_paths_filtered [OF assms(2) Inr] by (simp add: bs)
qed blast

lemma batch_column_type:
  assumes "batch_valid b" "column_by_name b n = Some c"
  shows "\<exists>i. schema_index n (rb_schema b) = Some i \<and> array_data_type c = f_type (rb_schema b ! i)"
proof -
  have "map_option ((!) (rb_columns b)) (schema_index n (rb_schema b)) = Some c"
    using column_by_name_valid [OF assms(1), of n] assms(2) by simp
  then obtain i where i: "schema_index n (rb_schema b) = Some i" "c = rb_columns b ! i"
    by (cases "schema_index n (rb_schema b)") simp_all
  have "list_all2 (\<lambda>f c. f_type f = array_data_type c) (rb_schema b) (rb_columns b)"
    using assms(1) unfolding batch_valid_def columns_valid_def by (auto elim: list_all2_mono)
  from list_all2_nthD [OF this schema_index_less [OF i(1)]] show ?thesis by (simp add: i)
qed

definition since :: "i64 \<Rightarrow> i64 \<Rightarrow> expr" where
  "since now width = E_BinOp Op_GtEq (E_Column None ''timestamp_ns'')
     (E_BinOp Op_Sub (E_Literal (L_Int now)) (E_Interval width))"

text \<open>The condition as it is written, with the call of \<open>now()\<close>.\<close>

definition since_now :: "i64 \<Rightarrow> expr" where
  "since_now width = E_BinOp Op_GtEq (E_Column None ''timestamp_ns'')
     (E_BinOp Op_Sub (E_Function ''now'' []) (E_Interval width))"

definition warnings :: expr where
  "warnings = E_BinOp Op_GtEq (E_Column None ''severity_number'') (E_Literal (L_Int 13))"

text \<open>A comparison of a column that is missing or whose type is not the type of the other side.\<close>

lemma mixed_comparison:
  assumes "batch_valid b" "\<And>i. schema_index n (rb_schema b) = Some i \<Longrightarrow> f_type (rb_schema b ! i) \<noteq> DT_Int64"
    and "\<And>r. eval_expr Q b (sub_clock 1 c) right = Inr r \<Longrightarrow> array_data_type r = DT_Int64"
  shows "\<exists>f. eval_expr Q b c (E_BinOp Op_GtEq (E_Column t n) right) = Inl f"
proof (cases "column_by_name b n")
  case None
  then show ?thesis by (simp add: eval_column_def exec_fail_def)
next
  case (Some x)
  then have "array_data_type x \<noteq> DT_Int64" using batch_column_type [OF assms(1) Some] assms(2) by auto
  then show ?thesis
    using assms(3) Some
    by (cases "eval_expr Q b (sub_clock 1 c) right")
      (auto simp: eval_column_def apply_binop_def compare_arrays_def comparable_def exec_fail_def)
qed

lemma since_right_type:
  assumes "arrow_spec (q_fp Q) (q_arrow Q)"
    and "eval_expr Q b c (E_BinOp Op_Sub (E_Literal (L_Int x)) (E_Interval w)) = Inr r"
  shows "array_data_type r = DT_Int64"
proof -
  let ?xs = "replicate (num_rows b) (Some x)" and ?ys = "replicate (num_rows b) (Some w)"
  have "ar_arith (q_arrow Q) Op_Sub (Int64Array ?xs) (Int64Array ?ys) = Inr r"
    using assms(2) by (auto simp: eval_literal_def apply_binop_def arithmetic_arrays_def arrow_result_def exec_fail_def
        result_simps split: if_splits)
  moreover have "arith_kernel_spec (q_fp Q) (q_arrow Q)" using assms(1) unfolding arrow_spec_def by blast
  then have "if Some None \<notin> set (int_results Op_Sub ?xs ?ys)
      then ar_arith (q_arrow Q) Op_Sub (Int64Array ?xs) (Int64Array ?ys)
        = Inr (Int64Array (map (\<lambda>r. Option.bind r id) (int_results Op_Sub ?xs ?ys)))
      else \<exists>e. ar_arith (q_arrow Q) Op_Sub (Int64Array ?xs) (Int64Array ?ys) = Inl e"
    unfolding arith_kernel_spec_def by (metis insert_iff length_replicate)
  ultimately show ?thesis by (auto split: if_splits)
qed

lemma since_never_evaluates: "query_env_ok Q \<Longrightarrow> never_evaluates Q (sig_schema sig) (since x w)"
  unfolding never_evaluates_def since_def query_env_ok_def
  by (intro allI impI mixed_comparison since_right_type)
    (cases sig; auto simp: log_schema_def metric_schema_def span_schema_def field_new_def)+

lemma warnings_never_evaluates: "never_evaluates Q log_schema (E_BinOp Op_And warnings p)"
  unfolding never_evaluates_def
proof (intro allI impI)
  fix b c assume b: "batch_valid b \<and> rb_schema b = log_schema"
  have "\<exists>f. eval_expr Q b (sub_clock 0 c) warnings = Inl f"
    unfolding warnings_def
    by (rule mixed_comparison) (use b in \<open>auto simp: log_schema_def field_new_def eval_literal_def\<close>)
  then obtain f where "eval_expr Q b (sub_clock 0 c) warnings = Inl f" by blast
  then show "\<exists>f. eval_expr Q b c (E_BinOp Op_And warnings p) = Inl f" by simp
qed

section \<open>The default queries\<close>

definition stub_signal :: "string \<Rightarrow> signal_type" where
  "stub_signal question =
     (let q = to_ascii_lowercase question in
      if contains_str q ''error'' \<or> contains_str q ''log'' then Log
      else if contains_str q ''metric'' \<or> contains_str q ''rate'' \<or> contains_str q ''latency'' then Metric
      else if contains_str q ''trace'' \<or> contains_str q ''span'' \<or> contains_str q ''slow'' then Span
      else Log)"

definition scan_summary :: "fp_ops \<Rightarrow> (expr \<Rightarrow> clock) \<Rightarrow> string \<Rightarrow> (string \<times> expr option \<times> u64 list) option" where
  "scan_summary F clk sql =
     map_option (\<lambda>s. (so_table s, so_predicate s, so_partition_filter s)) (Option.bind (text_plan F clk sql) bottom_scan)"

text \<open>An interval in a form that is evaluated only once its text is known.\<close>

definition interval_literal :: "expr parser" where
  "interval_literal = pbind expect_string (\<lambda>s. case parse_interval s of Inl e \<Rightarrow> pfail e | Inr ns \<Rightarrow> preturn (E_Interval ns))"

lemma interval_literal_code [code]:
  "interval_literal ts =
     (case hd ts of
        T_StrLit s \<Rightarrow> (case parse_interval s of Inl e \<Rightarrow> Some (Inl e) | Inr ns \<Rightarrow> Some (Inr (E_Interval ns, adv ts)))
      | t \<Rightarrow> Some (Inl (ExpectedString t)))"
  by (auto simp: interval_literal_def pbind_def expect_string_def advance_def preturn_def pfail_def split: token.split sum.split)

lemmas interval_literal_unfold [code_unfold] = interval_literal_def [symmetric]

lemma stub_error_scan:
  "scan_summary F clk (''SELECT timestamp_ns, severity_text, body FROM logs '' @
           ''WHERE severity_number >= 13 '' @
           ''AND timestamp_ns >= now() - interval '' @ apos @ ''1h'' @ apos @
           '' ORDER BY timestamp_ns DESC LIMIT 100;'')
      = Some (''logs'', Some (E_BinOp Op_And warnings
          (since (clk (E_BinOp Op_And warnings (since_now 3600000000000)) [1, 1, 0]) 3600000000000)), [])"
  by code_simp

lemma stub_metric_scan:
  "scan_summary F clk (''SELECT time_bucket(interval '' @ apos @ ''1m'' @ apos @ '', timestamp_ns) AS minute, '' @
           ''metric_name, avg(value) AS avg_val FROM metrics '' @
           ''WHERE timestamp_ns >= now() - interval '' @ apos @ ''1h'' @ apos @
           '' GROUP BY minute, metric_name ORDER BY minute ASC;'')
      = Some (''metrics'', Some (since (clk (since_now 3600000000000) [1, 0]) 3600000000000), [])"
  by code_simp

lemma stub_trace_scan:
  "scan_summary F clk (''SELECT service_name, avg(duration_ns) AS avg_ns, '' @
           ''count(*) AS span_count FROM traces '' @
           ''WHERE timestamp_ns >= now() - interval '' @ apos @ ''30m'' @ apos @
           '' GROUP BY service_name ORDER BY avg_ns DESC LIMIT 20;'')
      = Some (''traces'', Some (since (clk (since_now 1800000000000) [1, 0]) 1800000000000), [])"
  by code_simp

lemma stub_log_scan:
  "scan_summary F clk (''SELECT timestamp_ns, body FROM logs '' @
           ''WHERE timestamp_ns >= now() - interval '' @ apos @ ''1h'' @ apos @ '' LIMIT 50;'')
      = Some (''logs'', Some (since (clk (since_now 3600000000000) [1, 0]) 3600000000000), [])"
  by code_simp

lemma stub_scan:
  "\<exists>x w p. scan_summary F clk (stub_iql question) = Some (table_of (stub_signal question), Some p, [])
    \<and> (p = since x w \<or> stub_signal question = Log \<and> p = E_BinOp Op_And warnings (since x w))"
  unfolding stub_iql_def stub_signal_def Let_def
  by (simp only: stub_error_scan stub_metric_scan stub_trace_scan stub_log_scan split: if_split) auto

lemma stub_query_fails:
  assumes "query_env_ok Q" "load_paths Q E None 8192 fs (map meta_parquet_path (signal_tables (stub_signal question) e)) = Inr bs"
    and "batches_of (sig_schema (stub_signal question)) bs" "bs \<noteq> []"
  shows "\<exists>f. execute Q E (stub_iql question) catalog_new clk fs e = Some (Inl f)"
proof -
  let ?sig = "stub_signal question"
  obtain p x w where p: "scan_summary (q_fp Q) clk (stub_iql question) = Some (table_of ?sig, Some p, [])"
    "p = since x w \<or> ?sig = Log \<and> p = E_BinOp Op_And warnings (since x w)"
    using stub_scan by blast
  obtain plan s where plan: "text_plan (q_fp Q) clk (stub_iql question) = Some plan" "bottom_scan plan = Some s"
    "so_table s = table_of ?sig" "so_predicate s = Some p" "so_partition_filter s = []"
    using p(1) by (auto simp: scan_summary_def bind_eq_Some_conv)
  have "never_evaluates Q (sig_schema ?sig) p"
    using p(2) since_never_evaluates [OF assms(1)] warnings_never_evaluates by auto
  then obtain f where "load_paths Q E (Some p) 8192 fs (map meta_parquet_path (signal_tables ?sig e)) = Inl f"
    using never_evaluates_load [OF _ assms(2-4)] by blast
  moreover have "signal_for_table (table_of ?sig) = Inr (signal_as_u8 ?sig)"
    by (cases ?sig) (simp_all add: signal_for_table_def signal_as_u8_def)
  ultimately have "load_batches Q E s 8192 fs e = Inl f"
    using plan(3-5) by (simp add: load_batches_def signal_paths)
  then show ?thesis using run_plan_fails [OF plan(2)] text_plan_run [OF plan(1)] by metis
qed

lemma stub_query_parses:
  "\<exists>tokens sel. tokenise F (stub_iql question) = Inr tokens \<and> parse_tokens tokens = Some (Inr (Select sel))"
proof -
  obtain plan where "text_plan F (\<lambda>_ _. 0) (stub_iql question) = Some plan"
    using stub_scan [of F "\<lambda>_ _. 0" question] by (auto simp: scan_summary_def bind_eq_Some_conv)
  then show ?thesis by (auto simp: text_plan_def split: sum.splits option.splits statement.splits)
qed

text \<open>
  C39. The default queries of the copilot never return data. Whatever the question, the query it is
  answered with while no model is loaded is accepted by the lexer and the parser; but on a run of
  the engine without warnings whose MemTables and flush queue are empty, as soon as one record of
  the signal it selects has been accepted, executing it fails.
\<close>

theorem stub_queries_fail:
  assumes "flush_queue send recv queued cap alive" "env_ok E" "utc_hour_injective E"
    and "engine_run E send recv queued alive ops (fs, e) []"
    and "hours_ok (e_config e)" "3 * length ops + 4 < 2 ^ 64" "e_bucket_ns e \<noteq> 0" "flushed queued e"
    and "query_env_ok Q" "accepted_rows E ops (stub_signal question) \<noteq> {#}"
  shows "(\<exists>tokens sel. tokenise (q_fp Q) (stub_iql question) = Inr tokens \<and> parse_tokens tokens = Some (Inr (Select sel)))
    \<and> (\<exists>f. execute Q E (stub_iql question) catalog_new clk fs e = Some (Inl f))"
proof -
  let ?sig = "stub_signal question"
  have tables: "\<forall>m \<in> set (signal_tables ?sig e). \<exists>rows. holds_rows E fs (meta_parquet_path m) (sig_schema ?sig) rows"
    "mset (concat (map (table_rows E fs) (signal_tables ?sig e))) = accepted_rows E ops ?sig"
    using flushed_tables [OF assms(1-8)] by blast+
  obtain bs where bs: "load_paths Q E None 8192 fs (map meta_parquet_path (signal_tables ?sig e)) = Inr bs"
    "batches_of (sig_schema ?sig) bs" "mset (batches_rows bs) = accepted_rows E ops ?sig"
    using load_readable [OF tables(1), of 8192 Q] tables(2) by auto
  then have "bs \<noteq> []" using assms(10) by (auto simp: batches_rows_def)
  then show ?thesis using stub_query_fails [OF assms(9) bs(1,2)] stub_query_parses by blast
qed

theorem stub_queries_fail_witness:
  "\<exists>fs e f. demo_run [OpWrite (RLog sample_log) (Inr ()), OpFlushWorker] (fs, e) []
    \<and> execute sample_query demo_env (stub_iql ''Why?'') catalog_new (\<lambda>_ _. 0) fs e = Some (Inl f)"
proof -
  let ?ops = "[OpWrite (RLog sample_log) (Inr ()), OpFlushWorker]"
  obtain fs e where r: "demo_run ?ops (fs, e) []" "e_memtables e = [(0, fresh_memtable demo_engine)]"
    "ch_items (e_flush_tx e) = []" "e_config e = demo_config"
    using demo_run_flush by blast
  have "fq.run_ok demo_env ?ops fs e []"
    using r unfolding demo_run_def by (intro fq.engine_run_ok) simp_all
  then have b: "e_bucket_ns e \<noteq> 0"
    using engine_invD(1) [of demo_env ch_items ch_open "Suc (Suc 0)" fs e] r(4)
    by (simp add: fq.run_ok_def engine_bucket_ns_def demo_config_def)
  have f: "flushed ch_items e"
    using r(2,3) by (simp add: flushed_def fresh_memtable_def memtable_new_def memtable_is_empty_def)
  have sig: "stub_signal ''Why?'' = Log"
    by (simp add: stub_signal_def Let_def contains_str_def to_ascii_lowercase_def to_lower_def is_upper_def char_code_def)
  have acc: "accepted_rows demo_env ?ops Log \<noteq> {#}" by (simp add: accepted_rows_def)
  show ?thesis
    using stub_queries_fail [OF demo_run_content r(1) [unfolded demo_run_def] _ _ b f sample_query_ok, of "''Why?''" "\<lambda>_ _. 0"] r(1,4) acc
    by (auto simp: sig)
qed

end
