(* ===== verification/Spec2Isabelle.thy ===== *)
theory Spec2Isabelle
  imports Replication Rpc Ingest Operator Copilot_Queries
begin

text \<open>
  \<^bold>\<open>InfraLens, a distributed observability platform: verification development.\<close>

  InfraLens receives logs, metrics and traces over OTLP, keeps them in an LSM storage engine of
  Parquet tables, and answers queries in a dialect of SQL (IQL). A cluster layer routes series to
  nodes and replicates writes; a gateway, a copilot and a Kubernetes operator stand around it. This
  development translates the parts of the system into HOL functions, one theory per component, and
  proves the theorems that make them correct. The properties carry the ids C1 to C40, each next to
  its theorem.

  \<^bold>\<open>Conventions.\<close> Machine integers are words of their width (\<open>u8\<close>, \<open>u32\<close>, \<open>u64\<close>) or integers with the
  wrap-around written out (\<open>i32\<close>, \<open>i64\<close>); an \<open>f64\<close> is its bit pattern and its operations are the
  record \<open>fp_ops\<close>. Strings are lists of bytes in UTF-8. An error is the left value of a sum, a panic
  is \<open>None\<close> or \<open>Inl Panic\<close>. Hash maps and concurrent maps are association lists in an arbitrary order,
  ordered maps sorted ones. State is passed explicitly. Code of other packages is an argument:
  arrow and parquet, bincode, serde, crc32fast, chrono, the tokio channels, the etcd client, the
  Kubernetes API, JSON, tokens, numpy, scipy and the language model. What the code relies on is a
  named predicate (\<open>env_ok\<close>, \<open>query_env_ok\<close>, \<open>jwt_sound\<close> and so on) or a locale, and every property
  with such a hypothesis has a witness with a concrete instance.

  \<^bold>\<open>Shared theories.\<close> \<open>Prelude\<close> (types, results, decimal numbers, lemmas on lists and words), \<open>Ordered_Map\<close>
  (the interface \<open>ordered_map\<close> with its interpretation on sorted lists), \<open>Channel\<close> (the interface \<open>mpsc\<close> of
  bounded queues), \<open>Ascii\<close> and \<open>Utf8\<close> (string functions of the standard libraries).

  \<^bold>\<open>Storage\<close> (\<open>crates/infralens-storage\<close>, \<open>crates/infralens-common\<close>).
  \<^item> \<open>Model\<close>: records, batches, configuration and schemas (\<open>model.rs\<close>, \<open>config.rs\<close>, \<open>schema.rs\<close>).
  \<^item> \<open>Bloom\<close> (\<open>bloom.rs\<close>): no false negatives, also through the file (C13). \<open>Zone_Map\<close> (\<open>zone_map.rs\<close>): tight
    ranges and an overlap test that prunes exactly; the interface \<open>time_index\<close>.
  \<^item> \<open>File_System\<close>, \<open>Wal\<close> (\<open>wal.rs\<close>): recovery returns what was appended after the last checkpoint (C6),
    any surviving prefix of the file is recovered (C7), corruption is reported at its offset (C36).
  \<^item> \<open>Memtable\<close> (\<open>memtable.rs\<close>): draining is a stable sort by time (C14); the counters are exact.
  \<^item> \<open>Arrow\<close>, \<open>Sstable\<close> (\<open>sstable.rs\<close>): the interface \<open>sstable_writer\<close>, interpreted for logs, metrics and
    spans; a written table reads back and is searchable (C12). \<open>Partition\<close> (\<open>partition.rs\<close>): the bucket of a
    timestamp (C32) and reopening (C33). \<open>Compaction\<close> (\<open>compaction.rs\<close>): merging keeps the rows (C11) and
    what it loses (C38).
  \<^item> \<open>Engine\<close> (\<open>engine.rs\<close>) with \<open>Engine_Correct\<close>, \<open>Engine_Runs\<close> and \<open>Engine_Properties\<close>: writes, freezing, the
    flush and compaction workers and closing as steps of the relation \<open>engine_run\<close>, over the interface
    \<open>flush_queue\<close>. Over every interleaving the stored rows are accepted ones, and all of them when no warning
    was logged (C3); closing (C24), partial batches (C25) and progress (C26).

  \<^bold>\<open>Queries\<close> (\<open>crates/infralens-query\<close>).
  \<^item> \<open>Lexer\<close> (\<open>lexer.rs\<close>): well-formed tokens (C35). \<open>Ast\<close>, \<open>Parser\<close> (\<open>ast.rs\<close>, \<open>parser.rs\<close>) with \<open>Parser_Correct\<close>
    (fuel of one more than the number of tokens is always enough) and \<open>Parser_Roundtrip\<close>: parsing inverts
    printing from the text on (C5).
  \<^item> \<open>Query_Error\<close>, \<open>Catalog\<close>, \<open>Planner\<close>, \<open>Optimizer\<close> (\<open>catalog.rs\<close>, \<open>planner.rs\<close>, \<open>optimizer/\<close>) with \<open>Rewrites\<close>:
    pruning is sound (C15), constant folding (C16) and predicate pushdown (C17) keep results.
  \<^item> \<open>Kernels\<close> (the contract of the Arrow kernels and a reference implementation that satisfies it),
    \<open>Temporal\<close>, \<open>Eval\<close> (\<open>functions/\<close>) and \<open>Eval_Rows\<close>: the vectorised evaluator computes a row-at-a-time
    semantics (C4).
  \<^item> \<open>Aggregate\<close>, \<open>Executor\<close> (\<open>executor/\<close>, \<open>lib.rs\<close>) with \<open>Executor_Correct\<close> and \<open>Streams\<close>, over the interface
    \<open>physical_operator\<close>: the number of polls is bounded by a measure of the operator, so every execution
    returns (C34); ORDER BY (C18), LIMIT (C19), aggregates (C20) and GROUP BY (C37) in \<open>Query_Results\<close>.
  \<^item> \<open>End_To_End\<close>: a selection over a flushed engine returns exactly the accepted records that satisfy its
    condition (C1).

  \<^bold>\<open>Ingest\<close> (\<open>crates/infralens-ingest\<close>). \<open>Otlp\<close> (messages and \<open>normalizer.rs\<close>), \<open>Json_Decoder\<close> (\<open>json_decoder.rs\<close>),
  \<open>Json_Agreement\<close> (both encodings of a request give the same records, up to the fields the decoder does
  not read, C8), \<open>Ingest\<close> (\<open>processor.rs\<close>, \<open>http.rs\<close>, \<open>grpc.rs\<close>, \<open>error.rs\<close>): acknowledged batches are stored
  (C2) and the status of every answer (C29).

  \<^bold>\<open>Cluster\<close> (\<open>crates/infralens-cluster\<close>, \<open>crates/infralens-rpc\<close>). \<open>Ring\<close> (\<open>ring.rs\<close>): consistent hashing (C21).
  \<open>Membership\<close> (\<open>membership.rs\<close>, \<open>router.rs\<close>, \<open>config.rs\<close>): routing follows the watch events (C22).
  \<open>Replication\<close> (\<open>replication.rs\<close> and the replicate handler of \<open>server.rs\<close>, over the interface
  \<open>replica_channel\<close>): order of the streams (C23) and what a replica applies (C9). \<open>Rpc\<close> (\<open>scatter_gather.rs\<close>,
  \<open>server.rs\<close>): a distributed query gathers what the shards return (C10).

  \<^bold>\<open>Around the engine.\<close> \<open>Operator\<close> (\<open>deploy/kubernetes/operator\<close>, over the interface \<open>kube_server\<close>): what a
  reconciliation deploys (C27) and the effect of an omitted configuration, composed with the engine
  (C40). \<open>Gateway\<close> (\<open>services/api-gateway/main.go\<close>): access to the query API (C28). \<open>Copilot\<close>
  (\<open>services/llm-copilot\<close>): only confirmed queries become examples (C30), and the answers behind the
  gateway (C31). \<open>Copilot_Queries\<close>: the default queries against the query engine (C39).

  \<^bold>\<open>Fuel and bounds.\<close> The parser is the only component with fuel; \<open>parser_total\<close> shows that the fuel
  \<open>parse_tokens\<close> starts with suffices for every token list of the lexer. The executor pulls at most
  \<open>poll_bound\<close> times, which C34 shows to be enough. All other loops are structural or have a termination
  measure. The engine properties assume fewer than \<open>2 ^ 64\<close> operations, so that the 64-bit sequence numbers
  do not wrap, and at least one hour per partition.

  \<^bold>\<open>Not modelled.\<close>
  \<^item> \<open>crates/infralens-server\<close> (\<open>main.rs\<close>, \<open>telemetry.rs\<close>) and the operator's \<open>main.rs\<close>: wiring, logging, metrics and
    signals. They contain no decision beyond the order of starting the modelled parts.
  \<^item> \<open>crates/infralens-proto\<close>: code generated at build time; its decoders are parameters of \<open>Ingest\<close>.
  \<^item> \<open>vendor/etcd-client\<close>: a third-party library; the operations the membership uses are parameters.
  \<^item> Loading the configuration (\<open>InfraLensConfig::load\<close>): the config crate merges files and the environment.
  \<^item> Time: timers, timeouts, the sleep while closing and the refresh of the etcd lease only decide when the
    modelled steps happen; the step relations allow every order of them.
  \<^item> Physical memory and concurrency below a step: a handler, a worker turn or a request is one step.
  \<^item> The semantics of the grammar the copilot hands to the model, the web frameworks, load tests, demos and
    deployment manifests.
\<close>

end
